(* ===== verification/Prelude.thy ===== *)
theory Prelude
  imports Main "HOL-Library.Char_ord" "HOL-Library.List_Lexorder"
begin

text \<open>
  Shared vocabulary of the development: Go's error results as sums, machine integers
  written out at their width, association lists standing for SQL tables and Go maps
  with an observable order, and the generic list lemmas the components share.

  The collections \<open>inv_intros\<close> and \<open>frame_simps\<close> gather the preservation
  lemmas and the frame equations of the components' operations.
\<close>

named_theorems inv_intros "an operation keeps its component's invariant"
named_theorems frame_simps "an operation leaves a part of the state as it was"

subsection \<open>Error results\<close>

text \<open>
  A Go function returning \<open>(T, error)\<close> is a value of \<open>'e + 'a\<close>: \<open>Inl\<close> the error,
  \<open>Inr\<close> the result. \<open>rbind\<close> is the early return on a non-nil error.
\<close>

fun rbind :: "'e + 'a \<Rightarrow> ('a \<Rightarrow> 'e + 'b) \<Rightarrow> 'e + 'b" where
  "rbind (Inl e) f = Inl e"
| "rbind (Inr x) f = f x"

fun is_ok :: "'e + 'a \<Rightarrow> bool" where
  "is_ok (Inl _) = False"
| "is_ok (Inr _) = True"

lemma rbind_Inr_iff: "rbind r f = Inr y \<longleftrightarrow> (\<exists>x. r = Inr x \<and> f x = Inr y)"
  by (cases r) auto

lemma rbind_Inl_iff: "rbind r f = Inl e \<longleftrightarrow> (r = Inl e \<or> (\<exists>x. r = Inr x \<and> f x = Inl e))"
  by (cases r) auto

lemma is_ok_iff: "is_ok r \<longleftrightarrow> (\<exists>x. r = Inr x)"
  by (cases r) auto

subsection \<open>Machine integers\<close>

text \<open>
  Go's \<open>int\<close> and \<open>int64\<close> are 64-bit two's complement. Where an input from outside
  the process can reach the arithmetic, the wrap-around is written out with \<open>wrap64\<close>.
\<close>

definition wrap64 :: "int \<Rightarrow> int" where
  "wrap64 x = (x + 2 ^ 63) mod 2 ^ 64 - 2 ^ 63"

definition int64 :: "int \<Rightarrow> bool" where
  "int64 x \<longleftrightarrow> - (2 ^ 63) \<le> x \<and> x < 2 ^ 63"

lemma int64_wrap64 [simp]: "int64 (wrap64 x)"
proof -
  have "0 \<le> (x + 2 ^ 63) mod 2 ^ 64" "(x + 2 ^ 63) mod 2 ^ 64 < (2 ^ 64 :: int)"
    by simp_all
  then show ?thesis unfolding int64_def wrap64_def by simp
qed

lemma wrap64_id: "int64 x \<Longrightarrow> wrap64 x = x"
  by (simp add: int64_def wrap64_def)

text \<open>Integer division of Go truncates towards zero.\<close>

definition go_div :: "int \<Rightarrow> int \<Rightarrow> int" where
  "go_div a b = sgn a * sgn b * (\<bar>a\<bar> div \<bar>b\<bar>)"

lemma go_div_nonneg: "0 \<le> a \<Longrightarrow> 0 < b \<Longrightarrow> go_div a b = a div b"
  by (cases "a = 0") (auto simp: go_div_def sgn_if)

subsection \<open>Keyed tables\<close>

text \<open>
  A table with a primary key is a list of rows and a key function. \<open>upsert\<close> is
  \<open>INSERT ... ON CONFLICT(key) DO UPDATE\<close>: an existing row is merged in place, a new
  one goes to the end. \<open>find_key\<close> is the lookup by primary key.
\<close>

fun find_key :: "('r \<Rightarrow> 'k) \<Rightarrow> 'k \<Rightarrow> 'r list \<Rightarrow> 'r option" where
  "find_key key k [] = None"
| "find_key key k (r # rs) = (if key r = k then Some r else find_key key k rs)"

fun upsert :: "('r \<Rightarrow> 'k) \<Rightarrow> ('r \<Rightarrow> 'r \<Rightarrow> 'r) \<Rightarrow> 'r \<Rightarrow> 'r list \<Rightarrow> 'r list" where
  "upsert key merge new [] = [new]"
| "upsert key merge new (r # rs) =
     (if key r = key new then merge r new # rs else r # upsert key merge new rs)"

definition keys_unique :: "('r \<Rightarrow> 'k) \<Rightarrow> 'r list \<Rightarrow> bool" where
  "keys_unique key rs \<longleftrightarrow> distinct (map key rs)"

lemma find_key_None: "find_key key k rs = None \<longleftrightarrow> k \<notin> key ` set rs"
  by (induction rs) auto

lemma find_key_stored: "k \<in> key ` set rs \<Longrightarrow> \<exists>r. find_key key k rs = Some r"
  by (cases "find_key key k rs") (simp_all add: find_key_None)

lemma find_key_SomeD: "find_key key k rs = Some r \<Longrightarrow> r \<in> set rs \<and> key r = k"
  by (induction rs) (auto split: if_splits)

lemma find_key_mem: "keys_unique key rs \<Longrightarrow> r \<in> set rs \<Longrightarrow> find_key key (key r) rs = Some r"
  by (induction rs) (auto simp: keys_unique_def)

lemma find_key_upsert:
  assumes "\<And>a b. key a = key b \<Longrightarrow> key (merge a b) = key b"
  shows "find_key key k (upsert key merge new rs) =
    (if k = key new
     then Some (case find_key key k rs of None \<Rightarrow> new | Some r \<Rightarrow> merge r new)
     else find_key key k rs)"
  using assms by (induction rs) auto

lemma keys_upsert:
  assumes "\<And>a b. key a = key b \<Longrightarrow> key (merge a b) = key b"
  shows "key ` set (upsert key merge new rs) = insert (key new) (key ` set rs)"
  using assms by (induction rs) auto

lemma keys_unique_upsert:
  assumes "\<And>a b. key a = key b \<Longrightarrow> key (merge a b) = key b" and "keys_unique key rs"
  shows "keys_unique key (upsert key merge new rs)"
  using assms(2)
proof (induction rs)
  case Nil
  then show ?case by (simp add: keys_unique_def)
next
  case (Cons r rs)
  then have IH: "keys_unique key (upsert key merge new rs)"
    by (simp add: keys_unique_def)
  have "key ` set (upsert key merge new rs) = insert (key new) (key ` set rs)"
    by (rule keys_upsert) (rule assms(1))
  with Cons.prems IH assms(1) [of r new] show ?case
    by (auto simp: keys_unique_def)
qed

lemma keys_unique_filter: "keys_unique key rs \<Longrightarrow> keys_unique key (filter P rs)"
  by (induction rs) (auto simp: keys_unique_def)

lemma keys_unique_append1:
  "keys_unique key rs \<Longrightarrow> key r \<notin> key ` set rs \<Longrightarrow> keys_unique key (rs @ [r])"
  by (simp add: keys_unique_def)

lemma find_key_filter:
  assumes "keys_unique key rs"
  shows "find_key key k (filter P rs) = (case find_key key k rs of
      None \<Rightarrow> None | Some r \<Rightarrow> if P r then Some r else None)"
  using assms
proof (induction rs)
  case Nil
  then show ?case by simp
next
  case (Cons r rs)
  then have "keys_unique key rs" and "key r \<notin> key ` set rs"
    by (auto simp: keys_unique_def)
  moreover from this have "find_key key (key r) rs = None" "find_key key (key r) (filter P rs) = None"
    by (auto simp: find_key_None)
  ultimately show ?case using Cons.IH by auto
qed

text \<open>\<open>UPDATE ... WHERE key = k\<close> keeps the keys.\<close>

lemma find_key_update:
  assumes "\<And>r. key (f r) = key r"
  shows "find_key key k (map (\<lambda>r. if key r = k' then f r else r) rs)
    = (if k = k' then map_option f (find_key key k rs) else find_key key k rs)"
  using assms by (induction rs) auto

lemma map_key_update:
  assumes "\<And>r. key (f r) = key r"
  shows "map key (map (\<lambda>r. if P r then f r else r) rs) = map key rs"
  using assms by (induction rs) auto

subsection \<open>Sorting and de-duplication\<close>

text \<open>First occurrences in order: a loop with a \<open>seen\<close> map and \<open>continue\<close>.\<close>

fun nub_by :: "('a \<Rightarrow> 'k) \<Rightarrow> 'k list \<Rightarrow> 'a list \<Rightarrow> 'a list" where
  "nub_by f seen [] = []"
| "nub_by f seen (x # xs) =
     (if f x \<in> set seen then nub_by f seen xs else x # nub_by f (f x # seen) xs)"

lemma set_nub_by: "f ` set (nub_by f seen xs) = f ` set xs - set seen"
  by (induction xs arbitrary: seen) auto

lemma nub_by_subset: "set (nub_by f seen xs) \<subseteq> set xs"
  by (induction xs arbitrary: seen) (auto split: if_splits)

lemma distinct_nub_by: "distinct (map f (nub_by f seen xs))"
proof (induction xs arbitrary: seen)
  case Nil
  then show ?case by simp
next
  case (Cons x xs)
  have "f x \<notin> f ` set (nub_by f (f x # seen) xs)"
    by (simp add: set_nub_by)
  with Cons.IH [of seen] Cons.IH [of "f x # seen"] show ?case
    by (auto simp: set_nub_by)
qed

lemma nub_by_length: "length (nub_by f seen xs) \<le> length xs"
  by (induction xs arbitrary: seen) (auto intro: le_SucI)

lemma sorted_take: "sorted xs \<Longrightarrow> sorted (take n xs)"
  by (rule sorted_wrt_take)

lemma distinct_take_intro: "distinct xs \<Longrightarrow> distinct (take n xs)"
  by (rule distinct_take)

end
