(* ===== verification/GoStrings.thy ===== *)
theory GoStrings
  imports Prelude
begin

text \<open>
  What the program uses of Go's \<open>strings\<close> package and of string indexing. A Go string
  is a sequence of bytes, so it is a HOL \<open>string\<close> (a list of 8-bit \<open>char\<close>s) and
  \<open>length\<close> is Go's \<open>len\<close>. The order on strings is the bytewise lexicographic order
  (\<open>HOL-Library.List_Lexorder\<close> over \<open>HOL-Library.Char_ord\<close>).
\<close>

definition byte :: "char \<Rightarrow> nat" where
  "byte c = of_char c"

lemma byte_bound: "byte c < 256"
  by (simp add: byte_def)

lemma byte_inject: "byte c = byte d \<longleftrightarrow> c = d"
  by (simp add: byte_def)

definition is_digit :: "char \<Rightarrow> bool" where
  "is_digit c \<longleftrightarrow> 48 \<le> byte c \<and> byte c \<le> 57"

definition is_lower :: "char \<Rightarrow> bool" where
  "is_lower c \<longleftrightarrow> 97 \<le> byte c \<and> byte c \<le> 122"

definition is_upper :: "char \<Rightarrow> bool" where
  "is_upper c \<longleftrightarrow> 65 \<le> byte c \<and> byte c \<le> 90"

definition ascii_lower :: "char \<Rightarrow> char" where
  "ascii_lower c = (if is_upper c then char_of (byte c + 32) else c)"

definition NUL :: char where
  "NUL = char_of (0 :: nat)"

text \<open>\<open>strings.HasPrefix\<close>, \<open>TrimPrefix\<close>, \<open>TrimSuffix\<close>.\<close>

fun has_prefix :: "string \<Rightarrow> string \<Rightarrow> bool" where
  "has_prefix s [] = True"
| "has_prefix [] (p # ps) = False"
| "has_prefix (c # s) (p # ps) = (c = p \<and> has_prefix s ps)"

definition trim_prefix :: "string \<Rightarrow> string \<Rightarrow> string" where
  "trim_prefix s p = (if has_prefix s p then drop (length p) s else s)"

definition has_suffix :: "string \<Rightarrow> string \<Rightarrow> bool" where
  "has_suffix s p = has_prefix (rev s) (rev p)"

definition trim_suffix :: "string \<Rightarrow> string \<Rightarrow> string" where
  "trim_suffix s p = (if has_suffix s p then take (length s - length p) s else s)"

lemma has_prefix_iff: "has_prefix s p \<longleftrightarrow> (\<exists>t. s = p @ t)"
  by (induction s p rule: has_prefix.induct) auto

lemma has_prefix_append [simp]: "has_prefix (p @ t) p"
  by (auto simp: has_prefix_iff)

lemma trim_prefix_append [simp]: "trim_prefix (p @ t) p = t"
  by (simp add: trim_prefix_def)

text \<open>
  \<open>strings.Cut\<close> around a one-byte separator: \<open>None\<close> when it does not occur,
  otherwise the text before and after its first occurrence.
\<close>

fun cut :: "char \<Rightarrow> string \<Rightarrow> (string \<times> string) option" where
  "cut sep [] = None"
| "cut sep (c # s) =
     (if c = sep then Some ([], s)
      else map_option (\<lambda>(a, b). (c # a, b)) (cut sep s))"

lemma cut_None: "cut sep s = None \<longleftrightarrow> sep \<notin> set s"
  by (induction s) auto

lemma cut_Some: "cut sep s = Some (a, b) \<longleftrightarrow> s = a @ sep # b \<and> sep \<notin> set a"
proof (induction s arbitrary: a)
  case Nil
  then show ?case by simp
next
  case (Cons c s)
  then show ?case by (cases a) auto
qed

text \<open>\<open>strings.IndexByte\<close>, with \<open>None\<close> for -1, and \<open>strings.Split\<close> on a byte.\<close>

fun index_byte :: "string \<Rightarrow> char \<Rightarrow> nat option" where
  "index_byte [] x = None"
| "index_byte (c # s) x = (if c = x then Some 0 else map_option Suc (index_byte s x))"

lemma index_byte_Some:
  "index_byte s x = Some i \<Longrightarrow> i < length s \<and> s ! i = x \<and> x \<notin> set (take i s)"
  by (induction s arbitrary: i) (auto split: if_splits)

fun split_byte :: "char \<Rightarrow> string \<Rightarrow> string list" where
  "split_byte sep [] = [[]]"
| "split_byte sep (c # s) =
     (if c = sep then [] # split_byte sep s
      else case split_byte sep s of
             [] \<Rightarrow> [[c]]
           | w # ws \<Rightarrow> (c # w) # ws)"

lemma split_byte_single: "sep \<notin> set s \<Longrightarrow> split_byte sep s = [s]"
  by (induction s) auto

text \<open>Trimming a set of bytes, \<open>strings.TrimLeft\<close> and \<open>strings.TrimRight\<close>.\<close>

definition trim_left :: "(char \<Rightarrow> bool) \<Rightarrow> string \<Rightarrow> string" where
  "trim_left p s = dropWhile p s"

definition trim_right :: "(char \<Rightarrow> bool) \<Rightarrow> string \<Rightarrow> string" where
  "trim_right p s = rev (dropWhile p (rev s))"

lemma trim_right_idem: "trim_right p (trim_right p s) = trim_right p s"
proof -
  have "dropWhile p (dropWhile p t) = dropWhile p t" for t
    by (induction t) auto
  then show ?thesis by (simp add: trim_right_def)
qed

lemma trim_right_last: "trim_right p s \<noteq> [] \<Longrightarrow> \<not> p (last (trim_right p s))"
  unfolding trim_right_def by (metis hd_dropWhile hd_rev rev_rev_ident rev_is_Nil_conv)

lemma trim_right_append: "\<exists>t. s = trim_right p s @ t \<and> list_all p t"
proof -
  have "rev s = takeWhile p (rev s) @ dropWhile p (rev s)" by simp
  then have "s = rev (dropWhile p (rev s)) @ rev (takeWhile p (rev s))"
    by (metis rev_append rev_rev_ident)
  moreover have "list_all p (rev (takeWhile p (rev s)))"
    by (auto simp: list_all_iff dest: set_takeWhileD)
  ultimately show ?thesis unfolding trim_right_def by blast
qed

text \<open>\<open>strconv.Itoa\<close> and the \<open>%d\<close> verb.\<close>

function nat_dec :: "int \<Rightarrow> string" where
  "nat_dec n = (if n < 10 then [char_of (48 + n)] else nat_dec (n div 10) @ [char_of (48 + n mod 10)])"
  by auto
termination by (relation "measure nat") auto

declare nat_dec.simps [simp del]

definition int_dec :: "int \<Rightarrow> string" where
  "int_dec i = (if i < 0 then CHR ''-'' # nat_dec (- i) else nat_dec i)"

text \<open>What \<open>strconv.Itoa\<close> prints reads back.\<close>

definition dec_value :: "string \<Rightarrow> int" where
  "dec_value s = foldl (\<lambda>a c. a * 10 + (int (byte c) - 48)) 0 s"

lemma byte_dec_digit: "0 \<le> d \<Longrightarrow> d < 10 \<Longrightarrow> byte (char_of (48 + d :: int)) = 48 + nat d"
proof -
  assume "0 \<le> d" "d < 10"
  then have "(of_char (char_of (48 + d :: int)) :: int) = 48 + d" by simp
  then have "int (byte (char_of (48 + d :: int))) = 48 + d" unfolding byte_def
    by (metis of_nat_of_char)
  then show ?thesis using \<open>0 \<le> d\<close> by linarith
qed

lemma nat_dec_value: "0 \<le> n \<Longrightarrow> dec_value (nat_dec n) = n"
proof (induction n rule: nat_dec.induct)
  case (1 n)
  show ?case
  proof (cases "n < 10")
    case True
    then show ?thesis using 1(2) by (subst nat_dec.simps) (simp add: dec_value_def byte_dec_digit)
  next
    case False
    then have "dec_value (nat_dec (n div 10)) = n div 10" using 1 by simp
    then show ?thesis using False by (subst nat_dec.simps) (simp add: dec_value_def byte_dec_digit)
  qed
qed

lemma nat_dec_digits: "0 \<le> n \<Longrightarrow> list_all is_digit (nat_dec n) \<and> nat_dec n \<noteq> []"
proof (induction n rule: nat_dec.induct)
  case (1 n)
  have d: "is_digit (char_of (48 + m :: int))" if "0 \<le> m" "m < 10" for m
    using byte_dec_digit [OF that] that by (simp add: is_digit_def)
  show ?case
  proof (cases "n < 10")
    case True
    then show ?thesis using 1(2) d by (subst (1 2) nat_dec.simps) simp
  next
    case False
    then have "list_all is_digit (nat_dec (n div 10))" using 1 by simp
    then show ?thesis using False d by (subst (1 2) nat_dec.simps) simp
  qed
qed

lemma int_dec_inject: "0 \<le> m \<Longrightarrow> 0 \<le> n \<Longrightarrow> int_dec m = int_dec n \<Longrightarrow> m = n"
  by (metis int_dec_def nat_dec_value not_less)

end
