(* ===== verification/Auth_Cache.thy ===== *)
theory Auth_Cache
  imports GoStrings
begin

text \<open>
  The outcome cache of \<open>internal/platform/auth/cache.go\<close>: two LRU tiers, one for
  positive and one for negative outcomes. A tier is modelled with the two structures the
  code keeps, a linked list of elements and a map from keys to elements, where an element
  is a handle into a heap of nodes, since the code updates a node through the pointer the
  map holds. The refinement to a recency-ordered association list is proved below, and the
  cache's lemmas are proved over the interface \<open>tier_spec\<close> only.
\<close>

subsection \<open>Entries and tiers\<close>

record cache_entry =
  e_ok :: bool
  e_forbidden :: bool
  e_system_id :: string
  e_expires_at :: int

record lru_node =
  n_key :: string
  n_entry :: cache_entry

text \<open>
  \<open>t_ll\<close> is the list of element handles, front first; \<open>t_heap\<close> gives the node an
  element holds; \<open>t_fresh\<close> is the next unused handle (\<open>list.PushFront\<close> allocates).
\<close>

record lru_tier =
  t_max :: int
  t_ll :: "nat list"
  t_heap :: "nat \<Rightarrow> lru_node"
  t_items :: "string \<Rightarrow> nat option"
  t_fresh :: nat

definition empty_entry :: cache_entry where
  "empty_entry = \<lparr>e_ok = False, e_forbidden = False, e_system_id = [], e_expires_at = 0\<rparr>"

definition newLRUTier :: "int \<Rightarrow> lru_tier" where
  "newLRUTier m = \<lparr>t_max = m, t_ll = [],
     t_heap = (\<lambda>_. \<lparr>n_key = [], n_entry = empty_entry\<rparr>),
     t_items = Map.empty, t_fresh = 0\<rparr>"

definition moveToFront :: "nat \<Rightarrow> nat list \<Rightarrow> nat list" where
  "moveToFront el ll = el # remove1 el ll"

definition tier_get :: "string \<Rightarrow> lru_tier \<Rightarrow> cache_entry option \<times> lru_tier" where
  "tier_get key t = (case t_items t key of
     None \<Rightarrow> (None, t)
   | Some el \<Rightarrow> (Some (n_entry (t_heap t el)), t\<lparr>t_ll := moveToFront el (t_ll t)\<rparr>))"

text \<open>
  The eviction loop. \<open>Back\<close> of an empty list would be a nil element; with the positive
  capacities \<open>capOr\<close> guarantees the loop stops before that (\<open>tier_inv\<close>).
\<close>

function tier_evict :: "lru_tier \<Rightarrow> lru_tier" where
  "tier_evict t =
     (if int (length (t_ll t)) > t_max t \<and> t_ll t \<noteq> []
      then let oldest = last (t_ll t)
           in tier_evict (t\<lparr>t_ll := remove1 oldest (t_ll t),
                            t_items := (t_items t)(n_key (t_heap t oldest) := None)\<rparr>)
      else t)"
  by pat_completeness auto
termination
  by (relation "measure (\<lambda>t. length (t_ll t))") (auto simp: length_remove1)

declare tier_evict.simps [simp del]

definition tier_set :: "string \<Rightarrow> cache_entry \<Rightarrow> lru_tier \<Rightarrow> lru_tier" where
  "tier_set key e t = (case t_items t key of
     Some el \<Rightarrow> t\<lparr>t_heap := (t_heap t)(el := (t_heap t el)\<lparr>n_entry := e\<rparr>),
                   t_ll := moveToFront el (t_ll t)\<rparr>
   | None \<Rightarrow>
       (let el = t_fresh t
        in tier_evict (t\<lparr>t_ll := el # t_ll t,
                         t_heap := (t_heap t)(el := \<lparr>n_key = key, n_entry = e\<rparr>),
                         t_items := (t_items t)(key := Some el),
                         t_fresh := Suc el\<rparr>)))"

definition tier_remove :: "string \<Rightarrow> lru_tier \<Rightarrow> lru_tier" where
  "tier_remove key t = (case t_items t key of
     None \<Rightarrow> t
   | Some el \<Rightarrow> t\<lparr>t_ll := remove1 el (t_ll t), t_items := (t_items t)(key := None)\<rparr>)"

subsection \<open>The abstract tier: an association list in recency order\<close>

definition tier_entries :: "lru_tier \<Rightarrow> (string \<times> cache_entry) list" where
  "tier_entries t = map (\<lambda>el. (n_key (t_heap t el), n_entry (t_heap t el))) (t_ll t)"

definition tier_inv :: "lru_tier \<Rightarrow> bool" where
  "tier_inv t \<longleftrightarrow> 0 < t_max t \<and> distinct (t_ll t) \<and> (\<forall>el \<in> set (t_ll t). el < t_fresh t)
     \<and> (\<forall>k el. t_items t k = Some el \<longleftrightarrow> el \<in> set (t_ll t) \<and> n_key (t_heap t el) = k)"

definition del_assoc :: "'k \<Rightarrow> ('k \<times> 'v) list \<Rightarrow> ('k \<times> 'v) list" where
  "del_assoc k xs = filter (\<lambda>p. fst p \<noteq> k) xs"

definition abs_get :: "'k \<Rightarrow> ('k \<times> 'v) list \<Rightarrow> ('k \<times> 'v) list" where
  "abs_get k xs = (case map_of xs k of None \<Rightarrow> xs | Some v \<Rightarrow> (k, v) # del_assoc k xs)"

definition abs_set :: "nat \<Rightarrow> 'k \<Rightarrow> 'v \<Rightarrow> ('k \<times> 'v) list \<Rightarrow> ('k \<times> 'v) list" where
  "abs_set m k v xs = (case map_of xs k of
     None \<Rightarrow> take m ((k, v) # xs)
   | Some _ \<Rightarrow> (k, v) # del_assoc k xs)"

lemma map_of_del_assoc: "map_of (del_assoc k xs) k' = (if k' = k then None else map_of xs k')"
  by (induction xs) (auto simp: del_assoc_def)

lemma length_del_assoc: "length (del_assoc k xs) \<le> length xs"
  by (simp add: del_assoc_def)

lemma map_of_take_Some:
  "map_of (take n xs) k = Some v \<Longrightarrow> map_of xs k = Some v"
proof -
  assume "map_of (take n xs) k = Some v"
  then have "map_of (take n xs @ drop n xs) k = Some v"
    unfolding map_of_append by (simp add: map_add_def map_of_eq_None_iff split: option.split)
  then show "map_of xs k = Some v" by simp
qed

subsection \<open>The concrete tier refines it\<close>

lemma tier_inv_newLRUTier [inv_intros]: "0 < m \<Longrightarrow> tier_inv (newLRUTier m)"
  by (simp add: tier_inv_def newLRUTier_def)

lemma tier_inv_max [simp]: "tier_inv t \<Longrightarrow> 0 < t_max t"
  by (simp add: tier_inv_def)

lemma tier_items_iff:
  "tier_inv t \<Longrightarrow> t_items t k = Some el \<longleftrightarrow> el \<in> set (t_ll t) \<and> n_key (t_heap t el) = k"
  by (simp add: tier_inv_def)

lemma tier_key_inj:
  assumes "tier_inv t" "a \<in> set (t_ll t)" "b \<in> set (t_ll t)"
    and "n_key (t_heap t a) = n_key (t_heap t b)"
  shows "a = b"
proof -
  have "t_items t (n_key (t_heap t a)) = Some a" using assms by (simp add: tier_items_iff)
  moreover have "t_items t (n_key (t_heap t a)) = Some b" using assms by (simp add: tier_items_iff)
  ultimately show ?thesis by simp
qed

lemma tier_entries_keys_distinct: "tier_inv t \<Longrightarrow> distinct (map fst (tier_entries t))"
  unfolding tier_entries_def
  by (auto simp: distinct_map comp_def inj_on_def tier_inv_def intro: tier_key_inj)

lemma map_of_map_handles:
  "map_of (map (\<lambda>el. (f el, g el)) ll) k
     = (case find (\<lambda>el. f el = k) ll of None \<Rightarrow> None | Some el \<Rightarrow> Some (g el))"
  by (induction ll) auto

lemma tier_entries_lookup:
  assumes "tier_inv t"
  shows "map_of (tier_entries t) k = map_option (\<lambda>el. n_entry (t_heap t el)) (t_items t k)"
proof (cases "t_items t k")
  case None
  then have "\<forall>el \<in> set (t_ll t). n_key (t_heap t el) \<noteq> k"
    using assms tier_items_iff by (metis option.distinct(1))
  then have "find (\<lambda>el. n_key (t_heap t el) = k) (t_ll t) = None"
    by (simp add: find_None_iff)
  with None show ?thesis by (simp add: tier_entries_def map_of_map_handles)
next
  case (Some el)
  then have el: "el \<in> set (t_ll t)" "n_key (t_heap t el) = k"
    using assms by (simp_all add: tier_items_iff)
  then have "(k, n_entry (t_heap t el)) \<in> set (tier_entries t)"
    by (auto simp: tier_entries_def)
  with Some show ?thesis
    using tier_entries_keys_distinct [OF assms] by simp
qed

lemma tier_entries_remove1:
  assumes "tier_inv t" "el \<in> set (t_ll t)"
  shows "map (\<lambda>el. (n_key (t_heap t el), n_entry (t_heap t el))) (remove1 el (t_ll t))
     = del_assoc (n_key (t_heap t el)) (tier_entries t)"
proof -
  have "distinct (t_ll t)" using assms(1) by (simp add: tier_inv_def)
  then have "remove1 el (t_ll t) = filter (\<lambda>x. x \<noteq> el) (t_ll t)"
    by (simp add: distinct_remove1_removeAll removeAll_filter_not_eq eq_commute)
  also have "\<dots> = filter (\<lambda>x. n_key (t_heap t x) \<noteq> n_key (t_heap t el)) (t_ll t)"
    by (rule filter_cong) (use assms tier_key_inj in blast)+
  finally show ?thesis
    by (simp add: tier_entries_def del_assoc_def filter_map comp_def)
qed

lemma tier_inv_get [inv_intros]:
  assumes "tier_inv t" shows "tier_inv (snd (tier_get k t))"
proof (cases "t_items t k")
  case (Some el)
  then have "el \<in> set (t_ll t)" using assms by (simp add: tier_items_iff)
  then have "set (moveToFront el (t_ll t)) = set (t_ll t)" "distinct (moveToFront el (t_ll t))"
    using assms by (auto simp: moveToFront_def tier_inv_def)
  moreover from Some have "snd (tier_get k t) = t\<lparr>t_ll := moveToFront el (t_ll t)\<rparr>"
    by (simp add: tier_get_def)
  ultimately show ?thesis using assms by (simp add: tier_inv_def)
qed (use assms in \<open>simp add: tier_get_def\<close>)

lemma tier_get_entries:
  assumes "tier_inv t"
  shows "fst (tier_get k t) = map_of (tier_entries t) k"
    and "tier_entries (snd (tier_get k t)) = abs_get k (tier_entries t)"
proof -
  show "fst (tier_get k t) = map_of (tier_entries t) k"
    using assms by (simp add: tier_get_def tier_entries_lookup split: option.split)
  show "tier_entries (snd (tier_get k t)) = abs_get k (tier_entries t)"
  proof (cases "t_items t k")
    case None
    with assms show ?thesis by (simp add: tier_get_def abs_get_def tier_entries_lookup)
  next
    case (Some el)
    then have "el \<in> set (t_ll t)" "n_key (t_heap t el) = k"
      using assms by (simp_all add: tier_items_iff)
    with assms Some show ?thesis
      by (simp add: tier_get_def abs_get_def tier_entries_lookup)
         (simp add: tier_entries_def moveToFront_def tier_entries_remove1 [unfolded tier_entries_def])
  qed
qed

lemma tier_inv_remove [inv_intros]:
  assumes "tier_inv t" shows "tier_inv (tier_remove k t)"
proof (cases "t_items t k")
  case (Some el)
  then have "el \<in> set (t_ll t)" "n_key (t_heap t el) = k"
    using assms by (simp_all add: tier_items_iff)
  moreover from Some have
    "tier_remove k t = t\<lparr>t_ll := remove1 el (t_ll t), t_items := (t_items t)(k := None)\<rparr>"
    by (simp add: tier_remove_def)
  ultimately show ?thesis
    using assms tier_key_inj [OF assms] by (auto simp: tier_inv_def)
qed (use assms in \<open>simp add: tier_remove_def\<close>)

lemma tier_remove_entries:
  assumes "tier_inv t" shows "tier_entries (tier_remove k t) = del_assoc k (tier_entries t)"
proof (cases "t_items t k")
  case None
  then have "map_of (tier_entries t) k = None" using assms by (simp add: tier_entries_lookup)
  then have "filter (\<lambda>p. fst p \<noteq> k) (tier_entries t) = tier_entries t"
    by (auto simp: filter_id_conv map_of_eq_None_iff)
  with None show ?thesis by (simp add: tier_remove_def del_assoc_def)
next
  case (Some el)
  then have "el \<in> set (t_ll t)" "n_key (t_heap t el) = k"
    using assms by (simp_all add: tier_items_iff)
  with assms Some show ?thesis
    by (simp add: tier_remove_def) (simp add: tier_entries_def tier_entries_remove1 [unfolded tier_entries_def])
qed

lemma tier_evict_max [frame_simps]: "t_max (tier_evict t) = t_max t"
proof (induction t rule: tier_evict.induct)
  case (1 t)
  then show ?case by (auto simp: tier_evict.simps [of t] Let_def)
qed

lemma tier_evict_step_inv:
  assumes inv: "tier_inv t" and ne: "t_ll t \<noteq> []"
  defines "t' \<equiv> t\<lparr>t_ll := remove1 (last (t_ll t)) (t_ll t),
                  t_items := (t_items t)(n_key (t_heap t (last (t_ll t))) := None)\<rparr>"
  shows "tier_inv t'" and "tier_entries t' = butlast (tier_entries t)"
proof -
  let ?el = "last (t_ll t)"
  have el: "?el \<in> set (t_ll t)" using ne by simp
  have d: "distinct (t_ll t)" using inv by (simp add: tier_inv_def)
  show "tier_inv t'"
    using inv el tier_key_inj [OF inv] d by (auto simp: tier_inv_def t'_def)
  have "remove1 ?el (t_ll t) = butlast (t_ll t)"
    using d ne by (metis append_butlast_last_id distinct_butlast not_distinct_conv_prefix
        remove1_append remove1.simps(2) append_Nil2 snoc_eq_iff_butlast)
  then show "tier_entries t' = butlast (tier_entries t)"
    by (simp add: tier_entries_def t'_def map_butlast)
qed

lemma tier_evict_correct:
  "tier_inv t \<Longrightarrow> tier_inv (tier_evict t)
     \<and> tier_entries (tier_evict t) = take (nat (t_max t)) (tier_entries t)"
proof (induction t rule: tier_evict.induct)
  case (1 t)
  have len: "length (tier_entries t) = length (t_ll t)" by (simp add: tier_entries_def)
  show ?case
  proof (cases "int (length (t_ll t)) > t_max t \<and> t_ll t \<noteq> []")
    case True
    note st = tier_evict_step_inv [OF "1.prems" conjunct2 [OF True]]
    have "nat (t_max t) \<le> length (t_ll t) - 1" using True by linarith
    then have "take (nat (t_max t)) (butlast (tier_entries t)) = take (nat (t_max t)) (tier_entries t)"
      using len by (simp add: butlast_conv_take min_absorb1)
    then show ?thesis
      using True st "1.IH" [OF True refl] by (simp add: tier_evict.simps [of t] Let_def)
  next
    case False
    then have "length (t_ll t) \<le> nat (t_max t)"
      using tier_inv_max [OF "1.prems"] by auto
    with False len show ?thesis
      using "1.prems" by (auto simp: tier_evict.simps [of t])
  qed
qed

lemmas tier_inv_evict [inv_intros] = tier_evict_correct [THEN conjunct1]
lemmas tier_evict_entries = tier_evict_correct [THEN conjunct2]

lemma tier_set_correct:
  assumes inv: "tier_inv t"
  shows "tier_inv (tier_set k e t)"
    and "tier_entries (tier_set k e t) = abs_set (nat (t_max t)) k e (tier_entries t)"
    and "t_max (tier_set k e t) = t_max t"
proof -
  have "tier_inv (tier_set k e t) \<and> t_max (tier_set k e t) = t_max t
    \<and> tier_entries (tier_set k e t) = abs_set (nat (t_max t)) k e (tier_entries t)"
  proof (cases "t_items t k")
    case None
    let ?el = "t_fresh t"
    let ?t = "t\<lparr>t_ll := ?el # t_ll t,
               t_heap := (t_heap t)(?el := \<lparr>n_key = k, n_entry = e\<rparr>),
               t_items := (t_items t)(k := Some ?el), t_fresh := Suc ?el\<rparr>"
    have fresh: "?el \<notin> set (t_ll t)" using inv by (auto simp: tier_inv_def)
    have nk: "n_key (t_heap t el) \<noteq> k" if "el \<in> set (t_ll t)" for el
      using None inv that tier_items_iff by (metis option.distinct(1))
    have inv': "tier_inv ?t"
      using inv fresh nk by (auto simp: tier_inv_def less_Suc_eq)
    have "tier_entries ?t = (k, e) # tier_entries t"
      using fresh by (auto simp: tier_entries_def intro!: map_cong)
    moreover have "tier_set k e t = tier_evict ?t" using None by (simp add: tier_set_def Let_def)
    moreover have "map_of (tier_entries t) k = None"
      using None inv by (simp add: tier_entries_lookup)
    ultimately show ?thesis
      using tier_evict_correct [OF inv'] by (simp add: abs_set_def tier_evict_max)
  next
    case (Some el)
    then have el: "el \<in> set (t_ll t)" "n_key (t_heap t el) = k"
      using inv by (simp_all add: tier_items_iff)
    have d: "distinct (t_ll t)" using inv by (simp add: tier_inv_def)
    have eq: "tier_set k e t = t\<lparr>t_heap := (t_heap t)(el := (t_heap t el)\<lparr>n_entry := e\<rparr>),
        t_ll := moveToFront el (t_ll t)\<rparr>" (is "_ = ?t") using Some by (simp add: tier_set_def)
    have "tier_inv ?t"
      using inv el d by (auto simp: tier_inv_def moveToFront_def)
    moreover have "tier_entries ?t = (k, e) # map (\<lambda>el. (n_key (t_heap t el), n_entry (t_heap t el))) (remove1 el (t_ll t))"
      using el d by (auto simp: tier_entries_def moveToFront_def)
    moreover have "map_of (tier_entries t) k = Some (n_entry (t_heap t el))"
      using Some inv by (simp add: tier_entries_lookup)
    ultimately show ?thesis
      using eq el tier_entries_remove1 [OF inv el(1)] by (simp add: abs_set_def)
  qed
  then show "tier_inv (tier_set k e t)"
    and "tier_entries (tier_set k e t) = abs_set (nat (t_max t)) k e (tier_entries t)"
    and "t_max (tier_set k e t) = t_max t" by simp_all
qed

lemmas tier_inv_set [inv_intros] = tier_set_correct(1)

lemma tier_get_max [frame_simps]: "t_max (snd (tier_get k t)) = t_max t"
  by (simp add: tier_get_def split: option.split)

lemma tier_remove_max [frame_simps]: "t_max (tier_remove k t) = t_max t"
  by (simp add: tier_remove_def split: option.split)

subsection \<open>The tier interface\<close>

text \<open>
  What the cache relies on of a tier: each operation acts on the recency list as the
  abstract operation does, and keeps the invariant and the capacity.
\<close>

locale tier_spec =
  fixes inv :: "'t \<Rightarrow> bool" and cap :: "'t \<Rightarrow> nat" and entries :: "'t \<Rightarrow> ('k \<times> 'v) list"
    and get :: "'k \<Rightarrow> 't \<Rightarrow> 'v option \<times> 't" and put :: "'k \<Rightarrow> 'v \<Rightarrow> 't \<Rightarrow> 't"
    and remove :: "'k \<Rightarrow> 't \<Rightarrow> 't" and evict :: "'t \<Rightarrow> 't"
  assumes keys_distinct: "inv t \<Longrightarrow> distinct (map fst (entries t))"
    and cap_pos: "inv t \<Longrightarrow> 0 < cap t"
    and get_inv: "inv t \<Longrightarrow> inv (snd (get k t))"
    and get_cap: "cap (snd (get k t)) = cap t"
    and get_result: "inv t \<Longrightarrow> fst (get k t) = map_of (entries t) k"
    and get_entries: "inv t \<Longrightarrow> entries (snd (get k t)) = abs_get k (entries t)"
    and put_inv: "inv t \<Longrightarrow> inv (put k v t)"
    and put_cap: "inv t \<Longrightarrow> cap (put k v t) = cap t"
    and put_entries: "inv t \<Longrightarrow> entries (put k v t) = abs_set (cap t) k v (entries t)"
    and remove_inv: "inv t \<Longrightarrow> inv (remove k t)"
    and remove_cap: "cap (remove k t) = cap t"
    and remove_entries: "inv t \<Longrightarrow> entries (remove k t) = del_assoc k (entries t)"
    and evict_inv: "inv t \<Longrightarrow> inv (evict t)"
    and evict_cap: "cap (evict t) = cap t"
    and evict_entries: "inv t \<Longrightarrow> entries (evict t) = take (cap t) (entries t)"
begin

lemma lookup_get: "inv t \<Longrightarrow> map_of (entries (snd (get k t))) = map_of (entries t)"
  by (rule ext)
     (auto simp: get_entries abs_get_def map_of_del_assoc split: option.split)

lemma lookup_remove:
  "inv t \<Longrightarrow> map_of (entries (remove k t)) k' = (if k' = k then None else map_of (entries t) k')"
  by (simp add: remove_entries map_of_del_assoc)

lemma lookup_put_same: "inv t \<Longrightarrow> map_of (entries (put k v t)) k = Some v"
  using cap_pos [of t]
  by (auto simp: put_entries abs_set_def take_Cons' split: option.split)

lemma lookup_put_other:
  "inv t \<Longrightarrow> k' \<noteq> k \<Longrightarrow> map_of (entries (put k v t)) k' = Some w
     \<Longrightarrow> map_of (entries t) k' = Some w"
  by (auto simp: put_entries abs_set_def map_of_del_assoc take_Cons' split: option.splits if_splits
        dest: map_of_take_Some)

lemma lookup_put_room:
  assumes "inv t" "length (entries t) < cap t"
  shows "map_of (entries (put k v t)) k' = (if k' = k then Some v else map_of (entries t) k')"
  using assms
  by (auto simp: put_entries abs_set_def map_of_del_assoc take_Cons' split: option.splits)

lemma size_get: "inv t \<Longrightarrow> length (entries (snd (get k t))) \<le> length (entries t)"
proof (cases "map_of (entries t) k")
  case (Some v)
  moreover assume "inv t"
  moreover from Some have "(k, v) \<in> {p \<in> set (entries t). \<not> fst p \<noteq> k}"
    by (auto dest: map_of_SomeD)
  then have "length (del_assoc k (entries t)) < length (entries t)"
    unfolding del_assoc_def by (auto intro: length_filter_less)
  ultimately show ?thesis by (simp add: get_entries abs_get_def)
qed (simp add: get_entries abs_get_def)

lemma size_put: "inv t \<Longrightarrow> length (entries t) \<le> cap t \<Longrightarrow> length (entries (put k v t)) \<le> cap t"
proof (cases "map_of (entries t) k")
  case (Some w)
  assume a: "inv t" "length (entries t) \<le> cap t"
  from Some have "(k, w) \<in> {p \<in> set (entries t). \<not> fst p \<noteq> k}"
    by (auto dest: map_of_SomeD)
  then have "length (del_assoc k (entries t)) < length (entries t)"
    unfolding del_assoc_def by (auto intro: length_filter_less)
  with a Some show ?thesis by (simp add: put_entries abs_set_def)
qed (auto simp: put_entries abs_set_def)

lemma size_remove: "inv t \<Longrightarrow> length (entries (remove k t)) \<le> length (entries t)"
  by (simp add: remove_entries length_del_assoc)

lemma size_evict: "inv t \<Longrightarrow> length (entries (evict t)) \<le> cap t"
  by (simp add: evict_entries)

lemma evict_id: "inv t \<Longrightarrow> length (entries t) \<le> cap t \<Longrightarrow> entries (evict t) = entries t"
  by (simp add: evict_entries)

end

definition tier_cap :: "lru_tier \<Rightarrow> nat" where
  "tier_cap t = nat (t_max t)"

interpretation lru: tier_spec tier_inv tier_cap tier_entries tier_get tier_set tier_remove tier_evict
  by unfold_locales
     (auto simp: tier_cap_def frame_simps tier_entries_keys_distinct tier_get_entries tier_set_correct
        tier_remove_entries tier_evict_entries intro: inv_intros)

subsection \<open>The cache\<close>

record auth_cache =
  c_pos :: lru_tier
  c_neg :: lru_tier

definition defaultMaxPositiveEntries :: int where "defaultMaxPositiveEntries = 8192"
definition defaultMaxNegativeEntries :: int where "defaultMaxNegativeEntries = 4096"

definition capOr :: "int \<Rightarrow> int \<Rightarrow> int" where
  "capOr n d = (if n \<le> 0 then d else n)"

definition newCache :: "int \<Rightarrow> int \<Rightarrow> auth_cache" where
  "newCache maxPositive maxNegative =
     \<lparr>c_pos = newLRUTier (capOr maxPositive defaultMaxPositiveEntries),
      c_neg = newLRUTier (capOr maxNegative defaultMaxNegativeEntries)\<rparr>"

definition setLimits :: "int \<Rightarrow> int \<Rightarrow> auth_cache \<Rightarrow> auth_cache" where
  "setLimits maxPositive maxNegative c =
     c\<lparr>c_pos := tier_evict ((c_pos c)\<lparr>t_max := capOr maxPositive defaultMaxPositiveEntries\<rparr>),
       c_neg := tier_evict ((c_neg c)\<lparr>t_max := capOr maxNegative defaultMaxNegativeEntries\<rparr>)\<rparr>"

text \<open>
  \<open>get\<close> returns the entry with its freshness, or \<open>None\<close> for \<open>found = false\<close>. \<open>now\<close> is
  the clock reading in nanoseconds; \<open>now.Before(expiresAt)\<close> is strict.
\<close>

definition cache_get :: "int \<Rightarrow> string \<Rightarrow> auth_cache \<Rightarrow> (cache_entry \<times> bool) option \<times> auth_cache" where
  "cache_get now key c =
     (case tier_get key (c_pos c) of
        (Some e, p) \<Rightarrow> (Some (e, now < e_expires_at e), c\<lparr>c_pos := p\<rparr>)
      | (None, p) \<Rightarrow>
          (case tier_get key (c_neg c) of
             (Some e, n) \<Rightarrow> (Some (e, now < e_expires_at e), c\<lparr>c_pos := p, c_neg := n\<rparr>)
           | (None, n) \<Rightarrow> (None, c\<lparr>c_pos := p, c_neg := n\<rparr>)))"

definition cache_set :: "string \<Rightarrow> cache_entry \<Rightarrow> auth_cache \<Rightarrow> auth_cache" where
  "cache_set key e c =
     (if e_ok e
      then c\<lparr>c_neg := tier_remove key (c_neg c), c_pos := tier_set key e (c_pos c)\<rparr>
      else c\<lparr>c_pos := tier_remove key (c_pos c), c_neg := tier_set key e (c_neg c)\<rparr>)"

definition cache_len :: "auth_cache \<Rightarrow> nat" where
  "cache_len c = length (t_ll (c_pos c)) + length (t_ll (c_neg c))"

subsection \<open>The cache invariant\<close>

text \<open>
  Positive and negative outcomes never share a tier, no key is in both tiers, and neither
  tier holds more than its cap. \<open>peek\<close> is the lookup without its effect on recency.
\<close>

definition pos_lookup :: "auth_cache \<Rightarrow> string \<Rightarrow> cache_entry option" where
  "pos_lookup c k = map_of (tier_entries (c_pos c)) k"

definition neg_lookup :: "auth_cache \<Rightarrow> string \<Rightarrow> cache_entry option" where
  "neg_lookup c k = map_of (tier_entries (c_neg c)) k"

definition peek :: "auth_cache \<Rightarrow> string \<Rightarrow> cache_entry option" where
  "peek c k = (case pos_lookup c k of Some e \<Rightarrow> Some e | None \<Rightarrow> neg_lookup c k)"

definition cache_inv :: "auth_cache \<Rightarrow> bool" where
  "cache_inv c \<longleftrightarrow> tier_inv (c_pos c) \<and> tier_inv (c_neg c)
     \<and> length (tier_entries (c_pos c)) \<le> tier_cap (c_pos c)
     \<and> length (tier_entries (c_neg c)) \<le> tier_cap (c_neg c)
     \<and> (\<forall>k e. pos_lookup c k = Some e \<longrightarrow> e_ok e \<and> neg_lookup c k = None)
     \<and> (\<forall>k e. neg_lookup c k = Some e \<longrightarrow> \<not> e_ok e)"

lemma cache_invD:
  assumes "cache_inv c"
  shows "tier_inv (c_pos c)" "tier_inv (c_neg c)"
    "length (tier_entries (c_pos c)) \<le> tier_cap (c_pos c)"
    "length (tier_entries (c_neg c)) \<le> tier_cap (c_neg c)"
    "pos_lookup c k = Some e \<Longrightarrow> e_ok e"
    "pos_lookup c k = Some e \<Longrightarrow> neg_lookup c k = None"
    "neg_lookup c k = Some e \<Longrightarrow> \<not> e_ok e"
  using assms unfolding cache_inv_def by auto

lemma capOr_pos: "0 < d \<Longrightarrow> 0 < capOr n d"
  by (simp add: capOr_def)

lemma cache_inv_newCache [inv_intros]: "cache_inv (newCache a b)"
  by (simp add: cache_inv_def newCache_def tier_inv_def capOr_pos defaultMaxPositiveEntries_def
      defaultMaxNegativeEntries_def pos_lookup_def neg_lookup_def tier_entries_def newLRUTier_def)

lemma tier_inv_new_max: "tier_inv t \<Longrightarrow> 0 < m \<Longrightarrow> tier_inv (t\<lparr>t_max := m\<rparr>)"
  by (simp add: tier_inv_def)

lemma tier_entries_new_max [simp]: "tier_entries (t\<lparr>t_max := m\<rparr>) = tier_entries t"
  by (simp add: tier_entries_def)

lemma setLimits_lookup:
  assumes "cache_inv c"
  shows "pos_lookup (setLimits a b c) k = Some e \<Longrightarrow> pos_lookup c k = Some e"
    and "neg_lookup (setLimits a b c) k = Some e \<Longrightarrow> neg_lookup c k = Some e"
  using tier_inv_new_max [OF cache_invD(1) [OF assms]] tier_inv_new_max [OF cache_invD(2) [OF assms]]
  by (auto simp: setLimits_def pos_lookup_def neg_lookup_def tier_evict_entries capOr_pos
      defaultMaxPositiveEntries_def defaultMaxNegativeEntries_def dest: map_of_take_Some)

lemma cache_inv_setLimits [inv_intros]:
  assumes "cache_inv c"
  shows "cache_inv (setLimits a b c)"
proof -
  let ?p = "(c_pos c)\<lparr>t_max := capOr a defaultMaxPositiveEntries\<rparr>"
  let ?n = "(c_neg c)\<lparr>t_max := capOr b defaultMaxNegativeEntries\<rparr>"
  have p: "tier_inv ?p" and n: "tier_inv ?n"
    using cache_invD(1,2) [OF assms]
    by (auto intro!: tier_inv_new_max simp: capOr_pos defaultMaxPositiveEntries_def defaultMaxNegativeEntries_def)
  have "neg_lookup (setLimits a b c) k = None" if "pos_lookup (setLimits a b c) k = Some e" for k e
    using setLimits_lookup [OF assms] cache_invD(6) [OF assms] that
    by (metis not_None_eq)
  moreover have "length (tier_entries (tier_evict ?p)) \<le> tier_cap (tier_evict ?p)"
    "length (tier_entries (tier_evict ?n)) \<le> tier_cap (tier_evict ?n)"
    using lru.size_evict [OF p] lru.size_evict [OF n] by (simp_all add: tier_cap_def frame_simps)
  moreover have "c_pos (setLimits a b c) = tier_evict ?p" "c_neg (setLimits a b c) = tier_evict ?n"
    by (simp_all add: setLimits_def)
  moreover have "tier_inv (tier_evict ?p)" "tier_inv (tier_evict ?n)"
    using p n by (auto intro: inv_intros)
  moreover have "e_ok e" if "pos_lookup (setLimits a b c) k = Some e" for k e
    using setLimits_lookup(1) [OF assms that] by (rule cache_invD(5) [OF assms])
  moreover have "\<not> e_ok e" if "neg_lookup (setLimits a b c) k = Some e" for k e
    using setLimits_lookup(2) [OF assms that] by (rule cache_invD(7) [OF assms])
  ultimately show ?thesis
    unfolding cache_inv_def by metis
qed

lemma cache_get_lookup:
  assumes "cache_inv c"
  shows "pos_lookup (snd (cache_get now k c)) k' = pos_lookup c k'"
    and "neg_lookup (snd (cache_get now k c)) k' = neg_lookup c k'"
    and "fst (cache_get now k c) = map_option (\<lambda>e. (e, now < e_expires_at e)) (peek c k)"
  using lru.get_result [OF cache_invD(1) [OF assms]] lru.get_result [OF cache_invD(2) [OF assms]]
    lru.lookup_get [OF cache_invD(1) [OF assms]] lru.lookup_get [OF cache_invD(2) [OF assms]]
  by (auto simp: cache_get_def peek_def pos_lookup_def neg_lookup_def split: prod.split option.splits)
     (metis fst_conv snd_conv option.simps)+

lemma cache_get_tiers:
  "c_pos (snd (cache_get now k c)) = snd (tier_get k (c_pos c))"
  "c_neg (snd (cache_get now k c)) \<in> {c_neg c, snd (tier_get k (c_neg c))}"
  by (auto simp: cache_get_def split: prod.split option.splits)

lemma cache_inv_get [inv_intros]:
  assumes "cache_inv c" shows "cache_inv (snd (cache_get now k c))"
proof -
  note D = cache_invD [OF assms]
  have "tier_inv (c_pos (snd (cache_get now k c)))"
    "length (tier_entries (c_pos (snd (cache_get now k c)))) \<le> tier_cap (c_pos (snd (cache_get now k c)))"
    using D(1,3) lru.size_get [OF D(1), of k]
    by (auto simp: cache_get_tiers lru.get_cap intro: tier_inv_get)
  moreover have "tier_inv (c_neg (snd (cache_get now k c)))"
    "length (tier_entries (c_neg (snd (cache_get now k c)))) \<le> tier_cap (c_neg (snd (cache_get now k c)))"
    using D(2,4) lru.size_get [OF D(2), of k] cache_get_tiers(2) [of now k c]
    by (auto simp: lru.get_cap intro: tier_inv_get)
  ultimately show ?thesis
    using D(5-7) unfolding cache_inv_def by (auto simp: cache_get_lookup [OF assms])
qed

lemma cache_set_lookup:
  assumes "cache_inv c"
  shows "peek (cache_set k e c) k = Some e"
    and "pos_lookup (cache_set k e c) k = (if e_ok e then Some e else None)"
    and "neg_lookup (cache_set k e c) k = (if e_ok e then None else Some e)"
    and "k' \<noteq> k \<Longrightarrow> pos_lookup (cache_set k e c) k' = Some v \<Longrightarrow> pos_lookup c k' = Some v"
    and "k' \<noteq> k \<Longrightarrow> neg_lookup (cache_set k e c) k' = Some v \<Longrightarrow> neg_lookup c k' = Some v"
  using cache_invD(1,2) [OF assms]
  by (auto simp: cache_set_def peek_def pos_lookup_def neg_lookup_def lru.lookup_put_same
        lru.lookup_remove split: if_splits option.splits dest: lru.lookup_put_other)

lemma cache_inv_set [inv_intros]:
  assumes "cache_inv c" shows "cache_inv (cache_set k e c)"
proof -
  note D = cache_invD [OF assms] and L = cache_set_lookup [OF assms, where k = k and e = e]
  have t: "tier_inv (c_pos (cache_set k e c))" "tier_inv (c_neg (cache_set k e c))"
    using D(1,2) by (auto simp: cache_set_def intro: inv_intros)
  have s: "length (tier_entries (c_pos (cache_set k e c))) \<le> tier_cap (c_pos (cache_set k e c))"
    "length (tier_entries (c_neg (cache_set k e c))) \<le> tier_cap (c_neg (cache_set k e c))"
    using D(1-4) lru.size_put [OF D(1,3)] lru.size_put [OF D(2,4)]
      lru.size_remove [OF D(1), of k] lru.size_remove [OF D(2), of k]
    by (auto simp: cache_set_def lru.put_cap lru.remove_cap)
  have p: "e_ok v \<and> neg_lookup (cache_set k e c) k' = None"
    if h: "pos_lookup (cache_set k e c) k' = Some v" for k' v
  proof (cases "k' = k")
    case True
    with h L(2,3) show ?thesis by (auto split: if_splits)
  next
    case False
    then have "pos_lookup c k' = Some v" using L(4) h by blast
    then have "e_ok v" "neg_lookup c k' = None" using D(5,6) by blast+
    then show ?thesis
      using L(5) [OF False] by (cases "neg_lookup (cache_set k e c) k'") auto
  qed
  have n: "\<not> e_ok v" if h: "neg_lookup (cache_set k e c) k' = Some v" for k' v
  proof (cases "k' = k")
    case True
    with h L(3) show ?thesis by (auto split: if_splits)
  next
    case False
    show ?thesis by (rule D(7) [OF L(5) [OF False h]])
  qed
  show ?thesis unfolding cache_inv_def using t s p n by blast
qed

subsection \<open>Operation sequences\<close>

text \<open>
  Every exported operation holds the cache's mutex for its whole body, so concurrent
  requests act as an interleaving of whole operations: a sequence of \<open>cache_op\<close>s.
\<close>

datatype cache_op = OpGet int string | OpSet string cache_entry | OpLimits int int

fun cache_step :: "auth_cache \<Rightarrow> cache_op \<Rightarrow> auth_cache" where
  "cache_step c (OpGet now k) = snd (cache_get now k c)"
| "cache_step c (OpSet k e) = cache_set k e c"
| "cache_step c (OpLimits a b) = setLimits a b c"

definition cache_run :: "auth_cache \<Rightarrow> cache_op list \<Rightarrow> auth_cache" where
  "cache_run c ops = foldl cache_step c ops"

lemma cache_step_inv [inv_intros]: "cache_inv c \<Longrightarrow> cache_inv (cache_step c op)"
  by (cases op) (auto intro: inv_intros)

lemma cache_run_keeps_inv [inv_intros]: "cache_inv c \<Longrightarrow> cache_inv (cache_run c ops)"
  unfolding cache_run_def by (induction ops arbitrary: c) (auto intro: inv_intros)

text \<open>Traffic that must not disturb the positive entry of \<open>k\<close>.\<close>

fun negative_traffic :: "string \<Rightarrow> int \<Rightarrow> int \<Rightarrow> cache_op \<Rightarrow> bool" where
  "negative_traffic k a b (OpGet _ _) = True"
| "negative_traffic k a b (OpSet k' e) = (k' \<noteq> k \<and> \<not> e_ok e)"
| "negative_traffic k a b (OpLimits a' b') = (a' = a \<and> b' = b)"

lemma negative_step_keeps_positive:
  assumes inv: "cache_inv c" and cap: "t_max (c_pos c) = capOr a defaultMaxPositiveEntries"
    and "negative_traffic k a b op" and "pos_lookup c k = Some e"
  shows "pos_lookup (cache_step c op) k = Some e"
    and "t_max (c_pos (cache_step c op)) = capOr a defaultMaxPositiveEntries"
proof -
  note D = cache_invD [OF inv]
  have "pos_lookup (cache_step c op) k = Some e
    \<and> t_max (c_pos (cache_step c op)) = capOr a defaultMaxPositiveEntries"
  proof (cases op)
    case (OpGet now k')
    with assms show ?thesis
      by (simp add: cache_get_lookup [OF inv] cache_get_tiers frame_simps)
  next
    case (OpSet k' e')
    with assms show ?thesis
      by (auto simp: cache_set_def pos_lookup_def lru.lookup_remove [OF D(1)] frame_simps)
  next
    case (OpLimits a' b')
    with assms have "a' = a" by simp
    have same: "(c_pos c)\<lparr>t_max := capOr a defaultMaxPositiveEntries\<rparr> = c_pos c"
      using cap by simp
    show ?thesis
      using OpLimits \<open>a' = a\<close> assms(4) cap lru.evict_id [OF D(1,3)]
      by (simp add: setLimits_def pos_lookup_def frame_simps same)
  qed
  then show "pos_lookup (cache_step c op) k = Some e"
    and "t_max (c_pos (cache_step c op)) = capOr a defaultMaxPositiveEntries" by simp_all
qed

lemma negative_run_keeps_positive:
  "cache_inv c \<Longrightarrow> t_max (c_pos c) = capOr a defaultMaxPositiveEntries
     \<Longrightarrow> list_all (negative_traffic k a b) ops \<Longrightarrow> pos_lookup c k = Some e
     \<Longrightarrow> pos_lookup (cache_run c ops) k = Some e"
  unfolding cache_run_def
proof (induction ops arbitrary: c)
  case Nil
  then show ?case by simp
next
  case (Cons op ops)
  have op: "negative_traffic k a b op" and ops: "list_all (negative_traffic k a b) ops"
    using Cons.prems(3) by simp_all
  note st = negative_step_keeps_positive [OF Cons.prems(1,2) op Cons.prems(4)]
  show ?case
    using Cons.IH [OF cache_step_inv [OF Cons.prems(1)] st(2) ops st(1)] by simp
qed

end
