(* ===== verification/GoBase64.thy ===== *)
theory GoBase64
  imports GoStrings
begin

text \<open>
  The standard alphabet of Go's \<open>encoding/base64\<close>, as far as the program decodes it: the HTTP
  Basic credential.
\<close>

definition b64_value :: "char \<Rightarrow> nat option" where
  "b64_value c =
     (if is_upper c then Some (byte c - 65)
      else if is_lower c then Some (byte c - 97 + 26)
      else if is_digit c then Some (byte c - 48 + 52)
      else if c = CHR ''+'' then Some 62
      else if c = CHR ''/'' then Some 63
      else None)"

definition b64_pad :: char where "b64_pad = CHR ''=''"

fun b64_quads :: "string \<Rightarrow> string option" where
  "b64_quads [] = Some []"
| "b64_quads (a # b # c # d # rest) =
     (case (b64_value a, b64_value b) of
        (Some x, Some y) \<Rightarrow>
          (if d = b64_pad then
             (if rest \<noteq> [] then None
              else if c = b64_pad then Some [char_of (x * 4 + y div 16)]
              else case b64_value c of
                     None \<Rightarrow> None
                   | Some z \<Rightarrow> Some [char_of (x * 4 + y div 16), char_of ((y mod 16) * 16 + z div 4)])
           else
             (case (b64_value c, b64_value d) of
                (Some z, Some w) \<Rightarrow>
                  map_option (\<lambda>out. [char_of (x * 4 + y div 16), char_of ((y mod 16) * 16 + z div 4),
                                     char_of ((z mod 4) * 64 + w)] @ out) (b64_quads rest)
              | _ \<Rightarrow> None))
      | _ \<Rightarrow> None)"
| "b64_quads _ = None"

text \<open>The decoder skips carriage returns and line feeds wherever they stand.\<close>

definition b64_decode :: "string \<Rightarrow> string option" where
  "b64_decode s = b64_quads (filter (\<lambda>c. byte c \<noteq> 10 \<and> byte c \<noteq> 13) s)"

end
