(* ===== verification/Auth.thy ===== *)
theory Auth
  imports Auth_Cache GoBase64
begin

text \<open>
  Credential validation: \<open>internal/platform/auth/auth.go\<close> and \<open>forwarder.go\<close>, and the
  HTTP handler \<open>cmd/authd/handler.go\<close> over it. The remote validator and the keyed hash
  are arguments: \<open>up url header\<close> is what the validator answered (nothing at all, or an
  HTTP status) and \<open>hmac pepper msg\<close> is the hex HMAC of \<open>msg\<close>.
\<close>

subsection \<open>Errors\<close>

datatype reject_reason =
    NoAuthorizationHeader | NoSchemeDelimiter | SchemeNotBasic | NotBase64 | NotSystemIdSecret
  | ValidatorRejected string | CachedRejection string

datatype auth_error =
    ErrInvalidCredentials reject_reason
  | ErrForbidden string string
  | ErrUnavailable string nat

subsection \<open>Parsing the header\<close>

definition basic_prefix :: string where "basic_prefix = ''Basic ''"

definition ParseBasic :: "string \<Rightarrow> auth_error + (string \<times> string)" where
  "ParseBasic authHeader =
     (if authHeader = [] then Inl (ErrInvalidCredentials NoAuthorizationHeader)
      else if \<not> has_prefix authHeader basic_prefix then
        (if CHR '' '' \<notin> set authHeader then Inl (ErrInvalidCredentials NoSchemeDelimiter)
         else Inl (ErrInvalidCredentials SchemeNotBasic))
      else case b64_decode (trim_prefix authHeader basic_prefix) of
             None \<Rightarrow> Inl (ErrInvalidCredentials NotBase64)
           | Some decoded \<Rightarrow>
               (case cut (CHR '':'') decoded of
                  None \<Rightarrow> Inl (ErrInvalidCredentials NotSystemIdSecret)
                | Some (systemID, secret) \<Rightarrow> Inr (systemID, secret)))"

lemma ParseBasic_no_colon: "ParseBasic h = Inr (systemID, secret) \<Longrightarrow> CHR '':'' \<notin> set systemID"
  by (auto simp: ParseBasic_def cut_Some split: if_splits option.splits)

lemma ParseBasic_error: "ParseBasic h = Inl e \<Longrightarrow> \<exists>r. e = ErrInvalidCredentials r"
  by (auto simp: ParseBasic_def split: if_splits option.splits prod.splits)

subsection \<open>The forwarder\<close>

datatype outcome = OutcomeValid | OutcomeInvalid | OutcomeForbidden | OutcomeUnavailable

datatype http_answer = NoAnswer | Answer nat

record check_result =
  r_outcome :: outcome
  r_status :: nat

text \<open>
  \<open>forwarder.check\<close>: the status decides, and only 200, 401 and 403 are verdicts. The
  redirect target of a 3xx, which only feeds an error text, is left out.
\<close>

definition fwd_check :: "(string \<Rightarrow> string \<Rightarrow> http_answer) \<Rightarrow> string \<Rightarrow> string \<Rightarrow> check_result" where
  "fwd_check up url authHeader =
     (case up url authHeader of
        NoAnswer \<Rightarrow> \<lparr>r_outcome = OutcomeUnavailable, r_status = 0\<rparr>
      | Answer st \<Rightarrow>
          (if st = 200 then \<lparr>r_outcome = OutcomeValid, r_status = 0\<rparr>
           else if st = 401 then \<lparr>r_outcome = OutcomeInvalid, r_status = 0\<rparr>
           else if st = 403 then \<lparr>r_outcome = OutcomeForbidden, r_status = 0\<rparr>
           else \<lparr>r_outcome = OutcomeUnavailable, r_status = st\<rparr>))"

lemma fwd_check_valid: "r_outcome (fwd_check up u h) = OutcomeValid \<longleftrightarrow> up u h = Answer 200"
  by (auto simp: fwd_check_def split: http_answer.splits)

subsection \<open>Validation against the cache and the validator\<close>

record forward_auth =
  PositiveTTL :: int
  NegativeTTL :: int
  MaxPositiveEntries :: int
  MaxNegativeEntries :: int
  pepper :: string
  base_url :: string

datatype upstream_label = UpstreamValid | UpstreamInvalid | UpstreamForbidden | UpstreamUnavailable

datatype auth_metric = CacheHit | CacheMiss | Upstream upstream_label

definition cacheKeyText :: "string \<Rightarrow> string \<Rightarrow> string \<Rightarrow> string" where
  "cacheKeyText service systemID secret = service @ [NUL] @ systemID @ [CHR '':''] @ secret"

definition cacheKey :: "(string \<Rightarrow> string \<Rightarrow> string) \<Rightarrow> forward_auth \<Rightarrow> string \<Rightarrow> string \<Rightarrow> string \<Rightarrow> string" where
  "cacheKey hmac a service systemID secret = hmac (pepper a) (cacheKeyText service systemID secret)"

text \<open>\<open>url.PathEscape\<close>: percent-encoding of the bytes a path segment may not hold.\<close>

definition hex_digit :: "nat \<Rightarrow> char" where
  "hex_digit n = char_of (if n < 10 then 48 + n else 55 + n)"

definition path_safe :: "char \<Rightarrow> bool" where
  "path_safe c \<longleftrightarrow> is_digit c \<or> is_lower c \<or> is_upper c \<or> c \<in> set ''-_.~$&+:=@''"

definition path_escape :: "string \<Rightarrow> string" where
  "path_escape s = concat (map (\<lambda>c. if path_safe c then [c]
     else [CHR ''%'', hex_digit (byte c div 16), hex_digit (byte c mod 16)]) s)"

definition validateURL :: "forward_auth \<Rightarrow> string \<Rightarrow> string" where
  "validateURL a service =
     (if service = [] then base_url a
      else trim_suffix (base_url a) ''/'' @ ''/service/'' @ path_escape service)"

definition unavailableErr :: "string \<Rightarrow> check_result \<Rightarrow> auth_error" where
  "unavailableErr systemID r = ErrUnavailable systemID (r_status r)"

definition outcomeFromEntry :: "cache_entry \<Rightarrow> string \<Rightarrow> string \<Rightarrow> auth_error + string" where
  "outcomeFromEntry e systemID service =
     (if e_ok e then Inr (e_system_id e)
      else if e_forbidden e then Inl (ErrForbidden systemID service)
      else Inl (ErrInvalidCredentials (CachedRejection systemID)))"

definition pos_entry :: "string \<Rightarrow> int \<Rightarrow> cache_entry" where
  "pos_entry systemID t = \<lparr>e_ok = True, e_forbidden = False, e_system_id = systemID, e_expires_at = t\<rparr>"

definition neg_entry :: "bool \<Rightarrow> int \<Rightarrow> cache_entry" where
  "neg_entry forbidden t = \<lparr>e_ok = False, e_forbidden = forbidden, e_system_id = [], e_expires_at = t\<rparr>"

text \<open>
  \<open>Validate\<close>. \<open>now0\<close> is the clock at the lookup and \<open>now1\<close> the clock after the
  validator answered. The result carries the counters reported, in order.
\<close>

definition Validate ::
  "(string \<Rightarrow> string \<Rightarrow> string) \<Rightarrow> (string \<Rightarrow> string \<Rightarrow> http_answer) \<Rightarrow> forward_auth
     \<Rightarrow> int \<Rightarrow> int \<Rightarrow> string \<Rightarrow> string \<Rightarrow> auth_cache
     \<Rightarrow> (auth_error + string) \<times> auth_cache \<times> auth_metric list" where
  "Validate hmac up a now0 now1 authHeader service c =
     (case ParseBasic authHeader of
        Inl e \<Rightarrow> (Inl e, c, [])
      | Inr (systemID, secret) \<Rightarrow>
          (let key = cacheKey hmac a service systemID secret;
               c1 = setLimits (MaxPositiveEntries a) (MaxNegativeEntries a) c;
               (hit, c2) = cache_get now0 key c1
           in case hit of
                Some (e, True) \<Rightarrow> (outcomeFromEntry e systemID service, c2, [CacheHit])
              | _ \<Rightarrow>
                  (let result = fwd_check up (validateURL a service) authHeader
                   in case r_outcome result of
                        OutcomeValid \<Rightarrow>
                          (Inr systemID,
                           cache_set key (pos_entry systemID (now1 + PositiveTTL a)) c2,
                           [CacheMiss, Upstream UpstreamValid])
                      | OutcomeInvalid \<Rightarrow>
                          (Inl (ErrInvalidCredentials (ValidatorRejected systemID)),
                           cache_set key (neg_entry False (now1 + NegativeTTL a)) c2,
                           [CacheMiss, Upstream UpstreamInvalid])
                      | OutcomeForbidden \<Rightarrow>
                          (Inl (ErrForbidden systemID service),
                           cache_set key (neg_entry True (now1 + NegativeTTL a)) c2,
                           [CacheMiss, Upstream UpstreamForbidden])
                      | OutcomeUnavailable \<Rightarrow>
                          (case cache_get now1 key c2 of
                             (Some (e, _), c3) \<Rightarrow>
                               (outcomeFromEntry e systemID service, c3,
                                [CacheMiss, Upstream UpstreamUnavailable])
                           | (None, c3) \<Rightarrow>
                               (Inl (unavailableErr systemID result), c3,
                                [CacheMiss, Upstream UpstreamUnavailable])))))"

subsection \<open>The verdict as a function of the cache's contents\<close>

definition limited :: "forward_auth \<Rightarrow> auth_cache \<Rightarrow> auth_cache" where
  "limited a c = setLimits (MaxPositiveEntries a) (MaxNegativeEntries a) c"

lemma limited_inv [inv_intros]: "cache_inv c \<Longrightarrow> cache_inv (limited a c)"
  by (simp add: limited_def inv_intros)

lemma cache_get_cases:
  assumes "cache_inv c"
  obtains (miss) c' where "cache_get now k c = (None, c')" "peek c k = None"
  | (hit) e c' where "cache_get now k c = (Some (e, now < e_expires_at e), c')" "peek c k = Some e"
proof (cases "peek c k")
  case None
  with cache_get_lookup(3) [OF assms, of now k] miss [of "snd (cache_get now k c)"] show ?thesis
    by (cases "cache_get now k c") auto
next
  case (Some e)
  with cache_get_lookup(3) [OF assms, of now k] hit [of e "snd (cache_get now k c)"] show ?thesis
    by (cases "cache_get now k c") auto
qed

lemma peek_get: "cache_inv c \<Longrightarrow> peek (snd (cache_get now k c)) k' = peek c k'"
  by (simp add: peek_def cache_get_lookup split: option.split)

lemma Validate_parse_error:
  "ParseBasic h = Inl e \<Longrightarrow> Validate hmac up a now0 now1 h service c = (Inl e, c, [])"
  by (simp add: Validate_def)

lemma Validate_fresh:
  assumes "cache_inv c" "ParseBasic h = Inr (systemID, secret)"
    and "peek (limited a c) (cacheKey hmac a service systemID secret) = Some e"
    and "now0 < e_expires_at e"
  shows "Validate hmac up a now0 now1 h service c =
    (outcomeFromEntry e systemID service,
     snd (cache_get now0 (cacheKey hmac a service systemID secret) (limited a c)), [CacheHit])"
proof -
  have "fst (cache_get now0 (cacheKey hmac a service systemID secret) (limited a c)) = Some (e, True)"
    using assms by (simp add: cache_get_lookup inv_intros)
  then show ?thesis
    using assms(2) by (cases "cache_get now0 (cacheKey hmac a service systemID secret) (limited a c)")
      (simp add: Validate_def Let_def limited_def [symmetric])
qed

text \<open>Not fresh: the validator is asked, and its answer is cached unless it is no verdict.\<close>

definition not_fresh :: "auth_cache \<Rightarrow> string \<Rightarrow> int \<Rightarrow> bool" where
  "not_fresh c k now \<longleftrightarrow> (\<forall>e. peek c k = Some e \<longrightarrow> \<not> now < e_expires_at e)"

definition asked_result ::
  "forward_auth \<Rightarrow> string \<Rightarrow> string \<Rightarrow> string \<Rightarrow> check_result \<Rightarrow> int \<Rightarrow> auth_cache
     \<Rightarrow> (auth_error + string) \<times> auth_cache \<times> auth_metric list" where
  "asked_result a key systemID service result now1 c2 =
     (case r_outcome result of
        OutcomeValid \<Rightarrow> (Inr systemID, cache_set key (pos_entry systemID (now1 + PositiveTTL a)) c2,
                        [CacheMiss, Upstream UpstreamValid])
      | OutcomeInvalid \<Rightarrow> (Inl (ErrInvalidCredentials (ValidatorRejected systemID)),
                          cache_set key (neg_entry False (now1 + NegativeTTL a)) c2,
                          [CacheMiss, Upstream UpstreamInvalid])
      | OutcomeForbidden \<Rightarrow> (Inl (ErrForbidden systemID service),
                            cache_set key (neg_entry True (now1 + NegativeTTL a)) c2,
                            [CacheMiss, Upstream UpstreamForbidden])
      | OutcomeUnavailable \<Rightarrow>
          (case peek c2 key of
             Some e \<Rightarrow> (outcomeFromEntry e systemID service, snd (cache_get now1 key c2),
                        [CacheMiss, Upstream UpstreamUnavailable])
           | None \<Rightarrow> (Inl (unavailableErr systemID result), snd (cache_get now1 key c2),
                       [CacheMiss, Upstream UpstreamUnavailable])))"

lemma Validate_asked:
  assumes inv: "cache_inv c" and p: "ParseBasic h = Inr (systemID, secret)"
    and nf: "not_fresh (limited a c) (cacheKey hmac a service systemID secret) now0"
  shows "Validate hmac up a now0 now1 h service c =
    asked_result a (cacheKey hmac a service systemID secret) systemID service
      (fwd_check up (validateURL a service) h) now1
      (snd (cache_get now0 (cacheKey hmac a service systemID secret) (limited a c)))"
proof -
  let ?k = "cacheKey hmac a service systemID secret"
  have L: "cache_inv (limited a c)" using inv by (rule limited_inv)
  have G: "cache_inv (snd (cache_get now0 ?k (limited a c)))" using L by (rule cache_inv_get)
  have "Validate hmac up a now0 now1 h service c =
    (let result = fwd_check up (validateURL a service) h; c2 = snd (cache_get now0 ?k (limited a c))
     in case r_outcome result of
          OutcomeValid \<Rightarrow> asked_result a ?k systemID service result now1 c2
        | OutcomeInvalid \<Rightarrow> asked_result a ?k systemID service result now1 c2
        | OutcomeForbidden \<Rightarrow> asked_result a ?k systemID service result now1 c2
        | OutcomeUnavailable \<Rightarrow>
            (case cache_get now1 ?k c2 of
               (Some (e, _), c3) \<Rightarrow> (outcomeFromEntry e systemID service, c3,
                                    [CacheMiss, Upstream UpstreamUnavailable])
             | (None, c3) \<Rightarrow> (Inl (unavailableErr systemID result), c3,
                              [CacheMiss, Upstream UpstreamUnavailable])))"
    using L
  proof (cases rule: cache_get_cases [where now = now0 and k = ?k])
    case (miss c')
    then show ?thesis using p
      by (simp add: Validate_def Let_def limited_def [symmetric] asked_result_def split: outcome.split)
  next
    case (hit e c')
    moreover from hit nf have "(now0 < e_expires_at e) = False" by (simp add: not_fresh_def)
    ultimately show ?thesis using p
      by (simp add: Validate_def Let_def limited_def [symmetric] asked_result_def split: outcome.split)
  qed
  also have "\<dots> = asked_result a ?k systemID service (fwd_check up (validateURL a service) h) now1
      (snd (cache_get now0 ?k (limited a c)))"
    using G
    by (cases rule: cache_get_cases [where now = now1 and k = ?k])
       (auto simp: asked_result_def Let_def split: outcome.split)
  finally show ?thesis .
qed

lemma fresh_or_asked:
  obtains (fresh) e where "peek c k = Some e" "now < e_expires_at e" | (asked) "not_fresh c k now"
  by (auto simp: not_fresh_def)

lemma Validate_cases [consumes 1, case_names parse fresh asked]:
  assumes inv: "cache_inv c"
    and parse: "\<And>e. ParseBasic h = Inl e
      \<Longrightarrow> P (Inl e, c, [])"
    and fresh: "\<And>systemID secret e. ParseBasic h = Inr (systemID, secret)
      \<Longrightarrow> peek (limited a c) (cacheKey hmac a service systemID secret) = Some e
      \<Longrightarrow> now0 < e_expires_at e
      \<Longrightarrow> P (outcomeFromEntry e systemID service,
             snd (cache_get now0 (cacheKey hmac a service systemID secret) (limited a c)), [CacheHit])"
    and asked: "\<And>systemID secret. ParseBasic h = Inr (systemID, secret)
      \<Longrightarrow> not_fresh (limited a c) (cacheKey hmac a service systemID secret) now0
      \<Longrightarrow> P (asked_result a (cacheKey hmac a service systemID secret) systemID service
             (fwd_check up (validateURL a service) h) now1
             (snd (cache_get now0 (cacheKey hmac a service systemID secret) (limited a c))))"
  shows "P (Validate hmac up a now0 now1 h service c)"
proof (cases "ParseBasic h")
  case (Inl e)
  then show ?thesis using parse by (simp add: Validate_parse_error)
next
  case (Inr p)
  obtain systemID secret where p: "ParseBasic h = Inr (systemID, secret)"
    using Inr by (cases p) simp
  show ?thesis
  proof (cases rule: fresh_or_asked [of "limited a c" "cacheKey hmac a service systemID secret" now0])
    case (fresh e)
    then show ?thesis using assms(3) [OF p] by (simp add: Validate_fresh [OF inv p])
  next
    case asked
    then show ?thesis using assms(4) [OF p] by (simp add: Validate_asked [OF inv p])
  qed
qed

text \<open>A request changes the cache through the cache's own operations only.\<close>

lemma asked_inv: "cache_inv c \<Longrightarrow> cache_inv (fst (snd (asked_result a k i s r t c)))"
  by (auto simp: asked_result_def intro: inv_intros split: outcome.split option.split)

lemma Validate_inv [inv_intros]:
  assumes "cache_inv c"
  shows "cache_inv (fst (snd (Validate hmac up a now0 now1 h service c)))"
  by (rule Validate_cases [OF assms, where P = "\<lambda>r. cache_inv (fst (snd r))"])
     (use assms in \<open>auto intro!: asked_inv intro: inv_intros\<close>)

subsection \<open>Histories of requests\<close>

record auth_request =
  rq_now0 :: int
  rq_now1 :: int
  rq_header :: string
  rq_service :: string
  rq_up :: "string \<Rightarrow> string \<Rightarrow> http_answer"

definition auth_answer ::
  "(string \<Rightarrow> string \<Rightarrow> string) \<Rightarrow> forward_auth \<Rightarrow> auth_cache \<Rightarrow> auth_request
     \<Rightarrow> (auth_error + string) \<times> auth_cache \<times> auth_metric list" where
  "auth_answer hmac a c rq =
     Validate hmac (rq_up rq) a (rq_now0 rq) (rq_now1 rq) (rq_header rq) (rq_service rq) c"

definition auth_run ::
  "(string \<Rightarrow> string \<Rightarrow> string) \<Rightarrow> forward_auth \<Rightarrow> auth_cache \<Rightarrow> auth_request list \<Rightarrow> auth_cache" where
  "auth_run hmac a c rqs = foldl (\<lambda>c rq. fst (snd (auth_answer hmac a c rq))) c rqs"

lemma auth_answer_fresh:
  assumes "cache_inv c" "ParseBasic (rq_header rq) = Inr (systemID, secret)"
    and "peek (limited a c) (cacheKey hmac a (rq_service rq) systemID secret) = Some e"
    and "rq_now0 rq < e_expires_at e"
  shows "fst (auth_answer hmac a c rq) = outcomeFromEntry e systemID (rq_service rq)"
  unfolding auth_answer_def by (simp add: Validate_fresh [OF assms])

lemma auth_answer_asked:
  assumes "cache_inv c" "ParseBasic (rq_header rq) = Inr (systemID, secret)"
    and "not_fresh (limited a c) (cacheKey hmac a (rq_service rq) systemID secret) (rq_now0 rq)"
  shows "auth_answer hmac a c rq =
    asked_result a (cacheKey hmac a (rq_service rq) systemID secret) systemID (rq_service rq)
      (fwd_check (rq_up rq) (validateURL a (rq_service rq)) (rq_header rq)) (rq_now1 rq)
      (snd (cache_get (rq_now0 rq) (cacheKey hmac a (rq_service rq) systemID secret) (limited a c)))"
  unfolding auth_answer_def by (rule Validate_asked [OF assms])

lemma auth_run_snoc:
  "auth_run hmac a c (rqs @ [rq]) = fst (snd (auth_answer hmac a (auth_run hmac a c rqs) rq))"
  by (simp add: auth_run_def)

lemma auth_run_inv [inv_intros]: "cache_inv c \<Longrightarrow> cache_inv (auth_run hmac a c rqs)"
  by (induction rqs rule: rev_induct) (simp_all add: auth_run_snoc auth_answer_def inv_intros,
      simp add: auth_run_def)

text \<open>
  The validator answered 200 for the credential of \<open>rq\<close> under the service of \<open>rq\<close>, whose
  cache key is \<open>k\<close> and whose system is \<open>systemID\<close>.
\<close>

definition granted ::
  "(string \<Rightarrow> string \<Rightarrow> string) \<Rightarrow> forward_auth \<Rightarrow> string \<Rightarrow> string \<Rightarrow> auth_request \<Rightarrow> bool" where
  "granted hmac a k systemID rq \<longleftrightarrow>
     (case ParseBasic (rq_header rq) of
        Inl _ \<Rightarrow> False
      | Inr (i, secret) \<Rightarrow> i = systemID \<and> cacheKey hmac a (rq_service rq) i secret = k
          \<and> rq_up rq (validateURL a (rq_service rq)) (rq_header rq) = Answer 200)"

lemma granted_iff:
  "granted hmac a k i rq \<longleftrightarrow> (\<exists>s. ParseBasic (rq_header rq) = Inr (i, s)
     \<and> cacheKey hmac a (rq_service rq) i s = k
     \<and> rq_up rq (validateURL a (rq_service rq)) (rq_header rq) = Answer 200)"
  by (cases "ParseBasic (rq_header rq)") (auto simp: granted_def)

lemma asked_pos_lookup:
  assumes inv: "cache_inv c" and "pos_lookup (fst (snd (asked_result a k i s r t c))) k' = Some e"
  shows "pos_lookup c k' = Some e \<or> k' = k \<and> r_outcome r = OutcomeValid \<and> e_system_id e = i"
proof (cases "r_outcome r")
  case OutcomeValid
  with assms show ?thesis
    by (cases "k' = k")
       (auto simp: asked_result_def cache_set_lookup(2) [OF inv] pos_entry_def
         dest: cache_set_lookup(4) [OF inv])
next
  case OutcomeInvalid
  with assms show ?thesis
    by (cases "k' = k")
       (auto simp: asked_result_def cache_set_lookup(2) [OF inv] neg_entry_def
         dest: cache_set_lookup(4) [OF inv])
next
  case OutcomeForbidden
  with assms show ?thesis
    by (cases "k' = k")
       (auto simp: asked_result_def cache_set_lookup(2) [OF inv] neg_entry_def
         dest: cache_set_lookup(4) [OF inv])
next
  case OutcomeUnavailable
  with assms show ?thesis
    by (auto simp: asked_result_def cache_get_lookup [OF inv] split: option.splits)
qed

lemma Validate_pos_lookup:
  assumes inv: "cache_inv c"
    and "pos_lookup (fst (snd (auth_answer hmac a c rq))) k = Some e"
  shows "pos_lookup c k = Some e \<or> granted hmac a k (e_system_id e) rq"
proof -
  note L = limited_inv [OF inv, of a]
  have lim: "pos_lookup (limited a c) k = Some e \<Longrightarrow> pos_lookup c k = Some e"
    unfolding limited_def by (rule setLimits_lookup(1) [OF inv])
  have "pos_lookup (fst (snd (auth_answer hmac a c rq))) k = Some e
    \<longrightarrow> pos_lookup c k = Some e \<or> granted hmac a k (e_system_id e) rq"
    unfolding auth_answer_def
  proof (rule Validate_cases [OF inv, where P = "\<lambda>r. pos_lookup (fst (snd r)) k = Some e
      \<longrightarrow> pos_lookup c k = Some e \<or> granted hmac a k (e_system_id e) rq"], goal_cases)
    case (1 e)
    then show ?case by simp
  next
    case (2 i s e)
    then show ?case using lim by (simp add: cache_get_lookup [OF L])
  next
    case asked: (3 i s)
    show ?case
    proof
      assume "pos_lookup (fst (snd (asked_result a (cacheKey hmac a (rq_service rq) i s) i (rq_service rq)
         (fwd_check (rq_up rq) (validateURL a (rq_service rq)) (rq_header rq)) (rq_now1 rq)
         (snd (cache_get (rq_now0 rq) (cacheKey hmac a (rq_service rq) i s) (limited a c)))))) k = Some e"
      from asked_pos_lookup [OF cache_inv_get [OF L] this] asked lim
      show "pos_lookup c k = Some e \<or> granted hmac a k (e_system_id e) rq"
        by (auto simp: cache_get_lookup [OF L] granted_def fwd_check_valid)
    qed
  qed
  with assms(2) show ?thesis by blast
qed

lemma auth_run_pos_granted:
  assumes "pos_lookup (auth_run hmac a (newCache m n) rqs) k = Some e"
  shows "\<exists>rq \<in> set rqs. granted hmac a k (e_system_id e) rq"
  using assms
proof (induction rqs rule: rev_induct)
  case Nil
  then show ?case by (simp add: auth_run_def newCache_def newLRUTier_def pos_lookup_def tier_entries_def)
next
  case (snoc rq rqs)
  have "cache_inv (auth_run hmac a (newCache m n) rqs)" by (intro inv_intros)
  from Validate_pos_lookup [OF this, of hmac a rq k e] snoc.prems snoc.IH show ?case
    by (auto simp: auth_run_snoc)
qed

lemma outcomeFromEntry_ok: "outcomeFromEntry e i s = Inr j \<longleftrightarrow> e_ok e \<and> j = e_system_id e"
  by (auto simp: outcomeFromEntry_def)

lemma peek_ok_pos: "cache_inv c \<Longrightarrow> peek c k = Some e \<Longrightarrow> e_ok e \<Longrightarrow> pos_lookup c k = Some e"
  by (auto simp: peek_def split: option.splits dest: cache_invD(7))

text \<open>An accepted request was granted now, or its entry is in the positive tier.\<close>

lemma Validate_accepts:
  assumes inv: "cache_inv c" and ok: "fst (auth_answer hmac a c rq) = Inr i"
  shows "\<exists>j secret. ParseBasic (rq_header rq) = Inr (j, secret) \<and>
    (granted hmac a (cacheKey hmac a (rq_service rq) j secret) i rq
     \<or> (\<exists>e. pos_lookup c (cacheKey hmac a (rq_service rq) j secret) = Some e \<and> e_system_id e = i))"
proof -
  note L = limited_inv [OF inv, of a]
  have lim: "pos_lookup c k = Some e" if "peek (limited a c) k = Some e" "e_ok e" for k e
    using setLimits_lookup(1) [OF inv] peek_ok_pos [OF L that] by (simp add: limited_def)
  let ?r = "auth_answer hmac a c rq"
  show ?thesis
  proof (cases "ParseBasic (rq_header rq)")
    case (Inl e)
    with ok show ?thesis by (simp add: auth_answer_def Validate_parse_error)
  next
    case (Inr p)
    obtain j secret where p: "ParseBasic (rq_header rq) = Inr (j, secret)"
      using Inr by (cases p) simp
    let ?k = "cacheKey hmac a (rq_service rq) j secret"
    show ?thesis
    proof (cases rule: fresh_or_asked [of "limited a c" ?k "rq_now0 rq"])
      case (fresh e)
      with ok have "e_ok e" "e_system_id e = i"
        by (auto simp: auth_answer_def Validate_fresh [OF inv p fresh] outcomeFromEntry_ok)
      then show ?thesis using lim [OF fresh(1)] p by blast
    next
      case asked
      with ok p lim [of ?k] show ?thesis
        by (auto simp: auth_answer_def Validate_asked [OF inv p asked] asked_result_def granted_def
            fwd_check_valid outcomeFromEntry_ok peek_get [OF L] split: outcome.splits option.splits)
    qed
  qed
qed

lemma limits_after_answer:
  assumes "cache_inv c" "ParseBasic (rq_header rq) = Inr p"
  shows "t_max (c_pos (fst (snd (auth_answer hmac a c rq))))
    = capOr (MaxPositiveEntries a) defaultMaxPositiveEntries"
proof -
  have g: "t_max (c_pos (snd (cache_get n k (limited a c))))
      = capOr (MaxPositiveEntries a) defaultMaxPositiveEntries" for n k
    by (simp add: cache_get_tiers limited_def setLimits_def frame_simps)
  have "t_max (c_pos (fst (snd (asked_result a k i s r t c')))) = t_max (c_pos c')"
    if "cache_inv c'" for k i s r t c'
    using cache_invD(1) [OF that]
    by (auto simp: asked_result_def cache_set_def cache_get_tiers frame_simps tier_set_correct(3)
        split: outcome.split option.split)
  then show ?thesis
    unfolding auth_answer_def
    by (intro Validate_cases [OF assms(1), where P = "\<lambda>r. t_max (c_pos (fst (snd r)))
        = capOr (MaxPositiveEntries a) defaultMaxPositiveEntries"])
       (use assms in \<open>auto simp: g cache_inv_get [OF limited_inv]\<close>)
qed

text \<open>An accepted request leaves its positive entry in the cache.\<close>

lemma accepted_leaves_positive:
  assumes inv: "cache_inv c" and p: "ParseBasic (rq_header rq) = Inr (j, secret)"
    and ok: "fst (auth_answer hmac a c rq) = Inr i"
  shows "\<exists>e. pos_lookup (fst (snd (auth_answer hmac a c rq))) (cacheKey hmac a (rq_service rq) j secret) = Some e
    \<and> e_system_id e = i"
proof -
  let ?k = "cacheKey hmac a (rq_service rq) j secret"
  note L = limited_inv [OF inv, of a]
  note G = cache_inv_get [OF L, of "rq_now0 rq" ?k]
  have keep: "pos_lookup (limited a c) ?k = Some e" if "peek (limited a c) ?k = Some e" "e_ok e" for e
    using peek_ok_pos [OF L that] .
  show ?thesis
  proof (cases rule: fresh_or_asked [of "limited a c" ?k "rq_now0 rq"])
    case (fresh e)
    with ok keep [OF fresh(1)] show ?thesis
      by (auto simp: auth_answer_def Validate_fresh [OF inv p fresh] outcomeFromEntry_ok cache_get_lookup [OF L])
  next
    case asked
    with ok keep show ?thesis
      by (auto simp: auth_answer_def Validate_asked [OF inv p asked] asked_result_def outcomeFromEntry_ok
          peek_get [OF L] cache_get_lookup [OF L] cache_get_lookup [OF G] cache_set_lookup(2) [OF G]
          pos_entry_def split: outcome.splits option.splits)
  qed
qed

text \<open>
  A request that cannot touch the entry of \<open>k\<close>: its header does not parse, or it is for
  another key and the validator does not accept it.
\<close>

definition hostile :: "(string \<Rightarrow> string \<Rightarrow> string) \<Rightarrow> forward_auth \<Rightarrow> string \<Rightarrow> auth_request \<Rightarrow> bool" where
  "hostile hmac a k rq \<longleftrightarrow>
     (case ParseBasic (rq_header rq) of
        Inl _ \<Rightarrow> True
      | Inr (i, secret) \<Rightarrow> cacheKey hmac a (rq_service rq) i secret \<noteq> k
          \<and> rq_up rq (validateURL a (rq_service rq)) (rq_header rq) \<noteq> Answer 200)"

lemma asked_traffic:
  assumes "k' \<noteq> k" "r_outcome r \<noteq> OutcomeValid"
  shows "\<exists>ops. fst (snd (asked_result a k' i s r t c)) = cache_run c ops \<and> list_all (negative_traffic k m n) ops"
proof (cases "r_outcome r")
  case OutcomeInvalid
  then show ?thesis using assms
    by (intro exI [of _ "[OpSet k' (neg_entry False (t + NegativeTTL a))]"])
       (simp add: asked_result_def cache_run_def neg_entry_def)
next
  case OutcomeForbidden
  then show ?thesis using assms
    by (intro exI [of _ "[OpSet k' (neg_entry True (t + NegativeTTL a))]"])
       (simp add: asked_result_def cache_run_def neg_entry_def)
next
  case OutcomeUnavailable
  then show ?thesis
    by (intro exI [of _ "[OpGet t k']"]) (simp add: asked_result_def cache_run_def split: option.split)
qed (use assms in simp)

lemma hostile_traffic:
  assumes inv: "cache_inv c" and h: "hostile hmac a k rq"
  shows "\<exists>ops. fst (snd (auth_answer hmac a c rq)) = cache_run c ops
    \<and> list_all (negative_traffic k (MaxPositiveEntries a) (MaxNegativeEntries a)) ops"
proof -
  let ?nt = "negative_traffic k (MaxPositiveEntries a) (MaxNegativeEntries a)"
  have pre: "cache_run c (OpLimits (MaxPositiveEntries a) (MaxNegativeEntries a) # OpGet n k' # ops)
      = cache_run (snd (cache_get n k' (limited a c))) ops" for n k' ops
    by (simp add: cache_run_def limited_def)
  show ?thesis
    unfolding auth_answer_def
  proof (rule Validate_cases [OF inv, where P = "\<lambda>r. \<exists>ops. fst (snd r) = cache_run c ops \<and> list_all ?nt ops"],
      goal_cases)
    case (1 e)
    show ?case by (intro exI [of _ "[]"]) (simp add: cache_run_def)
  next
    case (2 i s e)
    then show ?case
      by (intro exI [of _ "[OpLimits (MaxPositiveEntries a) (MaxNegativeEntries a),
            OpGet (rq_now0 rq) (cacheKey hmac a (rq_service rq) i s)]"])
         (simp add: cache_run_def limited_def)
  next
    case (3 i s)
    let ?k = "cacheKey hmac a (rq_service rq) i s"
    have "?k \<noteq> k" "r_outcome (fwd_check (rq_up rq) (validateURL a (rq_service rq)) (rq_header rq)) \<noteq> OutcomeValid"
      using h 3 by (auto simp: hostile_def fwd_check_valid)
    from asked_traffic [OF this] obtain ops where
      "fst (snd (asked_result a ?k i (rq_service rq)
         (fwd_check (rq_up rq) (validateURL a (rq_service rq)) (rq_header rq)) (rq_now1 rq)
         (snd (cache_get (rq_now0 rq) ?k (limited a c)))))
       = cache_run (snd (cache_get (rq_now0 rq) ?k (limited a c))) ops" "list_all ?nt ops"
      by metis
    then show ?case
      by (intro exI [of _ "OpLimits (MaxPositiveEntries a) (MaxNegativeEntries a) # OpGet (rq_now0 rq) ?k # ops"])
         (simp only: pre, simp)
  qed
qed

lemma hostile_run_keeps_positive:
  "cache_inv c \<Longrightarrow> t_max (c_pos c) = capOr (MaxPositiveEntries a) defaultMaxPositiveEntries
     \<Longrightarrow> list_all (hostile hmac a k) rqs \<Longrightarrow> pos_lookup c k = Some e
     \<Longrightarrow> pos_lookup (auth_run hmac a c rqs) k = Some e
        \<and> t_max (c_pos (auth_run hmac a c rqs)) = capOr (MaxPositiveEntries a) defaultMaxPositiveEntries"
proof (induction rqs rule: rev_induct)
  case Nil
  then show ?case by (simp add: auth_run_def)
next
  case (snoc rq rqs)
  let ?c = "auth_run hmac a c rqs"
  have inv: "cache_inv ?c" using snoc.prems(1) by (rule auth_run_inv)
  have IH: "pos_lookup ?c k = Some e"
    "t_max (c_pos ?c) = capOr (MaxPositiveEntries a) defaultMaxPositiveEntries"
    using snoc by simp_all
  have h: "hostile hmac a k rq" using snoc.prems(3) by simp
  obtain ops where ops: "fst (snd (auth_answer hmac a ?c rq)) = cache_run ?c ops"
    "list_all (negative_traffic k (MaxPositiveEntries a) (MaxNegativeEntries a)) ops"
    using hostile_traffic [OF inv h] by blast
  have "t_max (c_pos (fst (snd (auth_answer hmac a ?c rq))))
      = capOr (MaxPositiveEntries a) defaultMaxPositiveEntries"
  proof (cases "ParseBasic (rq_header rq)")
    case (Inl e)
    then show ?thesis using IH by (simp add: auth_answer_def Validate_parse_error)
  next
    case (Inr p)
    then show ?thesis by (rule limits_after_answer [OF inv])
  qed
  then show ?case
    using negative_run_keeps_positive [OF inv IH(2) ops(2) IH(1)] ops(1) by (simp add: auth_run_snoc)
qed

subsection \<open>The HTTP handler of \<open>authd\<close>\<close>

text \<open>
  \<open>serviceName\<close> is the pattern \<open>[a-z0-9]([a-z0-9-]{0,62}[a-z0-9])?\<close>, anchored at both
  ends. \<open>authd_path\<close> is what the mux distinguishes of a request path.
\<close>

definition service_char :: "char \<Rightarrow> bool" where
  "service_char c \<longleftrightarrow> is_lower c \<or> is_digit c"

definition serviceName :: "string \<Rightarrow> bool" where
  "serviceName s \<longleftrightarrow> s \<noteq> [] \<and> length s \<le> 64 \<and> service_char (hd s) \<and> service_char (last s)
     \<and> (\<forall>c \<in> set s. service_char c \<or> c = CHR ''-'')"

datatype authd_path = PathHealthz | PathMetrics | PathAuth | PathAuthService string | PathOther

text \<open>\<open>validate\<close>: the verdict as the status Traefik hands back to the node.\<close>

definition authd_status :: "auth_error + string \<Rightarrow> nat" where
  "authd_status r = (case r of
     Inr _ \<Rightarrow> 200
   | Inl (ErrInvalidCredentials _) \<Rightarrow> 401
   | Inl (ErrForbidden _ _) \<Rightarrow> 403
   | Inl (ErrUnavailable _ _) \<Rightarrow> 503)"

definition authd_validate ::
  "(string \<Rightarrow> string \<Rightarrow> string) \<Rightarrow> forward_auth \<Rightarrow> auth_cache \<Rightarrow> auth_request
     \<Rightarrow> nat \<times> auth_cache \<times> auth_metric list" where
  "authd_validate hmac a c rq =
     (if rq_header rq = [] then (401, c, [])
      else case auth_answer hmac a c rq of (r, c', ms) \<Rightarrow> (authd_status r, c', ms))"

definition authd_handle ::
  "(string \<Rightarrow> string \<Rightarrow> string) \<Rightarrow> forward_auth \<Rightarrow> auth_cache \<Rightarrow> authd_path \<Rightarrow> auth_request
     \<Rightarrow> nat \<times> auth_cache \<times> auth_metric list" where
  "authd_handle hmac a c path rq = (case path of
     PathHealthz \<Rightarrow> (200, c, [])
   | PathMetrics \<Rightarrow> (200, c, [])
   | PathAuth \<Rightarrow> authd_validate hmac a c (rq\<lparr>rq_service := []\<rparr>)
   | PathAuthService service \<Rightarrow>
       (if serviceName service then authd_validate hmac a c (rq\<lparr>rq_service := service\<rparr>)
        else (404, c, []))
   | PathOther \<Rightarrow> (404, c, []))"

lemma serviceName_no_NUL: "serviceName s \<Longrightarrow> NUL \<notin> set s"
proof
  assume "serviceName s" "NUL \<in> set s"
  then have "service_char NUL \<or> NUL = CHR ''-''" by (auto simp: serviceName_def)
  moreover have "byte NUL = 0" "byte (CHR ''-'') = 45" by (simp_all add: NUL_def byte_def)
  ultimately show False by (auto simp: service_char_def is_lower_def is_digit_def)
qed

subsection \<open>Properties\<close>

lemma append_sep_inj:
  fixes x :: char
  shows "x \<notin> set a \<Longrightarrow> x \<notin> set a' \<Longrightarrow> a @ x # b = a' @ x # b' \<Longrightarrow> a = a' \<and> b = b'"
proof -
  assume "x \<notin> set a" "x \<notin> set a'" "a @ x # b = a' @ x # b'"
  then have "cut x (a @ x # b) = Some (a, b)" "cut x (a @ x # b) = Some (a', b')"
    by (simp_all add: cut_Some del: cut.simps)
  then show ?thesis by simp
qed

lemma cacheKeyText_inj:
  assumes "NUL \<notin> set service" "NUL \<notin> set service'"
    and "CHR '':'' \<notin> set systemID" "CHR '':'' \<notin> set systemID'"
    and "cacheKeyText service systemID secret = cacheKeyText service' systemID' secret'"
  shows "service = service' \<and> systemID = systemID' \<and> secret = secret'"
proof -
  have "service = service' \<and> systemID @ CHR '':'' # secret = systemID' @ CHR '':'' # secret'"
    using append_sep_inj [OF assms(1,2)] assms(5) by (simp add: cacheKeyText_def)
  then show ?thesis using append_sep_inj [OF assms(3,4)] by blast
qed

text \<open>The key texts a list of requests presents to the keyed hash.\<close>

definition credential_texts :: "auth_request list \<Rightarrow> string set" where
  "credential_texts rqs = {cacheKeyText (rq_service r) i s | r i s.
     r \<in> set rqs \<and> ParseBasic (rq_header r) = Inr (i, s)}"

text \<open>
  C2: authentication is sound over every history. Starting from an empty cache of any
  size, if the service accepts a request as system \<open>i\<close>, then the validator itself answered
  200 for this very credential and this very service, in this request or in an earlier one
  of the history; in particular a positive outcome cached for one service never answers
  another one. The hypotheses: no service name holds a NUL byte (the handler's character
  set), and the keyed hash does not collide on the credentials presented.
\<close>

theorem accepted_only_if_granted:
  assumes services: "\<forall>r \<in> set (rqs @ [rq]). NUL \<notin> set (rq_service r)"
    and no_collision: "inj_on (hmac (pepper a)) (credential_texts (rqs @ [rq]))"
    and accepted: "fst (auth_answer hmac a (auth_run hmac a (newCache m n) rqs) rq) = Inr i"
  shows "\<exists>r \<in> set (rqs @ [rq]). rq_service r = rq_service rq
    \<and> ParseBasic (rq_header r) = ParseBasic (rq_header rq)
    \<and> (\<exists>secret. ParseBasic (rq_header rq) = Inr (i, secret))
    \<and> rq_up r (validateURL a (rq_service r)) (rq_header r) = Answer 200"
proof -
  have inv: "cache_inv (auth_run hmac a (newCache m n) rqs)" by (intro inv_intros)
  obtain j secret where p: "ParseBasic (rq_header rq) = Inr (j, secret)"
    and g: "\<exists>r \<in> set (rqs @ [rq]). granted hmac a (cacheKey hmac a (rq_service rq) j secret) i r"
  proof -
    obtain j secret where p: "ParseBasic (rq_header rq) = Inr (j, secret)"
      and d: "granted hmac a (cacheKey hmac a (rq_service rq) j secret) i rq
        \<or> (\<exists>e. pos_lookup (auth_run hmac a (newCache m n) rqs) (cacheKey hmac a (rq_service rq) j secret)
              = Some e \<and> e_system_id e = i)"
      using Validate_accepts [OF inv accepted] by blast
    from d have "\<exists>r \<in> set (rqs @ [rq]). granted hmac a (cacheKey hmac a (rq_service rq) j secret) i r"
      using auth_run_pos_granted by auto
    with p show thesis by (rule that)
  qed
  then obtain r s where r: "r \<in> set (rqs @ [rq])" "ParseBasic (rq_header r) = Inr (i, s)"
    "cacheKey hmac a (rq_service r) i s = cacheKey hmac a (rq_service rq) j secret"
    "rq_up r (validateURL a (rq_service r)) (rq_header r) = Answer 200"
    by (auto simp: granted_iff)
  have "cacheKeyText (rq_service r) i s \<in> credential_texts (rqs @ [rq])"
    "cacheKeyText (rq_service rq) j secret \<in> credential_texts (rqs @ [rq])"
    using r p by (auto simp: credential_texts_def)
  then have "cacheKeyText (rq_service r) i s = cacheKeyText (rq_service rq) j secret"
    using no_collision r(3) by (simp add: cacheKey_def inj_on_def)
  then have "rq_service r = rq_service rq \<and> i = j \<and> s = secret"
    using services r p by (intro cacheKeyText_inj) (auto dest: ParseBasic_no_colon)
  with r p show ?thesis by auto
qed

text \<open>
  C9: the outage fallback survives a flood. Once a credential was accepted, no number of
  requests that the validator refuses, or cannot judge, or that are malformed can push its
  positive outcome out of the cache, however small the cache; when the validator then stops
  answering, the same credential is still accepted, however stale its entry.
\<close>

theorem outage_fallback_survives_flood:
  assumes parsed: "ParseBasic (rq_header rq) = Inr (j, secret)"
    and accepted: "fst (auth_answer hmac a (auth_run hmac a (newCache m n) history) rq) = Inr i"
    and flood: "list_all (hostile hmac a (cacheKey hmac a (rq_service rq) j secret)) attack"
    and same: "rq_header rq' = rq_header rq" "rq_service rq' = rq_service rq"
    and outage: "r_outcome (fwd_check (rq_up rq') (validateURL a (rq_service rq')) (rq_header rq')) = OutcomeUnavailable"
  shows "fst (auth_answer hmac a (auth_run hmac a (newCache m n) (history @ [rq] @ attack)) rq') = Inr i"
proof -
  let ?k = "cacheKey hmac a (rq_service rq) j secret"
  let ?c = "auth_run hmac a (newCache m n) history"
  let ?c1 = "fst (snd (auth_answer hmac a ?c rq))"
  have inv: "cache_inv ?c" by (intro inv_intros)
  then have inv1: "cache_inv ?c1" by (simp add: auth_answer_def inv_intros)
  obtain e where e: "pos_lookup ?c1 ?k = Some e" "e_system_id e = i"
    using accepted_leaves_positive [OF inv parsed accepted] by blast
  let ?c2 = "auth_run hmac a ?c1 attack"
  have k: "pos_lookup ?c2 ?k = Some e" "t_max (c_pos ?c2) = capOr (MaxPositiveEntries a) defaultMaxPositiveEntries"
    using hostile_run_keeps_positive [OF inv1 limits_after_answer [OF inv parsed] flood e(1)] by simp_all
  have inv2: "cache_inv ?c2" using inv1 by (rule auth_run_inv)
  have "pos_lookup (limited a ?c2) ?k = Some e"
    using negative_step_keeps_positive(1) [OF inv2 k(2), of _ "MaxNegativeEntries a"
        "OpLimits (MaxPositiveEntries a) (MaxNegativeEntries a)" e] k(1)
    by (simp add: limited_def)
  then have pk: "peek (limited a ?c2) ?k = Some e" by (simp add: peek_def)
  have ok: "e_ok e" using cache_invD(5) [OF inv2 k(1)] .
  have p': "ParseBasic (rq_header rq') = Inr (j, secret)" using parsed same by simp
  have "fst (auth_answer hmac a ?c2 rq') = Inr i"
  proof (cases rule: fresh_or_asked [of "limited a ?c2" ?k "rq_now0 rq'"])
    case (fresh e')
    then show ?thesis
      using pk ok e(2) auth_answer_fresh [where a = a and hmac = hmac, OF inv2 p'] same
      by (simp add: outcomeFromEntry_def)
  next
    case asked
    then show ?thesis
      using pk ok e(2) outage auth_answer_asked [where a = a and hmac = hmac, OF inv2 p'] same
      by (simp add: asked_result_def peek_get [OF limited_inv [OF inv2]] outcomeFromEntry_def)
  qed
  moreover have "auth_run hmac a (newCache m n) (history @ [rq] @ attack) = ?c2"
    by (simp add: auth_run_def)
  ultimately show ?thesis by simp
qed

text \<open>
  The cache never exceeds its two caps, keeps positive and negative outcomes apart and
  never holds two verdicts for one key, whatever requests arrive and however the caps are
  tuned: this is the invariant of every reachable cache.
\<close>

lemma auth_cache_invariant:
  "cache_inv (auth_run hmac a (newCache m n) rqs)
     \<and> cache_len (auth_run hmac a (newCache m n) rqs)
        \<le> tier_cap (c_pos (auth_run hmac a (newCache m n) rqs))
          + tier_cap (c_neg (auth_run hmac a (newCache m n) rqs))"
proof -
  have inv: "cache_inv (auth_run hmac a (newCache m n) rqs)" by (intro inv_intros)
  then show ?thesis
    using cache_invD(3,4) [OF inv] by (simp add: cache_len_def tier_entries_def)
qed

text \<open>
  \<open>authd\<close> answers 200 to a credential check only for an accepted credential; an
  unacceptable service name is a 404 that costs no validator call and leaves the cache
  alone; a missing header is a 401 decided locally; and a missing entitlement, a rejected
  credential and an unreachable validator are told apart as 403, 401 and 503.
\<close>

lemma authd_handle_statuses:
  "authd_handle hmac a c (PathAuthService service) rq =
     (if \<not> serviceName service then (404, c, [])
      else if rq_header rq = [] then (401, c, [])
      else (case auth_answer hmac a c (rq\<lparr>rq_service := service\<rparr>) of
              (Inr i, c', ms) \<Rightarrow> (200, c', ms)
            | (Inl (ErrInvalidCredentials r), c', ms) \<Rightarrow> (401, c', ms)
            | (Inl (ErrForbidden i s), c', ms) \<Rightarrow> (403, c', ms)
            | (Inl (ErrUnavailable i st), c', ms) \<Rightarrow> (503, c', ms)))"
  by (auto simp: authd_handle_def authd_validate_def authd_status_def
      split: prod.split sum.split auth_error.split)

subsection \<open>Witnesses\<close>

definition wit_config :: forward_auth where
  "wit_config = \<lparr>PositiveTTL = 10, NegativeTTL = 5, MaxPositiveEntries = 1, MaxNegativeEntries = 1,
     pepper = ''p'', base_url = ''http://v/''\<rparr>"

definition wit_hmac :: "string \<Rightarrow> string \<Rightarrow> string" where
  "wit_hmac k m = k @ m"

text \<open>The header of system \<open>sys\<close> with secret \<open>pw\<close>, and of system \<open>sys\<close> with secret \<open>px\<close>.\<close>

definition wit_request :: "int \<Rightarrow> string \<Rightarrow> http_answer \<Rightarrow> auth_request" where
  "wit_request now h ans = \<lparr>rq_now0 = now, rq_now1 = now, rq_header = h, rq_service = ''feed'',
     rq_up = (\<lambda>_ _. ans)\<rparr>"

definition wit_good :: string where "wit_good = ''Basic c3lzOnB3''"
definition wit_bad :: string where "wit_bad = ''Basic c3lzOnB4''"

lemma wit_parse: "ParseBasic wit_good = Inr (''sys'', ''pw'')" "ParseBasic wit_bad = Inr (''sys'', ''px'')"
  by (code_simp, code_simp)

lemma wit_accepted:
  "fst (auth_answer wit_hmac wit_config
     (auth_run wit_hmac wit_config (newCache 0 0) []) (wit_request 0 wit_good (Answer 200))) = Inr ''sys''"
  by code_simp

lemma wit_cached:
  "fst (auth_answer wit_hmac wit_config
     (auth_run wit_hmac wit_config (newCache 0 0) [wit_request 0 wit_good (Answer 200)])
     (wit_request 3 wit_good (Answer 401))) = Inr ''sys''"
  by code_simp

theorem accepted_only_if_granted_witness:
  "\<exists>r \<in> set ([wit_request 0 wit_good (Answer 200)] @ [wit_request 3 wit_good (Answer 401)]).
     rq_service r = rq_service (wit_request 3 wit_good (Answer 401))
     \<and> ParseBasic (rq_header r) = ParseBasic (rq_header (wit_request 3 wit_good (Answer 401)))
     \<and> (\<exists>secret. ParseBasic (rq_header (wit_request 3 wit_good (Answer 401))) = Inr (''sys'', secret))
     \<and> rq_up r (validateURL wit_config (rq_service r)) (rq_header r) = Answer 200"
proof (rule accepted_only_if_granted [where hmac = wit_hmac and m = 0 and n = 0])
  show "\<forall>r \<in> set ([wit_request 0 wit_good (Answer 200)] @ [wit_request 3 wit_good (Answer 401)]).
      NUL \<notin> set (rq_service r)"
    by code_simp
  show "inj_on (wit_hmac (pepper wit_config))
      (credential_texts ([wit_request 0 wit_good (Answer 200)] @ [wit_request 3 wit_good (Answer 401)]))"
    by (simp add: inj_on_def wit_hmac_def)
  show "fst (auth_answer wit_hmac wit_config
      (auth_run wit_hmac wit_config (newCache 0 0) [wit_request 0 wit_good (Answer 200)])
      (wit_request 3 wit_good (Answer 401))) = Inr ''sys''"
    by (rule wit_cached)
qed

theorem outage_fallback_survives_flood_witness:
  "fst (auth_answer wit_hmac wit_config
     (auth_run wit_hmac wit_config (newCache 0 0)
        ([] @ [wit_request 0 wit_good (Answer 200)] @
         [wit_request 1 wit_bad (Answer 401), wit_request 2 ''garbage'' (Answer 401)]))
     (wit_request 900 wit_good (Answer 502))) = Inr ''sys''"
proof (rule outage_fallback_survives_flood [where j = "''sys''" and secret = "''pw''"])
  show "ParseBasic (rq_header (wit_request 0 wit_good (Answer 200))) = Inr (''sys'', ''pw'')"
    by (simp add: wit_request_def wit_parse)
  show "fst (auth_answer wit_hmac wit_config (auth_run wit_hmac wit_config (newCache 0 0) [])
      (wit_request 0 wit_good (Answer 200))) = Inr ''sys''"
    by (rule wit_accepted)
  show "list_all (hostile wit_hmac wit_config
      (cacheKey wit_hmac wit_config (rq_service (wit_request 0 wit_good (Answer 200))) ''sys'' ''pw''))
      [wit_request 1 wit_bad (Answer 401), wit_request 2 ''garbage'' (Answer 401)]"
    by code_simp
  show "rq_header (wit_request 900 wit_good (Answer 502)) = rq_header (wit_request 0 wit_good (Answer 200))"
    "rq_service (wit_request 900 wit_good (Answer 502)) = rq_service (wit_request 0 wit_good (Answer 200))"
    by (simp_all add: wit_request_def)
  show "r_outcome (fwd_check (rq_up (wit_request 900 wit_good (Answer 502)))
      (validateURL wit_config (rq_service (wit_request 900 wit_good (Answer 502))))
      (rq_header (wit_request 900 wit_good (Answer 502)))) = OutcomeUnavailable"
    by (simp add: wit_request_def fwd_check_def)
qed

end
