(* ===== verification/Netip_Text.thy ===== *)
theory Netip_Text
  imports Netip
begin

text \<open>
  \<open>ParseAddr\<close> reads back what \<open>AddrString\<close> prints, for every address whose zone has no
  percent sign and no zone on an IPv4-mapped address's Unmap; in particular for every address
  the program stores.
\<close>

subsection \<open>Decimal octets\<close>

definition dec_digit :: "int \<Rightarrow> char" where
  "dec_digit n = char_of (48 + n)"

lemma byte_char_of_int: "0 \<le> n \<Longrightarrow> n < 256 \<Longrightarrow> int (byte (char_of n)) = n"
  by (simp add: byte_def of_nat_of_char)

lemma byte_seps: "byte (CHR ''.'') = 46" "byte (CHR '':'') = 58" "byte (CHR ''%'') = 37" "byte (CHR ''/'') = 47"
  by code_simp+

lemma dec_digit_props:
  assumes "0 \<le> n" "n < 10"
  shows "is_digit (dec_digit n)" "digit_val (dec_digit n) = n" "dec_digit n \<noteq> CHR ''.''" "is_hex (dec_digit n)"
    "dec_digit n \<noteq> CHR '':''" "dec_digit n \<noteq> CHR ''%''"
proof -
  have b: "int (byte (dec_digit n)) = 48 + n"
    unfolding dec_digit_def using assms by (intro byte_char_of_int) simp_all
  show "is_digit (dec_digit n)" "digit_val (dec_digit n) = n" "is_hex (dec_digit n)"
    using b assms unfolding is_digit_def is_hex_def digit_val_def by linarith+
  have "byte (dec_digit n) \<notin> {46, 58, 37}" using b assms by auto
  then show "dec_digit n \<noteq> CHR ''.''" "dec_digit n \<noteq> CHR '':''" "dec_digit n \<noteq> CHR ''%''"
    by (auto simp: byte_seps)
qed

lemma nat_dec_cases:
  assumes "0 \<le> n" "n < 1000"
  obtains (one) "n < 10" "nat_dec n = [dec_digit n]"
  | (two) a b where "nat_dec n = [dec_digit a, dec_digit b]" "1 \<le> a" "a < 10" "0 \<le> b" "b < 10" "n = a * 10 + b"
  | (three) a b c where "nat_dec n = [dec_digit a, dec_digit b, dec_digit c]" "1 \<le> a" "a < 10" "0 \<le> b" "b < 10"
      "0 \<le> c" "c < 10" "n = (a * 10 + b) * 10 + c"
proof -
  have d: "nat_dec m = (if m < 10 then [dec_digit m] else nat_dec (m div 10) @ [dec_digit (m mod 10)])" for m
    by (subst nat_dec.simps) (simp add: dec_digit_def)
  consider "n < 10" | "10 \<le> n" "n < 100" | "100 \<le> n" by linarith
  then show thesis
  proof cases
    case 1
    then show thesis using d [of n] one by simp
  next
    case 2
    then have "n div 10 < 10" by presburger
    with 2 have "nat_dec n = [dec_digit (n div 10), dec_digit (n mod 10)]"
      using d [of n] d [of "n div 10"] by simp
    then show thesis by (rule two) (use 2 in presburger)+
  next
    case 3
    define m where "m = n div 10"
    have m: "10 \<le> m" "m < 100" "n = m * 10 + n mod 10" "0 \<le> n mod 10" "n mod 10 < 10"
      using 3 assms unfolding m_def by auto
    have a: "1 \<le> m div 10" "m div 10 < 10" "m = m div 10 * 10 + m mod 10" "0 \<le> m mod 10" "m mod 10 < 10"
      using m(1,2) by auto
    have "nat_dec m = [dec_digit (m div 10), dec_digit (m mod 10)]"
      using d [of m] d [of "m div 10"] m(1) a(2) by simp
    then have "nat_dec n = [dec_digit (m div 10), dec_digit (m mod 10), dec_digit (n mod 10)]"
      using d [of n] 3 by (simp add: m_def)
    then show thesis by (rule three) (use a m in auto)
  qed
qed

lemma int_dec_nonneg: "0 \<le> n \<Longrightarrow> int_dec n = nat_dec n"
  by (simp add: int_dec_def)

text \<open>A decimal octet is consumed whole by the scanner.\<close>

lemma ipv4_scan_octet:
  assumes "0 \<le> n" "n < 256"
  shows "ipv4_scan (int_dec n @ t) first dot 0 0 fs = ipv4_scan t False False n (length (int_dec n)) fs"
proof -
  have "n < 1000" using assms by simp
  with assms(1) show ?thesis
    by (cases rule: nat_dec_cases) (use assms in \<open>auto simp: int_dec_nonneg dec_digit_props\<close>)
qed

lemma int_dec_nonempty: "0 \<le> n \<Longrightarrow> n < 256 \<Longrightarrow> int_dec n \<noteq> []"
  by (cases rule: nat_dec_cases [of n]) (auto simp: int_dec_nonneg)

lemma parse_dotted:
  assumes "digits_ok 256 [a, b, c, d]"
  shows "parseIPv4Fields (dotted [a, b, c, d]) = Some [a, b, c, d]"
proof -
  have s: "is_digit (CHR ''.'') = False" by (simp add: is_digit_def byte_seps)
  have e: "ipv4_scan (int_dec d) False True 0 0 fs = ipv4_scan [] False False d (length (int_dec d)) fs" for fs
    using ipv4_scan_octet [of d "[]"] assms by simp
  show ?thesis
    using assms int_dec_nonempty [of b] int_dec_nonempty [of c] int_dec_nonempty [of d]
    by (simp add: parseIPv4Fields_def dotted_def ipv4_scan_octet s e)
qed

subsection \<open>Hexadecimal groups\<close>

lemma hex_digit_props:
  assumes "0 \<le> n" "n < 16"
  shows "is_hex (hex_digit n)" "hex_val (hex_digit n) = n"
proof -
  have b: "int (byte (hex_digit n)) = (if n < 10 then 48 + n else 87 + n)"
    unfolding hex_digit_def using assms by (auto intro!: byte_char_of_int)
  show "is_hex (hex_digit n)" "hex_val (hex_digit n) = n"
    using b assms by (auto simp: is_hex_def hex_val_def is_digit_def is_lower_def split: if_splits)
qed

lemma hex_seps: "\<not> is_hex (CHR ''.'')" "\<not> is_hex (CHR '':'')" "\<not> is_hex (CHR ''%'')"
  by (simp_all add: is_hex_def is_digit_def byte_seps)

lemma hex_digits_props:
  "0 \<le> n \<Longrightarrow> n < 16 ^ Suc k \<Longrightarrow> list_all is_hex (hex_digits k n) \<and> hex_digits k n \<noteq> []
     \<and> length (hex_digits k n) \<le> Suc k \<and> of_base 16 (map hex_val (hex_digits k n)) = n"
proof (induction k arbitrary: n)
  case 0
  then show ?case by (simp add: hex_digit_props of_base_def)
next
  case (Suc k)
  have "n div 16 < 16 ^ Suc k" using Suc.prems by (simp add: div_less_iff_less_mult)
  then show ?case using Suc.prems Suc.IH [of "n div 16"] by (auto simp: hex_digit_props of_base_def)
qed

lemma to_hex_props:
  assumes "0 \<le> g" "g < 65536"
  shows "list_all is_hex (to_hex g)" "to_hex g \<noteq> []" "length (to_hex g) \<le> 4"
    "of_base 16 (map hex_val (to_hex g)) = g"
  using hex_digits_props [of g 3] assms by (simp_all add: to_hex_def)

lemma takeWhile_hex: "list_all is_hex h \<Longrightarrow> t = [] \<or> \<not> is_hex (hd t) \<Longrightarrow> takeWhile is_hex (h @ t) = h"
  by (cases t) (auto simp: list_all_iff takeWhile_append)

text \<open>Reading one printed group that is followed by the end, or by a colon and more.\<close>

lemma v6_loop_last:
  assumes "0 \<le> g" "g < 65536"
  shows "v6_loop (Suc k) (to_hex g) acc ell = Some (acc @ [g], ell, [])"
proof -
  have tw: "takeWhile is_hex (to_hex g) = to_hex g"
    using takeWhile_hex [OF to_hex_props(1) [OF assms], of "[]"] by simp
  show ?thesis using to_hex_props [OF assms] by (simp add: Let_def tw)
qed

lemma v6_loop_more:
  assumes "0 \<le> g" "g < 65536" "r \<noteq> []" "hd r \<noteq> CHR '':''"
  shows "v6_loop (Suc k) (to_hex g @ CHR '':'' # r) acc ell = v6_loop k r (acc @ [g]) ell"
proof -
  have tw: "takeWhile is_hex (to_hex g @ CHR '':'' # r) = to_hex g"
    using takeWhile_hex [OF to_hex_props(1) [OF assms(1,2)], of "CHR '':'' # r"] by (simp add: hex_seps)
  obtain a r' where r: "r = a # r'" using assms(3) by (cases r) auto
  show ?thesis using to_hex_props [OF assms(1,2)] assms(3,4) tw unfolding r by (simp add: Let_def tw [unfolded r])
qed

lemma v6_loop_ellipsis:
  assumes "0 \<le> g" "g < 65536"
  shows "v6_loop (Suc k) (to_hex g @ CHR '':'' # CHR '':'' # r) acc None =
    (if r = [] then Some (acc @ [g], Some (Suc (length acc)), [])
     else v6_loop k r (acc @ [g]) (Some (Suc (length acc))))"
proof -
  have tw: "takeWhile is_hex (to_hex g @ CHR '':'' # CHR '':'' # r) = to_hex g"
    using takeWhile_hex [OF to_hex_props(1) [OF assms], of "CHR '':'' # CHR '':'' # r"] by (simp add: hex_seps)
  show ?thesis using to_hex_props [OF assms] by (simp add: Let_def tw)
qed

lemma join_hex_hd:
  assumes "gs \<noteq> []" "digits_ok 65536 gs"
  shows "join '':'' (map to_hex gs) \<noteq> []" "is_hex (hd (join '':'' (map to_hex gs)))"
proof -
  obtain g gs' where g: "gs = g # gs'" using assms(1) by (cases gs) auto
  have "to_hex g \<noteq> []" "list_all is_hex (to_hex g)" using to_hex_props [of g] assms(2) g by auto
  then show "join '':'' (map to_hex gs) \<noteq> []" "is_hex (hd (join '':'' (map to_hex gs)))"
    using g by (cases gs'; cases "to_hex g"; simp)+
qed

lemma v6_loop_groups:
  "gs \<noteq> [] \<Longrightarrow> digits_ok 65536 gs \<Longrightarrow> length gs \<le> k \<Longrightarrow>
     v6_loop k (join '':'' (map to_hex gs)) acc ell = Some (acc @ gs, ell, [])"
proof (induction gs arbitrary: k acc)
  case Nil
  then show ?case by simp
next
  case (Cons g gs)
  then obtain k' where k: "k = Suc k'" by (cases k) auto
  show ?case
  proof (cases gs)
    case Nil
    then show ?thesis using v6_loop_last Cons.prems k by simp
  next
    case (Cons g2 gs2)
    have ne: "gs \<noteq> []" "digits_ok 65536 gs" using Cons Cons.prems by auto
    have "hd (join '':'' (map to_hex gs)) \<noteq> CHR '':''" using join_hex_hd [OF ne] hex_seps by metis
    then have "v6_loop k (to_hex g @ CHR '':'' # join '':'' (map to_hex gs)) acc ell
        = v6_loop k' (join '':'' (map to_hex gs)) (acc @ [g]) ell"
      using v6_loop_more [of g] Cons.prems join_hex_hd(1) [OF ne] k by simp
    also have "\<dots> = Some (acc @ g # gs, ell, [])"
      using Cons.IH [OF ne, of k' "acc @ [g]"] Cons.prems(3) k by simp
    finally show ?thesis using Cons by simp
  qed
qed

lemma v6_loop_head:
  "gs \<noteq> [] \<Longrightarrow> digits_ok 65536 gs \<Longrightarrow> length gs \<le> k \<Longrightarrow>
     v6_loop k (join '':'' (map to_hex gs) @ ''::'' @ r) acc None =
       (if r = [] then Some (acc @ gs, Some (length (acc @ gs)), [])
        else v6_loop (k - length gs) r (acc @ gs) (Some (length (acc @ gs))))"
proof (induction gs arbitrary: k acc)
  case Nil
  then show ?case by simp
next
  case (Cons g gs)
  then obtain k' where k: "k = Suc k'" by (cases k) auto
  show ?case
  proof (cases gs)
    case Nil
    then show ?thesis using v6_loop_ellipsis [of g k' r acc] Cons.prems k by simp
  next
    case (Cons g2 gs2)
    have ne: "gs \<noteq> []" "digits_ok 65536 gs" using Cons Cons.prems by auto
    let ?t = "join '':'' (map to_hex gs) @ ''::'' @ r"
    have "hd (join '':'' (map to_hex gs)) \<noteq> CHR '':''" using join_hex_hd [OF ne] hex_seps by metis
    then have h: "hd ?t \<noteq> CHR '':''" "?t \<noteq> []" using join_hex_hd(1) [OF ne] by auto
    then have "v6_loop k (to_hex g @ CHR '':'' # ?t) acc None = v6_loop k' ?t (acc @ [g]) None"
      using v6_loop_more [of g ?t] Cons.prems k by simp
    also have "\<dots> = (if r = [] then Some (acc @ g # gs, Some (length (acc @ g # gs)), [])
        else v6_loop (k - length (g # gs)) r (acc @ g # gs) (Some (length (acc @ g # gs))))"
      using Cons.IH [OF ne, of k' "acc @ [g]"] Cons.prems(3) k by simp
    finally show ?thesis using Cons by simp
  qed
qed

subsection \<open>The ellipsis\<close>

definition run_ok :: "int list \<Rightarrow> nat \<times> nat \<Rightarrow> bool" where
  "run_ok gs p \<longleftrightarrow> fst p + 2 \<le> snd p \<and> snd p \<le> length gs
     \<and> take (snd p - fst p) (drop (fst p) gs) = replicate (snd p - fst p) 0"

lemma run_end_ok:
  assumes "2 \<le> run_end gs i - i" "i < length gs"
  shows "run_ok gs (i, run_end gs i)"
proof -
  let ?t = "takeWhile (\<lambda>g. g = 0) (drop i gs)"
  have l: "run_end gs i - i = length ?t" by (simp add: run_end_def)
  have "take (length ?t) (drop i gs) = ?t" by (metis takeWhile_eq_take)
  moreover have "?t = replicate (length ?t) 0"
    by (rule replicate_eqI) (auto dest: set_takeWhileD)
  moreover have "length ?t \<le> length gs - i" using length_takeWhile_le [of _ "drop i gs"] by simp
  ultimately show ?thesis using assms l by (simp add: run_ok_def run_end_def)
qed

lemma zero_run_ok:
  assumes "length gs = 8" "zero_run gs = Some p" shows "run_ok gs p"
proof -
  let ?f = "\<lambda>i best. let l = run_end gs i - i
      in if l \<ge> 2 \<and> (case best of None \<Rightarrow> True | Some (a, b) \<Rightarrow> b - a < l) then Some (i, run_end gs i) else best"
  have "\<forall>i \<in> set is. i < length gs \<Longrightarrow> (\<forall>q. best = Some q \<longrightarrow> run_ok gs q) \<Longrightarrow>
      fold ?f is best = Some p \<Longrightarrow> run_ok gs p" for "is" best
  proof (induction "is" arbitrary: best)
    case Nil
    then show ?case by (cases p) simp
  next
    case (Cons i "is")
    have "\<forall>q. ?f i best = Some q \<longrightarrow> run_ok gs q"
      using Cons.prems(1,2) run_end_ok [of gs i] by (auto simp: Let_def)
    then show ?case using Cons.IH [of "?f i best"] Cons.prems by simp
  qed
  from this [of "[0..<8]" None] assms show ?thesis by (simp add: zero_run_def)
qed

lemma expand_run:
  assumes "run_ok gs (a, b)" "length gs = 8"
  shows "v6_expand (take a gs @ drop b gs, Some a, []) = Some gs"
proof -
  have r: "a + 2 \<le> b" "b \<le> 8" "take (b - a) (drop a gs) = replicate (b - a) 0"
    using assms by (auto simp: run_ok_def)
  have "gs = take a gs @ take (b - a) (drop a gs) @ drop (b - a) (drop a gs)"
    by (simp only: append_take_drop_id)
  also have "drop (b - a) (drop a gs) = drop b gs" using r(1) by simp
  finally have g: "gs = take a gs @ replicate (b - a) 0 @ drop b gs" by (simp only: r(3))
  have m: "min (length gs) a = a" "min 8 a = a" "a + (length gs - b) < 8" "8 - (a + (8 - b)) = b - a"
    using r assms(2) by auto
  then have "v6_expand (take a gs @ drop b gs, Some a, []) = Some (take a gs @ replicate (b - a) 0 @ drop b gs)"
    using assms(2) by (simp add: v6_expand_def)
  then show ?thesis by (simp only: g [symmetric])
qed

lemma not_ellipsis_prefix:
  assumes "gs \<noteq> []" "digits_ok 65536 gs"
  shows "\<not> has_prefix (join '':'' (map to_hex gs) @ t) ''::''"
proof -
  obtain c s where "join '':'' (map to_hex gs) = c # s" "is_hex c"
    using join_hex_hd [OF assms] by (cases "join '':'' (map to_hex gs)") auto
  then show ?thesis using hex_seps(2) by auto
qed

lemma parse_print6:
  assumes "length gs = 8" "digits_ok 65536 gs"
  shows "parse_groups (print6 gs) = Some gs"
proof (cases "zero_run gs")
  case None
  have "gs \<noteq> []" using assms(1) by auto
  then show ?thesis
    using None assms v6_loop_groups [of gs 8 "[]" None] not_ellipsis_prefix [of gs "[]"]
    by (simp add: print6_def parse_groups_def v6_expand_def)
next
  case (Some p)
  obtain a b where p: "p = (a, b)" by (cases p)
  have ok: "run_ok gs (a, b)" using zero_run_ok [OF assms(1)] Some p by simp
  then have ab: "a + 2 \<le> b" "b \<le> 8" using assms(1) by (auto simp: run_ok_def)
  let ?h = "take a gs" and ?t = "drop b gs"
  have pr: "print6 gs = join '':'' (map to_hex ?h) @ ''::'' @ join '':'' (map to_hex ?t)"
    using Some p by (simp add: print6_def)
  have ex: "v6_expand (?h @ ?t, Some a, []) = Some gs" by (rule expand_run [OF ok assms(1)])
  have ht: "digits_ok 65536 ?h" "digits_ok 65536 ?t" "length ?h = a" "length ?t = 8 - b"
    using assms ab by simp_all
  show ?thesis
  proof (cases "a = 0")
    case True
    show ?thesis
    proof (cases "?t = []")
      case True
      with \<open>a = 0\<close> have "gs = replicate 8 0" using ok assms(1) by (auto simp: run_ok_def)
      then show ?thesis using pr True \<open>a = 0\<close> by (simp add: parse_groups_def)
    next
      case False
      then show ?thesis
        using pr \<open>a = 0\<close> ex v6_loop_groups [of ?t 8 "[]" "Some 0"] ht join_hex_hd(1) [OF False ht(2)]
        by (simp add: parse_groups_def)
    qed
  next
    case False
    then have ne: "?h \<noteq> []" using assms(1) by auto
    have np: "\<not> has_prefix (print6 gs) ''::''" unfolding pr by (rule not_ellipsis_prefix [OF ne ht(1)])
    have "v6_loop 8 (print6 gs) [] None = Some (?h @ ?t, Some a, [])"
    proof (cases "?t = []")
      case True
      have "v6_loop 8 (print6 gs) [] None = Some (?h, Some (length ?h), [])"
        unfolding pr using v6_loop_head [OF ne ht(1), of 8 "join '':'' (map to_hex ?t)" "[]"] True ht(3) ab by simp
      then show ?thesis using True ht(3) by simp
    next
      case False
      have "v6_loop 8 (print6 gs) [] None = v6_loop (8 - length ?h) (join '':'' (map to_hex ?t)) ?h (Some (length ?h))"
        unfolding pr using v6_loop_head [OF ne ht(1), of 8 "join '':'' (map to_hex ?t)" "[]"]
          join_hex_hd(1) [OF False ht(2)] ht(3) ab by simp
      also have "\<dots> = Some (?h @ ?t, Some (length ?h), [])"
        using ht(3,4) ab by (intro v6_loop_groups [OF False ht(2)]) simp
      finally show ?thesis using ht(3) by simp
    qed
    then show ?thesis using np ex by (simp add: parse_groups_def)
  qed
qed

subsection \<open>The round trip\<close>

lemma octets_cases:
  obtains a b c d where "octets w = [a, b, c, d]"
proof -
  have "length (octets w) = Suc (Suc (Suc (Suc 0)))" by simp
  then show thesis using that by (auto simp: length_Suc_conv simp del: length_octets)
qed

lemma join_set: "set (join sep xs) \<subseteq> set sep \<union> \<Union> (set ` set xs)"
  by (induction sep xs rule: join.induct) auto

lemma int_dec_octet_chars: "0 \<le> n \<Longrightarrow> n < 256 \<Longrightarrow> c \<in> set (int_dec n) \<Longrightarrow> is_digit c"
  by (cases rule: nat_dec_cases [of n]) (auto simp: int_dec_nonneg dec_digit_props)

lemma dotted_chars:
  assumes "digits_ok 256 os" "c \<in> set (dotted os)" shows "is_digit c \<or> c = CHR ''.''"
proof -
  consider "c = CHR ''.''" | n where "n \<in> set os" "c \<in> set (int_dec n)"
    using assms(2) join_set [of "''.''" "map int_dec os"] unfolding dotted_def by auto
  then show ?thesis
  proof cases
    case (2 n)
    then have "0 \<le> n" "n < 256" using assms(1) by (auto simp: digits_ok_def list_all_iff)
    then show ?thesis using int_dec_octet_chars 2(2) by blast
  qed simp
qed

lemma percent_not: "\<not> is_digit (CHR ''%'')" "\<not> is_hex (CHR ''%'')"
  by (simp_all add: is_hex_def is_digit_def byte_seps)

lemma dotted_no_percent: "digits_ok 256 os \<Longrightarrow> CHR ''%'' \<notin> set (dotted os)"
  using dotted_chars percent_not(1) by fastforce

lemma join_hex_chars:
  assumes "digits_ok 65536 gs" "c \<in> set (join '':'' (map to_hex gs))" shows "is_hex c \<or> c = CHR '':''"
proof -
  consider "c = CHR '':''" | g where "g \<in> set gs" "c \<in> set (to_hex g)"
    using assms(2) join_set [of "'':''" "map to_hex gs"] by auto
  then show ?thesis
  proof cases
    case (2 g)
    then have "list_all is_hex (to_hex g)"
      using assms(1) by (intro to_hex_props(1)) (auto simp: digits_ok_def list_all_iff)
    then show ?thesis using 2(2) by (auto simp: list_all_iff)
  qed simp
qed

lemma print6_chars:
  assumes "digits_ok 65536 gs" "c \<in> set (print6 gs)" shows "is_hex c \<or> c = CHR '':''"
proof (cases "zero_run gs")
  case None
  then show ?thesis using assms join_hex_chars by (simp add: print6_def)
next
  case (Some p)
  then consider "c = CHR '':''" | "c \<in> set (join '':'' (map to_hex (take (fst p) gs)))"
    | "c \<in> set (join '':'' (map to_hex (drop (snd p) gs)))"
    using assms(2) by (auto simp: print6_def split: prod.splits)
  then show ?thesis
    using join_hex_chars [OF digits_ok_take [OF assms(1)]] join_hex_chars [OF digits_ok_drop [OF assms(1)]]
    by cases blast+
qed

lemma print6_colon: "length gs = 8 \<Longrightarrow> CHR '':'' \<in> set (print6 gs)"
  by (cases gs; cases "tl gs") (auto simp: print6_def split: option.splits)

lemma first_sep_colon:
  "\<forall>c \<in> set s. is_hex c \<or> c = CHR '':'' \<Longrightarrow> CHR '':'' \<in> set s \<Longrightarrow> first_sep (s @ t) = Some (CHR '':'')"
  using hex_seps by (induction s) auto

lemma cut_append: "sep \<notin> set s \<Longrightarrow> cut sep (s @ sep # t) = Some (s, t)"
  by (simp add: cut_Some)

lemma parse_zone:
  assumes "CHR ''%'' \<notin> set s" "parse_groups s = Some gs"
  shows "parseIPv6 (s @ (if z = [] then [] else CHR ''%'' # z)) = Some (Addr6 (word6 gs) z)"
proof (cases "z = []")
  case True
  have "cut (CHR ''%'') s = None" using assms(1) by (simp add: cut_None)
  then show ?thesis using True assms(2) by (simp add: parseIPv6_def)
next
  case False
  then show ?thesis using assms(2) cut_append [OF assms(1), of z] by (simp add: parseIPv6_def)
qed

lemma first_sep_dot:
  "\<forall>c \<in> set s. is_digit c \<or> c = CHR ''.'' \<Longrightarrow> CHR ''.'' \<in> set s \<Longrightarrow> first_sep s = Some (CHR ''.'')"
proof (induction s)
  case (Cons c s)
  then show ?case by (auto simp: is_digit_def byte_seps)
qed simp

text \<open>The IPv4-mapped spelling.\<close>

lemma mapped_groups:
  assumes "Is4In6 (Addr6 w z)" "octets (ucast w) = [a, b, c, d]"
  shows "word6 [0, 0, 0, 0, 0, 65535, a * 256 + b, c * 256 + d] = w"
proof -
  obtain x y where g: "groups w = [0, 0, 0, 0, 0, 65535, x, y]"
  proof -
    have "length (drop 6 (groups w)) = 2" by simp
    then obtain x y where "drop 6 (groups w) = [x, y]" by (metis length_0_conv length_Suc_conv numeral_2_eq_2)
    moreover have "groups w = take 6 (groups w) @ drop 6 (groups w)" by simp
    ultimately show thesis using assms(1) that by simp
  qed
  have xy: "0 \<le> x" "x < 65536" "0 \<le> y" "y < 65536" using groups_ok [of w] by (simp_all add: g)
  have w: "uint w = 65535 * 2 ^ 32 + (x * 65536 + y)"
    using uint_groups [of w] by (simp add: g of_base_def)
  have "uint (ucast w :: 32 word) = uint w mod 2 ^ 32"
    by (simp add: unsigned_ucast_eq take_bit_eq_mod)
  also have "\<dots> = (x * 65536 + y) mod 2 ^ 32" unfolding w by (rule mod_mult_self3)
  also have "\<dots> = x * 65536 + y" using xy by (intro mod_pos_pos_trivial) auto
  finally have "((a * 256 + b) * 256 + c) * 256 + d = x * 65536 + y"
    using uint_octets [of "ucast w"] assms(2) by (simp add: of_base_def)
  then have "of_base 65536 [0, 0, 0, 0, 0, 65535, a * 256 + b, c * 256 + d] = uint w"
    using w by (simp add: of_base_def)
  then show ?thesis by (simp add: word6_def)
qed

lemma parse_mapped:
  assumes "digits_ok 256 [a, b, c, d]"
  shows "parse_groups (''::ffff:'' @ dotted [a, b, c, d]) = Some [0, 0, 0, 0, 0, 65535, a * 256 + b, c * 256 + d]"
proof -
  have f: "''ffff'' = to_hex 65535" by code_simp
  obtain t where t: "dotted [a, b, c, d] = int_dec a @ CHR ''.'' # t"
    by (simp add: dotted_def)
  have ha: "list_all is_hex (int_dec a)" "length (int_dec a) \<le> 4" "int_dec a \<noteq> []" "hd (int_dec a) \<noteq> CHR '':''"
  proof -
    have "0 \<le> a" "a < 1000" using assms by auto
    then show "list_all is_hex (int_dec a)" "length (int_dec a) \<le> 4" "int_dec a \<noteq> []" "hd (int_dec a) \<noteq> CHR '':''"
      by (cases rule: nat_dec_cases [of a]; simp add: int_dec_nonneg dec_digit_props)+
  qed
  have tw: "takeWhile is_hex (int_dec a @ CHR ''.'' # t) = int_dec a"
    by (rule takeWhile_hex [OF ha(1)]) (simp add: hex_seps)
  have p: "parseIPv4Fields (int_dec a @ CHR ''.'' # t) = Some [a, b, c, d]"
    using parse_dotted [OF assms] t by simp
  have "v6_loop 8 (to_hex 65535 @ CHR '':'' # dotted [a, b, c, d]) [] (Some 0)
      = v6_loop 7 (dotted [a, b, c, d]) [65535] (Some 0)"
    using v6_loop_more [of 65535 "dotted [a, b, c, d]" 7 "[]"] t ha(3,4) by simp
  also have "\<dots> = Some ([65535, a * 256 + b, c * 256 + d], Some 0, [])"
  proof -
    have "v6_loop (Suc k) (dotted [a, b, c, d]) [65535] (Some 0)
        = Some ([65535, a * 256 + b, c * 256 + d], Some 0, [])" if "k \<noteq> 0" for k
      unfolding t using ha(2,3) that by (simp add: Let_def tw p)
    from this [of 6] show ?thesis by simp
  qed
  finally have l: "v6_loop 8 (to_hex 65535 @ CHR '':'' # dotted [a, b, c, d]) [] (Some 0)
      = Some ([65535, a * 256 + b, c * 256 + d], Some 0, [])" .
  have e: "''::ffff:'' @ dotted [a, b, c, d] = CHR '':'' # CHR '':'' # to_hex 65535 @ CHR '':'' # dotted [a, b, c, d]"
    by (simp add: f [symmetric])
  have x: "v6_expand ([65535, a * 256 + b, c * 256 + d], Some 0, [])
      = Some [0, 0, 0, 0, 0, 65535, a * 256 + b, c * 256 + d]"
    by (simp add: v6_expand_def eval_nat_numeral)
  show ?thesis unfolding e using l x by (simp add: parse_groups_def)
qed

lemma parse_octets: "parseIPv4Fields (dotted (octets w)) = Some (octets w)"
proof -
  obtain a b c d where o: "octets w = [a, b, c, d]" by (rule octets_cases)
  have "digits_ok 256 (octets w)" by simp
  then show ?thesis using parse_dotted [of a b c d] by (simp only: o)
qed

lemma ParseAddr_AddrString: "ParseAddr (AddrString a) = Some a"
proof (cases a)
  case (Addr4 w)
  obtain a1 b c d where o: "octets w = [a1, b, c, d]" by (rule octets_cases)
  have "CHR ''.'' \<in> set (dotted (octets w))" by (simp add: o dotted_def)
  then have "first_sep (dotted (octets w)) = Some (CHR ''.'')"
    using dotted_chars [OF octets_ok] by (intro first_sep_dot) auto
  then show ?thesis using Addr4 parse_octets by (simp add: ParseAddr_def)
next
  case (Addr6 w z)
  show ?thesis
  proof (cases "Is4In6 (Addr6 w z)")
    case True
    obtain a1 b c d where o: "octets (ucast w) = [a1, b, c, d]" by (rule octets_cases)
    have ok: "digits_ok 256 [a1, b, c, d]" using octets_ok [of "ucast w"] by (simp only: o)
    have n: "CHR ''%'' \<notin> set (''::ffff:'' @ dotted [a1, b, c, d])" using dotted_no_percent [OF ok] by simp
    from parse_zone [OF n parse_mapped [OF ok], of z] mapped_groups [OF True o] Addr6 True o
    show ?thesis by (simp add: ParseAddr_def)
  next
    case False
    have n: "CHR ''%'' \<notin> set (print6 (groups w))"
      using print6_chars [OF groups_ok] percent_not(2) by fastforce
    have p: "parse_groups (print6 (groups w)) = Some (groups w)" by (rule parse_print6) simp_all
    have "first_sep (print6 (groups w) @ t) = Some (CHR '':'')" for t
      using print6_chars [OF groups_ok] print6_colon [OF length_groups] by (intro first_sep_colon) auto
    then show ?thesis using parse_zone [OF n p, of z] Addr6 False by (simp add: ParseAddr_def)
  qed
qed

lemma AddrString_inject: "AddrString a = AddrString b \<longleftrightarrow> a = b"
  by (metis ParseAddr_AddrString option.inject)

text \<open>Prefixes round-trip too.\<close>

lemma cut_last_append: "sep \<notin> set t \<Longrightarrow> cut_last sep (s @ sep # t) = Some (s, t)"
  using cut_append [of sep "rev t" "rev s"] by (simp add: cut_last_def)

lemma bits_val_int_dec:
  assumes "n \<le> 128" shows "bits_val (int_dec (int n)) = Some n"
proof -
  have n: "0 \<le> int n" "int n < 1000" using assms by auto
  have d0: "dec_digit m \<noteq> CHR ''0''" if "1 \<le> m" "m < 10" for m
  proof -
    have "int (byte (dec_digit m)) = 48 + m"
      unfolding dec_digit_def using that by (intro byte_char_of_int) simp_all
    moreover have "byte (CHR ''0'') = 48" by code_simp
    ultimately show ?thesis using that by (metis add.right_neutral add_left_cancel not_one_le_zero of_nat_numeral)
  qed
  show ?thesis
    using n
    by (cases rule: nat_dec_cases [of "int n"])
      (auto simp: bits_val_def int_dec_nonneg dec_digit_props d0 of_base_def)
qed

lemma ParsePrefix_PrefixString:
  assumes "prefix_ok p" "px_bits p \<le> 128" shows "ParsePrefix (PrefixString p) = Some p"
proof -
  have "CHR ''/'' \<notin> set (int_dec (int (px_bits p)))"
  proof
    assume "CHR ''/'' \<in> set (int_dec (int (px_bits p)))"
    moreover have "is_digit c" if "c \<in> set (int_dec (int (px_bits p)))" for c
      using assms(2) that
      by (intro int_dec_octet_chars [of "int (px_bits p)"]) simp_all
    moreover have "\<not> is_digit (CHR ''/'')" by (simp add: is_digit_def byte_seps)
    ultimately show False by blast
  qed
  then have "cut_last (CHR ''/'') (PrefixString p) = Some (AddrString (px_addr p), int_dec (int (px_bits p)))"
    unfolding PrefixString_def by (rule cut_last_append)
  moreover have "WithoutZone (px_addr p) = px_addr p"
    using assms(1) by (cases "px_addr p") (auto simp: prefix_ok_def)
  ultimately show ?thesis
    using assms by (simp add: ParsePrefix_def ParseAddr_AddrString bits_val_int_dec prefix_ok_def PrefixFrom_def)
qed

subsection \<open>Prefixes as leading digits\<close>

lemma take_to_base: "0 < b \<Longrightarrow> take k (to_base b (k + m) n) = to_base b k (n div b ^ m)"
proof (induction m arbitrary: n)
  case 0
  then show ?case by simp
next
  case (Suc m)
  then have "take k (to_base b (k + m) (n div b)) = to_base b k (n div b div b ^ m)" by blast
  with Suc.prems show ?case by (simp add: zdiv_zmult2_eq)
qed

lemma to_base_inject:
  assumes "0 < b" "0 \<le> x" "x < b ^ k" "0 \<le> y" "y < b ^ k"
  shows "to_base b k x = to_base b k y \<longleftrightarrow> x = y"
proof
  assume "to_base b k x = to_base b k y"
  then have "x mod b ^ k = y mod b ^ k" by (metis of_base_to_base assms(1))
  then show "x = y" using assms(2-5) by simp
qed simp

lemma uint_word4: "length os = 4 \<Longrightarrow> digits_ok 256 os \<Longrightarrow> uint (word4 os) = of_base 256 os"
  using of_base_bound [of 256 os] of_base_nonneg [of 256 os]
  by (simp add: word4_def unsigned_of_int take_bit_int_eq_self)

lemma uint_word6: "length gs = 8 \<Longrightarrow> digits_ok 65536 gs \<Longrightarrow> uint (word6 gs) = of_base 65536 gs"
  using of_base_bound [of 65536 gs] of_base_nonneg [of 65536 gs]
  by (simp add: word6_def unsigned_of_int take_bit_int_eq_self)

lemma octets_word4: "length os = 4 \<Longrightarrow> digits_ok 256 os \<Longrightarrow> octets (word4 os) = os"
  using to_base_of_base [of 256 os] by (simp add: octets_def uint_word4)

lemma groups_word6: "length gs = 8 \<Longrightarrow> digits_ok 65536 gs \<Longrightarrow> groups (word6 gs) = gs"
  using to_base_of_base [of 65536 gs] by (simp add: groups_def uint_word6)

lemma take_octets:
  assumes "k \<le> 4" shows "take k (octets w) = to_base 256 k (uint w div 2 ^ (32 - 8 * k))"
proof -
  have "(256 :: int) ^ (4 - k) = 2 ^ (8 * (4 - k))" by (simp add: power_mult)
  also have "8 * (4 - k) = 32 - 8 * k" by simp
  finally have e: "(256 :: int) ^ (4 - k) = 2 ^ (32 - 8 * k)" .
  have "take k (octets w) = take k (to_base 256 (k + (4 - k)) (uint w))" using assms by (simp add: octets_def)
  then show ?thesis by (simp only: take_to_base e)
qed

lemma take_groups:
  assumes "k \<le> 8" shows "take k (groups w) = to_base 65536 k (uint w div 2 ^ (128 - 16 * k))"
proof -
  have "(65536 :: int) ^ (8 - k) = 2 ^ (16 * (8 - k))" by (simp add: power_mult)
  also have "16 * (8 - k) = 128 - 16 * k" by simp
  finally have e: "(65536 :: int) ^ (8 - k) = 2 ^ (128 - 16 * k)" .
  have "take k (groups w) = take k (to_base 65536 (k + (8 - k)) (uint w))" using assms by (simp add: groups_def)
  then show ?thesis by (simp only: take_to_base e)
qed

lemma uint_div_bound:
  fixes w :: "'a::len word"
  assumes "k \<le> n" "LENGTH('a) = n"
  shows "0 \<le> uint w div 2 ^ (n - k)" "uint w div 2 ^ (n - k) < 2 ^ k"
proof -
  have "(unsigned w :: int) < 2 ^ LENGTH('a)" by (rule unsigned_less)
  then have "uint w < 2 ^ k * 2 ^ (n - k)" using assms by (simp add: power_add [symmetric])
  moreover have "0 \<le> uint w mod 2 ^ (n - k)" by simp
  then have "uint w div 2 ^ (n - k) * 2 ^ (n - k) \<le> uint w"
    using div_mult_mod_eq [of "uint w" "2 ^ (n - k)"] by linarith
  ultimately have "uint w div 2 ^ (n - k) * 2 ^ (n - k) < 2 ^ k * 2 ^ (n - k)" by linarith
  then show "uint w div 2 ^ (n - k) < 2 ^ k" by (rule mult_right_less_imp_less) simp
  show "0 \<le> uint w div 2 ^ (n - k)" by (simp add: pos_imp_zdiv_nonneg_iff)
qed

text \<open>A prefix of whole octets or groups compares them.\<close>

lemma contains_octets:
  assumes "length os = 4" "digits_ok 256 os" "k \<le> 4"
  shows "PrefixContains \<lparr>px_addr = Addr4 (word4 os), px_bits = 8 * k\<rparr> (Addr4 w) \<longleftrightarrow> take k os = take k (octets w)"
proof -
  have b: "0 \<le> uint v div 2 ^ (32 - 8 * k)" "uint v div 2 ^ (32 - 8 * k) < 256 ^ k" for v :: "32 word"
    using uint_div_bound [of "8 * k" 32 v] assms(3) by (simp_all add: power_mult)
  have "take k os = take k (octets (word4 os))" using assms by (simp add: octets_word4)
  then show ?thesis
    using to_base_inject [of 256 "uint (word4 os) div 2 ^ (32 - 8 * k)" k "uint w div 2 ^ (32 - 8 * k)"] b assms(3)
    by (simp add: PrefixContains_def drop_bit_word_eq take_octets)
qed

lemma contains_groups:
  assumes "length gs = 8" "digits_ok 65536 gs" "k \<le> 8"
  shows "PrefixContains \<lparr>px_addr = Addr6 (word6 gs) y, px_bits = 16 * k\<rparr> (Addr6 w z)
    \<longleftrightarrow> z = [] \<and> take k gs = take k (groups w)"
proof -
  have b: "0 \<le> uint v div 2 ^ (128 - 16 * k)" "uint v div 2 ^ (128 - 16 * k) < 65536 ^ k" for v :: "128 word"
    using uint_div_bound [of "16 * k" 128 v] assms(3) by (simp_all add: power_mult)
  have "take k gs = take k (groups (word6 gs))" using assms by (simp add: groups_word6)
  then show ?thesis
    using to_base_inject [of 65536 "uint (word6 gs) div 2 ^ (128 - 16 * k)" k "uint w div 2 ^ (128 - 16 * k)"] b assms(3)
    by (simp add: PrefixContains_def drop_bit_word_eq take_groups)
qed

text \<open>A prefix ending inside the \<open>k\<close>-th digit compares the digits before it and its leading bits.\<close>

lemma leading4:
  "j \<le> 8 \<Longrightarrow> uint w div 2 ^ (32 - j) = octet w 0 div 2 ^ (8 - j)"
  "j \<le> 8 \<Longrightarrow> uint w div 2 ^ (24 - j) = octet w 0 * 2 ^ j + octet w 1 div 2 ^ (8 - j)"
proof -
  obtain a b c d where o: "octets w = [a, b, c, d]" by (rule octets_cases)
  have u: "uint w = ((a * 256 + b) * 256 + c) * 256 + d" using uint_octets [of w] by (simp add: o of_base_def)
  have ok: "0 \<le> a" "0 \<le> b" "b < 256" "0 \<le> c" "c < 256" "0 \<le> d" "d < 256"
    using octets_ok [of w] by (simp_all add: o)
  have "uint w div 2 ^ 24 = a" "uint w div 2 ^ 16 = a * 256 + b" using ok unfolding u by simp_all
  moreover have "(2 :: int) ^ (32 - j) = 2 ^ 24 * 2 ^ (8 - j)" "(2 :: int) ^ (24 - j) = 2 ^ 16 * 2 ^ (8 - j)" if "j \<le> 8"
    using that by (simp_all only: power_add [symmetric]) simp_all
  ultimately have r: "j \<le> 8 \<Longrightarrow> uint w div 2 ^ (32 - j) = a div 2 ^ (8 - j)"
    "j \<le> 8 \<Longrightarrow> uint w div 2 ^ (24 - j) = (a * 256 + b) div 2 ^ (8 - j)"
    by (simp_all add: zdiv_zmult2_eq)
  show "j \<le> 8 \<Longrightarrow> uint w div 2 ^ (32 - j) = octet w 0 div 2 ^ (8 - j)"
    using r(1) by (simp add: octet_def o)
  assume j: "j \<le> 8"
  have "a * 256 = (a * 2 ^ j) * 2 ^ (8 - j)" using j by (simp add: power_add [symmetric])
  then have "uint w div 2 ^ (24 - j) = ((a * 2 ^ j) * 2 ^ (8 - j) + b) div 2 ^ (8 - j)"
    using r(2) [OF j] by (simp only:)
  also have "\<dots> = a * 2 ^ j + b div 2 ^ (8 - j)" by (rule div_mult_self3) simp
  finally show "uint w div 2 ^ (24 - j) = octet w 0 * 2 ^ j + octet w 1 div 2 ^ (8 - j)"
    by (simp add: octet_def o)
qed

definition group :: "128 word \<Rightarrow> nat \<Rightarrow> int" where
  "group w i = groups w ! i"

lemma leading6:
  assumes "j \<le> 16" shows "uint w div 2 ^ (128 - j) = group w 0 div 2 ^ (16 - j)"
proof -
  have "take 1 (groups w) = [uint w div 2 ^ 112 mod 65536]" using take_groups [of 1 w] by simp
  moreover have "uint w div 2 ^ 112 < 65536" "0 \<le> uint w div 2 ^ 112" using uint_div_bound [of 16 128 w] by simp_all
  ultimately have g: "group w 0 = uint w div 2 ^ 112"
    unfolding group_def by (metis length_groups mod_pos_pos_trivial nth_Cons_0 nth_take zero_less_one)
  have "(2 :: int) ^ (128 - j) = 2 ^ 112 * 2 ^ (16 - j)"
    using assms by (simp only: power_add [symmetric]) simp
  then show ?thesis by (simp add: g zdiv_zmult2_eq)
qed

lemma octet_bound: "i < 4 \<Longrightarrow> 0 \<le> octet w i \<and> octet w i < 256"
  using octets_ok [of w] by (simp add: octet_def digits_ok_def list_all_length)

lemma group_bound: "i < 8 \<Longrightarrow> 0 \<le> group w i \<and> group w i < 65536"
  using groups_ok [of w] by (simp add: group_def digits_ok_def list_all_length)

lemma uint_drop_bit_eq_numeral: "drop_bit n w = of_int v \<longleftrightarrow> uint w div 2 ^ n = v"
  if "0 \<le> v" "v < 2 ^ LENGTH('a)" for w :: "'a::len word"
  using that by (simp add: word_uint_eq_iff uint_drop_bit unsigned_of_int take_bit_int_eq_self)

end
