(* ===== verification/GoUtf8.thy ===== *)
theory GoUtf8
  imports GoStrings "HOL-Library.Code_Target_Nat"
begin

text \<open>
  Go's view of a string as UTF-8 text: \<open>for range\<close>, \<open>[]rune(s)\<close> and \<open>string(runes)\<close>,
  \<open>strings.TrimSpace\<close> and case folding as far as the program uses them. A rune is its code
  point; a byte that is not part of a well-formed sequence decodes to U+FFFD, one byte wide.
\<close>

definition RuneError :: nat where "RuneError = 65533"

definition cont_byte :: "char \<Rightarrow> bool" where
  "cont_byte c \<longleftrightarrow> 128 \<le> byte c \<and> byte c < 192"

definition between :: "nat \<Rightarrow> nat \<Rightarrow> char \<Rightarrow> bool" where
  "between a b c \<longleftrightarrow> a \<le> byte c \<and> byte c \<le> b"

text \<open>
  The first rune and its width: the table of \<open>unicode/utf8\<close>, with the narrowed second byte
  after E0, ED, F0 and F4.
\<close>

definition second_ok :: "char \<Rightarrow> char \<Rightarrow> bool" where
  "second_ok b0 b1 =
     (if byte b0 = 224 then between 160 191 b1
      else if byte b0 = 237 then between 128 159 b1
      else if byte b0 = 240 then between 144 191 b1
      else if byte b0 = 244 then between 128 143 b1
      else between 128 191 b1)"

fun decode_rune :: "string \<Rightarrow> (nat \<times> nat) option" where
  "decode_rune [] = None"
| "decode_rune (b0 # rest) =
     (if byte b0 < 128 then Some (byte b0, 1)
      else case rest of
        [] \<Rightarrow> Some (RuneError, 1)
      | b1 # rest1 \<Rightarrow>
          (if between 194 223 b0 \<and> cont_byte b1 then Some ((byte b0 - 192) * 64 + (byte b1 - 128), 2)
           else case rest1 of
             [] \<Rightarrow> Some (RuneError, 1)
           | b2 # rest2 \<Rightarrow>
               (if between 224 239 b0 \<and> second_ok b0 b1 \<and> cont_byte b2
                then Some ((byte b0 - 224) * 4096 + (byte b1 - 128) * 64 + (byte b2 - 128), 3)
                else case rest2 of
                  [] \<Rightarrow> Some (RuneError, 1)
                | b3 # rest3 \<Rightarrow>
                    (if between 240 244 b0 \<and> second_ok b0 b1 \<and> cont_byte b2 \<and> cont_byte b3
                     then Some ((byte b0 - 240) * 262144 + (byte b1 - 128) * 4096 + (byte b2 - 128) * 64
                                + (byte b3 - 128), 4)
                     else Some (RuneError, 1)))))"

lemma decode_rune_width: "decode_rune s = Some (r, w) \<Longrightarrow> 1 \<le> w \<and> w \<le> length s"
  by (cases s rule: decode_rune.cases) (auto split: if_splits list.splits)

function runes :: "string \<Rightarrow> nat list" where
  "runes s = (case decode_rune s of None \<Rightarrow> [] | Some (r, w) \<Rightarrow> r # runes (drop w s))"
  by auto
termination
  by (relation "measure length") (auto dest!: decode_rune_width)

declare runes.simps [simp del]

definition char_byte :: "nat \<Rightarrow> char" where
  "char_byte n = char_of n"

text \<open>\<open>utf8.AppendRune\<close>: surrogates and values past U+10FFFF are written as U+FFFD.\<close>

definition valid_rune :: "nat \<Rightarrow> bool" where
  "valid_rune r \<longleftrightarrow> r < 55296 \<or> (57344 \<le> r \<and> r < 1114112)"

definition encode_rune :: "nat \<Rightarrow> string" where
  "encode_rune r0 =
     (let r = (if valid_rune r0 then r0 else RuneError)
      in if r < 128 then [char_byte r]
         else if r < 2048 then [char_byte (192 + r div 64), char_byte (128 + r mod 64)]
         else if r < 65536 then
           [char_byte (224 + r div 4096), char_byte (128 + r div 64 mod 64), char_byte (128 + r mod 64)]
         else [char_byte (240 + r div 262144), char_byte (128 + r div 4096 mod 64),
               char_byte (128 + r div 64 mod 64), char_byte (128 + r mod 64)])"

definition encode :: "nat list \<Rightarrow> string" where
  "encode rs = concat (map encode_rune rs)"

lemma byte_char_byte: "n < 256 \<Longrightarrow> byte (char_byte n) = n"
  by (simp add: byte_def char_byte_def)

lemma decode_encode_rune:
  assumes "valid_rune r"
  shows "decode_rune (encode_rune r @ s) = Some (r, length (encode_rune r))"
proof -
  consider "r < 128" | "128 \<le> r" "r < 2048" | "2048 \<le> r" "r < 65536" | "65536 \<le> r" "r < 1114112"
    using assms unfolding valid_rune_def by linarith
  then show ?thesis
  proof cases
    case 1
    then show ?thesis using assms by (simp add: encode_rune_def byte_char_byte)
  next
    case 2
    then have "r div 64 < 32" "2 \<le> r div 64" by simp_all
    then show ?thesis using assms 2
      by (simp add: encode_rune_def byte_char_byte between_def cont_byte_def)
  next
    case 3
    define a where "a = r div 4096"
    define b where "b = r div 64 mod 64"
    define c where "c = r mod 64"
    have r: "r = a * 4096 + b * 64 + c" "b < 64" "c < 64" "a < 16"
    proof -
      have "r = r div 64 * 64 + c" "r div 64 = r div 64 div 64 * 64 + b"
        unfolding b_def c_def by simp_all
      moreover have "a = r div 64 div 64" unfolding a_def by (simp add: div_mult2_eq [symmetric])
      ultimately show "r = a * 4096 + b * 64 + c" by simp
      show "b < 64" "c < 64" unfolding b_def c_def by simp_all
      show "a < 16" using 3(2) unfolding a_def by (simp add: div_less_iff_less_mult)
    qed
    have e: "encode_rune r = [char_byte (224 + a), char_byte (128 + b), char_byte (128 + c)]"
      using assms 3 by (simp add: encode_rune_def a_def b_def c_def)
    have "a = 0 \<longrightarrow> 32 \<le> b" using 3(1) r by auto
    moreover have "a = 13 \<longrightarrow> b < 32" using assms r by (auto simp: valid_rune_def)
    ultimately have "second_ok (char_byte (224 + a)) (char_byte (128 + b))"
      using r by (auto simp: second_ok_def between_def byte_char_byte)
    then show ?thesis using r unfolding e
      by (simp add: byte_char_byte between_def cont_byte_def)
  next
    case 4
    define a where "a = r div 262144"
    define b where "b = r div 4096 mod 64"
    define c where "c = r div 64 mod 64"
    define d where "d = r mod 64"
    have r: "r = a * 262144 + b * 4096 + c * 64 + d" "b < 64" "c < 64" "d < 64" "a < 5"
    proof -
      define x where "x = r div 64"
      define y where "y = x div 64"
      have "a = y div 64" "b = y mod 64" "c = x mod 64" "d = r mod 64"
        unfolding a_def b_def c_def d_def x_def y_def by (simp_all add: div_mult2_eq [symmetric])
      then have "y = a * 64 + b" "x = y * 64 + c" "r = x * 64 + d"
        unfolding x_def y_def by simp_all
      then show "r = a * 262144 + b * 4096 + c * 64 + d" by linarith
      show "b < 64" "c < 64" "d < 64" unfolding b_def c_def d_def by simp_all
      show "a < 5" using 4(2) unfolding a_def by (simp add: div_less_iff_less_mult)
    qed
    have e: "encode_rune r = [char_byte (240 + a), char_byte (128 + b), char_byte (128 + c), char_byte (128 + d)]"
      using assms 4 by (simp add: encode_rune_def a_def b_def c_def d_def)
    have "a = 0 \<longrightarrow> 16 \<le> b" using 4(1) r by auto
    moreover have "a = 4 \<longrightarrow> b < 16" using 4(2) r by auto
    ultimately have "second_ok (char_byte (240 + a)) (char_byte (128 + b))"
      using r by (auto simp: second_ok_def between_def byte_char_byte)
    then show ?thesis using r unfolding e
      by (simp add: byte_char_byte between_def cont_byte_def)
  qed
qed

lemma runes_encode: "list_all valid_rune rs \<Longrightarrow> runes (encode rs) = rs"
proof (induction rs)
  case Nil
  then show ?case by (simp add: encode_def runes.simps)
next
  case (Cons r rs)
  then show ?case
    by (subst runes.simps) (simp add: encode_def decode_encode_rune)
qed

lemma decode_rune_valid: "decode_rune s = Some (r, w) \<Longrightarrow> valid_rune r"
proof (cases s rule: decode_rune.cases)
  case (2 b0 rest)
  have b: "byte c < 256" for c by (rule byte_bound)
  assume "decode_rune s = Some (r, w)"
  then show ?thesis using 2 b [of b0]
    by (auto simp: valid_rune_def RuneError_def between_def cont_byte_def second_ok_def
        split: if_splits list.splits) arith+
qed simp

lemma runes_valid: "list_all valid_rune (runes s)"
proof (induction s rule: runes.induct)
  case (1 s)
  then show ?case
    by (subst runes.simps) (auto split: option.split dest: decode_rune_valid)
qed

subsection \<open>White space, control and format characters\<close>

text \<open>\<open>unicode.IsSpace\<close>, \<open>unicode.IsControl\<close> and the table \<open>unicode.Cf\<close>.\<close>

definition in_ranges :: "(nat \<times> nat) list \<Rightarrow> nat \<Rightarrow> bool" where
  "in_ranges ps r \<longleftrightarrow> list_ex (\<lambda>(a, b). a \<le> r \<and> r \<le> b) ps"

definition is_space :: "nat \<Rightarrow> bool" where
  "is_space r \<longleftrightarrow> in_ranges [(9, 13), (32, 32), (133, 133), (160, 160), (5760, 5760), (8192, 8202),
     (8232, 8233), (8239, 8239), (8287, 8287), (12288, 12288)] r"

definition is_control :: "nat \<Rightarrow> bool" where
  "is_control r \<longleftrightarrow> in_ranges [(0, 31), (127, 159)] r"

definition is_format :: "nat \<Rightarrow> bool" where
  "is_format r \<longleftrightarrow> in_ranges [(173, 173), (1536, 1541), (1564, 1564), (1757, 1757), (1807, 1807),
     (2192, 2193), (2274, 2274), (6158, 6158), (8203, 8207), (8234, 8238), (8288, 8292), (8294, 8303),
     (65279, 65279), (65529, 65531), (69821, 69821), (69837, 69837), (78896, 78911), (113824, 113827),
     (119155, 119162), (917505, 917505), (917536, 917631)] r"

text \<open>\<open>strings.TrimSpace\<close>: whole encoded runes are dropped at both ends.\<close>

function chunks :: "string \<Rightarrow> (nat \<times> string) list" where
  "chunks s = (case decode_rune s of None \<Rightarrow> [] | Some (r, w) \<Rightarrow> (r, take w s) # chunks (drop w s))"
  by auto
termination
  by (relation "measure length") (auto dest!: decode_rune_width)

declare chunks.simps [simp del]

definition trim_list :: "('a \<Rightarrow> bool) \<Rightarrow> 'a list \<Rightarrow> 'a list" where
  "trim_list p xs = rev (dropWhile p (rev (dropWhile p xs)))"

definition TrimSpace :: "string \<Rightarrow> string" where
  "TrimSpace s = concat (map snd (trim_list (\<lambda>c. is_space (fst c)) (chunks s)))"

lemma chunks_ascii: "list_all (\<lambda>c. byte c < 128) s \<Longrightarrow> chunks s = map (\<lambda>c. (byte c, [c])) s"
proof (induction s)
  case Nil
  show ?case by (simp add: chunks.simps [of "[]"])
next
  case (Cons c s)
  then show ?case by (subst chunks.simps) simp
qed

lemma TrimSpace_ascii: "list_all (\<lambda>c. 32 < byte c \<and> byte c < 127) s \<Longrightarrow> TrimSpace s = s"
proof -
  assume a: "list_all (\<lambda>c. 32 < byte c \<and> byte c < 127) s"
  then have c: "chunks s = map (\<lambda>c. (byte c, [c])) s" by (intro chunks_ascii) (auto simp: list_all_iff)
  have n: "\<forall>c \<in> set (chunks s). \<not> is_space (fst c)"
    using a unfolding c by (auto simp: list_all_iff is_space_def in_ranges_def)
  have d: "dropWhile (\<lambda>c. is_space (fst c)) cs = cs" if "set cs \<subseteq> set (chunks s)" for cs
    using n that by (cases cs) auto
  have "trim_list (\<lambda>c. is_space (fst c)) (chunks s) = chunks s"
    unfolding trim_list_def by (simp add: d)
  moreover have "concat (map snd (map (\<lambda>c. (byte c, [c])) s)) = s" by (induction s) simp_all
  ultimately show ?thesis by (simp only: TrimSpace_def c)
qed

lemma chunks_encode:
  "list_all valid_rune rs \<Longrightarrow> chunks (encode rs) = map (\<lambda>r. (r, encode_rune r)) rs"
proof (induction rs)
  case Nil
  then show ?case by (simp add: encode_def chunks.simps)
next
  case (Cons r rs)
  then show ?case
    by (subst chunks.simps) (simp add: encode_def decode_encode_rune)
qed

lemma trim_list_map: "trim_list p (map f xs) = map f (trim_list (p \<circ> f) xs)"
  by (simp add: trim_list_def dropWhile_map rev_map comp_def)

lemma TrimSpace_encode:
  "list_all valid_rune rs \<Longrightarrow> TrimSpace (encode rs) = encode (trim_list is_space rs)"
  by (simp add: TrimSpace_def chunks_encode trim_list_map comp_def) (simp add: encode_def comp_def)

lemma trim_list_set: "set (trim_list p xs) \<subseteq> set xs"
  by (auto simp: trim_list_def dest!: set_dropWhileD)

lemma trim_list_ends:
  assumes "trim_list p xs \<noteq> []"
  shows "\<not> p (hd (trim_list p xs))" "\<not> p (last (trim_list p xs))"
proof -
  let ?d = "dropWhile p xs"
  have t: "trim_list p xs = rev (dropWhile p (rev ?d))" by (simp add: trim_list_def)
  then have ne: "dropWhile p (rev ?d) \<noteq> []" using assms by simp
  then show "\<not> p (last (trim_list p xs))" unfolding t by (simp add: last_rev hd_dropWhile)
  have "rev (takeWhile p (rev ?d) @ dropWhile p (rev ?d)) = ?d" by simp
  then have d: "?d = trim_list p xs @ rev (takeWhile p (rev ?d))" by (simp only: rev_append t)
  have "hd ?d = hd (trim_list p xs)" by (subst d) (simp add: assms)
  moreover have "?d \<noteq> []" by (subst d) (simp add: assms)
  ultimately have "hd ?d = hd (trim_list p xs)" "?d \<noteq> []" by blast+
  then show "\<not> p (hd (trim_list p xs))" using hd_dropWhile [of p xs] by metis
qed

subsection \<open>Case folding\<close>

text \<open>
  \<open>strings.EqualFold\<close> against an ASCII word that has neither k nor s, whose only case
  variants are ASCII: the comparison is the ASCII one.
\<close>

definition equal_fold :: "string \<Rightarrow> string \<Rightarrow> bool" where
  "equal_fold s t \<longleftrightarrow> map ascii_lower s = map ascii_lower t"

text \<open>
  \<open>strings.ToLower\<close>, rune by rune, as far as an ASCII word can tell: besides the ASCII
  letters only U+0130 and U+212A have an ASCII lower case. Every other rune lowers to a rune
  outside ASCII and is left as it is here.
\<close>

definition lower_rune :: "nat \<Rightarrow> nat" where
  "lower_rune r = (if 65 \<le> r \<and> r \<le> 90 then r + 32 else if r = 304 then 105 else if r = 8490 then 107 else r)"

definition lowers_to :: "string \<Rightarrow> string \<Rightarrow> bool" where
  "lowers_to s t \<longleftrightarrow> map lower_rune (runes s) = map byte t"

end
