(* ===== verification/Httpx.thy ===== *)
theory Httpx
  imports GoBase64 Netip_Text GoUtf8
begin

text \<open>
  The HTTP plumbing of \<open>internal/platform/httpx\<close>: \<open>clientip.go\<close> and \<open>identity.go\<close>. A request is
  what the handlers read of it; a header that is absent reads as the empty string, as
  \<open>Header.Get\<close> has it. \<open>net.SplitHostPort\<close> and \<open>Request.BasicAuth\<close> are written out.
\<close>

record http_request =
  hr_method :: string
  hr_remote :: string
  hr_authorization :: string
  hr_forwarded_for :: string
  hr_content_encoding :: string
  hr_accept_encoding :: string
  hr_if_none_match :: string
  hr_body :: string

text \<open>What a handler gets from the size-capped decompressor and the JSON decoder it reads a body with.\<close>

datatype 'a decoded = BodyBadGzip | BodyTooBig | BodyBadJson | Decoded 'a

subsection \<open>Hosts\<close>

fun last_index :: "char \<Rightarrow> string \<Rightarrow> nat option" where
  "last_index x [] = None"
| "last_index x (c # s) = (case last_index x s of Some i \<Rightarrow> Some (Suc i) | None \<Rightarrow> if c = x then Some 0 else None)"

text \<open>The host part; \<open>None\<close> for each error of the library.\<close>

definition SplitHostPort :: "string \<Rightarrow> string option" where
  "SplitHostPort s =
     (case last_index (CHR '':'') s of
        None \<Rightarrow> None
      | Some i \<Rightarrow>
          (if hd s = CHR ''[''
           then (case index_byte s (CHR '']'') of
                   None \<Rightarrow> None
                 | Some e \<Rightarrow>
                     (if Suc e = i \<and> CHR ''['' \<notin> set (drop 1 s) \<and> CHR '']'' \<notin> set (drop (Suc e) s)
                      then Some (take (e - 1) (drop 1 s)) else None))
           else (if CHR '':'' \<in> set (take i s) \<or> CHR ''['' \<in> set s \<or> CHR '']'' \<in> set s
                 then None else Some (take i s))))"

definition is_bracket :: "char \<Rightarrow> bool" where
  "is_bracket c \<longleftrightarrow> c = CHR ''['' \<or> c = CHR '']''"

definition hostOnly :: "string \<Rightarrow> string" where
  "hostOnly s = (case SplitHostPort s of Some host \<Rightarrow> host | None \<Rightarrow> trim_list is_bracket s)"

definition parseHost :: "string \<Rightarrow> addr option" where
  "parseHost s = map_option Unmap (ParseAddr (hostOnly s))"

subsection \<open>Trusted proxies\<close>

type_synonym trusted_proxies = "prefix list"

fun parse_proxies :: "string list \<Rightarrow> string + trusted_proxies" where
  "parse_proxies [] = Inr []"
| "parse_proxies (raw # rest) =
     (let s = TrimSpace raw
      in if s = [] then parse_proxies rest
         else case ParsePrefix s of
           Some p \<Rightarrow> rbind (parse_proxies rest) (\<lambda>ps. Inr (p # ps))
         | None \<Rightarrow> (case ParseAddr s of
             None \<Rightarrow> Inl s
           | Some a \<Rightarrow> rbind (parse_proxies rest) (\<lambda>ps. Inr (PrefixFrom a (BitLen a) # ps))))"

definition ParseTrustedProxies :: "string \<Rightarrow> string + trusted_proxies" where
  "ParseTrustedProxies csv = parse_proxies (split_byte (CHR '','') csv)"

definition proxies_contain :: "trusted_proxies \<Rightarrow> string \<Rightarrow> bool" where
  "proxies_contain t remote = (case parseHost remote of
      None \<Rightarrow> False | Some a \<Rightarrow> list_ex (\<lambda>p. PrefixContains p a) t)"

text \<open>The loop over the parts, from the last to the first.\<close>

fun rightmost_addr :: "string \<Rightarrow> string list \<Rightarrow> string" where
  "rightmost_addr remote [] = remote"
| "rightmost_addr remote (part # parts) =
     (let s = TrimSpace part
      in if s = [] then rightmost_addr remote parts
         else case ParseAddr s of Some a \<Rightarrow> AddrString a | None \<Rightarrow> remote)"

definition ClientIP :: "http_request \<Rightarrow> trusted_proxies \<Rightarrow> string" where
  "ClientIP r t =
     (let remote = hostOnly (hr_remote r)
      in if \<not> proxies_contain t (hr_remote r) then remote
         else rightmost_addr remote (rev (split_byte (CHR '','') (hr_forwarded_for r))))"

subsection \<open>Identity\<close>

definition BasicAuth :: "http_request \<Rightarrow> (string \<times> string) option" where
  "BasicAuth r =
     (let auth = hr_authorization r
      in if length auth < 6 \<or> map ascii_lower (take 6 auth) \<noteq> ''basic '' then None
         else case b64_decode (drop 6 auth) of None \<Rightarrow> None | Some cs \<Rightarrow> cut (CHR '':'') cs)"

datatype identity_error = ErrUntrustedProxy | ErrNoCredential

definition SystemID :: "http_request \<Rightarrow> trusted_proxies \<Rightarrow> identity_error + string" where
  "SystemID r t =
     (if \<not> proxies_contain t (hr_remote r) then Inl ErrUntrustedProxy
      else case BasicAuth r of
             None \<Rightarrow> Inl ErrNoCredential
           | Some (user, _) \<Rightarrow> if user = [] then Inl ErrNoCredential else Inr user)"

lemma SystemID_trusted: "SystemID r t = Inr sys \<Longrightarrow> proxies_contain t (hr_remote r) \<and> sys \<noteq> []"
  by (auto simp: SystemID_def split: if_splits option.splits prod.splits)

lemma parse_proxies_sound:
  "parse_proxies cs = Inr t \<Longrightarrow> p \<in> set t \<Longrightarrow>
     \<exists>c \<in> set cs. ParsePrefix (TrimSpace c) = Some p \<or> (\<exists>a. ParseAddr (TrimSpace c) = Some a \<and> p = PrefixFrom a (BitLen a))"
  by (induction cs arbitrary: t) (auto simp: Let_def rbind_Inr_iff split: if_splits option.splits)

lemma rightmost_addr_cases:
  "rightmost_addr remote parts = remote \<or> (\<exists>a. rightmost_addr remote parts = AddrString a)"
  by (induction parts) (auto simp: Let_def split: option.split)

text \<open>
  A request that did not arrive from a trusted proxy resolves to its own connection, whatever
  headers it carries.
\<close>

lemma ClientIP_untrusted:
  "\<not> proxies_contain t (hr_remote r) \<Longrightarrow> ClientIP r t = hostOnly (hr_remote r)"
  by (simp add: ClientIP_def)

end
