(* ===== verification/Platform_Identity.thy ===== *)
theory Platform_Identity
  imports Auth Httpx
begin

text \<open>
  \<open>authd\<close> checks a credential; the services behind the proxy read the system's identity from
  the same header with another parser, \<open>Request.BasicAuth\<close>. The two agree.
\<close>

lemma basic_prefix_facts: "length basic_prefix = 6" "map ascii_lower basic_prefix = ''basic ''"
  by (simp add: basic_prefix_def, code_simp)

lemma basic_prefix_lower:
  assumes "has_prefix h basic_prefix"
  shows "\<not> length h < 6 \<and> map ascii_lower (take 6 h) = ''basic ''" "drop 6 h = trim_prefix h basic_prefix"
proof -
  obtain t where h: "h = basic_prefix @ t" using assms by (auto simp: has_prefix_iff)
  show "\<not> length h < 6 \<and> map ascii_lower (take 6 h) = ''basic ''"
    unfolding h using basic_prefix_facts by (simp del: map_append)
  show "drop 6 h = trim_prefix h basic_prefix" unfolding h using basic_prefix_facts(1) by simp
qed

lemma ascii_lower_blank: "ascii_lower c = CHR '' '' \<Longrightarrow> c = CHR '' ''"
proof (cases "is_upper c")
  case True
  assume "ascii_lower c = CHR '' ''"
  then have "byte (char_of (byte c + 32)) = 32" using True by (simp add: ascii_lower_def byte_def)
  moreover have "byte (char_of (byte c + 32)) = byte c + 32"
    using True by (simp add: byte_def is_upper_def)
  ultimately show ?thesis using True by (simp add: is_upper_def)
qed (simp add: ascii_lower_def)

lemma ParseBasic_BasicAuth:
  assumes "ParseBasic (hr_authorization r) = Inr (i, secret)" shows "BasicAuth r = Some (i, secret)"
proof -
  have h: "has_prefix (hr_authorization r) basic_prefix" using assms by (auto simp: ParseBasic_def split: if_splits)
  have d: "drop 6 (hr_authorization r) = trim_prefix (hr_authorization r) basic_prefix"
    by (rule basic_prefix_lower(2) [OF h])
  show ?thesis using assms h basic_prefix_lower(1) [OF h] unfolding BasicAuth_def Let_def d
    by (auto simp: ParseBasic_def split: if_splits option.splits)
qed

lemma ParseBasic_refused:
  assumes "ParseBasic (hr_authorization r) = Inl (ErrInvalidCredentials e)" "e \<noteq> SchemeNotBasic"
  shows "BasicAuth r = None"
proof (cases "has_prefix (hr_authorization r) basic_prefix")
  case True
  have d: "drop 6 (hr_authorization r) = trim_prefix (hr_authorization r) basic_prefix"
    by (rule basic_prefix_lower(2) [OF True])
  show ?thesis using assms True unfolding BasicAuth_def Let_def d
    by (auto simp: ParseBasic_def split: if_splits option.splits)
next
  case False
  then have n: "CHR '' '' \<notin> set (hr_authorization r)" using assms by (auto simp: ParseBasic_def split: if_splits)
  have False if l: "\<not> length (hr_authorization r) < 6" "map ascii_lower (take 6 (hr_authorization r)) = ''basic ''"
  proof -
    have "ascii_lower (hr_authorization r ! 5) = CHR '' ''"
      using arg_cong [OF l(2), of "\<lambda>x. x ! 5"] l(1) by simp
    then have "hr_authorization r ! 5 = CHR '' ''" by (rule ascii_lower_blank)
    moreover have "5 < length (hr_authorization r)" using l(1) by simp
    ultimately show False using n by (metis nth_mem)
  qed
  then show ?thesis by (auto simp: BasicAuth_def Let_def)
qed

text \<open>
  The identity the services act on is the one \<open>authd\<close> checked: whatever header \<open>authd\<close> can
  parse, a service behind a trusted proxy reads the same system from it, and where the header
  names none, or \<open>authd\<close> finds it malformed in any way but its scheme, or the request came from
  elsewhere, the service refuses.
\<close>

lemma identity_agreement:
  "case ParseBasic (hr_authorization r) of
     Inr (i, secret) \<Rightarrow> SystemID r t = (if \<not> proxies_contain t (hr_remote r) then Inl ErrUntrustedProxy
        else if i = [] then Inl ErrNoCredential else Inr i)
   | Inl (ErrInvalidCredentials e) \<Rightarrow>
       e = SchemeNotBasic \<or> SystemID r t = Inl (if proxies_contain t (hr_remote r) then ErrNoCredential else ErrUntrustedProxy)
   | Inl _ \<Rightarrow> False"
proof (cases "ParseBasic (hr_authorization r)")
  case (Inr p)
  then show ?thesis by (cases p) (simp add: SystemID_def ParseBasic_BasicAuth)
next
  case (Inl e)
  then obtain x where "e = ErrInvalidCredentials x" using ParseBasic_error by blast
  then show ?thesis using Inl ParseBasic_refused [of r x] by (cases "x = SchemeNotBasic") (auto simp: SystemID_def)
qed

end
