(* ===== verification/GoTime.thy ===== *)
theory GoTime
  imports GoStrings
begin

text \<open>
  What the program uses of Go's \<open>time\<close>: the proleptic Gregorian calendar in UTC, instants as
  milliseconds since the Unix epoch, the RFC 3339 parser (the lenient general one, which the
  strict fast path agrees with) and the two formats it prints.
\<close>

subsection \<open>Calendar\<close>

text \<open>
  Days since 1970-01-01. Years are counted from March, so that the leap day is the last day of
  a year; \<open>era\<close> is the 400-year cycle of 146097 days.
\<close>

definition days_from_civil :: "int \<Rightarrow> int \<Rightarrow> int \<Rightarrow> int" where
  "days_from_civil y m d =
     (let y' = (if m \<le> 2 then y - 1 else y); era = y' div 400; yoe = y' mod 400;
          doy = (153 * ((m + 9) mod 12) + 2) div 5 + d - 1;
          doe = yoe * 365 + yoe div 4 - yoe div 100 + doy
      in era * 146097 + doe - 719468)"

definition civil_from_days :: "int \<Rightarrow> int \<times> int \<times> int" where
  "civil_from_days n =
     (let z = n + 719468; era = z div 146097; doe = z mod 146097;
          yoe = (doe - doe div 1460 + doe div 36524 - doe div 146096) div 365;
          doy = doe - (365 * yoe + yoe div 4 - yoe div 100);
          mp = (5 * doy + 2) div 153;
          d = doy - (153 * mp + 2) div 5 + 1;
          m = (if mp < 10 then mp + 3 else mp - 9)
      in (yoe + era * 400 + (if m \<le> 2 then 1 else 0), m, d))"

definition is_leap :: "int \<Rightarrow> bool" where
  "is_leap y \<longleftrightarrow> y mod 4 = 0 \<and> (y mod 100 \<noteq> 0 \<or> y mod 400 = 0)"

definition daysIn :: "int \<Rightarrow> int \<Rightarrow> int" where
  "daysIn m y = (if m = 2 then (if is_leap y then 29 else 28) else if m \<in> {4, 6, 9, 11} then 30 else 31)"

definition dayMillis :: int where "dayMillis = 86400000"

text \<open>\<open>%0*d\<close> for the widths the layouts use.\<close>

definition pad :: "nat \<Rightarrow> int \<Rightarrow> string" where
  "pad w n = (if n < 0 then CHR ''-'' # replicate (w - length (nat_dec (- n))) (CHR ''0'') @ nat_dec (- n)
     else replicate (w - length (nat_dec n)) (CHR ''0'') @ nat_dec n)"

text \<open>\<open>Format("2006-01-02")\<close> and \<open>Format(time.RFC3339)\<close> of an instant in UTC.\<close>

definition format_date :: "int \<Rightarrow> string" where
  "format_date days = (case civil_from_days days of (y, m, d) \<Rightarrow>
     pad 4 y @ ''-'' @ pad 2 m @ ''-'' @ pad 2 d)"

definition format_day :: "int \<Rightarrow> string" where
  "format_day ms = format_date (ms div dayMillis)"

definition format_rfc3339 :: "int \<Rightarrow> string" where
  "format_rfc3339 ms =
     (let s = ms mod dayMillis div 1000
      in format_day ms @ ''T'' @ pad 2 (s div 3600) @ '':'' @ pad 2 (s div 60 mod 60) @ '':'' @ pad 2 (s mod 60) @ ''Z'')"

text \<open>Midnight UTC of the day of an instant.\<close>

definition day_start :: "int \<Rightarrow> int" where
  "day_start ms = ms - ms mod dayMillis"

lemma day_start_props:
  "day_start ms \<le> ms" "ms < day_start ms + dayMillis" "day_start ms mod dayMillis = 0"
proof -
  have "0 \<le> ms mod dayMillis" "ms mod dayMillis < dayMillis" by (simp_all add: dayMillis_def)
  then show "day_start ms \<le> ms" "ms < day_start ms + dayMillis" by (simp_all add: day_start_def)
  show "day_start ms mod dayMillis = 0" by (simp add: day_start_def dayMillis_def minus_mod_eq_mult_div)
qed

lemma day_start_same: "ms div dayMillis = ns div dayMillis \<Longrightarrow> day_start ms = day_start ns"
  by (simp add: day_start_def minus_mod_eq_mult_div)

lemma day_start_mono: "ms \<le> ns \<Longrightarrow> day_start ms \<le> day_start ns"
  by (simp add: day_start_def minus_mod_eq_mult_div dayMillis_def zdiv_mono1)

subsection \<open>Parsing RFC 3339\<close>

definition dv :: "char \<Rightarrow> int" where
  "dv c = int (byte c) - 48"

definition digits_val :: "string \<Rightarrow> int" where
  "digits_val s = foldl (\<lambda>a c. a * 10 + dv c) 0 s"

text \<open>A field of exactly \<open>n\<close> digits; \<open>getnum\<close> with one digit allowed; a literal.\<close>

definition fixed_num :: "nat \<Rightarrow> string \<Rightarrow> (int \<times> string) option" where
  "fixed_num n s = (if n \<le> length s \<and> list_all is_digit (take n s)
     then Some (digits_val (take n s), drop n s) else None)"

definition getnum :: "string \<Rightarrow> (int \<times> string) option" where
  "getnum s = (case fixed_num 2 s of Some r \<Rightarrow> Some r | None \<Rightarrow> fixed_num 1 s)"

definition literal :: "char \<Rightarrow> string \<Rightarrow> string option" where
  "literal c s = (case s of [] \<Rightarrow> None | d # r \<Rightarrow> if d = c then Some r else None)"

definition in_range :: "int \<Rightarrow> int \<Rightarrow> (int \<times> string) option \<Rightarrow> (int \<times> string) option" where
  "in_range a b r = Option.bind r (\<lambda>(n, s). if a \<le> n \<and> n \<le> b then Some (n, s) else None)"

text \<open>
  A fractional second the layout does not name: milliseconds of up to nine of its digits, and
  the rest of the text.
\<close>

definition fraction_millis :: "string \<Rightarrow> int" where
  "fraction_millis ds = digits_val (take 9 ds) * 10 ^ (9 - length (take 9 ds)) div 1000000"

definition fraction :: "string \<Rightarrow> int \<times> string" where
  "fraction s = (case s of
      c # d # r \<Rightarrow> if (c = CHR ''.'' \<or> c = CHR '','') \<and> is_digit d
                  then (fraction_millis (takeWhile is_digit (d # r)), dropWhile is_digit (d # r))
                  else (0, s)
    | _ \<Rightarrow> (0, s))"

text \<open>The zone: \<open>Z\<close>, or a sign, two digits, a colon and two digits; seconds east of UTC.\<close>

definition zone_offset :: "string \<Rightarrow> int option" where
  "zone_offset s =
     (if s = ''Z'' then Some 0
      else case s of
        [sg, h1, h2, c, m1, m2] \<Rightarrow>
          (if c = CHR '':'' \<and> list_all is_digit [h1, h2, m1, m2] \<and> digits_val [h1, h2] \<le> 24 \<and> digits_val [m1, m2] \<le> 60
           then (let off = digits_val [h1, h2] * 3600 + digits_val [m1, m2] * 60
                 in if sg = CHR ''+'' then Some off else if sg = CHR ''-'' then Some (- off) else None)
           else None)
      | _ \<Rightarrow> None)"

definition parse_rfc3339 :: "string \<Rightarrow> int option" where
  "parse_rfc3339 s0 =
     Option.bind (fixed_num 4 s0) (\<lambda>(y, s1).
     Option.bind (literal (CHR ''-'') s1) (\<lambda>s2.
     Option.bind (in_range 1 12 (fixed_num 2 s2)) (\<lambda>(mo, s3).
     Option.bind (literal (CHR ''-'') s3) (\<lambda>s4.
     Option.bind (fixed_num 2 s4) (\<lambda>(d, s5).
     Option.bind (literal (CHR ''T'') s5) (\<lambda>s6.
     Option.bind (in_range 0 23 (getnum s6)) (\<lambda>(h, s7).
     Option.bind (literal (CHR '':'') s7) (\<lambda>s8.
     Option.bind (in_range 0 59 (fixed_num 2 s8)) (\<lambda>(mi, s9).
     Option.bind (literal (CHR '':'') s9) (\<lambda>s10.
     Option.bind (in_range 0 59 (fixed_num 2 s10)) (\<lambda>(se, s11).
     (case fraction s11 of (frac, s12) \<Rightarrow>
     Option.bind (zone_offset s12) (\<lambda>off.
       if d < 1 \<or> daysIn mo y < d then None
       else Some ((days_from_civil y mo d * 86400 + h * 3600 + mi * 60 + se - off) * 1000 + frac))))))))))))))"

end
