(* ===== verification/Model_Bundle.thy ===== *)
theory Model_Bundle
  imports GoStrings "HOL-Library.Product_Lexorder" "HOL-Library.Multiset"
begin

text \<open>
  The data model of the log pipeline, \<open>internal/model/model.go\<close>, and the module naming
  rule of \<open>internal/model/canonical.go\<close> (\<open>ModuleFamily\<close>). Integers of the wire format
  are \<open>int\<close>s in the range of \<open>int64\<close>; nothing here computes with them. A
  \<open>map[string]bool\<close> read with a default of false is the set of its true keys.
\<close>

subsection \<open>Wire types\<close>

record window =
  w_start :: int
  w_end :: int

record template =
  t_template :: string
  t_count :: int
  t_module_id :: string
  t_priority :: int
  t_category :: string
  t_first_seen :: int
  t_last_seen :: int
  t_samples :: "string list"
  t_nodes :: "int list"

record truncated_module =
  tm_module_id :: string
  tm_dropped :: int
  tm_truncated :: bool

record line_budget =
  lb_max_lines :: int
  lb_lines_seen :: int
  lb_lines_kept :: int
  lb_truncated_modules :: "truncated_module list"

record node_info =
  ni_node_id :: int
  ni_fqdn :: string

record log_bundle =
  b_schema_version :: int
  b_system_id :: string
  b_collector_version :: string
  b_masking_version :: int
  b_window :: window
  b_templates :: "template list"
  b_budget :: line_budget
  b_nodes :: "node_info list"

record finding =
  f_id :: string
  f_system_id :: string
  f_fingerprint :: string
  f_severity :: string
  f_title :: string
  f_summary :: string
  f_suggested_action :: string
  f_modules :: "string list"
  f_evidence :: "string list"
  f_status :: string
  f_occurrence_count :: int
  f_first_seen :: int
  f_last_seen :: int
  f_reopened_at :: "int option"
  f_llm_model :: string
  f_prompt_version :: string
  f_nodes :: "int list"
  f_node_refs :: "node_info list"
  f_class_key :: string
  f_security :: bool
  f_doc_ref :: string
  f_visibility :: string
  f_severity_override :: string
  f_class_title :: string
  f_class_summary :: string
  f_class_suggested_action :: string

definition SchemaVersion :: int where "SchemaVersion = 1"
definition StatusOpen :: string where "StatusOpen = ''open''"
definition StatusStale :: string where "StatusStale = ''stale''"

subsection \<open>Severities and the order of findings\<close>

definition Severities :: "string list" where
  "Severities = [''critical'', ''high'', ''medium'', ''low'']"

definition Assessments :: "string list" where
  "Assessments = [''nominal'', ''degraded'', ''incident'']"

fun index_from :: "nat \<Rightarrow> string list \<Rightarrow> string \<Rightarrow> nat option" where
  "index_from i [] s = None"
| "index_from i (x # xs) s = (if x = s then Some i else index_from (Suc i) xs s)"

definition SeverityRank :: "string \<Rightarrow> nat" where
  "SeverityRank s = (case index_from 0 Severities s of Some i \<Rightarrow> i | None \<Rightarrow> length Severities)"

definition ValidSeverity :: "string \<Rightarrow> bool" where
  "ValidSeverity s = list_ex (\<lambda>x. x = s) Severities"

definition ValidAssessment :: "string \<Rightarrow> bool" where
  "ValidAssessment s = list_ex (\<lambda>x. x = s) Assessments"

text \<open>\<open>sort.SliceStable\<close> by rank, then by \<open>LastSeen\<close> descending.\<close>

definition finding_order :: "finding \<Rightarrow> nat \<times> int" where
  "finding_order f = (SeverityRank (f_severity f), - f_last_seen f)"

definition SortFindings :: "finding list \<Rightarrow> finding list" where
  "SortFindings fs = sort_key finding_order fs"

lemma SeverityRank_le: "SeverityRank s \<le> 4"
  by (auto simp: SeverityRank_def Severities_def)

lemma SeverityRank_valid: "ValidSeverity s \<longleftrightarrow> SeverityRank s < 4"
  by (auto simp: SeverityRank_def Severities_def ValidSeverity_def)

subsection \<open>Service tags\<close>

definition ServiceTag :: "string \<Rightarrow> string" where
  "ServiceTag tpl =
     (case tpl of [] \<Rightarrow> []
      | c # _ \<Rightarrow>
          (if c \<noteq> CHR ''<'' then []
           else case index_byte tpl (CHR ''>'') of
                  None \<Rightarrow> []
                | Some e \<Rightarrow>
                    (let rest = trim_left (\<lambda>c. c = CHR '' '' \<or> c = char_of (9::nat)) (drop (e + 1) tpl)
                     in case rest of [] \<Rightarrow> []
                        | d # _ \<Rightarrow>
                            (if d \<noteq> CHR ''['' then []
                             else case index_byte rest (CHR '']'') of
                                    None \<Rightarrow> []
                                  | Some close \<Rightarrow> if close < 1 then [] else take (close - 1) (drop 1 rest)))))"

definition ExcludeServices :: "string set \<Rightarrow> log_bundle \<Rightarrow> log_bundle" where
  "ExcludeServices excluded b =
     (if excluded = {} then b
      else b\<lparr>b_templates := filter (\<lambda>t. \<not> (ServiceTag (t_template t) \<noteq> [] \<and> ServiceTag (t_template t) \<in> excluded))
                              (b_templates b)\<rparr>)"

subsection \<open>Module families and module exclusion\<close>

definition ModuleFamily :: "string \<Rightarrow> string" where
  "ModuleFamily moduleID =
     (let family = trim_right is_digit moduleID in if family = [] then moduleID else family)"

definition moduleExcluded :: "string set \<Rightarrow> string \<Rightarrow> bool" where
  "moduleExcluded excluded moduleID \<longleftrightarrow> moduleID \<in> excluded \<or> ModuleFamily moduleID \<in> excluded"

definition ExcludeModules :: "string set \<Rightarrow> log_bundle \<Rightarrow> log_bundle" where
  "ExcludeModules excluded b =
     (if excluded = {} then b
      else b\<lparr>b_templates := filter (\<lambda>t. \<not> moduleExcluded excluded (t_module_id t)) (b_templates b),
             b_budget := (b_budget b)\<lparr>lb_truncated_modules :=
                filter (\<lambda>tm. \<not> moduleExcluded excluded (tm_module_id tm))
                  (lb_truncated_modules (b_budget b))\<rparr>\<rparr>)"

lemma ModuleFamily_idem: "ModuleFamily (ModuleFamily m) = ModuleFamily m"
  by (auto simp: ModuleFamily_def Let_def trim_right_idem)

lemma ModuleFamily_empty [simp]: "ModuleFamily [] = []"
  by (simp add: ModuleFamily_def trim_right_def)

text \<open>An instance of a family: its name followed by a number.\<close>

lemma ModuleFamily_instance:
  assumes "f \<noteq> []" "\<not> is_digit (last f)" "list_all is_digit ds"
  shows "ModuleFamily (f @ ds) = f"
proof -
  obtain g c where f: "f = g @ [c]" using assms(1) by (cases f rule: rev_cases) auto
  have "dropWhile is_digit (rev ds @ rev f) = rev f"
    using assms f by (simp add: dropWhile_append2 list_all_iff dropWhile_append)
  then show ?thesis using assms(1) by (simp add: ModuleFamily_def trim_right_def)
qed

subsection \<open>The order on templates\<close>

definition LessTemplate :: "template \<Rightarrow> template \<Rightarrow> bool" where
  "LessTemplate a b =
     (if t_module_id a \<noteq> t_module_id b then t_module_id a < t_module_id b
      else if t_priority a \<noteq> t_priority b then t_priority a < t_priority b
      else t_template a < t_template b)"

definition template_key :: "template \<Rightarrow> string \<times> int \<times> string" where
  "template_key t = (t_module_id t, t_priority t, t_template t)"

lemma LessTemplate_key: "LessTemplate a b \<longleftrightarrow> template_key a < template_key b"
  by (auto simp: LessTemplate_def template_key_def)

fun category_in :: "template list \<Rightarrow> string \<Rightarrow> string" where
  "category_in [] tpl = []"
| "category_in (t # ts) tpl = (if t_template t = tpl then t_category t else category_in ts tpl)"

definition CategoryOf :: "log_bundle \<Rightarrow> string \<Rightarrow> string" where
  "CategoryOf b tpl = category_in (b_templates b) tpl"

subsection \<open>Properties\<close>

text \<open>
  Excluding a module family removes every template and every truncation record of every
  instance of it, whatever number the instance has, keeps all the other records of both
  collections in order, and touches nothing else of the bundle.
\<close>

lemma ExcludeModules_complete:
  "list_all (\<lambda>tm. tm_module_id tm \<notin> excluded \<and> ModuleFamily (tm_module_id tm) \<notin> excluded)
      (lb_truncated_modules (b_budget (ExcludeModules excluded b)))
   \<and> b_templates (ExcludeModules excluded b)
       = [t \<leftarrow> b_templates b. t_module_id t \<notin> excluded \<and> ModuleFamily (t_module_id t) \<notin> excluded]
   \<and> b_window (ExcludeModules excluded b) = b_window b
   \<and> b_nodes (ExcludeModules excluded b) = b_nodes b
   \<and> b_system_id (ExcludeModules excluded b) = b_system_id b"
  by (auto simp: ExcludeModules_def moduleExcluded_def list_all_iff)

text \<open>
  Excluding services fails open: a line whose service tag is not recognised is always
  kept, and a kept line never carries an excluded tag.
\<close>

lemma ExcludeServices_fails_open:
  "t \<in> set (b_templates (ExcludeServices excluded b)) \<longleftrightarrow>
     t \<in> set (b_templates b) \<and> \<not> (ServiceTag (t_template t) \<noteq> [] \<and> ServiceTag (t_template t) \<in> excluded)"
  by (auto simp: ExcludeServices_def)

text \<open>
  The findings returned to a customer are a rearrangement of the stored ones, most
  severe first and most recent first within a severity, and findings that tie keep their
  order.
\<close>

lemma SortFindings_correct:
  "mset (SortFindings fs) = mset fs
   \<and> sorted_wrt (\<lambda>a b. SeverityRank (f_severity a) < SeverityRank (f_severity b)
        \<or> SeverityRank (f_severity a) = SeverityRank (f_severity b) \<and> f_last_seen b \<le> f_last_seen a)
       (SortFindings fs)
   \<and> [f \<leftarrow> SortFindings fs. finding_order f = k] = [f \<leftarrow> fs. finding_order f = k]"
proof -
  have "sorted (map finding_order (SortFindings fs))" by (simp add: SortFindings_def)
  then have "sorted_wrt (\<lambda>a b. finding_order a \<le> finding_order b) (SortFindings fs)"
    by (simp add: sorted_wrt_map)
  then have "sorted_wrt (\<lambda>a b. SeverityRank (f_severity a) < SeverityRank (f_severity b)
        \<or> SeverityRank (f_severity a) = SeverityRank (f_severity b) \<and> f_last_seen b \<le> f_last_seen a)
       (SortFindings fs)"
    by (rule sorted_wrt_mono_rel [rotated]) (auto simp: finding_order_def)
  then show ?thesis by (simp add: SortFindings_def sort_key_stable)
qed

end
