(* ===== verification/Threat_Sanitize.thy ===== *)
theory Threat_Sanitize
  imports Netip_Text GoUtf8 GoTime Model_Bundle
begin

text \<open>
  The ingest sanitizer of Threat Shield, \<open>internal/threat/sanitize.go\<close>, with the wire types of
  \<open>internal/model/threat.go\<close>: which reported decisions become evidence, and how each one
  that does not is counted. Instants are Unix milliseconds, durations nanoseconds. Reading
  \<open>Decision.Duration\<close> (\<open>time.ParseDuration\<close>, then whole seconds) is the argument \<open>dur\<close>: its
  value is carried through and decides nothing.
\<close>

subsection \<open>Wire types\<close>

record decision =
  d_id :: int
  d_value :: string
  d_scope :: string
  d_type :: string
  d_scenario :: string
  d_origin :: string
  d_duration :: string
  d_created_at :: string

record threat_report =
  tr_schema_version :: int
  tr_system_id :: string
  tr_decisions :: "decision list"

record threat_event =
  te_ip :: string
  te_scenario :: string
  te_observed_at :: int
  te_hits :: int
  te_duration_seconds :: "int option"

record threat_counters =
  tc_accepted :: int
  tc_type :: int
  tc_scope :: int
  tc_origin :: int
  tc_bad_ip :: int
  tc_private_ip :: int
  tc_time :: int
  tc_truncated :: int

definition ThreatSchemaVersion :: int where "ThreatSchemaVersion = 1"

definition ThreatCounterResults :: "string list" where
  "ThreatCounterResults = [''accepted'', ''dropped_type'', ''dropped_scope'', ''dropped_origin'',
     ''dropped_bad_ip'', ''dropped_private_ip'', ''dropped_time'', ''truncated'']"

definition ByResult :: "threat_counters \<Rightarrow> int list" where
  "ByResult c = [tc_accepted c, tc_type c, tc_scope c, tc_origin c, tc_bad_ip c, tc_private_ip c,
     tc_time c, tc_truncated c]"

definition no_counts :: threat_counters where
  "no_counts = \<lparr>tc_accepted = 0, tc_type = 0, tc_scope = 0, tc_origin = 0, tc_bad_ip = 0,
     tc_private_ip = 0, tc_time = 0, tc_truncated = 0\<rparr>"

subsection \<open>Which addresses are evidence\<close>

text \<open>A prefix written as its first octets or groups and its length.\<close>

definition px4 :: "int list \<Rightarrow> nat \<Rightarrow> prefix" where
  "px4 os n = \<lparr>px_addr = Addr4 (word4 os), px_bits = n\<rparr>"

definition px6 :: "int list \<Rightarrow> nat \<Rightarrow> prefix" where
  "px6 gs n = \<lparr>px_addr = Addr6 (word6 gs) [], px_bits = n\<rparr>"

definition nonPublicPrefixes :: "prefix list" where
  "nonPublicPrefixes =
     [px4 [100, 64, 0, 0] 10, px6 [0xfc00, 0, 0, 0, 0, 0, 0, 0] 7, px4 [198, 18, 0, 0] 15,
      px4 [0, 0, 0, 0] 8, px4 [192, 0, 0, 0] 24, px4 [240, 0, 0, 0] 4,
      px6 [0xfec0, 0, 0, 0, 0, 0, 0, 0] 10, px6 [0x2002, 0, 0, 0, 0, 0, 0, 0] 16,
      px6 [0x64, 0xff9b, 0, 0, 0, 0, 0, 0] 96, px6 [0x64, 0xff9b, 1, 0, 0, 0, 0, 0] 48,
      px6 [0, 0, 0, 0, 0, 0, 0, 0] 96, px6 [0x2001, 0, 0, 0, 0, 0, 0, 0] 32,
      px6 [0x2001, 2, 0, 0, 0, 0, 0, 0] 48, px6 [0x100, 0, 0, 0, 0, 0, 0, 0] 64,
      px4 [192, 88, 99, 0] 24]"

definition publicUnicast :: "addr \<Rightarrow> bool" where
  "publicUnicast a \<longleftrightarrow>
     \<not> (Zone a \<noteq> [] \<or> IsUnspecified a \<or> IsLoopback a \<or> IsPrivate a \<or> IsLinkLocalUnicast a
        \<or> IsLinkLocalMulticast a \<or> IsInterfaceLocalMulticast a \<or> IsMulticast a)
     \<and> \<not> list_ex (\<lambda>p. PrefixContains p a) nonPublicPrefixes"

definition localOrigins :: "string list" where
  "localOrigins = [''crowdsec'', ''cscli'', ''banip'']"

subsection \<open>Text and time\<close>

definition keep_rune :: "nat \<Rightarrow> bool" where
  "keep_rune r \<longleftrightarrow> \<not> (r = 9 \<or> r = 10 \<or> r = 13 \<or> is_control r \<or> is_format r)"

definition CleanText :: "string \<Rightarrow> nat \<Rightarrow> string" where
  "CleanText s0 limit =
     (let s = TrimSpace (encode (filter keep_rune (runes s0)))
      in if length (runes s) > limit then encode (take limit (runes s)) else s)"

definition MaxScenarioLen :: nat where "MaxScenarioLen = 128"

definition cleanScenario :: "string \<Rightarrow> string" where
  "cleanScenario s = CleanText s MaxScenarioLen"

definition maxClockSkew_ms :: int where "maxClockSkew_ms = 24 * 3600 * 1000"

definition ms_of_ns :: "int \<Rightarrow> int" where
  "ms_of_ns d = go_div d 1000000"

definition observedAt :: "string \<Rightarrow> int \<Rightarrow> int \<Rightarrow> int option" where
  "observedAt raw now maxAge =
     (case parse_rfc3339 (TrimSpace raw) of
        None \<Rightarrow> None
      | Some ms \<Rightarrow>
          if ms > now + maxClockSkew_ms then Some now
          else if maxAge > 0 \<and> ms < now - ms_of_ns maxAge then None
          else Some ms)"

subsection \<open>Sanitize\<close>

record sanitize_options =
  so_source_ip :: "addr option"
  so_max_decisions :: int
  so_max_age :: int

definition DefaultMaxDecisions :: int where "DefaultMaxDecisions = 500"

datatype drop_reason = DropType | DropScope | DropOrigin | DropBadIP | DropPrivateIP | DropTime

type_synonym dedup_key = "string \<times> string \<times> int"

text \<open>The loop body up to the merge: the counter a decision falls to, or its key.\<close>

definition judge :: "sanitize_options \<Rightarrow> int \<Rightarrow> decision \<Rightarrow> drop_reason + dedup_key" where
  "judge opts now d =
     (if \<not> equal_fold (d_type d) ''ban'' then Inl DropType
      else if \<not> equal_fold (d_scope d) ''ip'' then Inl DropScope
      else if \<not> list_ex (lowers_to (d_origin d)) localOrigins then Inl DropOrigin
      else case ParseAddr (TrimSpace (d_value d)) of
        None \<Rightarrow> Inl DropBadIP
      | Some addr0 \<Rightarrow>
          (let scoped = (Zone addr0 \<noteq> []); addr = Unmap addr0
           in if scoped \<or> \<not> publicUnicast addr
                 \<or> (case so_source_ip opts of None \<Rightarrow> False | Some src \<Rightarrow> addr = Unmap src)
              then Inl DropPrivateIP
              else case observedAt (d_created_at d) now (so_max_age opts) of
                     None \<Rightarrow> Inl DropTime
                   | Some t \<Rightarrow> Inr (AddrString addr, cleanScenario (d_scenario d), t)))"

fun bump :: "drop_reason \<Rightarrow> threat_counters \<Rightarrow> threat_counters" where
  "bump DropType c = c\<lparr>tc_type := tc_type c + 1\<rparr>"
| "bump DropScope c = c\<lparr>tc_scope := tc_scope c + 1\<rparr>"
| "bump DropOrigin c = c\<lparr>tc_origin := tc_origin c + 1\<rparr>"
| "bump DropBadIP c = c\<lparr>tc_bad_ip := tc_bad_ip c + 1\<rparr>"
| "bump DropPrivateIP c = c\<lparr>tc_private_ip := tc_private_ip c + 1\<rparr>"
| "bump DropTime c = c\<lparr>tc_time := tc_time c + 1\<rparr>"

definition event_key :: "threat_event \<Rightarrow> dedup_key" where
  "event_key e = (te_ip e, te_scenario e, te_observed_at e)"

text \<open>\<open>merged\<close> in order of first insertion; the map's own order never shows.\<close>

definition merge_event :: "threat_event \<Rightarrow> threat_event \<Rightarrow> threat_event" where
  "merge_event old new = old\<lparr>te_hits := te_hits old + 1\<rparr>"

definition sanitize_step ::
  "(string \<Rightarrow> int option) \<Rightarrow> sanitize_options \<Rightarrow> int \<Rightarrow> decision \<Rightarrow>
     threat_counters \<times> threat_event list \<Rightarrow> threat_counters \<times> threat_event list" where
  "sanitize_step dur opts now d st = (case st of (c, merged) \<Rightarrow>
     (case judge opts now d of
        Inl r \<Rightarrow> (bump r c, merged)
      | Inr (ip, sc, t) \<Rightarrow>
          (c\<lparr>tc_accepted := tc_accepted c + 1\<rparr>,
           upsert event_key merge_event
             \<lparr>te_ip = ip, te_scenario = sc, te_observed_at = t, te_hits = 1,
              te_duration_seconds = dur (TrimSpace (d_duration d))\<rparr> merged)))"

definition Sanitize ::
  "(string \<Rightarrow> int option) \<Rightarrow> threat_report \<Rightarrow> sanitize_options \<Rightarrow> int \<Rightarrow> threat_event list \<times> threat_counters" where
  "Sanitize dur r opts now =
     (let most = (if so_max_decisions opts \<le> 0 then DefaultMaxDecisions else so_max_decisions opts);
          over = int (length (tr_decisions r)) > most;
          c0 = (if over then no_counts\<lparr>tc_truncated := int (length (tr_decisions r)) - most\<rparr> else no_counts);
          ds = (if over then take (nat most) (tr_decisions r) else tr_decisions r)
      in case fold (sanitize_step dur opts now) ds (c0, []) of
           (c, merged) \<Rightarrow> (sort_key event_key merged, c))"

subsection \<open>Public addresses\<close>

lemma px4_short:
  assumes "n \<le> 8" "length os = 4" "digits_ok 256 os"
  shows "PrefixContains (px4 os n) (Addr4 w) \<longleftrightarrow> os ! 0 div 2 ^ (8 - n) = octet w 0 div 2 ^ (8 - n)"
  using leading4(1) [OF assms(1)] assms
  by (simp add: PrefixContains_def px4_def drop_bit_word_eq octet_def octets_word4)

lemma px4_mid:
  assumes "j \<le> 8" "length os = 4" "digits_ok 256 os"
  shows "PrefixContains (px4 os (8 + j)) (Addr4 w) \<longleftrightarrow>
    os ! 0 * 2 ^ j + os ! 1 div 2 ^ (8 - j) = octet w 0 * 2 ^ j + octet w 1 div 2 ^ (8 - j)"
  using leading4(2) [OF assms(1)] assms
  by (simp add: PrefixContains_def px4_def drop_bit_word_eq octet_def octets_word4)

lemma px4_octets:
  assumes "k \<le> 4" "length os = 4" "digits_ok 256 os"
  shows "PrefixContains (px4 os (8 * k)) (Addr4 w) \<longleftrightarrow> take k os = take k (octets w)"
  using contains_octets [OF assms(2,3,1)] by (simp add: px4_def)

lemma px6_short:
  assumes "n \<le> 16" "length gs = 8" "digits_ok 65536 gs"
  shows "PrefixContains (px6 gs n) (Addr6 w z) \<longleftrightarrow> z = [] \<and> gs ! 0 div 2 ^ (16 - n) = group w 0 div 2 ^ (16 - n)"
  using leading6 [OF assms(1)] assms
  by (simp add: PrefixContains_def px6_def drop_bit_word_eq group_def groups_word6)

lemma px6_groups:
  assumes "k \<le> 8" "length gs = 8" "digits_ok 65536 gs"
  shows "PrefixContains (px6 gs (16 * k)) (Addr6 w z) \<longleftrightarrow> z = [] \<and> take k gs = take k (groups w)"
  using contains_groups [OF assms(2,3,1)] by (simp add: px6_def)

lemma px_mixed [simp]:
  "\<not> PrefixContains (px4 os n) (Addr6 w z)" "\<not> PrefixContains (px6 gs n) (Addr4 v)"
  by (simp_all add: PrefixContains_def px4_def px6_def)

lemma octets_take: "take 3 (octets w) = [octet w 0, octet w 1, octet w 2]"
proof -
  obtain a b c d where "octets w = [a, b, c, d]" by (rule octets_cases)
  then show ?thesis by (simp add: octet_def)
qed

lemma px4_list:
  "PrefixContains (px4 [100, 64, 0, 0] 10) (Addr4 w) \<longleftrightarrow> octet w 0 = 100 \<and> 64 \<le> octet w 1 \<and> octet w 1 \<le> 127"
  "PrefixContains (px4 [198, 18, 0, 0] 15) (Addr4 w) \<longleftrightarrow> octet w 0 = 198 \<and> (octet w 1 = 18 \<or> octet w 1 = 19)"
  "PrefixContains (px4 [0, 0, 0, 0] 8) (Addr4 w) \<longleftrightarrow> octet w 0 = 0"
  "PrefixContains (px4 [192, 0, 0, 0] 24) (Addr4 w) \<longleftrightarrow> octet w 0 = 192 \<and> octet w 1 = 0 \<and> octet w 2 = 0"
  "PrefixContains (px4 [240, 0, 0, 0] 4) (Addr4 w) \<longleftrightarrow> 240 \<le> octet w 0"
  "PrefixContains (px4 [192, 88, 99, 0] 24) (Addr4 w) \<longleftrightarrow> octet w 0 = 192 \<and> octet w 1 = 88 \<and> octet w 2 = 99"
proof -
  have b: "0 \<le> octet w 0" "octet w 0 < 256" "0 \<le> octet w 1" "octet w 1 < 256"
    using octet_bound [of 0 w] octet_bound [of 1 w] by simp_all
  show "PrefixContains (px4 [100, 64, 0, 0] 10) (Addr4 w) \<longleftrightarrow> octet w 0 = 100 \<and> 64 \<le> octet w 1 \<and> octet w 1 \<le> 127"
  proof -
    have "octet w 1 div 64 = 1 \<longleftrightarrow> 64 \<le> octet w 1 \<and> octet w 1 \<le> 127" "0 \<le> octet w 1 div 64" "octet w 1 div 64 < 4"
      using b by presburger+
    moreover have "401 = a * 4 + q \<longleftrightarrow> a = 100 \<and> q = 1" if "0 \<le> q" "q < 4" for a q :: int
      using that by presburger
    ultimately show ?thesis using px4_mid [of 2 "[100, 64, 0, 0]" w] by simp
  qed
  show "PrefixContains (px4 [198, 18, 0, 0] 15) (Addr4 w) \<longleftrightarrow> octet w 0 = 198 \<and> (octet w 1 = 18 \<or> octet w 1 = 19)"
  proof -
    have "octet w 1 div 2 = 9 \<longleftrightarrow> octet w 1 = 18 \<or> octet w 1 = 19" "0 \<le> octet w 1 div 2" "octet w 1 div 2 < 128"
      using b by presburger+
    moreover have "25353 = a * 128 + q \<longleftrightarrow> a = 198 \<and> q = 9" if "0 \<le> q" "q < 128" for a q :: int
      using that by presburger
    ultimately show ?thesis using px4_mid [of 7 "[198, 18, 0, 0]" w] by simp
  qed
  show "PrefixContains (px4 [0, 0, 0, 0] 8) (Addr4 w) \<longleftrightarrow> octet w 0 = 0"
    using px4_short [of 8 "[0, 0, 0, 0]" w] by auto
  show "PrefixContains (px4 [240, 0, 0, 0] 4) (Addr4 w) \<longleftrightarrow> 240 \<le> octet w 0"
    using px4_short [of 4 "[240, 0, 0, 0]" w] b by simp presburger
  show "PrefixContains (px4 [192, 0, 0, 0] 24) (Addr4 w) \<longleftrightarrow> octet w 0 = 192 \<and> octet w 1 = 0 \<and> octet w 2 = 0"
    using px4_octets [of 3 "[192, 0, 0, 0]" w] by (auto simp: octets_take)
  show "PrefixContains (px4 [192, 88, 99, 0] 24) (Addr4 w) \<longleftrightarrow> octet w 0 = 192 \<and> octet w 1 = 88 \<and> octet w 2 = 99"
    using px4_octets [of 3 "[192, 88, 99, 0]" w] by (auto simp: octets_take)
qed

lemma px6_list:
  "PrefixContains (px6 [0xfc00, 0, 0, 0, 0, 0, 0, 0] 7) (Addr6 w []) \<longleftrightarrow> group w 0 div 512 = 126"
  "PrefixContains (px6 [0xfec0, 0, 0, 0, 0, 0, 0, 0] 10) (Addr6 w []) \<longleftrightarrow> group w 0 div 64 = 1019"
  "PrefixContains (px6 [0x2002, 0, 0, 0, 0, 0, 0, 0] 16) (Addr6 w []) \<longleftrightarrow> group w 0 = 0x2002"
  "PrefixContains (px6 [0x64, 0xff9b, 0, 0, 0, 0, 0, 0] 96) (Addr6 w []) \<longleftrightarrow> take 6 (groups w) = [0x64, 0xff9b, 0, 0, 0, 0]"
  "PrefixContains (px6 [0x64, 0xff9b, 1, 0, 0, 0, 0, 0] 48) (Addr6 w []) \<longleftrightarrow> take 3 (groups w) = [0x64, 0xff9b, 1]"
  "PrefixContains (px6 [0, 0, 0, 0, 0, 0, 0, 0] 96) (Addr6 w []) \<longleftrightarrow> take 6 (groups w) = [0, 0, 0, 0, 0, 0]"
  "PrefixContains (px6 [0x2001, 0, 0, 0, 0, 0, 0, 0] 32) (Addr6 w []) \<longleftrightarrow> take 2 (groups w) = [0x2001, 0]"
  "PrefixContains (px6 [0x2001, 2, 0, 0, 0, 0, 0, 0] 48) (Addr6 w []) \<longleftrightarrow> take 3 (groups w) = [0x2001, 2, 0]"
  "PrefixContains (px6 [0x100, 0, 0, 0, 0, 0, 0, 0] 64) (Addr6 w []) \<longleftrightarrow> take 4 (groups w) = [0x100, 0, 0, 0]"
proof -
  show "PrefixContains (px6 [0xfc00, 0, 0, 0, 0, 0, 0, 0] 7) (Addr6 w []) \<longleftrightarrow> group w 0 div 512 = 126"
    using px6_short [of 7 "[0xfc00, 0, 0, 0, 0, 0, 0, 0]" w "[]"] by auto
  show "PrefixContains (px6 [0xfec0, 0, 0, 0, 0, 0, 0, 0] 10) (Addr6 w []) \<longleftrightarrow> group w 0 div 64 = 1019"
    using px6_short [of 10 "[0xfec0, 0, 0, 0, 0, 0, 0, 0]" w "[]"] by auto
  show "PrefixContains (px6 [0x2002, 0, 0, 0, 0, 0, 0, 0] 16) (Addr6 w []) \<longleftrightarrow> group w 0 = 0x2002"
    using px6_short [of 16 "[0x2002, 0, 0, 0, 0, 0, 0, 0]" w "[]"] by auto
  show "PrefixContains (px6 [0x64, 0xff9b, 0, 0, 0, 0, 0, 0] 96) (Addr6 w []) \<longleftrightarrow> take 6 (groups w) = [0x64, 0xff9b, 0, 0, 0, 0]"
    using px6_groups [of 6 "[0x64, 0xff9b, 0, 0, 0, 0, 0, 0]" w "[]"] by auto
  show "PrefixContains (px6 [0x64, 0xff9b, 1, 0, 0, 0, 0, 0] 48) (Addr6 w []) \<longleftrightarrow> take 3 (groups w) = [0x64, 0xff9b, 1]"
    using px6_groups [of 3 "[0x64, 0xff9b, 1, 0, 0, 0, 0, 0]" w "[]"] by auto
  show "PrefixContains (px6 [0, 0, 0, 0, 0, 0, 0, 0] 96) (Addr6 w []) \<longleftrightarrow> take 6 (groups w) = [0, 0, 0, 0, 0, 0]"
    using px6_groups [of 6 "[0, 0, 0, 0, 0, 0, 0, 0]" w "[]"] by auto
  show "PrefixContains (px6 [0x2001, 0, 0, 0, 0, 0, 0, 0] 32) (Addr6 w []) \<longleftrightarrow> take 2 (groups w) = [0x2001, 0]"
    using px6_groups [of 2 "[0x2001, 0, 0, 0, 0, 0, 0, 0]" w "[]"] by auto
  show "PrefixContains (px6 [0x2001, 2, 0, 0, 0, 0, 0, 0] 48) (Addr6 w []) \<longleftrightarrow> take 3 (groups w) = [0x2001, 2, 0]"
    using px6_groups [of 3 "[0x2001, 2, 0, 0, 0, 0, 0, 0]" w "[]"] by auto
  show "PrefixContains (px6 [0x100, 0, 0, 0, 0, 0, 0, 0] 64) (Addr6 w []) \<longleftrightarrow> take 4 (groups w) = [0x100, 0, 0, 0]"
    using px6_groups [of 4 "[0x100, 0, 0, 0, 0, 0, 0, 0]" w "[]"] by auto
qed

lemma multicast_scopes:
  fixes w :: "128 word"
  assumes "drop_bit 112 w AND 0xff0f = c" "drop_bit 8 c = 0xff"
  shows "drop_bit 120 w = 0xff"
proof -
  have "drop_bit 8 (drop_bit 112 w AND 0xff0f) = drop_bit 8 (drop_bit 112 w) AND drop_bit 8 0xff0f"
    by (rule drop_bit_and)
  then have "drop_bit 120 w AND 0xff = 0xff" using assms by simp
  moreover have "drop_bit 120 w AND 0xff = take_bit 8 (drop_bit 120 w)"
    by (simp add: take_bit_eq_mask mask_eq_exp_minus_1)
  moreover have "take_bit 8 (drop_bit 120 w) = drop_bit 120 w"
    by (rule bit_word_eqI) (auto simp: bit_take_bit_iff bit_drop_bit_eq dest: bit_imp_le_length)
  ultimately show ?thesis by simp
qed

lemma group0_bits:
  fixes w :: "128 word"
  assumes "j \<le> 16" "0 \<le> v" "v < 2 ^ 128"
  shows "drop_bit (128 - j) w = of_int v \<longleftrightarrow> group w 0 div 2 ^ (16 - j) = v"
  using assms by (simp add: uint_drop_bit_eq_numeral leading6)

lemma publicUnicast4:
  "publicUnicast (Addr4 w) \<longleftrightarrow>
     (let a = octet w 0; b = octet w 1; c = octet w 2
      in a \<notin> {0, 10, 127} \<and> a < 224 \<and> \<not> (a = 100 \<and> 64 \<le> b \<and> b \<le> 127) \<and> \<not> (a = 169 \<and> b = 254)
         \<and> \<not> (a = 172 \<and> 16 \<le> b \<and> b \<le> 31) \<and> \<not> (a = 192 \<and> b = 168) \<and> \<not> (a = 192 \<and> b = 0 \<and> c = 0)
         \<and> \<not> (a = 192 \<and> b = 88 \<and> c = 99) \<and> \<not> (a = 198 \<and> (b = 18 \<or> b = 19)))"
proof -
  define a b c where "a = octet w 0" and "b = octet w 1" and "c = octet w 2"
  have o: "0 \<le> a" "a < 256" "0 \<le> b" "b < 256"
    using octet_bound [of 0 w] octet_bound [of 1 w] by (simp_all add: a_def b_def)
  have d: "b div 16 = 1 \<longleftrightarrow> 16 \<le> b \<and> b \<le> 31" "a div 16 = 14 \<longleftrightarrow> 224 \<le> a \<and> a < 240" using o by presburger+
  have z: "w = 0 \<Longrightarrow> a = 0" by (simp add: a_def octet_def octets_def eval_nat_numeral)
  have "publicUnicast (Addr4 w) \<longleftrightarrow>
    \<not> (w = 0 \<or> a = 127 \<or> a = 10 \<or> (a = 172 \<and> b div 16 = 1) \<or> (a = 192 \<and> b = 168) \<or> (a = 169 \<and> b = 254)
       \<or> (a = 224 \<and> b = 0 \<and> c = 0) \<or> a div 16 = 14
       \<or> (a = 100 \<and> 64 \<le> b \<and> b \<le> 127) \<or> (a = 198 \<and> (b = 18 \<or> b = 19)) \<or> a = 0
       \<or> (a = 192 \<and> b = 0 \<and> c = 0) \<or> 240 \<le> a \<or> (a = 192 \<and> b = 88 \<and> c = 99))"
    by (simp add: publicUnicast_def nonPublicPrefixes_def px4_list IsLoopback_def IsPrivate_def
        IsLinkLocalUnicast_def IsLinkLocalMulticast_def IsInterfaceLocalMulticast_def IsMulticast_def
        a_def b_def c_def)
  also have "\<dots> \<longleftrightarrow> a \<notin> {0, 10, 127} \<and> a < 224 \<and> \<not> (a = 100 \<and> 64 \<le> b \<and> b \<le> 127) \<and> \<not> (a = 169 \<and> b = 254)
         \<and> \<not> (a = 172 \<and> 16 \<le> b \<and> b \<le> 31) \<and> \<not> (a = 192 \<and> b = 168) \<and> \<not> (a = 192 \<and> b = 0 \<and> c = 0)
         \<and> \<not> (a = 192 \<and> b = 88 \<and> c = 99) \<and> \<not> (a = 198 \<and> (b = 18 \<or> b = 19))"
  proof -
    have h: "(a = 224 \<and> b = 0 \<and> c = 0) \<or> a div 16 = 14 \<or> 240 \<le> a \<longleftrightarrow> \<not> a < 224" unfolding d by linarith
    show ?thesis using z h d(1) by blast
  qed
  finally show ?thesis by (simp add: Let_def a_def b_def c_def)
qed

lemma publicUnicast6:
  assumes "\<not> Is4In6 (Addr6 w [])"
  shows "publicUnicast (Addr6 w []) \<longleftrightarrow>
     (let g = group w 0; gs = groups w
      in g div 512 \<noteq> 0x7e \<and> g div 64 \<notin> {0x3fa, 0x3fb} \<and> g div 256 \<noteq> 0xff \<and> g \<noteq> 0x2002
         \<and> take 6 gs \<notin> {[0, 0, 0, 0, 0, 0], [0x64, 0xff9b, 0, 0, 0, 0]} \<and> take 2 gs \<noteq> [0x2001, 0]
         \<and> take 3 gs \<notin> {[0x64, 0xff9b, 1], [0x2001, 2, 0]} \<and> take 4 gs \<noteq> [0x100, 0, 0, 0])"
proof -
  have u: "Unmap (Addr6 w []) = Addr6 w []" using assms by simp
  have z: "w = 0 \<or> w = 1 \<Longrightarrow> take 6 (groups w) = [0, 0, 0, 0, 0, 0]"
    by (auto simp: groups_def eval_nat_numeral)
  have p: "drop_bit 121 w = 0x7e \<longleftrightarrow> group w 0 div 512 = 0x7e"
    "drop_bit 118 w = 0x3fa \<longleftrightarrow> group w 0 div 64 = 0x3fa"
    "drop_bit 120 w = 0xff \<longleftrightarrow> group w 0 div 256 = 0xff"
    using group0_bits [of 7 "0x7e" w] group0_bits [of 10 "0x3fa" w] group0_bits [of 8 "0xff" w] by simp_all
  have m: "drop_bit 112 w AND 0xff0f = 0xff02 \<or> drop_bit 112 w AND 0xff0f = 0xff01 \<Longrightarrow> group w 0 div 256 = 0xff"
    using multicast_scopes [of w "0xff02"] multicast_scopes [of w "0xff01"] p(3) by auto
  show ?thesis
    using z m u
    by (auto simp: publicUnicast_def nonPublicPrefixes_def px6_list Let_def p IsLoopback_def IsPrivate_def
        IsLinkLocalUnicast_def IsLinkLocalMulticast_def IsInterfaceLocalMulticast_def IsMulticast_def)
qed

subsection \<open>Clean text\<close>

lemma trim_kept: "list_all p xs \<Longrightarrow> list_all p (trim_list q xs)"
  using trim_list_set [of q xs] by (auto simp: list_all_iff)

lemma CleanText_runes:
  "\<exists>rs. CleanText s n = encode (take n rs) \<and> list_all valid_rune rs \<and> list_all keep_rune rs
     \<and> rs = trim_list is_space (filter keep_rune (runes s))"
proof -
  define ks where "ks = filter keep_rune (runes s)"
  have v: "list_all valid_rune ks" using runes_valid [of s] by (auto simp: ks_def list_all_iff)
  define rs where "rs = trim_list is_space ks"
  have rv: "list_all valid_rune rs" unfolding rs_def by (rule trim_kept [OF v])
  have t: "TrimSpace (encode ks) = encode rs" unfolding rs_def by (rule TrimSpace_encode [OF v])
  have "list_all keep_rune ks" by (simp add: ks_def list_all_iff)
  then have "list_all keep_rune rs" unfolding rs_def by (rule trim_kept)
  moreover have "CleanText s n = encode (take n rs)"
    using t runes_encode [OF rv] by (simp add: CleanText_def Let_def ks_def [symmetric])
  ultimately show ?thesis using rv rs_def ks_def by blast
qed

lemma list_all_take: "list_all p xs \<Longrightarrow> list_all p (take n xs)"
  by (auto simp: list_all_iff dest: in_set_takeD)

subsection \<open>What a batch becomes\<close>

definition judged :: "sanitize_options \<Rightarrow> int \<Rightarrow> dedup_key \<Rightarrow> decision list \<Rightarrow> decision list" where
  "judged opts now k ds = filter (\<lambda>d. judge opts now d = Inr k) ds"

definition event_of :: "(string \<Rightarrow> int option) \<Rightarrow> dedup_key \<Rightarrow> decision list \<Rightarrow> threat_event option" where
  "event_of dur k ds = (case ds of [] \<Rightarrow> None
     | d # _ \<Rightarrow> Some \<lparr>te_ip = fst k, te_scenario = fst (snd k), te_observed_at = snd (snd k),
         te_hits = int (length ds), te_duration_seconds = dur (TrimSpace (d_duration d))\<rparr>)"

lemma merge_event_key: "event_key a = event_key b \<Longrightarrow> event_key (merge_event a b) = event_key b"
  by (simp add: event_key_def merge_event_def)

lemma event_of_snoc:
  assumes "event_key e = k" "te_hits e = 1" "te_duration_seconds e = dur (TrimSpace (d_duration d))"
  shows "event_of dur k (ds @ [d]) = Some (case event_of dur k ds of None \<Rightarrow> e | Some r \<Rightarrow> merge_event r e)"
  using assms by (cases ds) (auto simp: event_of_def merge_event_def event_key_def)

definition counted :: "threat_counters \<Rightarrow> int" where
  "counted c = tc_accepted c + tc_type c + tc_scope c + tc_origin c + tc_bad_ip c + tc_private_ip c + tc_time c"

lemma bump_simps [simp]: "counted (bump r c) = counted c + 1" "tc_truncated (bump r c) = tc_truncated c"
  by (cases r; simp add: counted_def)+

lemma sanitize_fold:
  "fold (sanitize_step dur opts now) ds (c0, []) = (c, m) \<Longrightarrow>
     keys_unique event_key m \<and> (\<forall>k. find_key event_key k m = event_of dur k (judged opts now k ds))
     \<and> counted c = counted c0 + int (length ds) \<and> tc_truncated c = tc_truncated c0"
proof (induction ds arbitrary: c m rule: rev_induct)
  case Nil
  then show ?case by (simp add: keys_unique_def event_of_def judged_def)
next
  case (snoc d ds)
  obtain c1 m1 where st: "fold (sanitize_step dur opts now) ds (c0, []) = (c1, m1)" by (cases "fold (sanitize_step dur opts now) ds (c0, [])")
  note IH = snoc.IH [OF st]
  have IHk: "find_key event_key k m1 = event_of dur k (judged opts now k ds)" for k using IH by blast
  have step: "sanitize_step dur opts now d (c1, m1) = (c, m)" using snoc.prems st by simp
  show ?case
  proof (cases "judge opts now d")
    case (Inl r)
    then have "c = bump r c1" "m = m1" using step by (simp_all add: sanitize_step_def)
    moreover have "judged opts now k (ds @ [d]) = judged opts now k ds" for k using Inl by (simp add: judged_def)
    ultimately show ?thesis using IH by simp
  next
    case (Inr k)
    obtain ip sc t where k: "k = (ip, sc, t)" by (cases k)
    let ?e = "\<lparr>te_ip = ip, te_scenario = sc, te_observed_at = t, te_hits = 1,
              te_duration_seconds = dur (TrimSpace (d_duration d))\<rparr>"
    have cm: "c = c1\<lparr>tc_accepted := tc_accepted c1 + 1\<rparr>" "m = upsert event_key merge_event ?e m1"
      using step Inr k by (simp_all add: sanitize_step_def)
    have ek: "event_key ?e = k" by (simp add: event_key_def k)
    have j: "judged opts now k (ds @ [d]) = judged opts now k ds @ [d]"
      "k' \<noteq> k \<Longrightarrow> judged opts now k' (ds @ [d]) = judged opts now k' ds" for k'
      using Inr by (simp_all add: judged_def)
    have "find_key event_key k' m = event_of dur k' (judged opts now k' (ds @ [d]))" for k'
    proof (cases "k' = k")
      case True
      have "find_key event_key k m = Some (case find_key event_key k m1 of None \<Rightarrow> ?e | Some r \<Rightarrow> merge_event r ?e)"
        unfolding cm(2) using find_key_upsert [of event_key merge_event k ?e m1, OF merge_event_key] ek by simp
      also have "\<dots> = event_of dur k (judged opts now k ds @ [d])"
        using event_of_snoc [of ?e k dur d "judged opts now k ds"] ek by (simp add: IHk)
      finally show ?thesis using True j(1) by simp
    next
      case False
      then show ?thesis
        unfolding cm(2) using find_key_upsert [of event_key merge_event k' ?e m1, OF merge_event_key] ek j(2) False by (simp add: IHk)
    qed
    moreover have "keys_unique event_key m"
      unfolding cm(2) using keys_unique_upsert [of event_key merge_event m1 ?e, OF merge_event_key] IH by blast
    ultimately show ?thesis using IH cm(1) by (simp add: counted_def)
  qed
qed

definition kept_decisions :: "sanitize_options \<Rightarrow> threat_report \<Rightarrow> decision list" where
  "kept_decisions opts r =
     take (nat (if so_max_decisions opts \<le> 0 then DefaultMaxDecisions else so_max_decisions opts)) (tr_decisions r)"

lemma sum_ByResult: "sum_list (ByResult c) = counted c + tc_truncated c"
  by (simp add: ByResult_def counted_def)

lemma Sanitize_main:
  assumes "Sanitize dur r opts now = (es, c)"
  shows "distinct (map event_key es)" "sorted (map event_key es)"
    "find_key event_key k es = event_of dur k (judged opts now k (kept_decisions opts r))"
    "sum_list (ByResult c) = int (length (tr_decisions r))"
proof -
  define most where "most = (if so_max_decisions opts \<le> 0 then DefaultMaxDecisions else so_max_decisions opts)"
  have mp: "0 < most" by (auto simp: most_def DefaultMaxDecisions_def)
  define n where "n = int (length (tr_decisions r))"
  define c0 where "c0 = (if n > most then no_counts\<lparr>tc_truncated := n - most\<rparr> else no_counts)"
  have ds: "(if n > most then take (nat most) (tr_decisions r) else tr_decisions r) = kept_decisions opts r"
    by (auto simp: kept_decisions_def most_def [symmetric] n_def)
  obtain m where f: "fold (sanitize_step dur opts now) (kept_decisions opts r) (c0, []) = (c, m)"
    and es: "es = sort_key event_key m"
    using assms ds unfolding Sanitize_def Let_def most_def [symmetric] n_def [symmetric] c0_def [symmetric]
    by (auto split: prod.splits)
  note F = sanitize_fold [OF f]
  have p: "mset es = mset m" by (simp add: es)
  have "mset (map event_key es) = mset (map event_key m)" using p by simp
  then show d: "distinct (map event_key es)"
    using F by (metis keys_unique_def mset_eq_imp_distinct_iff)
  show "sorted (map event_key es)" by (simp add: es)
  have "find_key event_key k es = find_key event_key k m"
  proof (cases "find_key event_key k m")
    case None
    then have "k \<notin> event_key ` set es" using mset_eq_setD [OF p] by (simp add: find_key_None)
    then have "find_key event_key k es = None" by (simp add: find_key_None)
    then show ?thesis by (simp only: None)
  next
    case (Some e)
    then have "e \<in> set es" "event_key e = k" using find_key_SomeD mset_eq_setD [OF p] by fastforce+
    then show ?thesis using Some find_key_mem [of event_key es e] d by (simp add: keys_unique_def)
  qed
  then show "find_key event_key k es = event_of dur k (judged opts now k (kept_decisions opts r))"
    using F by simp
  have "int (length (kept_decisions opts r)) + tc_truncated c0 = n"
    using mp by (auto simp: kept_decisions_def most_def [symmetric] c0_def n_def no_counts_def)
  then show "sum_list (ByResult c) = int (length (tr_decisions r))"
    using F by (auto simp: sum_ByResult counted_def c0_def no_counts_def n_def split: if_splits)
qed

subsection \<open>Properties\<close>

text \<open>The events and the counters of a sanitized report.\<close>

definition sanitized_events ::
  "(string \<Rightarrow> int option) \<Rightarrow> threat_report \<Rightarrow> sanitize_options \<Rightarrow> int \<Rightarrow> threat_event list" where
  "sanitized_events dur r opts now = fst (Sanitize dur r opts now)"

definition sanitized_counters ::
  "(string \<Rightarrow> int option) \<Rightarrow> threat_report \<Rightarrow> sanitize_options \<Rightarrow> int \<Rightarrow> threat_counters" where
  "sanitized_counters dur r opts now = snd (Sanitize dur r opts now)"

lemma Sanitize_pair: "Sanitize dur r opts now = (sanitized_events dur r opts now, sanitized_counters dur r opts now)"
  by (simp add: sanitized_events_def sanitized_counters_def)

lemma event_from_judge:
  assumes "e \<in> set (sanitized_events dur r opts now)"
  shows "\<exists>d \<in> set (kept_decisions opts r). judge opts now d = Inr (event_key e)"
    "te_hits e = int (length (judged opts now (event_key e) (kept_decisions opts r)))"
proof -
  note M = Sanitize_main [OF Sanitize_pair [of dur r opts now]]
  have "find_key event_key (event_key e) (sanitized_events dur r opts now) = Some e"
    using M(1) assms by (simp add: find_key_mem keys_unique_def)
  then have ev: "event_of dur (event_key e) (judged opts now (event_key e) (kept_decisions opts r)) = Some e"
    using M(3) by simp
  then have "judged opts now (event_key e) (kept_decisions opts r) \<noteq> []" by (auto simp: event_of_def)
  then obtain d where "d \<in> set (judged opts now (event_key e) (kept_decisions opts r))"
    by (meson last_in_set)
  then show "\<exists>d \<in> set (kept_decisions opts r). judge opts now d = Inr (event_key e)"
    by (auto simp: judged_def)
  show "te_hits e = int (length (judged opts now (event_key e) (kept_decisions opts r)))"
    using arg_cong [OF ev, of "map_option te_hits"]
    by (cases "judged opts now (event_key e) (kept_decisions opts r)") (simp_all add: event_of_def)
qed

lemma judge_Inr:
  assumes "judge opts now d = Inr (ip, sc, t)"
  shows "\<exists>a. ip = AddrString a \<and> publicUnicast a \<and> Unmap a = a \<and> (\<forall>src. so_source_ip opts = Some src \<longrightarrow> a \<noteq> Unmap src)"
    "sc = cleanScenario (d_scenario d)" "observedAt (d_created_at d) now (so_max_age opts) = Some t"
    "list_ex (lowers_to (d_origin d)) localOrigins"
  using assms by (auto simp: judge_def Let_def split: if_splits option.splits)

lemma observedAt_bounds:
  "observedAt raw now age = Some t \<Longrightarrow> t \<le> now + maxClockSkew_ms \<and> (0 < age \<longrightarrow> now - ms_of_ns age \<le> t)"
proof -
  have "0 < age \<Longrightarrow> 0 \<le> ms_of_ns age" by (simp add: ms_of_ns_def go_div_nonneg)
  then show "observedAt raw now age = Some t \<Longrightarrow> ?thesis"
    by (auto simp: observedAt_def maxClockSkew_ms_def split: option.splits if_splits)
qed

text \<open>
  The IPv4 addresses accepted as evidence are exactly those outside the private, local,
  shared, benchmark, protocol, relay, multicast and reserved ranges, octet by octet.
\<close>

lemma publicUnicast_IPv4:
  "publicUnicast (Addr4 w) \<longleftrightarrow>
     (let a = octet w 0; b = octet w 1; c = octet w 2
      in a \<notin> {0, 10, 127} \<and> a < 224 \<and> \<not> (a = 100 \<and> 64 \<le> b \<and> b \<le> 127) \<and> \<not> (a = 169 \<and> b = 254)
         \<and> \<not> (a = 172 \<and> 16 \<le> b \<and> b \<le> 31) \<and> \<not> (a = 192 \<and> b = 168) \<and> \<not> (a = 192 \<and> b = 0 \<and> c = 0)
         \<and> \<not> (a = 192 \<and> b = 88 \<and> c = 99) \<and> \<not> (a = 198 \<and> (b = 18 \<or> b = 19)))"
  by (rule publicUnicast4)

text \<open>
  The IPv6 addresses accepted as evidence, once unmapped, carry no zone and lie outside the
  unique-local, link-local, site-local and multicast ranges and outside every prefix that
  embeds an IPv4 address (6to4, both NAT64 prefixes, IPv4-compatible, Teredo), the benchmark
  range and the discard prefix.
\<close>

lemma publicUnicast_IPv6:
  assumes "\<not> Is4In6 (Addr6 w z)"
  shows "publicUnicast (Addr6 w z) \<longleftrightarrow> z = [] \<and>
     (let g = group w 0; gs = groups w
      in g div 512 \<noteq> 0x7e \<and> g div 64 \<notin> {0x3fa, 0x3fb} \<and> g div 256 \<noteq> 0xff \<and> g \<noteq> 0x2002
         \<and> take 6 gs \<notin> {[0, 0, 0, 0, 0, 0], [0x64, 0xff9b, 0, 0, 0, 0]} \<and> take 2 gs \<noteq> [0x2001, 0]
         \<and> take 3 gs \<notin> {[0x64, 0xff9b, 1], [0x2001, 2, 0]} \<and> take 4 gs \<noteq> [0x100, 0, 0, 0])"
proof (cases "z = []")
  case True
  then show ?thesis using publicUnicast6 [of w] assms by simp
next
  case False
  then show ?thesis by (simp add: publicUnicast_def)
qed

text \<open>
  C6: every stored event names a public, unzoned, unmapped address in its canonical text, that
  is not the reporter's own; its scenario is clean text and its time lies between the
  retention bound and the server's clock plus a day.
\<close>

theorem Sanitize_public:
  assumes "e \<in> set (sanitized_events dur r opts now)"
  shows "(\<exists>a. ParseAddr (te_ip e) = Some a \<and> AddrString a = te_ip e \<and> publicUnicast a \<and> Unmap a = a
      \<and> so_source_ip opts \<noteq> Some a \<and> map_option Unmap (so_source_ip opts) \<noteq> Some a)
    \<and> list_all keep_rune (runes (te_scenario e)) \<and> length (runes (te_scenario e)) \<le> MaxScenarioLen
    \<and> te_observed_at e \<le> now + maxClockSkew_ms
    \<and> (0 < so_max_age opts \<longrightarrow> now - ms_of_ns (so_max_age opts) \<le> te_observed_at e)"
proof -
  obtain d where d: "judge opts now d = Inr (te_ip e, te_scenario e, te_observed_at e)"
    using event_from_judge(1) [OF assms] by (auto simp: event_key_def)
  note J = judge_Inr [OF d]
  obtain a where a: "te_ip e = AddrString a" "publicUnicast a" "Unmap a = a"
    "\<forall>src. so_source_ip opts = Some src \<longrightarrow> a \<noteq> Unmap src" using J(1) by blast
  then have "so_source_ip opts \<noteq> Some a" "map_option Unmap (so_source_ip opts) \<noteq> Some a"
    by (auto simp: map_option_case split: option.splits)
  moreover obtain rs where rs: "te_scenario e = encode (take MaxScenarioLen rs)" "list_all valid_rune rs" "list_all keep_rune rs"
    using CleanText_runes [of "d_scenario d" MaxScenarioLen] J(2) by (auto simp: cleanScenario_def)
  then have "runes (te_scenario e) = take MaxScenarioLen rs" by (simp add: runes_encode list_all_take)
  then have "list_all keep_rune (runes (te_scenario e))" "length (runes (te_scenario e)) \<le> MaxScenarioLen"
    using rs(3) by (simp_all add: list_all_take)
  ultimately show ?thesis using a observedAt_bounds [OF J(3)] ParseAddr_AddrString [of a] by auto
qed

definition sample_decision :: "string \<Rightarrow> string \<Rightarrow> decision" where
  "sample_decision ip at = \<lparr>d_id = 1, d_value = ip, d_scope = ''Ip'', d_type = ''ban'', d_scenario = '' ssh-bf'',
     d_origin = ''CrowdSec'', d_duration = [], d_created_at = at\<rparr>"

definition sample_report :: "decision list \<Rightarrow> threat_report" where
  "sample_report ds = \<lparr>tr_schema_version = 1, tr_system_id = [], tr_decisions = ds\<rparr>"

theorem Sanitize_public_witness:
  "\<exists>e. sanitized_events (\<lambda>_. None)
        (sample_report [sample_decision ''203.0.113.7'' ''2026-08-28T11:00:00Z'', sample_decision ''10.0.0.1'' []])
        \<lparr>so_source_ip = ParseAddr ''203.0.113.9'', so_max_decisions = 0, so_max_age = 0\<rparr> 1787918400000 = [e]
     \<and> te_ip e = ''203.0.113.7'' \<and> te_scenario e = ''ssh-bf'' \<and> length (runes (te_scenario e)) \<le> MaxScenarioLen"
  (is "\<exists>e. sanitized_events ?dur ?r ?o ?now = [e] \<and> _")
proof -
  let ?e = "\<lparr>te_ip = ''203.0.113.7'', te_scenario = ''ssh-bf'', te_observed_at = 1787914800000, te_hits = 1,
      te_duration_seconds = None\<rparr>"
  have e: "sanitized_events ?dur ?r ?o ?now = [?e]" by code_simp
  then have "?e \<in> set (sanitized_events ?dur ?r ?o ?now)" by simp
  from Sanitize_public [OF this] e show ?thesis by simp
qed

text \<open>
  C26: the sanitizer is total and loses nothing silently: each reported decision is accounted
  for by exactly one counter, the events are distinct and sorted, there is an event for a key
  exactly when some kept decision was judged to it, and its hit count is the number of such
  decisions.
\<close>

theorem Sanitize_accounting:
  "sum_list (ByResult (sanitized_counters dur r opts now)) = int (length (tr_decisions r))
   \<and> sorted (map event_key (sanitized_events dur r opts now)) \<and> distinct (map event_key (sanitized_events dur r opts now))
   \<and> find_key event_key k (sanitized_events dur r opts now) = event_of dur k (judged opts now k (kept_decisions opts r))"
  using Sanitize_main [OF Sanitize_pair [of dur r opts now]] by blast

text \<open>
  \<open>CleanText\<close> returns well-formed text without control or format characters, at most the
  given number of runes, whose first rune is not white space; what it keeps is a prefix of the
  trimmed, stripped input, so nothing is reordered or invented.
\<close>

lemma CleanText_clean:
  "list_all valid_rune (runes (CleanText s n)) \<and> list_all keep_rune (runes (CleanText s n))
   \<and> length (runes (CleanText s n)) \<le> n
   \<and> (case runes (CleanText s n) of [] \<Rightarrow> True | r # _ \<Rightarrow> \<not> is_space r)
   \<and> runes (CleanText s n) = take n (trim_list is_space (filter keep_rune (runes s)))"
proof -
  obtain rs where rs: "CleanText s n = encode (take n rs)" "list_all valid_rune rs" "list_all keep_rune rs"
    "rs = trim_list is_space (filter keep_rune (runes s))" using CleanText_runes by blast
  have r: "runes (CleanText s n) = take n rs" using rs(1,2) by (simp add: runes_encode list_all_take)
  have "case take n rs of [] \<Rightarrow> True | r # _ \<Rightarrow> \<not> is_space r"
  proof (cases rs)
    case (Cons x xs)
    then have "\<not> is_space x"
      using trim_list_ends(1) [of is_space "filter keep_rune (runes s)"] rs(4) by (metis list.distinct(1) list.sel(1))
    then show ?thesis using Cons by (cases n) simp_all
  qed simp
  then show ?thesis using r rs by (simp add: list_all_take)
qed

text \<open>
  The truncation comes last, so it can end the text at a space that the trim has already
  passed: the result then has trailing white space and cleaning it again changes it.
\<close>

lemma CleanText_trailing_space:
  "CleanText ''ssh bf'' 4 = ''ssh '' \<and> CleanText (CleanText ''ssh bf'' 4) 4 = ''ssh''"
  by code_simp

end
