(* ===== verification/Threat_Store.thy ===== *)
theory Threat_Store
  imports Threat_Sanitize
begin

text \<open>
  Threat Shield's tables and statements, \<open>internal/store/threat\<close>: \<open>store.go\<close> and
  \<open>allowlist.go\<close>. A table is the list of its rows in insertion order; a statement is a
  function on the tables, a transaction is the composition of its statements (a failed one is
  rolled back, so it is the identity and is treated where a caller observes it, in the
  consensus pass). The random row ids (ULIDs) are left out: nothing reads them.
\<close>

subsection \<open>Rows\<close>

record event_row =
  er_system :: string
  er_ip :: string
  er_scenario :: string
  er_observed_at :: int
  er_hits :: int
  er_duration_seconds :: "int option"

record candidate_row =
  cr_ip :: string
  cr_scenario :: string
  cr_system :: string
  cr_hits :: int
  cr_last_seen :: int

record listing_reason =
  lr_systems :: int
  lr_hits :: int
  lr_scenarios :: "string list"
  lr_window_minutes :: int
  lr_min_systems :: int
  lr_rule :: string
  lr_decided_at :: int

record blocklist_row =
  br_ip :: string
  br_first_listed_at :: int
  br_last_seen_at :: int
  br_expires_at :: int
  br_distinct_systems :: int
  br_scenarios :: "string list"
  br_reason :: listing_reason

record allowlist_row =
  ar_cidr :: string
  ar_reason :: string
  ar_created_by :: string
  ar_created_at :: int
  ar_expires_at :: "int option"

record request_row =
  rr_cidr :: string
  rr_system :: string
  rr_reason :: string
  rr_created_at :: int

record review_row =
  vr_cidr :: string
  vr_state :: string
  vr_decided_by :: string
  vr_decided_at :: int
  vr_note :: string

record audit_row =
  au_cidr :: string
  au_action :: string
  au_actor :: string
  au_at :: int
  au_detail :: string

record ingest_row =
  ir_day :: string
  ir_system :: string
  ir_duplicates :: int
  ir_counters :: threat_counters

record threat_store =
  ts_events :: "event_row list"
  ts_blocklist :: "blocklist_row list"
  ts_allowlist :: "allowlist_row list"
  ts_ingest :: "ingest_row list"
  ts_requests :: "request_row list"
  ts_reviews :: "review_row list"
  ts_audit :: "audit_row list"

definition empty_store :: threat_store where
  "empty_store = \<lparr>ts_events = [], ts_blocklist = [], ts_allowlist = [], ts_ingest = [],
     ts_requests = [], ts_reviews = [], ts_audit = []\<rparr>"

definition defaultListLimit :: int where "defaultListLimit = 200"

definition clampLimit :: "int \<Rightarrow> int" where
  "clampLimit limit = (if limit \<le> 0 then defaultListLimit else limit)"

definition DayString :: "int \<Rightarrow> string" where
  "DayString ms = format_day ms"

definition distinct_count :: "('a \<Rightarrow> 'b) \<Rightarrow> 'a list \<Rightarrow> int" where
  "distinct_count f rows = int (length (remdups (map f rows)))"

record counts =
  n_events :: int
  n_blocklist :: int
  n_allowlist :: int
  n_pending :: int

definition Counts :: "threat_store \<Rightarrow> counts" where
  "Counts s = \<lparr>n_events = int (length (ts_events s)), n_blocklist = int (length (ts_blocklist s)),
     n_allowlist = int (length (ts_allowlist s)), n_pending = distinct_count rr_cidr (ts_requests s)\<rparr>"

definition ActiveSystems :: "int \<Rightarrow> threat_store \<Rightarrow> int" where
  "ActiveSystems since s = distinct_count er_system (filter (\<lambda>r. since \<le> er_observed_at r) (ts_events s))"

subsection \<open>Ingest\<close>

definition er_key :: "event_row \<Rightarrow> string \<times> string \<times> string \<times> int" where
  "er_key r = (er_system r, er_ip r, er_scenario r, er_observed_at r)"

definition event_row_of :: "string \<Rightarrow> threat_event \<Rightarrow> event_row" where
  "event_row_of sys e = \<lparr>er_system = sys, er_ip = te_ip e, er_scenario = te_scenario e,
     er_observed_at = te_observed_at e, er_hits = te_hits e, er_duration_seconds = te_duration_seconds e\<rparr>"

text \<open>\<open>INSERT ... ON CONFLICT DO NOTHING\<close>, counting the rows affected.\<close>

fun insert_events :: "event_row list \<Rightarrow> int \<times> int \<times> event_row list \<Rightarrow> int \<times> int \<times> event_row list" where
  "insert_events [] st = st"
| "insert_events (r # rs) (ins, dup, rows) =
     (if er_key r \<in> er_key ` set rows then insert_events rs (ins, dup + 1, rows)
      else insert_events rs (ins + 1, dup, rows @ [r]))"

definition InsertThreatEvents :: "string \<Rightarrow> threat_event list \<Rightarrow> threat_store \<Rightarrow> (int \<times> int) \<times> threat_store" where
  "InsertThreatEvents sys ev s =
     (case insert_events (map (event_row_of sys) ev) (0, 0, ts_events s) of
        (ins, dup, rows) \<Rightarrow> ((ins, dup), s\<lparr>ts_events := rows\<rparr>))"

definition add_counters :: "threat_counters \<Rightarrow> threat_counters \<Rightarrow> threat_counters" where
  "add_counters a b = \<lparr>tc_accepted = tc_accepted a + tc_accepted b, tc_type = tc_type a + tc_type b,
     tc_scope = tc_scope a + tc_scope b, tc_origin = tc_origin a + tc_origin b,
     tc_bad_ip = tc_bad_ip a + tc_bad_ip b, tc_private_ip = tc_private_ip a + tc_private_ip b,
     tc_time = tc_time a + tc_time b, tc_truncated = tc_truncated a + tc_truncated b\<rparr>"

definition ir_key :: "ingest_row \<Rightarrow> string \<times> string" where
  "ir_key r = (ir_day r, ir_system r)"

definition merge_ingest :: "ingest_row \<Rightarrow> ingest_row \<Rightarrow> ingest_row" where
  "merge_ingest old new = old\<lparr>ir_duplicates := ir_duplicates old + ir_duplicates new,
     ir_counters := add_counters (ir_counters old) (ir_counters new)\<rparr>"

definition RecordIngestCounters ::
  "string \<Rightarrow> string \<Rightarrow> threat_counters \<Rightarrow> int \<Rightarrow> threat_store \<Rightarrow> threat_store" where
  "RecordIngestCounters day sys c dup s =
     s\<lparr>ts_ingest := upsert ir_key merge_ingest
        \<lparr>ir_day = day, ir_system = sys, ir_duplicates = dup, ir_counters = c\<rparr> (ts_ingest s)\<rparr>"

subsection \<open>Consensus inputs and the blocklist\<close>

definition candidate_key :: "event_row \<Rightarrow> string \<times> string \<times> string" where
  "candidate_key r = (er_ip r, er_scenario r, er_system r)"

definition ConsensusCandidates :: "int \<Rightarrow> threat_store \<Rightarrow> candidate_row list" where
  "ConsensusCandidates since s =
     (let rows = filter (\<lambda>r. since \<le> er_observed_at r) (ts_events s)
      in map (\<lambda>k. let g = filter (\<lambda>r. candidate_key r = k) rows
                 in \<lparr>cr_ip = fst k, cr_scenario = fst (snd k), cr_system = snd (snd k),
                     cr_hits = sum_list (map er_hits g), cr_last_seen = Max (set (map er_observed_at g))\<rparr>)
           (sort (remdups (map candidate_key rows))))"

definition ThreatAllowlist :: "int \<Rightarrow> threat_store \<Rightarrow> allowlist_row list" where
  "ThreatAllowlist now s =
     sort_key ar_cidr (filter (\<lambda>r. case ar_expires_at r of None \<Rightarrow> True | Some e \<Rightarrow> e > now) (ts_allowlist s))"

definition refresh_blocklist :: "blocklist_row \<Rightarrow> blocklist_row \<Rightarrow> blocklist_row" where
  "refresh_blocklist old new = new\<lparr>br_first_listed_at := br_first_listed_at old\<rparr>"

definition UpsertBlocklistEntries :: "blocklist_row list \<Rightarrow> threat_store \<Rightarrow> threat_store" where
  "UpsertBlocklistEntries rows s =
     s\<lparr>ts_blocklist := fold (upsert br_ip refresh_blocklist) rows (ts_blocklist s)\<rparr>"

definition delete_where :: "('a \<Rightarrow> bool) \<Rightarrow> 'a list \<Rightarrow> int \<times> 'a list" where
  "delete_where p rows = (int (length (filter p rows)), filter (\<lambda>r. \<not> p r) rows)"

definition ExpireBlocklist :: "int \<Rightarrow> threat_store \<Rightarrow> int \<times> threat_store" where
  "ExpireBlocklist now s = (case delete_where (\<lambda>r. br_expires_at r \<le> now) (ts_blocklist s) of
      (n, rows) \<Rightarrow> (n, s\<lparr>ts_blocklist := rows\<rparr>))"

definition ListBlocklistIPs :: "int \<Rightarrow> threat_store \<Rightarrow> string list" where
  "ListBlocklistIPs now s = sort (map br_ip (filter (\<lambda>r. br_expires_at r > now) (ts_blocklist s)))"

definition DeleteBlocklistEntries :: "string list \<Rightarrow> threat_store \<Rightarrow> int \<times> threat_store" where
  "DeleteBlocklistEntries ips s =
     (case fold (\<lambda>ip (n, rows). case delete_where (\<lambda>r. br_ip r = ip) rows of (k, rows') \<Rightarrow> (n + k, rows'))
             ips (0, ts_blocklist s) of
        (n, rows) \<Rightarrow> (n, s\<lparr>ts_blocklist := rows\<rparr>))"

definition sql_limit :: "int \<Rightarrow> 'a list \<Rightarrow> 'a list" where
  "sql_limit limit rows = (if limit \<le> 0 then rows else take (nat limit) rows)"

definition ListBlocklist :: "int \<Rightarrow> int \<Rightarrow> threat_store \<Rightarrow> blocklist_row list" where
  "ListBlocklist now limit s =
     sql_limit limit (sort_key (\<lambda>r. (- br_last_seen_at r, br_ip r))
       (filter (\<lambda>r. br_expires_at r > now) (ts_blocklist s)))"

definition PruneThreatEvents :: "int \<Rightarrow> threat_store \<Rightarrow> int \<times> threat_store" where
  "PruneThreatEvents olderThan s = (case delete_where (\<lambda>r. er_observed_at r < olderThan) (ts_events s) of
      (n, rows) \<Rightarrow> (n, s\<lparr>ts_events := rows\<rparr>))"

definition PruneThreatIngestDaily :: "int \<Rightarrow> threat_store \<Rightarrow> int \<times> threat_store" where
  "PruneThreatIngestDaily olderThan s = (case delete_where (\<lambda>r. ir_day r < DayString olderThan) (ts_ingest s) of
      (n, rows) \<Rightarrow> (n, s\<lparr>ts_ingest := rows\<rparr>))"

end
