(* ===== verification/Threat_Review.thy ===== *)
theory Threat_Review
  imports Threat_Store
begin

text \<open>
  Allowlist management, \<open>internal/store/threat/allowlist.go\<close>: the client-fed review queue, the
  four operator actions, and the audit trail that each of them appends to in the same
  transaction. The properties are over every sequence of these operations.
\<close>

definition maxReasonsPerCIDR :: nat where "maxReasonsPerCIDR = 10"
definition AllowlistReviewApproved :: string where "AllowlistReviewApproved = ''approved''"
definition AllowlistReviewRejected :: string where "AllowlistReviewRejected = ''rejected''"

subsection \<open>The review queue\<close>

datatype request_error = TooManyAllowlistRequests

definition rr_key :: "request_row \<Rightarrow> string \<times> string" where
  "rr_key r = (rr_cidr r, rr_system r)"

definition replace_row :: "'a \<Rightarrow> 'a \<Rightarrow> 'a" where
  "replace_row old new = new"

definition held_by :: "string \<Rightarrow> request_row list \<Rightarrow> request_row list" where
  "held_by sys rows = filter (\<lambda>r. rr_system r = sys) rows"

definition UpsertAllowlistRequest ::
  "string \<Rightarrow> string \<Rightarrow> string \<Rightarrow> int \<Rightarrow> int \<Rightarrow> threat_store \<Rightarrow> (request_error + int) \<times> threat_store" where
  "UpsertAllowlistRequest cidr sys reason now maxPerSystem s =
     (if maxPerSystem > 0
         \<and> int (length (filter (\<lambda>r. rr_system r = sys \<and> rr_cidr r \<noteq> cidr) (ts_requests s))) \<ge> maxPerSystem
      then (Inl TooManyAllowlistRequests, s)
      else let s' = s\<lparr>ts_requests := upsert rr_key replace_row
              \<lparr>rr_cidr = cidr, rr_system = sys, rr_reason = reason, rr_created_at = now\<rparr> (ts_requests s)\<rparr>
           in (Inr (distinct_count rr_system (filter (\<lambda>r. rr_cidr r = cidr) (ts_requests s'))), s'))"

record pending_row =
  pr_cidr :: string
  pr_systems :: int
  pr_first_at :: int
  pr_last_at :: int
  pr_reasons :: "string list"

text \<open>The second query: reasons for the listed CIDRs, newest first, bounded twice.\<close>

fun fold_reasons :: "request_row list \<Rightarrow> (string \<Rightarrow> string list) \<Rightarrow> string \<Rightarrow> string list" where
  "fold_reasons [] out = out"
| "fold_reasons (r # rs) out =
     (if length (out (rr_cidr r)) \<ge> maxReasonsPerCIDR \<or> rr_reason r \<in> set (out (rr_cidr r)) then fold_reasons rs out
      else fold_reasons rs (out (rr_cidr r := out (rr_cidr r) @ [rr_reason r])))"

definition allowlistRequestReasons :: "string list \<Rightarrow> threat_store \<Rightarrow> string \<Rightarrow> string list" where
  "allowlistRequestReasons cidrs s =
     fold_reasons
       (take (length cidrs * maxReasonsPerCIDR)
         (sort_key (\<lambda>r. - rr_created_at r)
           (filter (\<lambda>r. rr_reason r \<noteq> [] \<and> rr_cidr r \<in> set cidrs) (ts_requests s))))
       (\<lambda>_. [])"

definition PendingAllowlistRequests :: "int \<Rightarrow> threat_store \<Rightarrow> pending_row list" where
  "PendingAllowlistRequests limit s =
     (let groups = map (\<lambda>c. let g = filter (\<lambda>r. rr_cidr r = c) (ts_requests s)
                            in \<lparr>pr_cidr = c, pr_systems = distinct_count rr_system g,
                                pr_first_at = Min (set (map rr_created_at g)),
                                pr_last_at = Max (set (map rr_created_at g)), pr_reasons = []\<rparr>)
                     (sort (remdups (map rr_cidr (ts_requests s))));
          top = take (nat (clampLimit limit)) (sort_key (\<lambda>p. (- pr_systems p, - pr_last_at p)) groups)
      in if top = [] then []
         else let reasons = allowlistRequestReasons (map pr_cidr top) s
              in map (\<lambda>p. p\<lparr>pr_reasons := reasons (pr_cidr p)\<rparr>) top)"

definition PruneAllowlistRequests :: "int \<Rightarrow> threat_store \<Rightarrow> int \<times> threat_store" where
  "PruneAllowlistRequests olderThan s = (case delete_where (\<lambda>r. rr_created_at r < olderThan) (ts_requests s) of
      (n, rows) \<Rightarrow> (n, s\<lparr>ts_requests := rows\<rparr>))"

subsection \<open>Operator actions\<close>

definition appendAllowlistAudit :: "string \<Rightarrow> string \<Rightarrow> string \<Rightarrow> string \<Rightarrow> int \<Rightarrow> threat_store \<Rightarrow> threat_store" where
  "appendAllowlistAudit cidr action actor detail now s =
     s\<lparr>ts_audit := ts_audit s @ [\<lparr>au_cidr = cidr, au_action = action, au_actor = actor, au_at = now, au_detail = detail\<rparr>]\<rparr>"

definition merge_allowlist :: "allowlist_row \<Rightarrow> allowlist_row \<Rightarrow> allowlist_row" where
  "merge_allowlist old new = old\<lparr>ar_reason := ar_reason new, ar_created_by := ar_created_by new,
     ar_expires_at := ar_expires_at new\<rparr>"

definition upsertAllowlistEntry :: "allowlist_row \<Rightarrow> threat_store \<Rightarrow> threat_store" where
  "upsertAllowlistEntry e s = s\<lparr>ts_allowlist := upsert ar_cidr merge_allowlist e (ts_allowlist s)\<rparr>"

definition AddAllowlistEntry :: "allowlist_row \<Rightarrow> threat_store \<Rightarrow> threat_store" where
  "AddAllowlistEntry e s =
     appendAllowlistAudit (ar_cidr e) ''allowlist.upsert'' (ar_created_by e) (ar_reason e) (ar_created_at e)
       (upsertAllowlistEntry e s)"

definition RemoveAllowlistEntry :: "string \<Rightarrow> string \<Rightarrow> int \<Rightarrow> threat_store \<Rightarrow> bool \<times> threat_store" where
  "RemoveAllowlistEntry cidr actor now s =
     (case delete_where (\<lambda>r. ar_cidr r = cidr) (ts_allowlist s) of
        (n, rows) \<Rightarrow>
          if n > 0 then (True, appendAllowlistAudit cidr ''allowlist.delete'' actor [] now (s\<lparr>ts_allowlist := rows\<rparr>))
          else (False, s))"

definition decideAllowlistRequest ::
  "string \<Rightarrow> string \<Rightarrow> string \<Rightarrow> string \<Rightarrow> string \<Rightarrow> int \<Rightarrow> threat_store \<Rightarrow> threat_store" where
  "decideAllowlistRequest cidr state action actor note now s =
     (let s1 = s\<lparr>ts_reviews := upsert vr_cidr replace_row
                 \<lparr>vr_cidr = cidr, vr_state = state, vr_decided_by = actor, vr_decided_at = now, vr_note = note\<rparr>
                 (ts_reviews s)\<rparr>;
          s2 = appendAllowlistAudit cidr action actor note now s1
      in s2\<lparr>ts_requests := filter (\<lambda>r. rr_cidr r \<noteq> cidr) (ts_requests s2)\<rparr>)"

definition ApproveAllowlistRequest :: "allowlist_row \<Rightarrow> string \<Rightarrow> threat_store \<Rightarrow> threat_store" where
  "ApproveAllowlistRequest e note s =
     decideAllowlistRequest (ar_cidr e) AllowlistReviewApproved ''request.approve'' (ar_created_by e) note (ar_created_at e)
       (upsertAllowlistEntry e s)"

definition RejectAllowlistRequest :: "string \<Rightarrow> string \<Rightarrow> string \<Rightarrow> int \<Rightarrow> threat_store \<Rightarrow> threat_store" where
  "RejectAllowlistRequest cidr actor note now s =
     decideAllowlistRequest cidr AllowlistReviewRejected ''request.reject'' actor note now s"

definition ListAllowlistAudit :: "int \<Rightarrow> threat_store \<Rightarrow> audit_row list" where
  "ListAllowlistAudit limit s = take (nat (clampLimit limit)) (sort_key (\<lambda>a. - au_at a) (ts_audit s))"

subsection \<open>Histories\<close>

datatype review_op =
    Ask string string string int
  | Add allowlist_row
  | Remove string string int
  | Approve allowlist_row string
  | Reject string string string int
  | PruneAsks int

fun review_step :: "int \<Rightarrow> review_op \<Rightarrow> threat_store \<Rightarrow> threat_store" where
  "review_step cap (Ask cidr sys reason now) s = snd (UpsertAllowlistRequest cidr sys reason now cap s)"
| "review_step cap (Add e) s = AddAllowlistEntry e s"
| "review_step cap (Remove cidr actor now) s = snd (RemoveAllowlistEntry cidr actor now s)"
| "review_step cap (Approve e note) s = ApproveAllowlistRequest e note s"
| "review_step cap (Reject cidr actor note now) s = RejectAllowlistRequest cidr actor note now s"
| "review_step cap (PruneAsks t) s = snd (PruneAllowlistRequests t s)"

definition review_run :: "int \<Rightarrow> review_op list \<Rightarrow> threat_store \<Rightarrow> threat_store" where
  "review_run cap ops s = fold (review_step cap) ops s"

text \<open>
  The last audit record about an exemption: an upsert or an approval names who is responsible
  for it, a delete says it is gone.
\<close>

definition concerns :: "string \<Rightarrow> audit_row \<Rightarrow> bool" where
  "concerns c a \<longleftrightarrow> au_cidr a = c \<and> au_action a \<in> {''allowlist.upsert'', ''request.approve'', ''allowlist.delete''}"

definition last_change :: "string \<Rightarrow> audit_row list \<Rightarrow> audit_row option" where
  "last_change c as = (case rev (filter (concerns c) as) of [] \<Rightarrow> None | a # _ \<Rightarrow> Some a)"

definition responsible :: "string \<Rightarrow> audit_row list \<Rightarrow> string option" where
  "responsible c as = (case last_change c as of
      None \<Rightarrow> None
    | Some a \<Rightarrow> if au_action a = ''allowlist.delete'' then None else Some (au_actor a))"

lemma last_change_snoc:
  "last_change c (as @ [a]) = (if concerns c a then Some a else last_change c as)"
  by (simp add: last_change_def)

definition audit_inv :: "threat_store \<Rightarrow> bool" where
  "audit_inv s \<longleftrightarrow> keys_unique ar_cidr (ts_allowlist s)
     \<and> (\<forall>c. map_option ar_created_by (find_key ar_cidr c (ts_allowlist s)) = responsible c (ts_audit s))"

lemma merge_allowlist_key: "ar_cidr a = ar_cidr b \<Longrightarrow> ar_cidr (merge_allowlist a b) = ar_cidr b"
  by (simp add: merge_allowlist_def)

lemma audit_inv_change:
  assumes "audit_inv s" "act \<in> {''allowlist.upsert'', ''request.approve''}"
    "ts_allowlist s' = upsert ar_cidr merge_allowlist e (ts_allowlist s)"
    "ts_audit s' = ts_audit s @ [\<lparr>au_cidr = ar_cidr e, au_action = act, au_actor = ar_created_by e, au_at = t, au_detail = d\<rparr>]"
  shows "audit_inv s'"
proof -
  have "keys_unique ar_cidr (ts_allowlist s')"
    using assms(1,3) keys_unique_upsert [of ar_cidr merge_allowlist, OF merge_allowlist_key] by (simp add: audit_inv_def)
  moreover have "map_option ar_created_by (find_key ar_cidr c (ts_allowlist s')) = responsible c (ts_audit s')" for c
    using assms find_key_upsert [of ar_cidr merge_allowlist c e "ts_allowlist s", OF merge_allowlist_key]
    by (auto simp: audit_inv_def responsible_def last_change_snoc concerns_def merge_allowlist_def split: option.split)
  ultimately show ?thesis by (simp add: audit_inv_def)
qed

lemma audit_inv_frame:
  assumes "audit_inv s" "ts_allowlist s' = ts_allowlist s"
    "ts_audit s' = ts_audit s \<or> (\<exists>a. au_action a = ''request.reject'' \<and> ts_audit s' = ts_audit s @ [a])"
  shows "audit_inv s'"
  using assms by (auto simp: audit_inv_def responsible_def last_change_snoc concerns_def)

lemma audit_inv_remove:
  assumes "audit_inv s" shows "audit_inv (snd (RemoveAllowlistEntry cidr actor now s))"
proof (cases "filter (\<lambda>r. ar_cidr r = cidr) (ts_allowlist s) = []")
  case True
  then show ?thesis using assms by (simp add: RemoveAllowlistEntry_def delete_where_def)
next
  case False
  have u: "keys_unique ar_cidr (ts_allowlist s)" using assms by (simp add: audit_inv_def)
  have "find_key ar_cidr c (filter (\<lambda>r. ar_cidr r \<noteq> cidr) (ts_allowlist s))
      = (if c = cidr then None else find_key ar_cidr c (ts_allowlist s))" for c
    using find_key_filter [OF u, of c "\<lambda>r. ar_cidr r \<noteq> cidr"] find_key_SomeD [of ar_cidr c "ts_allowlist s"]
    by (auto split: option.splits)
  then show ?thesis using False assms keys_unique_filter [OF u]
    by (auto simp: RemoveAllowlistEntry_def delete_where_def appendAllowlistAudit_def audit_inv_def
        responsible_def last_change_snoc concerns_def filter_empty_conv)
qed

lemma review_step_audit: assumes "audit_inv s" shows "audit_inv (review_step cap op s)"
proof (cases op)
  case (Ask cidr sys reason now)
  then show ?thesis using assms
    by (auto simp: UpsertAllowlistRequest_def Let_def intro: audit_inv_frame)
next
  case (Add e)
  then show ?thesis
    by (auto simp: AddAllowlistEntry_def appendAllowlistAudit_def upsertAllowlistEntry_def
        intro!: audit_inv_change [OF assms, of "''allowlist.upsert''"])
next
  case (Remove cidr actor now)
  then show ?thesis using audit_inv_remove [OF assms] by simp
next
  case (Approve e nt)
  then show ?thesis
    by (auto simp: ApproveAllowlistRequest_def decideAllowlistRequest_def Let_def appendAllowlistAudit_def
        upsertAllowlistEntry_def intro!: audit_inv_change [OF assms, of "''request.approve''"])
next
  case (Reject cidr actor nt now)
  then show ?thesis
    by (auto simp: RejectAllowlistRequest_def decideAllowlistRequest_def Let_def appendAllowlistAudit_def
        intro!: audit_inv_frame [OF assms])
next
  case (PruneAsks t)
  then show ?thesis using assms
    by (auto simp: PruneAllowlistRequests_def delete_where_def intro: audit_inv_frame)
qed

lemma fold_invariant: "I s \<Longrightarrow> (\<And>x t. I t \<Longrightarrow> I (f x t)) \<Longrightarrow> I (fold f xs s)"
  by (induction xs arbitrary: s) auto

text \<open>The per-system bound on the queue.\<close>

definition queue_bounded :: "int \<Rightarrow> threat_store \<Rightarrow> bool" where
  "queue_bounded cap s \<longleftrightarrow> keys_unique rr_key (ts_requests s)
     \<and> (0 < cap \<longrightarrow> (\<forall>sys. int (length (held_by sys (ts_requests s))) \<le> cap))"

lemma replace_row_key: "key a = key b \<Longrightarrow> key (replace_row a b) = key b"
  by (simp add: replace_row_def)

lemma length_held_upsert:
  assumes "keys_unique rr_key rows"
  shows "length (held_by sys (upsert rr_key replace_row r rows)) =
    (if rr_system r = sys then Suc (length (filter (\<lambda>x. rr_system x = sys \<and> rr_cidr x \<noteq> rr_cidr r) rows))
     else length (held_by sys rows))"
  using assms
proof (induction rows)
  case Nil
  then show ?case by (simp add: held_by_def)
next
  case (Cons x rows)
  then have u: "keys_unique rr_key rows" "rr_key x \<notin> rr_key ` set rows" by (auto simp: keys_unique_def)
  show ?case
  proof (cases "rr_key x = rr_key r")
    case True
    then have "rr_cidr y \<noteq> rr_cidr r" if "y \<in> set rows" "rr_system y = rr_system r" for y
      using u(2) that by (force simp: rr_key_def image_iff)
    then have "filter (\<lambda>y. rr_system y = rr_system r \<and> rr_cidr y \<noteq> rr_cidr r) rows
        = filter (\<lambda>y. rr_system y = rr_system r) rows"
      by (auto intro: filter_cong)
    then show ?thesis using True by (auto simp: held_by_def replace_row_def rr_key_def)
  next
    case False
    then show ?thesis using Cons.IH [OF u(1)] by (auto simp: held_by_def rr_key_def)
  qed
qed

lemma length_filter_filter_le: "length (filter p (filter q xs)) \<le> length (filter p xs)"
  by (induction xs) auto

lemma queue_bounded_filter:
  assumes "queue_bounded cap s" "ts_requests s' = filter p (ts_requests s)" shows "queue_bounded cap s'"
proof -
  have "length (held_by sys (filter p rows)) \<le> length (held_by sys rows)" for sys rows
    unfolding held_by_def by (rule length_filter_filter_le)
  then have "int (length (held_by sys (ts_requests s'))) \<le> int (length (held_by sys (ts_requests s)))" for sys
    by (simp add: assms(2))
  then show ?thesis using assms keys_unique_filter [of rr_key "ts_requests s" p]
    unfolding queue_bounded_def by (metis order_trans)
qed

lemma review_step_queue: assumes "queue_bounded cap s" shows "queue_bounded cap (review_step cap op s)"
proof (cases op)
  case (Ask cidr sys reason now)
  have u: "keys_unique rr_key (ts_requests s)" using assms by (simp add: queue_bounded_def)
  show ?thesis
    using Ask assms length_held_upsert [OF u] keys_unique_upsert [of rr_key replace_row, OF replace_row_key u]
    by (auto simp: queue_bounded_def UpsertAllowlistRequest_def Let_def)
next
  case (Remove cidr actor now)
  then show ?thesis using assms
    by (auto simp: RemoveAllowlistEntry_def delete_where_def appendAllowlistAudit_def queue_bounded_def)
next
  case (Approve e nt)
  then show ?thesis
    by (auto simp: ApproveAllowlistRequest_def decideAllowlistRequest_def Let_def appendAllowlistAudit_def
        upsertAllowlistEntry_def intro: queue_bounded_filter [OF assms])
next
  case (Reject cidr actor nt now)
  then show ?thesis
    by (auto simp: RejectAllowlistRequest_def decideAllowlistRequest_def Let_def appendAllowlistAudit_def
        intro: queue_bounded_filter [OF assms])
next
  case (PruneAsks t)
  then show ?thesis
    by (auto simp: PruneAllowlistRequests_def delete_where_def intro: queue_bounded_filter [OF assms])
qed (use assms in \<open>auto simp: AddAllowlistEntry_def appendAllowlistAudit_def upsertAllowlistEntry_def queue_bounded_def\<close>)

subsection \<open>Properties\<close>

text \<open>
  C13: in every history of client asks and operator actions, an exemption is in the allowlist
  exactly when the last audit record about it is an upsert or an approval, and the entry's
  author is the actor of that record. So no client ask, however many systems make it, creates
  an exemption, and no exemption appears or disappears without its record.
\<close>

theorem allowlist_is_audited:
  "map_option ar_created_by (find_key ar_cidr c (ts_allowlist (review_run cap ops empty_store)))
     = responsible c (ts_audit (review_run cap ops empty_store))"
proof -
  have "audit_inv empty_store"
    by (simp add: audit_inv_def empty_store_def keys_unique_def responsible_def last_change_def)
  then have "audit_inv (review_run cap ops empty_store)"
    unfolding review_run_def by (rule fold_invariant) (rule review_step_audit)
  then show ?thesis by (simp add: audit_inv_def)
qed

text \<open>
  No history lets one system hold more pending asks than its cap, and a CIDR's counter
  counts systems, never repeated asks: there is one row per CIDR and system.
\<close>

lemma review_queue_bounded:
  "keys_unique rr_key (ts_requests (review_run cap ops empty_store))
   \<and> (cap \<le> 0 \<or> int (length (held_by sys (ts_requests (review_run cap ops empty_store)))) \<le> cap)"
proof -
  have "queue_bounded cap empty_store"
    by (auto simp: queue_bounded_def empty_store_def keys_unique_def held_by_def)
  then have "queue_bounded cap (review_run cap ops empty_store)"
    unfolding review_run_def by (rule fold_invariant) (rule review_step_queue)
  then show ?thesis by (auto simp: queue_bounded_def)
qed

end
