(* ===== verification/Threat_Allowlist.thy ===== *)
theory Threat_Allowlist
  imports Threat_Sanitize
begin

text \<open>
  The promotion allowlist, \<open>internal/threat/allowlist.go\<close>: parsing and normalising entries,
  the breadth floor, and the containment test the consensus pass uses.
\<close>

type_synonym allowlist = "prefix list"

definition normalizeAllowlistPrefix :: "prefix \<Rightarrow> prefix" where
  "normalizeAllowlistPrefix p0 =
     (let p = Masked p0
      in if Is4In6 (px_addr p) \<and> 96 \<le> px_bits p
         then PrefixFrom (Unmap (px_addr p)) (px_bits p - 96)
         else p)"

text \<open>The error names the first entry that does not parse.\<close>

fun ParseAllowlist :: "string list \<Rightarrow> string + allowlist" where
  "ParseAllowlist [] = Inr []"
| "ParseAllowlist (c # cs) =
     (case ParsePrefix c of
        None \<Rightarrow> Inl c
      | Some p \<Rightarrow> rbind (ParseAllowlist cs) (\<lambda>ps. Inr (normalizeAllowlistPrefix p # ps)))"

definition allow_contains :: "allowlist \<Rightarrow> addr \<Rightarrow> bool" where
  "allow_contains a addr0 =
     (let addr = WithoutZone (Unmap addr0) in list_ex (\<lambda>p. PrefixContains p addr) a)"

definition allow_len :: "allowlist \<Rightarrow> nat" where
  "allow_len a = length a"

definition MinAllowlistPrefixV4 :: nat where "MinAllowlistPrefixV4 = 24"
definition MinAllowlistPrefixV6 :: nat where "MinAllowlistPrefixV6 = 48"

datatype allowlist_error = AllowlistSyntax | AllowlistPrefixTooBroad

definition allowlistWarning :: "addr \<Rightarrow> string" where
  "allowlistWarning a = (if publicUnicast a then []
     else ''not a public unicast address; it can never be promoted, so allowlisting it has no effect'')"

definition parseAllowlistCandidate :: "string \<Rightarrow> allowlist_error + (prefix \<times> string)" where
  "parseAllowlistCandidate input0 =
     (let input = TrimSpace input0
      in case ParseAddr input of
           Some a \<Rightarrow> (let addr = WithoutZone (Unmap a)
                     in Inr (PrefixFrom addr (BitLen addr), allowlistWarning addr))
         | None \<Rightarrow>
             (case ParsePrefix input of
                None \<Rightarrow> Inl AllowlistSyntax
              | Some p0 \<Rightarrow> (let p = normalizeAllowlistPrefix p0 in Inr (p, allowlistWarning (px_addr p)))))"

definition ParseAllowlistEntry :: "string \<Rightarrow> allowlist_error + (string \<times> string)" where
  "ParseAllowlistEntry input =
     rbind (parseAllowlistCandidate input) (\<lambda>(p, warning).
       let floor = (if Is6 (px_addr p) then MinAllowlistPrefixV6 else MinAllowlistPrefixV4)
       in if px_bits p < floor then Inl AllowlistPrefixTooBroad else Inr (PrefixString p, warning))"

definition NormalizeAllowlistCIDR :: "string \<Rightarrow> allowlist_error + (string \<times> string)" where
  "NormalizeAllowlistCIDR input =
     rbind (parseAllowlistCandidate input) (\<lambda>(p, warning). Inr (PrefixString p, warning))"

subsection \<open>Normal form\<close>

text \<open>Masked, not IPv4-mapped with the whole mapped part fixed, zone-free, bits in range.\<close>

definition normal_prefix :: "prefix \<Rightarrow> bool" where
  "normal_prefix p \<longleftrightarrow> prefix_ok p \<and> Masked p = p \<and> \<not> (Is4In6 (px_addr p) \<and> 96 \<le> px_bits p)"

lemma push_drop_idem:
  fixes w :: "'a::len word"
  shows "push_bit n (drop_bit n (push_bit n (drop_bit n w))) = push_bit n (drop_bit n w)"
  by (simp only: drop_bit_push_drop)

lemma Masked_idem: "Masked (Masked p) = Masked p"
  by (cases "px_addr p") (simp_all add: Masked_def push_drop_idem)

lemma BitLen_mask [simp]: "BitLen (mask_addr n a) = BitLen a"
  and Zone_mask [simp]: "Zone (mask_addr n a) = Zone a"
  by (cases a; simp)+

lemma prefix_ok_Masked: "prefix_ok p \<Longrightarrow> prefix_ok (Masked p)"
  by (simp add: prefix_ok_def Masked_def)

lemma ucast_mask_mapped:
  assumes "96 \<le> n" "n \<le> 128"
  shows "(ucast (push_bit (128 - n) (drop_bit (128 - n) (w :: 128 word))) :: 32 word)
    = push_bit (32 - (n - 96)) (drop_bit (32 - (n - 96)) (ucast w))"
  using assms by (intro bit_word_eqI) (auto simp: bit_push_bit_iff bit_drop_bit_eq bit_ucast_iff)

lemma normalize_normal:
  assumes "prefix_ok p0" shows "normal_prefix (normalizeAllowlistPrefix p0)"
proof -
  define p where "p = Masked p0"
  have p: "prefix_ok p" "Masked p = p" using assms by (simp_all add: p_def prefix_ok_Masked Masked_idem)
  show ?thesis
  proof (cases "Is4In6 (px_addr p) \<and> 96 \<le> px_bits p")
    case False
    then have "normalizeAllowlistPrefix p0 = p"
      unfolding normalizeAllowlistPrefix_def Let_def p_def [symmetric] by (simp only: False if_False)
    then show ?thesis using p False by (simp add: normal_prefix_def)
  next
    case True
    then obtain w z where w: "px_addr p = Addr6 w z" by (cases "px_addr p") auto
    have b: "px_bits p \<le> 128" using p(1) w by (simp add: prefix_ok_def)
    have m: "push_bit (128 - px_bits p) (drop_bit (128 - px_bits p) w) = w"
      using p(2) w by (cases p) (simp add: Masked_def)
    have "push_bit (32 - (px_bits p - 96)) (drop_bit (32 - (px_bits p - 96)) (ucast w)) = (ucast w :: 32 word)"
      using ucast_mask_mapped [of "px_bits p" w] True b m by simp
    moreover have "normalizeAllowlistPrefix p0 = PrefixFrom (Unmap (px_addr p)) (px_bits p - 96)"
      using True unfolding normalizeAllowlistPrefix_def Let_def p_def [symmetric] by simp
    moreover have "Unmap (px_addr p) = Addr4 (ucast w)" using True w by simp
    ultimately show ?thesis
      using b by (simp add: normal_prefix_def PrefixFrom_def prefix_ok_def Masked_def)
  qed
qed

lemma candidate_normal:
  assumes "parseAllowlistCandidate input = Inr (p, warning)"
  shows "normal_prefix p" "warning = allowlistWarning (px_addr p)"
proof -
  have z: "push_bit 0 (drop_bit 0 w) = w" for w :: "'b::len word" by simp
  have "normal_prefix (PrefixFrom (WithoutZone (Unmap a)) (BitLen (WithoutZone (Unmap a))))" for a
    using Unmap_not_4In6 [of a]
    by (cases "Unmap a") (auto simp: normal_prefix_def PrefixFrom_def prefix_ok_def Masked_def)
  then show "normal_prefix p"
    using assms normalize_normal ParsePrefix_ok
    by (auto simp: parseAllowlistCandidate_def Let_def split: option.splits)
  show "warning = allowlistWarning (px_addr p)"
    using assms by (auto simp: parseAllowlistCandidate_def Let_def PrefixFrom_def split: option.splits) (case_tac x2, auto)
qed

text \<open>The IPv4-mapped spelling of an IPv4 address.\<close>

definition mapped_word :: "32 word \<Rightarrow> 128 word" where
  "mapped_word v = push_bit 32 (mask 16) OR ucast v"

definition mapped :: "32 word \<Rightarrow> addr" where
  "mapped v = Addr6 (mapped_word v) []"

lemma bit_mapped: "bit (mapped_word v) i \<longleftrightarrow> (32 \<le> i \<and> i < 48) \<or> bit v i"
  by (auto simp: mapped_word_def bit_or_iff bit_push_bit_iff bit_ucast_iff bit_mask_iff dest: bit_imp_le_length)

lemma mapped_4In6: "Is4In6 (mapped v)" "Unmap (mapped v) = Addr4 v"
proof -
  have "drop_bit 32 (mapped_word v) = mask 16"
    by (rule bit_word_eqI) (auto simp: bit_drop_bit_eq bit_mapped bit_mask_iff dest: bit_imp_le_length)
  moreover have "uint (mask 16 :: 128 word) = 0xffff" by (simp add: mask_eq_exp_minus_1)
  ultimately have "uint (mapped_word v) div 2 ^ 32 = 0xffff" by (metis uint_drop_bit)
  then have "take 6 (groups (mapped_word v)) = to_base 65536 6 0xffff" using take_groups [of 6 "mapped_word v"] by simp
  also have "\<dots> = [0, 0, 0, 0, 0, 65535]" by (simp add: eval_nat_numeral)
  finally show 1: "Is4In6 (mapped v)" by (simp add: mapped_def)
  have "ucast (mapped_word v) = v" by (rule bit_word_eqI) (auto simp: bit_ucast_iff bit_mapped)
  then show "Unmap (mapped v) = Addr4 v" using 1 by (simp add: mapped_def)
qed

lemma drop_bit_eq_iff_bits:
  fixes u w :: "'a::len word"
  shows "drop_bit n u = drop_bit n w \<longleftrightarrow> (\<forall>i \<ge> n. bit u i = bit w i)"
proof
  assume e: "drop_bit n u = drop_bit n w"
  show "\<forall>i \<ge> n. bit u i = bit w i"
  proof (intro allI impI)
    fix i assume "n \<le> i"
    then have "bit u i = bit (drop_bit n u) (i - n)" "bit w i = bit (drop_bit n w) (i - n)"
      by (simp_all add: bit_drop_bit_eq)
    then show "bit u i = bit w i" using e by simp
  qed
next
  assume "\<forall>i \<ge> n. bit u i = bit w i"
  then show "drop_bit n u = drop_bit n w" by (intro bit_word_eqI) (simp add: bit_drop_bit_eq)
qed

lemma Is4In6_bits: "Is4In6 (Addr6 w z) \<Longrightarrow> 32 \<le> i \<Longrightarrow> bit w i \<longleftrightarrow> i < 48"
proof -
  assume m: "Is4In6 (Addr6 w z)" and i: "32 \<le> i"
  have "take 6 (groups w) = take 6 (groups (mapped_word 0))"
    using m mapped_4In6(1) [of 0] by (simp add: mapped_def)
  then have "uint w div 2 ^ 32 = uint (mapped_word 0) div 2 ^ 32"
    using to_base_inject [of 65536 _ 6] uint_div_bound [of 96 128 w]
      uint_div_bound [of 96 128 "mapped_word 0"]
    by (simp add: take_groups)
  then have "drop_bit 32 w = drop_bit 32 (mapped_word 0)"
    by (simp only: drop_bit_word_eq)
  then have "bit w i = bit (mapped_word 0) i"
    using i unfolding drop_bit_eq_iff_bits by blast
  then show "bit w i \<longleftrightarrow> i < 48" using i by (simp only: bit_mapped) simp
qed

lemma normalize_contains:
  assumes "prefix_ok p0" "Is4In6 (px_addr (Masked p0))" "96 \<le> px_bits p0"
  shows "PrefixContains (normalizeAllowlistPrefix p0) (Addr4 v) \<longleftrightarrow> PrefixContains p0 (mapped v)"
proof -
  obtain w z where w: "px_addr (Masked p0) = Addr6 w z" using assms(2) by (cases "px_addr (Masked p0)") auto
  have n: "px_bits (Masked p0) = px_bits p0" by (simp add: Masked_def)
  have b: "px_bits p0 \<le> 128" using prefix_ok_Masked [OF assms(1)] w n by (simp add: prefix_ok_def)
  have e: "normalizeAllowlistPrefix p0 = \<lparr>px_addr = Addr4 (ucast w), px_bits = px_bits p0 - 96\<rparr>"
    using assms(2,3) w n by (simp add: normalizeAllowlistPrefix_def PrefixFrom_def)
  have hi: "bit w i = bit (mapped_word v) i" if "32 \<le> i" for i
    using Is4In6_bits [of w z i] assms(2) w that by (auto simp: bit_mapped dest: bit_imp_le_length)
  have "PrefixContains p0 (mapped v) = PrefixContains (Masked p0) (mapped v)" by (simp add: PrefixContains_Masked)
  also have "\<dots> \<longleftrightarrow> (\<forall>i \<ge> 128 - px_bits p0. bit w i = bit (mapped_word v) i)"
    using w n by (simp add: PrefixContains_def mapped_def drop_bit_eq_iff_bits)
  also have "\<dots> \<longleftrightarrow> (\<forall>i \<ge> 32 - (px_bits p0 - 96). bit (ucast w :: 32 word) i = bit v i)"
  proof -
    have "32 - (px_bits p0 - 96) = 128 - px_bits p0" using assms(3) b by simp
    moreover have "bit w i = bit (mapped_word v) i \<longleftrightarrow> bit (ucast w :: 32 word) i = bit v i" for i
      using hi [of i] by (cases "32 \<le> i") (auto simp: bit_ucast_iff bit_mapped dest: bit_imp_le_length)
    ultimately show ?thesis by simp
  qed
  also have "\<dots> \<longleftrightarrow> PrefixContains (normalizeAllowlistPrefix p0) (Addr4 v)"
    by (simp add: e PrefixContains_def drop_bit_eq_iff_bits)
  finally show ?thesis by simp
qed

subsection \<open>Properties\<close>

lemma ParseAllowlist_Inr:
  "ParseAllowlist cs = Inr ps \<longleftrightarrow> map ParsePrefix cs = map Some (map the (map ParsePrefix cs))
     \<and> ps = map (normalizeAllowlistPrefix \<circ> the \<circ> ParsePrefix) cs"
proof (induction cs arbitrary: ps)
  case Nil
  then show ?case by auto
next
  case (Cons c cs)
  then show ?case by (cases "ParsePrefix c") (auto simp: rbind_Inr_iff)
qed

text \<open>
  Loading the allowlist is all or nothing: either every stored entry parses and each one is
  in force in normal form, or the load fails naming an entry that does not parse. No entry is
  silently lost.
\<close>

lemma ParseAllowlist_all_or_nothing:
  "case ParseAllowlist cs of
     Inr ps \<Rightarrow> map ParsePrefix cs = map Some (map the (map ParsePrefix cs))
        \<and> ps = map (normalizeAllowlistPrefix \<circ> the \<circ> ParsePrefix) cs \<and> list_all normal_prefix ps
   | Inl c \<Rightarrow> c \<in> set cs \<and> ParsePrefix c = None"
proof (cases "ParseAllowlist cs")
  case (Inl c)
  have "ParseAllowlist cs = Inl c \<Longrightarrow> c \<in> set cs \<and> ParsePrefix c = None"
    by (induction cs) (auto simp: rbind_Inl_iff split: option.splits)
  with Inl show ?thesis by simp
next
  case (Inr ps)
  note P = Inr [unfolded ParseAllowlist_Inr]
  have "normal_prefix ((normalizeAllowlistPrefix \<circ> the \<circ> ParsePrefix) c)" if "c \<in> set cs" for c
  proof -
    have "ParsePrefix c = Some (the (ParsePrefix c))" using P that by (auto simp: map_eq_conv)
    then show ?thesis using ParsePrefix_ok normalize_normal by fastforce
  qed
  then show ?thesis using P Inr by (auto simp: list_all_iff)
qed

text \<open>
  C27: an entry the guardrail accepts is stored as a text that reads back as the same normal
  prefix, never wider than the floor of its address family, so no accepted entry exempts a
  meaningful slice of the address space, in either spelling.
\<close>

theorem ParseAllowlistEntry_guardrail:
  assumes "ParseAllowlistEntry input = Inr (cidr, warning)"
  shows "\<exists>p. cidr = PrefixString p \<and> ParsePrefix cidr = Some p \<and> normal_prefix p
    \<and> ParseAllowlist [cidr] = Inr [p] \<and> warning = allowlistWarning (px_addr p)
    \<and> (if Is6 (px_addr p) then MinAllowlistPrefixV6 else MinAllowlistPrefixV4) \<le> px_bits p"
proof -
  obtain p where c: "parseAllowlistCandidate input = Inr (p, warning)"
    and f: "\<not> px_bits p < (if Is6 (px_addr p) then MinAllowlistPrefixV6 else MinAllowlistPrefixV4)"
    and s: "cidr = PrefixString p"
    using assms by (auto simp: ParseAllowlistEntry_def rbind_Inr_iff Let_def split: if_splits)
  note n = candidate_normal [OF c]
  then have "prefix_ok p" by (simp add: normal_prefix_def)
  moreover from this have "px_bits p \<le> 128" by (cases "px_addr p") (auto simp: prefix_ok_def)
  ultimately have pp: "ParsePrefix cidr = Some p" using ParsePrefix_PrefixString s by simp
  have "normalizeAllowlistPrefix p = p"
    using n(1) by (auto simp: normalizeAllowlistPrefix_def normal_prefix_def Let_def)
  then have "ParseAllowlist [cidr] = Inr [p]" using pp by simp
  then show ?thesis using s pp n f by (intro exI [of _ p]) (simp add: not_less)
qed

theorem ParseAllowlistEntry_guardrail_witness:
  "ParseAllowlistEntry '' ::ffff:203.0.113.0/120 '' = Inr (''203.0.113.0/24'', [])
   \<and> ParsePrefix ''203.0.113.0/24'' = Some \<lparr>px_addr = Addr4 0xcb007100, px_bits = 24\<rparr>
   \<and> ParseAllowlistEntry ''::ffff:0.0.0.0/96'' = Inl AllowlistPrefixTooBroad"
proof -
  have e: "ParseAllowlistEntry '' ::ffff:203.0.113.0/120 '' = Inr (''203.0.113.0/24'', [])" by code_simp
  have b: "ParseAllowlistEntry ''::ffff:0.0.0.0/96'' = Inl AllowlistPrefixTooBroad" by code_simp
  have p: "ParsePrefix ''203.0.113.0/24'' = Some \<lparr>px_addr = Addr4 0xcb007100, px_bits = 24\<rparr>" by code_simp
  from ParseAllowlistEntry_guardrail [OF e] b e p show ?thesis by blast
qed

text \<open>
  An exemption cannot be evaded by spelling: an address with a zone or in IPv4-mapped form
  is covered exactly when its plain form is; and an entry written in mapped form covers exactly
  the IPv4 addresses whose mapped form it names.
\<close>

lemma allowlist_spelling:
  "allow_contains ps a = allow_contains ps (WithoutZone (Unmap a))
   \<and> allow_contains ps (mapped v) = allow_contains ps (Addr4 v)"
proof -
  have "WithoutZone (Unmap (WithoutZone (Unmap a))) = WithoutZone (Unmap a)"
    using Unmap_not_4In6 [of a] by (cases "Unmap a") auto
  then show ?thesis by (simp add: allow_contains_def mapped_4In6)
qed

lemma normalized_entry_covers:
  assumes "prefix_ok p0" "Is4In6 (px_addr (Masked p0))" "96 \<le> px_bits p0"
  shows "allow_contains [normalizeAllowlistPrefix p0] (Addr4 v) \<longleftrightarrow> PrefixContains p0 (mapped v)"
  using normalize_contains [OF assms] by (simp add: allow_contains_def)

end
