(* ===== verification/Consensus.thy ===== *)
theory Consensus
  imports Threat_Allowlist Threat_Store
begin

text \<open>
  The consensus pass and the served feed, \<open>internal/blocklist\<close>: \<open>consensus.go\<close> and
  \<open>snapshot.go\<close>. The pass is written against the \<open>Reader\<close> interface, a record of its ten
  calls with an explicit state; each call either fails and leaves the state alone or answers.
  \<open>store_reader\<close> is the interface on the modelled tables, with an arbitrary set of failing
  calls. Compression and the hash are arguments. A map of Go is a list in insertion order;
  every place where its order could show is followed by a sort.
\<close>

subsection \<open>Rule and configuration\<close>

text \<open>Durations are nanoseconds.\<close>

record config =
  cf_window :: int
  cf_min_systems :: int
  cf_ttl :: int
  cf_max_entries :: int
  cf_retention :: int
  cf_ingest_retention :: int
  cf_request_retention :: int

definition MinSystemsFloor :: int where "MinSystemsFloor = 3"

record rule =
  rl_min_systems :: int
  rl_window :: int
  rl_ttl :: int

definition config_rule :: "config \<Rightarrow> rule" where
  "config_rule c = \<lparr>rl_min_systems = cf_min_systems c, rl_window = cf_window c, rl_ttl = cf_ttl c\<rparr>"

text \<open>\<open>time.Duration.String\<close>: hours, minutes and seconds with a trimmed fraction, or a smaller unit.\<close>

definition trim_zeros :: "string \<Rightarrow> string" where
  "trim_zeros s = rev (dropWhile (\<lambda>c. c = CHR ''0'') (rev s))"

definition decimal_part :: "nat \<Rightarrow> int \<Rightarrow> string" where
  "decimal_part w n = (let f = trim_zeros (pad w n) in if f = [] then [] else CHR ''.'' # f)"

definition duration_abs :: "int \<Rightarrow> string" where
  "duration_abs u =
     (if u = 0 then ''0s''
      else if u < 1000 then nat_dec u @ ''ns''
      else if u < 1000000 then nat_dec (u div 1000) @ decimal_part 3 (u mod 1000) @ [char_of (194::nat), char_of (181::nat), CHR ''s'']
      else if u < 1000000000 then nat_dec (u div 1000000) @ decimal_part 6 (u mod 1000000) @ ''ms''
      else let s = u div 1000000000; m = s div 60; h = m div 60
           in (if h > 0 then nat_dec h @ ''h'' else []) @ (if m > 0 then nat_dec (m mod 60) @ ''m'' else [])
              @ nat_dec (s mod 60) @ decimal_part 9 (u mod 1000000000) @ ''s'')"

definition duration_string :: "int \<Rightarrow> string" where
  "duration_string d = (if d < 0 then CHR ''-'' # duration_abs (- d) else duration_abs d)"

definition rule_string :: "rule \<Rightarrow> string" where
  "rule_string r = int_dec (rl_min_systems r) @ '' systems / '' @ duration_string (rl_window r) @ '' window / ''
     @ duration_string (rl_ttl r) @ '' ttl''"

subsection \<open>Snapshot\<close>

record snapshot =
  sn_body :: string
  sn_gz :: string
  sn_etag :: string
  sn_generated_at :: int
  sn_entries :: int
  sn_capped :: bool
  sn_ready :: bool

definition NewSnapshot :: snapshot where
  "NewSnapshot = \<lparr>sn_body = [], sn_gz = [], sn_etag = [], sn_generated_at = 0, sn_entries = 0,
     sn_capped = False, sn_ready = False\<rparr>"

fun parsed_addrs :: "string list \<Rightarrow> addr list" where
  "parsed_addrs [] = []"
| "parsed_addrs (s # ss) = (case ParseAddr s of None \<Rightarrow> parsed_addrs ss | Some a \<Rightarrow> Unmap a # parsed_addrs ss)"

definition feed_addrs :: "blocklist_row list \<Rightarrow> addr list" where
  "feed_addrs rows = sort_key addr_key (parsed_addrs (map br_ip rows))"

definition newline :: char where "newline = char_of (10 :: nat)"

definition feed_lines :: "addr list \<Rightarrow> string" where
  "feed_lines as = concat (map (\<lambda>a. AddrString a @ [newline]) as)"

definition feed_body :: "addr list \<Rightarrow> rule \<Rightarrow> int \<Rightarrow> string" where
  "feed_body as r now = ''# nethesis threat shield v1'' @ [newline] @ ''# generated: '' @ format_rfc3339 now
     @ ''  entries: '' @ int_dec (int (length as)) @ ''  rule: '' @ rule_string r @ [newline] @ feed_lines as"

definition feed_etag :: "(string \<Rightarrow> string) \<Rightarrow> addr list \<Rightarrow> rule \<Rightarrow> string" where
  "feed_etag sha as r = [CHR 0x22] @ ''sha256-'' @ sha (''v1'' @ [newline] @ rule_string r @ [newline] @ feed_lines as) @ [CHR 0x22]"

definition Generate ::
  "(string \<Rightarrow> string) \<Rightarrow> (string \<Rightarrow> string option) \<Rightarrow> blocklist_row list \<Rightarrow> rule \<Rightarrow> bool \<Rightarrow> int \<Rightarrow> snapshot
     \<Rightarrow> string + snapshot" where
  "Generate sha gzip rows r capped now s =
     (let addrs = feed_addrs rows; body = feed_body addrs r now
      in case gzip body of
           None \<Rightarrow> Inl ''blocklist: gzip snapshot''
         | Some gz \<Rightarrow> Inr \<lparr>sn_body = body, sn_gz = gz, sn_etag = feed_etag sha addrs r, sn_generated_at = now,
                          sn_entries = int (length addrs), sn_capped = capped, sn_ready = True\<rparr>)"

subsection \<open>Promotion\<close>

record candidate =
  ca_addr :: addr
  ca_systems :: "string list"
  ca_scenarios :: "string list"
  ca_hits :: int
  ca_last_seen :: int

definition row_addr :: "candidate_row \<Rightarrow> addr option" where
  "row_addr r = map_option (\<lambda>a. WithoutZone (Unmap a)) (ParseAddr (cr_ip r))"

definition fold_candidate :: "candidate \<Rightarrow> candidate_row \<Rightarrow> candidate" where
  "fold_candidate c r = c\<lparr>ca_systems := List.insert (cr_system r) (ca_systems c),
     ca_scenarios := List.insert (cr_scenario r) (ca_scenarios c),
     ca_hits := ca_hits c + cr_hits r,
     ca_last_seen := (if cr_last_seen r > ca_last_seen c then cr_last_seen r else ca_last_seen c)\<rparr>"

fun fold_into :: "addr \<Rightarrow> candidate_row \<Rightarrow> candidate list \<Rightarrow> candidate list" where
  "fold_into a r [] = [fold_candidate \<lparr>ca_addr = a, ca_systems = [], ca_scenarios = [], ca_hits = 0, ca_last_seen = 0\<rparr> r]"
| "fold_into a r (c # cs) = (if ca_addr c = a then fold_candidate c r # cs else c # fold_into a r cs)"

fun fold_rows :: "candidate_row list \<Rightarrow> candidate list \<Rightarrow> candidate list" where
  "fold_rows [] cs = cs"
| "fold_rows (r # rs) cs = (case row_addr r of None \<Rightarrow> fold_rows rs cs | Some a \<Rightarrow> fold_rows rs (fold_into a r cs))"

definition promotes :: "config \<Rightarrow> allowlist \<Rightarrow> candidate \<Rightarrow> bool" where
  "promotes cfg allow c \<longleftrightarrow> \<not> allow_contains allow (ca_addr c) \<and> \<not> int (length (ca_systems c)) < cf_min_systems cfg"

definition promoted_row :: "config \<Rightarrow> int \<Rightarrow> candidate \<Rightarrow> blocklist_row" where
  "promoted_row cfg now c =
     (let lastSeen = (if ca_last_seen c > now then now else ca_last_seen c); scenarios = sort (ca_scenarios c)
      in \<lparr>br_ip = AddrString (ca_addr c), br_first_listed_at = now, br_last_seen_at = lastSeen,
          br_expires_at = lastSeen + ms_of_ns (cf_ttl cfg), br_distinct_systems = int (length (ca_systems c)),
          br_scenarios = scenarios,
          br_reason = \<lparr>lr_systems = int (length (ca_systems c)), lr_hits = ca_hits c, lr_scenarios = scenarios,
             lr_window_minutes = go_div (cf_window cfg) 60000000000, lr_min_systems = cf_min_systems cfg,
             lr_rule = ''v1'', lr_decided_at = now\<rparr>\<rparr>)"

definition promote :: "config \<Rightarrow> candidate_row list \<Rightarrow> allowlist \<Rightarrow> int \<Rightarrow> blocklist_row list" where
  "promote cfg rows allow now =
     sort_key br_ip (map (promoted_row cfg now) (filter (promotes cfg allow) (fold_rows rows [])))"

subsection \<open>The reader and the pass\<close>

record 's reader =
  rd_candidates :: "'s \<Rightarrow> int \<Rightarrow> string + candidate_row list"
  rd_allowlist :: "'s \<Rightarrow> int \<Rightarrow> string + allowlist_row list"
  rd_upsert :: "'s \<Rightarrow> blocklist_row list \<Rightarrow> string + 's"
  rd_expire :: "'s \<Rightarrow> int \<Rightarrow> string + 's"
  rd_list_ips :: "'s \<Rightarrow> int \<Rightarrow> string + string list"
  rd_delete :: "'s \<Rightarrow> string list \<Rightarrow> string + 's"
  rd_prune_events :: "'s \<Rightarrow> int \<Rightarrow> string + 's"
  rd_prune_ingest :: "'s \<Rightarrow> int \<Rightarrow> string + 's"
  rd_prune_requests :: "'s \<Rightarrow> int \<Rightarrow> string + 's"
  rd_list :: "'s \<Rightarrow> int \<Rightarrow> int \<Rightarrow> string + blocklist_row list"

definition runner_allowlist :: "'s reader \<Rightarrow> 's \<Rightarrow> int \<Rightarrow> string + allowlist" where
  "runner_allowlist rd s now = rbind (rd_allowlist rd s now) (\<lambda>rows. ParseAllowlist (map ar_cidr rows))"

fun covered_ips :: "allowlist \<Rightarrow> string list \<Rightarrow> string list" where
  "covered_ips allow [] = []"
| "covered_ips allow (ip # ips) = (case ParseAddr ip of
      None \<Rightarrow> covered_ips allow ips
    | Some a \<Rightarrow> if allow_contains allow a then ip # covered_ips allow ips else covered_ips allow ips)"

definition unlist :: "'s reader \<Rightarrow> 's \<Rightarrow> allowlist \<Rightarrow> int \<Rightarrow> string + 's" where
  "unlist rd s allow now =
     (if allow_len allow = 0 then Inr s
      else rbind (rd_list_ips rd s now) (\<lambda>ips.
        let covered = covered_ips allow ips
        in if covered = [] then Inr s else rd_delete rd s covered))"

text \<open>A housekeeping step: a failure is logged and the pass goes on with the state it had.\<close>

definition best_effort :: "'s \<Rightarrow> string + 's \<Rightarrow> 's" where
  "best_effort s r = (case r of Inl _ \<Rightarrow> s | Inr s' \<Rightarrow> s')"

text \<open>
  \<open>Run\<close>: the error, if any, with the state and the snapshot the pass leaves behind.
\<close>

definition run_tail ::
  "(string \<Rightarrow> string) \<Rightarrow> (string \<Rightarrow> string option) \<Rightarrow> 's reader \<Rightarrow> config \<Rightarrow> int \<Rightarrow> 's \<Rightarrow> snapshot
     \<Rightarrow> string option \<times> 's \<times> snapshot" where
  "run_tail sha gzip rd cfg now s3 snap =
     (let s4 = best_effort s3 (rd_prune_events rd s3 (now - ms_of_ns (cf_retention cfg)));
          s5 = best_effort s4 (rd_prune_ingest rd s4 (now - ms_of_ns (cf_ingest_retention cfg)));
          s6 = best_effort s5 (rd_prune_requests rd s5 (now - ms_of_ns (cf_request_retention cfg)))
      in case rd_list rd s6 now (cf_max_entries cfg + 1) of
           Inl e \<Rightarrow> (Some e, s6, snap)
         | Inr live0 \<Rightarrow>
             (let capped = int (length live0) > cf_max_entries cfg;
                  live = (if capped then take (nat (cf_max_entries cfg)) live0 else live0)
              in case Generate sha gzip live (config_rule cfg) capped now snap of
                   Inl e \<Rightarrow> (Some e, s6, snap)
                 | Inr snap' \<Rightarrow> (None, s6, snap')))"

definition Run ::
  "(string \<Rightarrow> string) \<Rightarrow> (string \<Rightarrow> string option) \<Rightarrow> 's reader \<Rightarrow> config \<Rightarrow> int \<Rightarrow> 's \<Rightarrow> snapshot
     \<Rightarrow> string option \<times> 's \<times> snapshot" where
  "Run sha gzip rd cfg now s0 snap =
     (case rd_candidates rd s0 (now - ms_of_ns (cf_window cfg)) of
        Inl e \<Rightarrow> (Some e, s0, snap)
      | Inr rows \<Rightarrow>
     (case runner_allowlist rd s0 now of
        Inl e \<Rightarrow> (Some e, s0, snap)
      | Inr allow \<Rightarrow>
     (case rd_upsert rd s0 (promote cfg rows allow now) of
        Inl e \<Rightarrow> (Some e, s0, snap)
      | Inr s1 \<Rightarrow>
     (case rd_expire rd s1 now of
        Inl e \<Rightarrow> (Some e, s1, snap)
      | Inr s2 \<Rightarrow>
     (case unlist rd s2 allow now of
        Inl e \<Rightarrow> (Some e, s2, snap)
      | Inr s3 \<Rightarrow> run_tail sha gzip rd cfg now s3 snap)))))"

end
