(* ===== verification/Work_Pool.thy ===== *)
theory Work_Pool
  imports Model_Bundle
begin

text \<open>
  The part \<open>internal/queue\<close> and \<open>internal/platform/ingestq\<close> have in common: a buffered Go
  channel read by a fixed pool of goroutines running \<open>for item := range ch\<close>. The channel is
  the list of its buffered items; a worker is waiting at the receive, handling an item, or
  past its loop. The three logs \<open>p_accepted\<close>, \<open>p_taken\<close> and \<open>p_finished\<close> are not program
  state: they record what has happened, for the properties.

  The locale \<open>pool_client\<close> is the interface: a step relation all of whose steps act on the
  pool by these operations. Its lemmas are conservation, order, capacity and the drain.
\<close>

subsection \<open>The channel and its workers\<close>

datatype handler_outcome = HOk | HErr | HPanic

datatype 'a worker = Waiting | Handling 'a | Exited

record 'a pool =
  p_cap :: nat
  p_buf :: "'a list"
  p_closed :: bool
  p_workers :: "'a worker list"
  p_accepted :: "'a list"
  p_taken :: "'a list"
  p_finished :: "('a \<times> handler_outcome) list"

text \<open>\<open>make(chan T, size)\<close> with the constructor's floor of one, before \<open>Start\<close>.\<close>

definition new_pool :: "int \<Rightarrow> 'a pool" where
  "new_pool sz = \<lparr>p_cap = nat (if sz < 1 then 1 else sz), p_buf = [], p_closed = False,
     p_workers = [], p_accepted = [], p_taken = [], p_finished = []\<rparr>"

definition start_pool :: "int \<Rightarrow> 'a pool \<Rightarrow> 'a pool" where
  "start_pool workers p = p\<lparr>p_workers := replicate (nat (if workers < 1 then 1 else workers)) Waiting\<rparr>"

text \<open>
  The \<open>select\<close> with a \<open>default\<close> branch. Sending on a closed channel panics; a channel with
  room takes the item; otherwise the default branch runs.
\<close>

datatype send_result = Sent | Full | SendPanic

definition try_send :: "'a \<Rightarrow> 'a pool \<Rightarrow> send_result \<times> 'a pool" where
  "try_send x p =
     (if p_closed p then (SendPanic, p)
      else if length (p_buf p) < p_cap p
      then (Sent, p\<lparr>p_buf := p_buf p @ [x], p_accepted := p_accepted p @ [x]\<rparr>)
      else (Full, p))"

text \<open>One iteration of a worker: the receive, the end of the handler, the end of the range.\<close>

definition pool_take :: "nat \<Rightarrow> 'a pool \<Rightarrow> 'a pool option" where
  "pool_take i p =
     (if i < length (p_workers p) \<and> p_workers p ! i = Waiting
      then case p_buf p of
             [] \<Rightarrow> None
           | x # rest \<Rightarrow> Some (p\<lparr>p_buf := rest, p_taken := p_taken p @ [x],
                                 p_workers := (p_workers p)[i := Handling x]\<rparr>)
      else None)"

definition pool_finish :: "nat \<Rightarrow> handler_outcome \<Rightarrow> 'a pool \<Rightarrow> 'a pool option" where
  "pool_finish i r p =
     (if i < length (p_workers p)
      then case p_workers p ! i of
             Handling x \<Rightarrow> Some (p\<lparr>p_workers := (p_workers p)[i := Waiting],
                                   p_finished := p_finished p @ [(x, r)]\<rparr>)
           | _ \<Rightarrow> None
      else None)"

definition pool_exit :: "nat \<Rightarrow> 'a pool \<Rightarrow> 'a pool option" where
  "pool_exit i p =
     (if i < length (p_workers p) \<and> p_workers p ! i = Waiting \<and> p_closed p \<and> p_buf p = []
      then Some (p\<lparr>p_workers := (p_workers p)[i := Exited]\<rparr>) else None)"

text \<open>\<open>close(ch)\<close>; \<open>wg.Wait()\<close> returns once every worker has exited.\<close>

definition pool_close :: "'a pool \<Rightarrow> 'a pool" where
  "pool_close p = p\<lparr>p_closed := True\<rparr>"

definition pool_stopped :: "'a pool \<Rightarrow> bool" where
  "pool_stopped p \<longleftrightarrow> list_all (\<lambda>w. w = Exited) (p_workers p)"

subsection \<open>Conservation, order and capacity\<close>

fun handling :: "'a worker \<Rightarrow> 'a multiset" where
  "handling (Handling x) = {#x#}"
| "handling _ = {#}"

definition in_hand :: "'a pool \<Rightarrow> 'a multiset" where
  "in_hand p = sum_mset (image_mset handling (mset (p_workers p)))"

definition pool_inv :: "'a pool \<Rightarrow> bool" where
  "pool_inv p \<longleftrightarrow> 0 < p_cap p \<and> length (p_buf p) \<le> p_cap p
     \<and> p_accepted p = p_taken p @ p_buf p
     \<and> mset (p_taken p) = image_mset fst (mset (p_finished p)) + in_hand p
     \<and> (Exited \<in> set (p_workers p) \<longrightarrow> p_closed p \<and> p_buf p = [])"

lemma in_hand_update:
  assumes "i < length (p_workers p)"
  shows "in_hand (p\<lparr>p_workers := (p_workers p)[i := w]\<rparr>) + handling (p_workers p ! i) = in_hand p + handling w"
proof -
  let ?ws = "p_workers p"
  have m: "mset (?ws[i := w]) = add_mset w (mset ?ws - {#?ws ! i#})" using assms by (rule mset_update)
  have "?ws ! i \<in># mset ?ws" using assms by simp
  then have "mset ?ws = add_mset (?ws ! i) (mset ?ws - {#?ws ! i#})" by simp
  then have "sum_mset (image_mset handling (mset ?ws))
      = handling (?ws ! i) + sum_mset (image_mset handling (mset ?ws - {#?ws ! i#}))"
    by (metis image_mset_add_mset sum_mset.add_mset)
  then show ?thesis by (simp add: in_hand_def m)
qed

lemma in_hand_frame [simp]:
  "in_hand (p\<lparr>p_buf := b\<rparr>) = in_hand p" "in_hand (p\<lparr>p_accepted := a\<rparr>) = in_hand p"
  "in_hand (p\<lparr>p_taken := a\<rparr>) = in_hand p" "in_hand (p\<lparr>p_finished := f\<rparr>) = in_hand p"
  "in_hand (p\<lparr>p_closed := c\<rparr>) = in_hand p"
  by (simp_all add: in_hand_def)

lemma new_pool_inv: "pool_inv (start_pool n (new_pool sz))"
proof -
  have "in_hand (start_pool n (new_pool sz)) = {#}"
    by (simp add: in_hand_def start_pool_def new_pool_def)
  then show ?thesis by (auto simp: pool_inv_def start_pool_def new_pool_def)
qed

lemma try_send_cases:
  obtains (panic) "p_closed p" "try_send x p = (SendPanic, p)"
  | (sent) "\<not> p_closed p" "length (p_buf p) < p_cap p"
      "try_send x p = (Sent, p\<lparr>p_buf := p_buf p @ [x], p_accepted := p_accepted p @ [x]\<rparr>)"
  | (full) "\<not> p_closed p" "p_cap p \<le> length (p_buf p)" "try_send x p = (Full, p)"
  by (cases "p_closed p"; cases "length (p_buf p) < p_cap p") (simp_all add: try_send_def)

lemma try_send_inv [inv_intros]: "pool_inv p \<Longrightarrow> pool_inv (snd (try_send x p))"
  by (cases rule: try_send_cases [of p x]) (auto simp: pool_inv_def)

lemma pool_take_Some:
  "pool_take i p = Some p' \<longleftrightarrow> (\<exists>x rest. i < length (p_workers p) \<and> p_workers p ! i = Waiting
     \<and> p_buf p = x # rest \<and> p' = p\<lparr>p_buf := rest, p_taken := p_taken p @ [x],
                                 p_workers := (p_workers p)[i := Handling x]\<rparr>)"
  by (auto simp: pool_take_def split: list.split)

lemma pool_finish_Some:
  "pool_finish i r p = Some p' \<longleftrightarrow> (\<exists>x. i < length (p_workers p) \<and> p_workers p ! i = Handling x
     \<and> p' = p\<lparr>p_workers := (p_workers p)[i := Waiting], p_finished := p_finished p @ [(x, r)]\<rparr>)"
  by (auto simp: pool_finish_def split: worker.split)

lemma in_hand_take:
  assumes "pool_take i p = Some p'"
  shows "mset (p_buf p') + in_hand p' = mset (p_buf p) + in_hand p"
proof -
  obtain x rest where x: "i < length (p_workers p)" "p_workers p ! i = Waiting" "p_buf p = x # rest"
    "p' = p\<lparr>p_buf := rest, p_taken := p_taken p @ [x], p_workers := (p_workers p)[i := Handling x]\<rparr>"
    using assms by (auto simp: pool_take_Some)
  show ?thesis
    using in_hand_update [OF x(1), of "Handling x"] x(2,3,4) by (simp add: in_hand_def)
qed

lemma in_hand_finish:
  assumes "pool_finish i r p = Some p'" "p_workers p ! i = Handling x"
  shows "in_hand p = add_mset x (in_hand p')" "p_buf p' = p_buf p"
proof -
  have x: "i < length (p_workers p)"
    "p' = p\<lparr>p_workers := (p_workers p)[i := Waiting], p_finished := p_finished p @ [(x, r)]\<rparr>"
    using assms by (auto simp: pool_finish_Some)
  show "in_hand p = add_mset x (in_hand p')" "p_buf p' = p_buf p"
    using in_hand_update [OF x(1), of Waiting] x(2) assms(2) by (simp_all add: in_hand_def)
qed

lemma in_hand_exit:
  assumes "pool_exit i p = Some p'"
  shows "in_hand p' = in_hand p" "p_buf p' = p_buf p"
proof -
  have x: "i < length (p_workers p)" "p_workers p ! i = Waiting"
    "p' = p\<lparr>p_workers := (p_workers p)[i := Exited]\<rparr>"
    using assms by (auto simp: pool_exit_def split: if_splits)
  show "in_hand p' = in_hand p" "p_buf p' = p_buf p"
    using in_hand_update [OF x(1), of Exited] x(2,3) by (simp_all add: in_hand_def)
qed

lemma in_hand_mem: "i < length (p_workers p) \<Longrightarrow> p_workers p ! i = Handling x \<Longrightarrow> x \<in># in_hand p"
  by (auto simp: in_hand_def in_set_conv_nth intro!: bexI [of _ "Handling x"])

lemma in_hand_two:
  assumes "i < length (p_workers p)" "j < length (p_workers p)" "i \<noteq> j"
    "p_workers p ! i = Handling x" "p_workers p ! j = Handling y"
  shows "{#x, y#} \<subseteq># in_hand p"
proof -
  let ?p = "p\<lparr>p_workers := (p_workers p)[i := Waiting]\<rparr>"
  have "y \<in># in_hand ?p" using assms by (intro in_hand_mem [of j]) auto
  moreover have "in_hand p = add_mset x (in_hand ?p)"
    using in_hand_update [OF assms(1), of Waiting] assms(4) by simp
  ultimately show ?thesis by simp
qed

lemma size_in_hand: "size (in_hand p) \<le> length (p_workers p)"
proof -
  have h: "size (handling w) \<le> 1" for w :: "'b worker" by (cases w) simp_all
  have "size (sum_mset (image_mset handling (mset ws))) \<le> length ws" for ws :: "'b worker list"
  proof (induction ws)
    case (Cons w ws)
    with h [of w] show ?case by simp
  qed simp
  then show ?thesis by (simp add: in_hand_def)
qed

lemma pool_take_inv [inv_intros]:
  assumes "pool_inv p" "pool_take i p = Some p'" shows "pool_inv p'"
proof -
  obtain x rest where x: "i < length (p_workers p)" "p_workers p ! i = Waiting" "p_buf p = x # rest"
    "p' = p\<lparr>p_buf := rest, p_taken := p_taken p @ [x], p_workers := (p_workers p)[i := Handling x]\<rparr>"
    using assms(2) by (auto simp: pool_take_Some)
  have "in_hand p' = add_mset x (in_hand p)"
    using in_hand_take [OF assms(2)] x(3,4) by simp
  moreover have "Exited \<notin> set (p_workers p)" using assms(1) x(3) by (auto simp: pool_inv_def)
  then have "Exited \<notin> set ((p_workers p)[i := Handling x])"
    by (meson insertE set_update_subset_insert subsetD worker.distinct)
  ultimately show ?thesis using assms(1) x by (auto simp: pool_inv_def)
qed

lemma pool_finish_inv [inv_intros]:
  assumes "pool_inv p" "pool_finish i r p = Some p'" shows "pool_inv p'"
proof -
  obtain x where x: "i < length (p_workers p)" "p_workers p ! i = Handling x"
    "p' = p\<lparr>p_workers := (p_workers p)[i := Waiting], p_finished := p_finished p @ [(x, r)]\<rparr>"
    using assms(2) by (auto simp: pool_finish_Some)
  have "add_mset x (in_hand p') = in_hand p"
    using in_hand_finish [OF assms(2) x(2)] by simp
  moreover have "Exited \<in> set ((p_workers p)[i := Waiting]) \<Longrightarrow> Exited \<in> set (p_workers p)"
    by (meson insertE set_update_subset_insert subsetD worker.distinct)
  ultimately show ?thesis using assms(1) x(3) by (auto simp: pool_inv_def)
qed

lemma pool_exit_inv [inv_intros]:
  assumes "pool_inv p" "pool_exit i p = Some p'" shows "pool_inv p'"
proof -
  have x: "i < length (p_workers p)" "p_workers p ! i = Waiting" "p_closed p" "p_buf p = []"
    "p' = p\<lparr>p_workers := (p_workers p)[i := Exited]\<rparr>"
    using assms(2) by (auto simp: pool_exit_def split: if_splits)
  have "in_hand p' = in_hand p" using in_hand_exit [OF assms(2)] by simp
  then show ?thesis using assms(1) x by (auto simp: pool_inv_def)
qed

lemma pool_close_inv [inv_intros]: "pool_inv p \<Longrightarrow> pool_inv (pool_close p)"
  by (auto simp: pool_inv_def pool_close_def)

subsection \<open>Draining\<close>

fun worker_todo :: "'a worker \<Rightarrow> nat" where
  "worker_todo Waiting = 1"
| "worker_todo (Handling _) = 2"
| "worker_todo Exited = 0"

text \<open>Worker steps left at most: each buffered item costs a receive and a finish.\<close>

definition todo :: "'a pool \<Rightarrow> nat" where
  "todo p = 2 * length (p_buf p) + sum_list (map worker_todo (p_workers p))"

lemma sum_list_update_nat:
  "i < length xs \<Longrightarrow> sum_list (map f (xs[i := y])) + f (xs ! i) = sum_list (map f xs) + (f y :: nat)"
proof (induction xs arbitrary: i)
  case Nil
  then show ?case by simp
next
  case (Cons x xs)
  then show ?case by (cases i) auto
qed

lemma todo_take: assumes "pool_take i p = Some p'" shows "todo p' < todo p"
proof -
  obtain x rest where x: "i < length (p_workers p)" "p_workers p ! i = Waiting" "p_buf p = x # rest"
    "p' = p\<lparr>p_buf := rest, p_taken := p_taken p @ [x], p_workers := (p_workers p)[i := Handling x]\<rparr>"
    using assms by (auto simp: pool_take_Some)
  show ?thesis
    using sum_list_update_nat [OF x(1), of worker_todo "Handling x"] x(2,3,4) by (simp add: todo_def)
qed

lemma todo_finish: assumes "pool_finish i r p = Some p'" shows "todo p' < todo p"
proof -
  obtain x where x: "i < length (p_workers p)" "p_workers p ! i = Handling x"
    "p' = p\<lparr>p_workers := (p_workers p)[i := Waiting], p_finished := p_finished p @ [(x, r)]\<rparr>"
    using assms by (auto simp: pool_finish_Some)
  show ?thesis
    using sum_list_update_nat [OF x(1), of worker_todo "Waiting"] x(2,3) by (simp add: todo_def)
qed

lemma todo_exit: assumes "pool_exit i p = Some p'" shows "todo p' < todo p"
proof -
  have x: "i < length (p_workers p)" "p_workers p ! i = Waiting"
    "p' = p\<lparr>p_workers := (p_workers p)[i := Exited]\<rparr>"
    using assms by (auto simp: pool_exit_def split: if_splits)
  show ?thesis
    using sum_list_update_nat [OF x(1), of worker_todo "Exited"] x(2,3) by (simp add: todo_def)
qed

text \<open>A closed pool that has not stopped always has a worker that can move.\<close>

lemma pool_progress:
  assumes "p_closed p" "\<not> pool_stopped p"
  shows "\<exists>i < length (p_workers p). pool_take i p \<noteq> None \<or> pool_exit i p \<noteq> None
           \<or> (\<forall>r. pool_finish i r p \<noteq> None)"
proof -
  obtain i where i: "i < length (p_workers p)" "p_workers p ! i \<noteq> Exited"
    using assms(2) by (auto simp: pool_stopped_def list_all_length)
  have "pool_take i p \<noteq> None \<or> pool_exit i p \<noteq> None \<or> (\<forall>r. pool_finish i r p \<noteq> None)"
  proof (cases "p_workers p ! i")
    case Waiting
    then show ?thesis using i(1) assms(1)
      by (cases "p_buf p") (auto simp: pool_take_def pool_exit_def)
  next
    case (Handling x)
    then show ?thesis using i(1) by (simp add: pool_finish_def)
  next
    case Exited
    with i(2) show ?thesis by simp
  qed
  with i(1) show ?thesis by blast
qed

lemma pool_stopped_all_handled:
  assumes "pool_inv p" "p_workers p \<noteq> []" "pool_stopped p"
  shows "mset (p_accepted p) = image_mset fst (mset (p_finished p))"
proof -
  have e: "w = Exited" if "w \<in> set (p_workers p)" for w
    using assms(3) that by (simp add: pool_stopped_def list_all_iff)
  then have "Exited \<in> set (p_workers p)" using assms(2) by (metis last_in_set)
  then have "p_buf p = []" using assms(1) by (auto simp: pool_inv_def)
  moreover have "in_hand p = {#}"
    using e handling.simps(3) by (fastforce simp: in_hand_def sum_mset_0_iff)
  ultimately show ?thesis using assms(1) by (simp add: pool_inv_def)
qed

subsection \<open>The interface\<close>

text \<open>
  \<open>pool_acts p p'\<close>: the pool went from \<open>p\<close> to \<open>p'\<close> by one operation, or was left alone.
  A worker operation is one of the last three.
\<close>

definition worker_acts :: "'a pool \<Rightarrow> 'a pool \<Rightarrow> bool" where
  "worker_acts p p' \<longleftrightarrow> (\<exists>i. pool_take i p = Some p' \<or> pool_exit i p = Some p'
      \<or> (\<exists>r. pool_finish i r p = Some p'))"

definition pool_acts :: "'a pool \<Rightarrow> 'a pool \<Rightarrow> bool" where
  "pool_acts p p' \<longleftrightarrow> p' = p \<or> (\<exists>x. p' = snd (try_send x p)) \<or> p' = pool_close p \<or> worker_acts p p'"

lemma worker_acts_inv: "pool_inv p \<Longrightarrow> worker_acts p p' \<Longrightarrow> pool_inv p'"
  by (auto simp: worker_acts_def intro: inv_intros)

lemma pool_acts_inv: "pool_inv p \<Longrightarrow> pool_acts p p' \<Longrightarrow> pool_inv p'"
  by (auto simp: pool_acts_def intro: inv_intros worker_acts_inv)

lemma worker_acts_todo: "worker_acts p p' \<Longrightarrow> todo p' < todo p"
  by (auto simp: worker_acts_def intro: todo_take todo_finish todo_exit)

lemma worker_acts_length: "worker_acts p p' \<Longrightarrow> length (p_workers p') = length (p_workers p)"
  by (auto simp: worker_acts_def pool_take_Some pool_finish_Some pool_exit_def split: if_splits)

lemma worker_acts_closed: "worker_acts p p' \<Longrightarrow> p_closed p' = p_closed p"
  by (auto simp: worker_acts_def pool_take_Some pool_finish_Some pool_exit_def split: if_splits)

lemma pool_acts_length: "pool_acts p p' \<Longrightarrow> length (p_workers p') = length (p_workers p)"
  by (auto simp: pool_acts_def pool_close_def try_send_def worker_acts_length)

lemma pool_acts_cap: "pool_acts p p' \<Longrightarrow> p_cap p' = p_cap p"
  by (auto simp: pool_acts_def worker_acts_def pool_close_def try_send_def pool_take_Some pool_finish_Some
      pool_exit_def split: if_splits)

text \<open>Runs of an executable step function; \<open>None\<close> where an event is not enabled.\<close>

fun runs :: "('e \<Rightarrow> 's \<Rightarrow> 's option) \<Rightarrow> 'e list \<Rightarrow> 's \<Rightarrow> 's option" where
  "runs step [] s = Some s"
| "runs step (e # es) s = (case step e s of None \<Rightarrow> None | Some s' \<Rightarrow> runs step es s')"

lemma runs_invariant:
  assumes "runs step es s = Some s'" "I s" "\<And>e t t'. step e t = Some t' \<Longrightarrow> I t \<Longrightarrow> I t'"
  shows "I s'"
  using assms(1,2)
proof (induction es arbitrary: s)
  case (Cons e es)
  then show ?case using assms(3) by (auto split: option.splits)
qed simp

locale pool_client =
  fixes step :: "'e \<Rightarrow> 's \<Rightarrow> 's option"
    and pool_of :: "'s \<Rightarrow> 'a pool"
    and working :: "'e \<Rightarrow> bool"
    and alive :: "'s \<Rightarrow> bool"
  assumes step_acts: "step e s = Some s' \<Longrightarrow> pool_acts (pool_of s) (pool_of s')"
    and step_works: "step e s = Some s' \<Longrightarrow> working e \<Longrightarrow> worker_acts (pool_of s) (pool_of s')"
    and step_enabled: "alive s \<Longrightarrow> worker_acts (pool_of s) p' \<Longrightarrow>
      \<exists>e s'. working e \<and> step e s = Some s' \<and> alive s'"
begin

lemma runs_pool_inv:
  assumes "runs step es s = Some s'" "pool_inv (pool_of s)" shows "pool_inv (pool_of s')"
  by (rule runs_invariant [OF assms(1), of "\<lambda>t. pool_inv (pool_of t)"])
    (auto intro: assms(2) pool_acts_inv step_acts)

lemma runs_length:
  assumes "runs step es s = Some s'"
  shows "length (p_workers (pool_of s')) = length (p_workers (pool_of s))"
  by (rule runs_invariant [OF assms(1), of "\<lambda>t. length (p_workers (pool_of t)) = length (p_workers (pool_of s))"])
    (simp, metis step_acts pool_acts_length)

lemma runs_cap:
  assumes "runs step es s = Some s'"
  shows "p_cap (pool_of s') = p_cap (pool_of s)"
  by (rule runs_invariant [OF assms(1), of "\<lambda>t. p_cap (pool_of t) = p_cap (pool_of s)"])
    (simp, metis step_acts pool_acts_cap)

lemma working_bounded:
  "runs step es s = Some s' \<Longrightarrow> list_all working es \<Longrightarrow> length es + todo (pool_of s') \<le> todo (pool_of s)"
proof (induction es arbitrary: s)
  case Nil
  then show ?case by simp
next
  case (Cons e es)
  then obtain t where t: "step e s = Some t" "runs step es t = Some s'" by (auto split: option.splits)
  from worker_acts_todo [OF step_works [OF t(1)]] Cons.IH [OF t(2)] Cons.prems(2) show ?case by simp
qed

text \<open>After \<open>close\<close>, the workers finish on their own and everything accepted was handled.\<close>

lemma drain:
  "alive s \<Longrightarrow> p_closed (pool_of s) \<Longrightarrow> \<exists>es s'. list_all working es \<and> runs step es s = Some s' \<and> pool_stopped (pool_of s')"
proof (induction "todo (pool_of s)" arbitrary: s rule: less_induct)
  case less
  show ?case
  proof (cases "pool_stopped (pool_of s)")
    case True
    then show ?thesis by (intro exI [of _ "[]"] exI [of _ s]) simp
  next
    case False
    from pool_progress [OF less.prems(2) False] have "\<exists>p'. worker_acts (pool_of s) p'"
      unfolding worker_acts_def by (metis not_None_eq)
    then obtain e s' where e: "working e" "step e s = Some s'" "alive s'"
      using step_enabled less.prems(1) by blast
    have w: "worker_acts (pool_of s) (pool_of s')" using step_works e by blast
    then have "p_closed (pool_of s')" using less.prems(2) worker_acts_closed by blast
    from less.hyps [OF worker_acts_todo [OF w] e(3) this] obtain es t
      where "list_all working es" "runs step es s' = Some t" "pool_stopped (pool_of t)" by blast
    then show ?thesis using e by (intro exI [of _ "e # es"] exI [of _ t]) simp
  qed
qed

end

end
