(* ===== verification/Ingest_Queues.thy ===== *)
theory Ingest_Queues
  imports Work_Pool
begin

text \<open>
  The two ingest queues: \<open>internal/platform/ingestq\<close> (threatd and sizingd) and
  \<open>internal/queue\<close> (insightsd, which adds the set of windows in flight). Each is an
  executable step function over its events, one event per critical section or channel
  operation, so every interleaving of publishers, workers and \<open>Stop\<close> is a list of events.
  Both interpret \<open>pool_client\<close>. Logging, the queue-full counter and the handler's deadline
  are left out; what the handler did is the outcome carried by the \<open>Finish\<close> event.
\<close>

subsection \<open>ingestq\<close>

datatype 'a ingest_event =
    IPublish 'a
  | ITake nat
  | IFinish nat handler_outcome
  | IExit nat
  | IStop

datatype publish_answer = Accepted | ErrFull | Panicked

definition ingestq_Publish :: "'a \<Rightarrow> 'a pool \<Rightarrow> publish_answer \<times> 'a pool" where
  "ingestq_Publish x p = (case try_send x p of
      (Sent, p') \<Rightarrow> (Accepted, p') | (Full, p') \<Rightarrow> (ErrFull, p') | (SendPanic, p') \<Rightarrow> (Panicked, p'))"

text \<open>
  \<open>process\<close> recovers a panicking handler and logs a failing one: whatever the outcome, the
  worker goes back to its loop.
\<close>

definition ingestq_process :: "nat \<Rightarrow> handler_outcome \<Rightarrow> 'a pool \<Rightarrow> 'a pool option" where
  "ingestq_process i r p = pool_finish i r p"

fun ingestq_step :: "'a ingest_event \<Rightarrow> 'a pool \<Rightarrow> 'a pool option" where
  "ingestq_step (IPublish x) p = Some (snd (ingestq_Publish x p))"
| "ingestq_step (ITake i) p = pool_take i p"
| "ingestq_step (IFinish i r) p = ingestq_process i r p"
| "ingestq_step (IExit i) p = pool_exit i p"
| "ingestq_step IStop p = (if p_closed p then None else Some (pool_close p))"

definition ingestq_New :: "int \<Rightarrow> int \<Rightarrow> 'a pool" where
  "ingestq_New sz workers = start_pool workers (new_pool sz)"

fun ingest_working :: "'a ingest_event \<Rightarrow> bool" where
  "ingest_working (ITake _) = True"
| "ingest_working (IFinish _ _) = True"
| "ingest_working (IExit _) = True"
| "ingest_working _ = False"

lemma snd_ingestq_Publish: "snd (ingestq_Publish x p) = snd (try_send x p)"
  by (cases rule: try_send_cases [of p x]) (simp_all add: ingestq_Publish_def)

interpretation iq: pool_client ingestq_step id ingest_working "\<lambda>_. True"
proof
  fix e :: "'a ingest_event" and s s' :: "'a pool"
  assume "ingestq_step e s = Some s'"
  then show "pool_acts (id s) (id s')"
    by (cases e) (auto simp: pool_acts_def worker_acts_def ingestq_process_def snd_ingestq_Publish split: if_splits)
next
  fix e :: "'a ingest_event" and s s' :: "'a pool"
  assume "ingestq_step e s = Some s'" "ingest_working e"
  then show "worker_acts (id s) (id s')"
    by (cases e) (auto simp: worker_acts_def ingestq_process_def)
next
  fix s p' :: "'a pool"
  assume "worker_acts (id s) p'"
  then consider i where "ingestq_step (ITake i) s = Some p'" | i where "ingestq_step (IExit i) s = Some p'"
    | i r where "ingestq_step (IFinish i r) s = Some p'"
    by (auto simp: worker_acts_def ingestq_process_def)
  then show "\<exists>e s'. ingest_working e \<and> ingestq_step e s = Some s' \<and> True"
    by cases (metis ingest_working.simps)+
qed

subsection \<open>queue: the windows in flight\<close>

type_synonym window_id = "string \<times> int"

definition window_of :: "log_bundle \<Rightarrow> window_id" where
  "window_of b = (b_system_id b, w_start (b_window b))"

text \<open>
  A publisher between its critical sections: it has claimed its window, or its send found the
  channel full and it has not released the claim yet, or it panicked on the closed channel
  and never will.
\<close>

datatype publisher = Claimed log_bundle | Rejected log_bundle | Dead log_bundle

record queue =
  q_pool :: "log_bundle pool"
  q_inflight :: "window_id set"
  q_publishers :: "publisher multiset"
  q_crashed :: bool

definition queue_New :: "int \<Rightarrow> int \<Rightarrow> queue" where
  "queue_New sz workers = \<lparr>q_pool = start_pool workers (new_pool sz), q_inflight = {},
     q_publishers = {#}, q_crashed = False\<rparr>"

definition queue_release :: "window_id \<Rightarrow> queue \<Rightarrow> queue" where
  "queue_release w q = q\<lparr>q_inflight := q_inflight q - {w}\<rparr>"

text \<open>The three atomic parts of \<open>Publish\<close>.\<close>

definition publish_claim :: "log_bundle \<Rightarrow> queue \<Rightarrow> publish_answer option \<times> queue" where
  "publish_claim b q =
     (if window_of b \<in> q_inflight q then (Some Accepted, q)
      else (None, q\<lparr>q_inflight := insert (window_of b) (q_inflight q),
                    q_publishers := add_mset (Claimed b) (q_publishers q)\<rparr>))"

definition publish_send :: "log_bundle \<Rightarrow> queue \<Rightarrow> publish_answer option \<times> queue" where
  "publish_send b q =
     (let rest = q_publishers q - {#Claimed b#}
      in case try_send b (q_pool q) of
           (Sent, p) \<Rightarrow> (Some Accepted, q\<lparr>q_pool := p, q_publishers := rest\<rparr>)
         | (Full, p) \<Rightarrow> (None, q\<lparr>q_pool := p, q_publishers := add_mset (Rejected b) rest\<rparr>)
         | (SendPanic, p) \<Rightarrow> (Some Panicked, q\<lparr>q_pool := p, q_publishers := add_mset (Dead b) rest\<rparr>))"

definition publish_reject :: "log_bundle \<Rightarrow> queue \<Rightarrow> publish_answer option \<times> queue" where
  "publish_reject b q =
     (Some ErrFull, queue_release (window_of b) (q\<lparr>q_publishers := q_publishers q - {#Rejected b#}\<rparr>))"

text \<open>\<open>Publish\<close> run without interference.\<close>

definition queue_Publish :: "log_bundle \<Rightarrow> queue \<Rightarrow> publish_answer option \<times> queue" where
  "queue_Publish b q = (case publish_claim b q of
      (Some a, q1) \<Rightarrow> (Some a, q1)
    | (None, q1) \<Rightarrow> (case publish_send b q1 of
        (Some a, q2) \<Rightarrow> (Some a, q2)
      | (None, q2) \<Rightarrow> publish_reject b q2))"

text \<open>
  The end of \<open>process\<close>: the deferred release, after the handler returned or while its panic
  unwinds. This queue does not recover, so a panic then ends the process.
\<close>

definition queue_process :: "nat \<Rightarrow> handler_outcome \<Rightarrow> queue \<Rightarrow> queue option" where
  "queue_process i r q =
     (if i < length (p_workers (q_pool q))
      then case p_workers (q_pool q) ! i of
             Handling b \<Rightarrow> map_option (\<lambda>p. queue_release (window_of b) (q\<lparr>q_pool := p, q_crashed := (r = HPanic)\<rparr>))
                                      (pool_finish i r (q_pool q))
           | _ \<Rightarrow> None
      else None)"

datatype queue_event =
    QClaim log_bundle
  | QSend log_bundle
  | QReject log_bundle
  | QTake nat
  | QFinish nat handler_outcome
  | QExit nat
  | QStop

fun queue_step :: "queue_event \<Rightarrow> queue \<Rightarrow> queue option" where
  "queue_step e q =
     (if q_crashed q then None
      else case e of
        QClaim b \<Rightarrow> Some (snd (publish_claim b q))
      | QSend b \<Rightarrow> if Claimed b \<in># q_publishers q then Some (snd (publish_send b q)) else None
      | QReject b \<Rightarrow> if Rejected b \<in># q_publishers q then Some (snd (publish_reject b q)) else None
      | QTake i \<Rightarrow> map_option (\<lambda>p. q\<lparr>q_pool := p\<rparr>) (pool_take i (q_pool q))
      | QFinish i r \<Rightarrow> queue_process i r q
      | QExit i \<Rightarrow> map_option (\<lambda>p. q\<lparr>q_pool := p\<rparr>) (pool_exit i (q_pool q))
      | QStop \<Rightarrow> if p_closed (q_pool q) then None else Some (q\<lparr>q_pool := pool_close (q_pool q)\<rparr>))"

declare queue_step.simps [simp del]


subsection \<open>Who holds a window\<close>

fun publisher_window :: "publisher \<Rightarrow> window_id" where
  "publisher_window (Claimed b) = window_of b"
| "publisher_window (Rejected b) = window_of b"
| "publisher_window (Dead b) = window_of b"

definition held :: "queue \<Rightarrow> window_id multiset" where
  "held q = image_mset publisher_window (q_publishers q)
     + image_mset window_of (mset (p_buf (q_pool q)) + in_hand (q_pool q))"

definition queue_inv :: "queue \<Rightarrow> bool" where
  "queue_inv q \<longleftrightarrow> finite (q_inflight q) \<and> held q = mset_set (q_inflight q)"

lemma queue_release_simps [simp]:
  "q_pool (queue_release w q) = q_pool q" "q_publishers (queue_release w q) = q_publishers q"
  "q_crashed (queue_release w q) = q_crashed q" "q_inflight (queue_release w q) = q_inflight q - {w}"
  by (simp_all add: queue_release_def)

lemma queue_New_inv: "queue_inv (queue_New sz workers)"
proof -
  have "in_hand (start_pool workers (new_pool sz)) = {#}"
    by (simp add: in_hand_def start_pool_def new_pool_def)
  then show ?thesis by (simp add: queue_inv_def held_def queue_New_def) (simp add: start_pool_def new_pool_def)
qed

lemma publish_claim_inv: "queue_inv q \<Longrightarrow> queue_inv (snd (publish_claim b q))"
  by (auto simp: queue_inv_def held_def publish_claim_def)

lemma held_release:
  assumes "queue_inv q" "held q = add_mset w (held q')" "q_inflight q' = q_inflight q"
  shows "queue_inv (queue_release w q')"
proof -
  have m: "mset_set (q_inflight q) = add_mset w (held q')" and f: "finite (q_inflight q)"
    using assms(1,2) by (simp_all add: queue_inv_def)
  then have "w \<in> q_inflight q" by (metis elem_mset_set union_single_eq_member)
  then have "mset_set (q_inflight q - {w}) = held q'"
    using m f by (simp add: mset_set_Diff)
  then show ?thesis using f assms(3) by (simp add: queue_inv_def held_def)
qed

lemma publish_send_inv:
  assumes "queue_inv q" "Claimed b \<in># q_publishers q"
  shows "queue_inv (snd (publish_send b q))"
proof -
  have p: "q_publishers q = add_mset (Claimed b) (q_publishers q - {#Claimed b#})" using assms(2) by simp
  have "held q = add_mset (window_of b) (image_mset publisher_window (q_publishers q - {#Claimed b#})
      + image_mset window_of (mset (p_buf (q_pool q)) + in_hand (q_pool q)))"
    unfolding held_def by (subst p) simp
  then have "held (snd (publish_send b q)) = held q"
    by (cases rule: try_send_cases [of "q_pool q" b]) (simp_all add: publish_send_def held_def)
  moreover have "q_inflight (snd (publish_send b q)) = q_inflight q"
    by (cases rule: try_send_cases [of "q_pool q" b]) (simp_all add: publish_send_def)
  ultimately show ?thesis using assms(1) by (simp add: queue_inv_def)
qed

lemma publish_reject_inv:
  assumes "queue_inv q" "Rejected b \<in># q_publishers q"
  shows "queue_inv (snd (publish_reject b q))"
proof -
  have p: "q_publishers q = add_mset (Rejected b) (q_publishers q - {#Rejected b#})" using assms(2) by simp
  have "held q = add_mset (window_of b) (held (q\<lparr>q_publishers := q_publishers q - {#Rejected b#}\<rparr>))"
    unfolding held_def by (subst p) simp
  then show ?thesis using held_release [OF assms(1)] by (simp add: publish_reject_def)
qed

lemma queue_process_Some:
  "queue_process i r q = Some q' \<longleftrightarrow> (\<exists>b p. i < length (p_workers (q_pool q))
     \<and> p_workers (q_pool q) ! i = Handling b \<and> pool_finish i r (q_pool q) = Some p
     \<and> q' = queue_release (window_of b) (q\<lparr>q_pool := p, q_crashed := (r = HPanic)\<rparr>))"
  by (auto simp: queue_process_def split: worker.split)

lemma queue_process_inv:
  assumes "queue_inv q" "queue_process i r q = Some q'" shows "queue_inv q'"
proof -
  obtain b p where b: "p_workers (q_pool q) ! i = Handling b" "pool_finish i r (q_pool q) = Some p"
    "q' = queue_release (window_of b) (q\<lparr>q_pool := p, q_crashed := (r = HPanic)\<rparr>)"
    using assms(2) by (auto simp: queue_process_Some)
  have "held q = add_mset (window_of b) (held (q\<lparr>q_pool := p, q_crashed := (r = HPanic)\<rparr>))"
    using in_hand_finish [OF b(2,1)] by (simp add: held_def)
  then show ?thesis using held_release [OF assms(1)] b(3) by simp
qed

lemma queue_step_inv:
  assumes "queue_step e q = Some q'" "queue_inv q" shows "queue_inv q'"
proof (cases e)
  case (QTake i)
  with assms(1) obtain p where p: "pool_take i (q_pool q) = Some p" "q' = q\<lparr>q_pool := p\<rparr>"
    by (auto simp: queue_step.simps split: if_splits)
  have "held q' = held q" using in_hand_take [OF p(1)] p(2) by (simp only: held_def) simp
  then show ?thesis using assms(2) p(2) by (simp add: queue_inv_def)
next
  case (QExit i)
  with assms(1) obtain p where p: "pool_exit i (q_pool q) = Some p" "q' = q\<lparr>q_pool := p\<rparr>"
    by (auto simp: queue_step.simps split: if_splits)
  have "held q' = held q" using in_hand_exit [OF p(1)] p(2) by (simp add: held_def)
  then show ?thesis using assms(2) p(2) by (simp add: queue_inv_def)
next
  case QStop
  with assms show ?thesis
    by (auto simp: queue_step.simps queue_inv_def held_def pool_close_def split: if_splits)
qed (use assms in \<open>auto simp: queue_step.simps split: if_splits
      intro: publish_claim_inv publish_send_inv publish_reject_inv queue_process_inv\<close>)

fun queue_working :: "queue_event \<Rightarrow> bool" where
  "queue_working (QTake _) = True"
| "queue_working (QFinish _ _) = True"
| "queue_working (QExit _) = True"
| "queue_working _ = False"

definition queue_alive :: "queue \<Rightarrow> bool" where
  "queue_alive q \<longleftrightarrow> \<not> q_crashed q"

lemma queue_step_acts:
  assumes "queue_step e q = Some q'" shows "pool_acts (q_pool q) (q_pool q')"
proof (cases e)
  case (QSend b)
  with assms have "q' = snd (publish_send b q)" by (auto simp: queue_step.simps split: if_splits)
  then have "q_pool q' = snd (try_send b (q_pool q))"
    by (cases rule: try_send_cases [of "q_pool q" b]) (simp_all add: publish_send_def)
  then show ?thesis by (auto simp: pool_acts_def)
qed (use assms in \<open>auto simp: queue_step.simps publish_claim_def publish_reject_def queue_process_Some
      pool_acts_def worker_acts_def split: if_splits\<close>)

interpretation qq: pool_client queue_step q_pool queue_working queue_alive
proof
  fix e s s'
  assume "queue_step e s = Some s'"
  then show "pool_acts (q_pool s) (q_pool s')" by (rule queue_step_acts)
next
  fix e s s'
  assume "queue_step e s = Some s'" "queue_working e"
  then show "worker_acts (q_pool s) (q_pool s')"
    by (cases e) (fastforce simp: queue_step.simps queue_process_Some worker_acts_def split: if_splits)+
next
  fix s p'
  assume a: "queue_alive s" "worker_acts (q_pool s) p'"
  then consider i where "pool_take i (q_pool s) = Some p'" | i where "pool_exit i (q_pool s) = Some p'"
    | i r where "pool_finish i r (q_pool s) = Some p'"
    by (auto simp: worker_acts_def)
  then show "\<exists>e s'. queue_working e \<and> queue_step e s = Some s' \<and> queue_alive s'"
  proof cases
    case (1 i)
    then show ?thesis using a(1)
      by (intro exI [of _ "QTake i"]) (simp add: queue_step.simps queue_alive_def)
  next
    case (2 i)
    then show ?thesis using a(1)
      by (intro exI [of _ "QExit i"]) (simp add: queue_step.simps queue_alive_def)
  next
    case (3 i r)
    then obtain b where "i < length (p_workers (q_pool s))" "p_workers (q_pool s) ! i = Handling b"
      by (auto simp: pool_finish_Some)
    then show ?thesis using a(1)
      by (intro exI [of _ "QFinish i HErr"]) (simp add: queue_step.simps queue_alive_def queue_process_def pool_finish_def)
  qed
qed

lemma queue_runs_inv:
  assumes "runs queue_step es (queue_New sz workers) = Some q" shows "queue_inv q"
  by (rule runs_invariant [OF assms, of queue_inv]) (auto intro: queue_New_inv queue_step_inv)

lemma queue_runs_pool_inv:
  assumes "runs queue_step es (queue_New sz workers) = Some q" shows "pool_inv (q_pool q)"
  by (rule qq.runs_pool_inv [OF assms]) (simp add: queue_New_def new_pool_inv)

lemma ingestq_runs_pool_inv:
  assumes "runs ingestq_step es (ingestq_New sz workers) = Some p" shows "pool_inv p"
  using iq.runs_pool_inv [OF assms] by (simp add: ingestq_New_def new_pool_inv)

lemma runs_workers_nonempty:
  "p_workers (q_pool (queue_New sz workers)) \<noteq> []" "p_workers (ingestq_New sz workers) \<noteq> []"
  by (auto simp: queue_New_def ingestq_New_def start_pool_def)

text \<open>A bundle without templates, for the concrete runs below.\<close>

definition sample_bundle :: "string \<Rightarrow> int \<Rightarrow> log_bundle" where
  "sample_bundle s t = \<lparr>b_schema_version = 1, b_system_id = s, b_collector_version = [], b_masking_version = 1,
     b_window = \<lparr>w_start = t, w_end = t + 900\<rparr>, b_templates = [],
     b_budget = \<lparr>lb_max_lines = 0, lb_lines_seen = 0, lb_lines_kept = 0, lb_truncated_modules = []\<rparr>,
     b_nodes = []\<rparr>"

subsection \<open>Properties\<close>

text \<open>
  C10: in every interleaving of publishers, workers and \<open>Stop\<close>, the set of windows in flight is
  exactly the set of windows a publisher is handing over, the channel holds or a worker
  analyses, each held once. So no window is ever analysed by two workers at a time, waits
  twice, or waits while it is analysed.
\<close>

theorem queue_no_double_analysis:
  assumes "runs queue_step es (queue_New sz workers) = Some q"
  shows "held q = mset_set (q_inflight q)
    \<and> (\<forall>i j x y. i < length (p_workers (q_pool q)) \<longrightarrow> j < length (p_workers (q_pool q)) \<longrightarrow> i \<noteq> j \<longrightarrow>
         p_workers (q_pool q) ! i = Handling x \<longrightarrow> p_workers (q_pool q) ! j = Handling y \<longrightarrow> window_of x \<noteq> window_of y)
    \<and> distinct (map window_of (p_buf (q_pool q)))
    \<and> (\<forall>i x. i < length (p_workers (q_pool q)) \<longrightarrow> p_workers (q_pool q) ! i = Handling x \<longrightarrow>
         window_of x \<notin> window_of ` set (p_buf (q_pool q)))"
proof -
  have h: "held q = mset_set (q_inflight q)" using queue_runs_inv [OF assms] by (simp add: queue_inv_def)
  have c: "count (held q) w \<le> 1" for w unfolding h by (simp add: count_mset_set')
  let ?m = "mset (p_buf (q_pool q)) + in_hand (q_pool q)"
  have c2: "count (image_mset window_of ?m) w \<le> 1" for w
    using c [of w] by (simp add: held_def)
  have dup: False if "{#x, y#} \<subseteq># ?m" "window_of x = window_of y" for x y
  proof -
    have "image_mset window_of {#x, y#} \<subseteq># image_mset window_of ?m"
      using that(1) by (rule image_mset_subseteq_mono)
    from mset_subset_eq_count [OF this, of "window_of x"]
    have "count {#window_of x, window_of y#} (window_of x) \<le> count (image_mset window_of ?m) (window_of x)"
      by (simp only: image_mset_add_mset image_mset_empty)
    with c2 [of "window_of x"] that(2) show False by simp
  qed
  have 1: "window_of x \<noteq> window_of y" if "i < length (p_workers (q_pool q))" "j < length (p_workers (q_pool q))"
    "i \<noteq> j" "p_workers (q_pool q) ! i = Handling x" "p_workers (q_pool q) ! j = Handling y" for i j x y
    using dup [of x y] in_hand_two [OF that] by (metis mset_subset_eq_add_right subset_mset.order_trans)
  have 2: "distinct (map window_of (p_buf (q_pool q)))"
  proof -
    have "count (mset (map window_of (p_buf (q_pool q)))) w \<le> 1" for w
      using c2 [of w] by simp
    then show ?thesis by (auto simp: distinct_count_atmost_1 count_eq_zero_iff le_Suc_eq Suc_le_eq intro: antisym)
  qed
  have 3: "window_of x \<notin> window_of ` set (p_buf (q_pool q))"
    if "i < length (p_workers (q_pool q))" "p_workers (q_pool q) ! i = Handling x" for i x
  proof
    assume "window_of x \<in> window_of ` set (p_buf (q_pool q))"
    then obtain y where y: "y \<in># mset (p_buf (q_pool q))" "window_of x = window_of y" by auto
    have "{#x#} + {#y#} \<subseteq># in_hand (q_pool q) + mset (p_buf (q_pool q))"
      using in_hand_mem [OF that] y(1) by (intro subset_mset.add_mono) simp_all
    then show False using dup [of x y] y(2) by (simp add: add.commute add_mset_commute)
  qed
  from h 1 2 3 show ?thesis by blast
qed

theorem queue_no_double_analysis_witness:
  "\<exists>q. runs queue_step [QClaim (sample_bundle ''s'' 0), QSend (sample_bundle ''s'' 0), QTake 1,
        QClaim (sample_bundle ''s'' 0), QClaim (sample_bundle ''s'' 900), QSend (sample_bundle ''s'' 900),
        QClaim (sample_bundle ''t'' 0), QSend (sample_bundle ''t'' 0), QReject (sample_bundle ''t'' 0)]
        (queue_New 1 2) = Some q
     \<and> held q = mset_set {(''s'', 0), (''s'', 900)} \<and> q_inflight q = {(''s'', 0), (''s'', 900)}"
  (is "\<exists>q. runs _ ?es ?q0 = Some q \<and> _")
proof -
  have "\<exists>q. runs queue_step ?es ?q0 = Some q \<and> q_inflight q = {(''s'', 0), (''s'', 900)}"
    by (auto simp: queue_New_def start_pool_def new_pool_def queue_step.simps publish_claim_def publish_send_def
        publish_reject_def try_send_def pool_take_def sample_bundle_def window_of_def queue_release_def
        numeral_2_eq_2)
  then obtain q where q: "runs queue_step ?es ?q0 = Some q" "q_inflight q = {(''s'', 0), (''s'', 900)}" by blast
  from queue_no_double_analysis [OF q(1)] q show ?thesis by auto
qed

text \<open>
  One \<open>Publish\<close>, run without interference on an open queue, does one of three things: a
  window in flight is a successful no-op, a channel with room takes the bundle and claims
  its window, and a full channel answers \<open>ErrFull\<close> and leaves no trace of the attempt.
\<close>

lemma queue_Publish_contract:
  assumes "\<not> p_closed (q_pool q)"
  shows "queue_Publish b q =
    (if window_of b \<in> q_inflight q then (Some Accepted, q)
     else if length (p_buf (q_pool q)) < p_cap (q_pool q)
     then (Some Accepted, q\<lparr>q_inflight := insert (window_of b) (q_inflight q),
            q_pool := (q_pool q)\<lparr>p_buf := p_buf (q_pool q) @ [b], p_accepted := p_accepted (q_pool q) @ [b]\<rparr>\<rparr>)
     else (Some ErrFull, q))"
  using assms
  by (simp add: queue_Publish_def publish_claim_def publish_send_def publish_reject_def queue_release_def
      try_send_def Let_def)

text \<open>
  C11: every bundle the channel took is analysed. Once the queue is closed the workers alone bring
  every run that has not crashed to the point where \<open>wg.Wait\<close> returns, in at most
  \<open>todo\<close> steps whatever their interleaving, and there the bundles handled are exactly, each as
  often, the bundles some publisher put into the channel, those still buffered when it was
  closed included. This is not a statement about every answer \<open>Accepted\<close>: a duplicate is answered
  so without being put into the channel, and \<open>accepted_duplicate_lost\<close> shows that the bundle it
  relies on may then be refused.
\<close>

theorem queue_Stop_drains:
  assumes "runs queue_step es (queue_New sz workers) = Some q"
    and "p_closed (q_pool q)" and "\<not> q_crashed q"
  shows "(\<exists>es' q'. list_all queue_working es' \<and> runs queue_step es' q = Some q' \<and> pool_stopped (q_pool q')
           \<and> mset (p_accepted (q_pool q')) = image_mset fst (mset (p_finished (q_pool q'))))
    \<and> (\<forall>es' q'. runs queue_step es' q = Some q' \<longrightarrow> list_all queue_working es' \<longrightarrow> length es' \<le> todo (q_pool q))"
proof -
  have "queue_alive q" using assms(3) by (simp add: queue_alive_def)
  from qq.drain [OF this assms(2)] obtain es' q' where r: "list_all queue_working es'"
    "runs queue_step es' q = Some q'" "pool_stopped (q_pool q')" by blast
  have "pool_inv (q_pool q')" by (rule qq.runs_pool_inv [OF r(2) queue_runs_pool_inv [OF assms(1)]])
  moreover have "p_workers (q_pool q') \<noteq> []"
    using qq.runs_length [OF r(2)] qq.runs_length [OF assms(1)] runs_workers_nonempty(1)
    by (metis length_0_conv)
  ultimately have "mset (p_accepted (q_pool q')) = image_mset fst (mset (p_finished (q_pool q')))"
    using r(3) by (rule pool_stopped_all_handled)
  then show ?thesis using r qq.working_bounded by (meson add_leD1)
qed

theorem queue_Stop_drains_witness:
  "\<exists>q. runs queue_step [QClaim (sample_bundle ''s'' 0), QSend (sample_bundle ''s'' 0), QStop] (queue_New 1 1) = Some q
     \<and> (\<exists>es' q'. list_all queue_working es' \<and> runs queue_step es' q = Some q' \<and> pool_stopped (q_pool q'))"
  (is "\<exists>q. runs _ ?es ?q0 = Some q \<and> _")
proof -
  have "\<exists>q. runs queue_step ?es ?q0 = Some q \<and> p_closed (q_pool q) \<and> \<not> q_crashed q"
    by (auto simp: queue_New_def start_pool_def new_pool_def queue_step.simps publish_claim_def publish_send_def
        try_send_def pool_close_def)
  then obtain q where q: "runs queue_step ?es ?q0 = Some q" "p_closed (q_pool q)" "\<not> q_crashed q" by blast
  from queue_Stop_drains [OF q] q show ?thesis by blast
qed

text \<open>
  An acknowledged window can be lost. With the channel full, a publisher claims a window; before
  it finds out that there is no room, the same window is sent again and answered \<open>Accepted\<close>,
  for it is in flight. Then the first one is refused and gives its claim back: nobody holds the
  window, no worker will ever see it, and its second sender believes it was taken.
\<close>

lemma accepted_duplicate_lost:
  "\<exists>q q'. runs queue_step [QClaim (sample_bundle ''s'' 0), QSend (sample_bundle ''s'' 0), QClaim (sample_bundle ''t'' 0)] (queue_New 1 1) = Some q
     \<and> publish_claim (sample_bundle ''t'' 0) q = (Some Accepted, q)
     \<and> runs queue_step [QClaim (sample_bundle ''t'' 0), QSend (sample_bundle ''t'' 0), QReject (sample_bundle ''t'' 0)] q = Some q'
     \<and> p_accepted (q_pool q') = [sample_bundle ''s'' 0] \<and> (''t'', 0) \<notin> q_inflight q' \<and> q_publishers q' = {#}"
  by (auto simp: queue_New_def start_pool_def new_pool_def queue_step.simps publish_claim_def publish_send_def
        publish_reject_def try_send_def sample_bundle_def window_of_def queue_release_def)

text \<open>
  An ingest queue accounts for every accepted item: items are started in the order they
  were accepted, at most \<open>Cap\<close> wait and at most one per worker is in hand, each accepted item
  has been handled once, is in hand or waits, and before \<open>Stop\<close> no worker is lost, whatever
  the handlers did.
\<close>

lemma ingestq_accounting:
  assumes "runs ingestq_step es (ingestq_New sz workers) = Some p"
  shows "p_accepted p = p_taken p @ p_buf p
    \<and> int (length (p_buf p)) \<le> max 1 sz \<and> int (size (in_hand p)) \<le> max 1 workers
    \<and> mset (p_accepted p) = image_mset fst (mset (p_finished p)) + in_hand p + mset (p_buf p)
    \<and> (p_closed p \<or> Exited \<notin> set (p_workers p))"
proof -
  have i: "pool_inv p" by (rule ingestq_runs_pool_inv [OF assms])
  have "length (p_workers p) = nat (max 1 workers)" "p_cap p = nat (max 1 sz)"
    using iq.runs_length [OF assms] iq.runs_cap [OF assms]
    by (auto simp: ingestq_New_def start_pool_def new_pool_def max_def)
  then have "int (length (p_buf p)) \<le> max 1 sz" "int (size (in_hand p)) \<le> max 1 workers"
    using i size_in_hand [of p] by (simp_all add: pool_inv_def) linarith+
  then show ?thesis using i by (auto simp: pool_inv_def)
qed

end
