(* ===== verification/Threat_Api.thy ===== *)
theory Threat_Api
  imports Httpx Threat_Review Consensus Ingest_Queues
begin

text \<open>
  Threat Shield's client API, \<open>internal/api/threat\<close>, and the start-up checks of
  \<open>cmd/threatd\<close>. What the size-capped decompressor and the JSON decoder make of a body is an
  argument, \<open>decode gzipped body\<close>: one of their three failures or the decoded value. Headers and
  statuses are kept, log lines are not. The ingest queue is the pool of \<open>ingestq\<close>.
\<close>

record work =
  wk_system :: string
  wk_events :: "threat_event list"
  wk_counters :: threat_counters
  wk_day :: string

record api_config =
  ac_max_decisions :: int
  ac_max_requests :: int
  ac_max_event_age :: int

subsection \<open>Ingest\<close>

definition sourceAddr :: "http_request \<Rightarrow> trusted_proxies \<Rightarrow> addr option" where
  "sourceAddr r t = map_option (\<lambda>a. WithoutZone (Unmap a)) (ParseAddr (ClientIP r t))"

text \<open>An answer: an error status, or 202 with the counters. \<open>None\<close> is the panic of a closed queue.\<close>

datatype ingest_answer = Refused nat | AcceptedReport threat_counters

definition ingest_report ::
  "(string \<Rightarrow> int option) \<Rightarrow> api_config \<Rightarrow> string \<Rightarrow> addr option \<Rightarrow> threat_report \<Rightarrow> int \<Rightarrow> work pool
     \<Rightarrow> ingest_answer option \<times> work pool" where
  "ingest_report dur cfg sys src report now q =
     (case Sanitize dur report \<lparr>so_source_ip = src, so_max_decisions = ac_max_decisions cfg, so_max_age = ac_max_event_age cfg\<rparr> now of
        (events, counters) \<Rightarrow>
          if counters = no_counts then (Some (AcceptedReport counters), q)
          else case ingestq_Publish \<lparr>wk_system = sys, wk_events = events, wk_counters = counters, wk_day = DayString now\<rparr> q of
                 (Accepted, q') \<Rightarrow> (Some (AcceptedReport counters), q')
               | (ErrFull, q') \<Rightarrow> (Some (Refused 503), q')
               | (Panicked, q') \<Rightarrow> (None, q'))"

definition handleEvents ::
  "(string \<Rightarrow> int option) \<Rightarrow> (bool \<Rightarrow> string \<Rightarrow> threat_report decoded) \<Rightarrow> trusted_proxies \<Rightarrow> api_config
     \<Rightarrow> http_request \<Rightarrow> int \<Rightarrow> work pool \<Rightarrow> ingest_answer option \<times> work pool" where
  "handleEvents dur decode trusted cfg r now q =
     (if hr_method r \<noteq> ''POST'' then (Some (Refused 405), q)
      else case SystemID r trusted of
        Inl _ \<Rightarrow> (Some (Refused 401), q)
      | Inr sys \<Rightarrow>
     (case decode (hr_content_encoding r = ''gzip'') (hr_body r) of
        BodyBadGzip \<Rightarrow> (Some (Refused 400), q)
      | BodyTooBig \<Rightarrow> (Some (Refused 413), q)
      | BodyBadJson \<Rightarrow> (Some (Refused 400), q)
      | Decoded report \<Rightarrow>
          if tr_schema_version report \<noteq> ThreatSchemaVersion then (Some (Refused 400), q)
          else if tr_system_id report \<noteq> [] \<and> tr_system_id report \<noteq> sys then (Some (Refused 403), q)
          else ingest_report dur cfg sys (sourceAddr r trusted) report now q))"

text \<open>
  The queue's handler. Each call of the store may fail; a failed insert loses the batch, a
  failed count does not.
\<close>

definition NewConsumer :: "bool \<Rightarrow> bool \<Rightarrow> work \<Rightarrow> threat_store \<Rightarrow> handler_outcome \<times> threat_store" where
  "NewConsumer insert_fails record_fails w s =
     (if wk_events w \<noteq> [] \<and> insert_fails then (HErr, s)
      else case InsertThreatEvents (wk_system w) (wk_events w) s of
        ((_, duplicates), s1) \<Rightarrow>
          (HOk, if record_fails then s1
                else RecordIngestCounters (wk_day w) (wk_system w) (wk_counters w) duplicates s1))"

subsection \<open>The feed\<close>

definition blocklistCacheSeconds :: int where "blocklistCacheSeconds = 900"

fun etag_in :: "string list \<Rightarrow> string \<Rightarrow> bool" where
  "etag_in [] etag = False"
| "etag_in (c # cs) etag = (if trim_prefix (TrimSpace c) ''W/'' = etag then True else etag_in cs etag)"

definition matchesETag :: "string \<Rightarrow> string \<Rightarrow> bool" where
  "matchesETag header0 etag =
     (let header = TrimSpace header0
      in if header = [] then False
         else if header = ''*'' then True
         else etag_in (split_byte (CHR '','') header) etag)"

definition encoding_name :: "string \<Rightarrow> string" where
  "encoding_name enc = (case cut (CHR '';'') (TrimSpace enc) of None \<Rightarrow> TrimSpace enc | Some (name, _) \<Rightarrow> name)"

definition acceptsGzip :: "http_request \<Rightarrow> bool" where
  "acceptsGzip r = list_ex (\<lambda>enc. equal_fold (encoding_name enc) ''gzip'') (split_byte (CHR '','') (hr_accept_encoding r))"

text \<open>\<open>Feed etag gzipped body\<close> is the 200; the body of a \<open>HEAD\<close> is empty.\<close>

datatype feed_answer = FeedRefused nat | NotModified string | Feed string bool string

definition handleFeed :: "trusted_proxies \<Rightarrow> http_request \<Rightarrow> snapshot \<Rightarrow> feed_answer" where
  "handleFeed trusted r view =
     (if hr_method r \<noteq> ''GET'' \<and> hr_method r \<noteq> ''HEAD'' then FeedRefused 405
      else case SystemID r trusted of
        Inl _ \<Rightarrow> FeedRefused 401
      | Inr _ \<Rightarrow>
          if \<not> sn_ready view then FeedRefused 503
          else if matchesETag (hr_if_none_match r) (sn_etag view) then NotModified (sn_etag view)
          else let gz = acceptsGzip r; body = (if gz then sn_gz view else sn_body view)
               in Feed (sn_etag view) gz (if hr_method r = ''HEAD'' then [] else body))"

subsection \<open>Allowlist requests\<close>

definition MaxAllowlistReasonLen :: nat where "MaxAllowlistReasonLen = 512"

record allowlist_request =
  al_cidr :: string
  al_reason :: string

datatype request_answer = RequestRefused nat | RequestAccepted int

definition handleAllowlistRequest ::
  "(string \<Rightarrow> allowlist_request option) \<Rightarrow> trusted_proxies \<Rightarrow> api_config \<Rightarrow> bool \<Rightarrow> http_request \<Rightarrow> int
     \<Rightarrow> threat_store \<Rightarrow> request_answer \<times> threat_store" where
  "handleAllowlistRequest decode trusted cfg store_fails r now s =
     (if hr_method r \<noteq> ''POST'' then (RequestRefused 405, s)
      else case SystemID r trusted of
        Inl _ \<Rightarrow> (RequestRefused 401, s)
      | Inr sys \<Rightarrow>
     (case decode (hr_body r) of
        None \<Rightarrow> (RequestRefused 400, s)
      | Some body \<Rightarrow>
     (case ParseAllowlistEntry (al_cidr body) of
        Inl _ \<Rightarrow> (RequestRefused 400, s)
      | Inr (cidr, _) \<Rightarrow>
          if store_fails then (RequestRefused 503, s)
          else case UpsertAllowlistRequest cidr sys (CleanText (al_reason body) MaxAllowlistReasonLen) now (ac_max_requests cfg) s of
                 (Inl TooManyAllowlistRequests, s') \<Rightarrow> (RequestRefused 429, s')
               | (Inr requests, s') \<Rightarrow> (RequestAccepted requests, s'))))"

subsection \<open>Start-up\<close>

record ingest_limits =
  il_queue_size :: int
  il_queue_workers :: int
  il_queue_timeout :: int
  il_max_decisions :: int
  il_max_allowlist_per_system :: int

text \<open>One constructor per message, in the order they are joined.\<close>

datatype config_problem = IntervalNotPositive | MinSystemsBelowFloor | WindowNotPositive | IntervalExceedsWindow
  | TTLBelowWindow | MaxEntriesNotPositive | RetentionBelowWindow | RequestRetentionNotPositive
  | IngestRetentionNotPositive | QueueSizeNotPositive | QueueWorkersNotPositive | QueueTimeoutNotPositive
  | MaxDecisionsNotPositive | MaxAllowlistNotPositive

definition validateConfig :: "config \<Rightarrow> int \<Rightarrow> ingest_limits \<Rightarrow> config_problem list" where
  "validateConfig cfg interval limits =
     (if interval \<le> 0 then [IntervalNotPositive] else [])
     @ (if cf_min_systems cfg < MinSystemsFloor then [MinSystemsBelowFloor] else [])
     @ (if cf_window cfg \<le> 0 then [WindowNotPositive] else [])
     @ (if interval > 0 \<and> cf_window cfg > 0 \<and> interval > cf_window cfg then [IntervalExceedsWindow] else [])
     @ (if cf_ttl cfg < cf_window cfg then [TTLBelowWindow] else [])
     @ (if cf_max_entries cfg \<le> 0 then [MaxEntriesNotPositive] else [])
     @ (if cf_retention cfg < cf_window cfg then [RetentionBelowWindow] else [])
     @ (if cf_request_retention cfg \<le> 0 then [RequestRetentionNotPositive] else [])
     @ (if cf_ingest_retention cfg \<le> 0 then [IngestRetentionNotPositive] else [])
     @ (if il_queue_size limits \<le> 0 then [QueueSizeNotPositive] else [])
     @ (if il_queue_workers limits \<le> 0 then [QueueWorkersNotPositive] else [])
     @ (if il_queue_timeout limits \<le> 0 then [QueueTimeoutNotPositive] else [])
     @ (if il_max_decisions limits \<le> 0 then [MaxDecisionsNotPositive] else [])
     @ (if il_max_allowlist_per_system limits \<le> 0 then [MaxAllowlistNotPositive] else [])"

lemma validateConfig_ok:
  "validateConfig cfg interval limits = [] \<longleftrightarrow>
     0 < interval \<and> MinSystemsFloor \<le> cf_min_systems cfg \<and> interval \<le> cf_window cfg \<and> cf_window cfg \<le> cf_ttl cfg
     \<and> 0 < cf_max_entries cfg \<and> cf_window cfg \<le> cf_retention cfg \<and> 0 < cf_request_retention cfg
     \<and> 0 < cf_ingest_retention cfg \<and> 0 < il_queue_size limits \<and> 0 < il_queue_workers limits
     \<and> 0 < il_queue_timeout limits \<and> 0 < il_max_decisions limits \<and> 0 < il_max_allowlist_per_system limits"
  by (auto simp: validateConfig_def split: if_splits)

subsection \<open>What a handler can change\<close>

lemma handleEvents_accepted:
  assumes "handleEvents dur decode trusted cfg r now q = (Some (AcceptedReport c), q')"
  shows "\<exists>sys report. SystemID r trusted = Inr sys \<and> decode (hr_content_encoding r = ''gzip'') (hr_body r) = Decoded report
     \<and> (tr_system_id report = [] \<or> tr_system_id report = sys)
     \<and> c = sanitized_counters dur report \<lparr>so_source_ip = sourceAddr r trusted, so_max_decisions = ac_max_decisions cfg, so_max_age = ac_max_event_age cfg\<rparr> now"
proof -
  obtain sys where sys: "SystemID r trusted = Inr sys"
    using assms by (auto simp: handleEvents_def split: if_splits sum.splits)
  then obtain report where d: "decode (hr_content_encoding r = ''gzip'') (hr_body r) = Decoded report"
    using assms by (auto simp: handleEvents_def split: if_splits decoded.splits)
  have g: "\<not> (tr_system_id report \<noteq> [] \<and> tr_system_id report \<noteq> sys)"
    and i: "ingest_report dur cfg sys (sourceAddr r trusted) report now q = (Some (AcceptedReport c), q')"
    using assms sys d by (auto simp: handleEvents_def split: if_splits)
  from i have "c = sanitized_counters dur report \<lparr>so_source_ip = sourceAddr r trusted, so_max_decisions = ac_max_decisions cfg, so_max_age = ac_max_event_age cfg\<rparr> now"
    unfolding ingest_report_def Sanitize_pair
    by (auto split: if_splits prod.splits publish_answer.splits)
  then show ?thesis using sys d g by blast
qed

text \<open>Every work item in the queue after a report was there before, or carries its sanitized events.\<close>

lemma ingestq_Publish_buf:
  "ingestq_Publish x p = (a, p') \<Longrightarrow> set (p_buf p') \<subseteq> insert x (set (p_buf p)) \<and> p_workers p' = p_workers p"
  by (cases rule: try_send_cases [of p x]) (auto simp: ingestq_Publish_def)

end
