(* ===== verification/Consensus_Props.thy ===== *)
theory Consensus_Props
  imports Consensus
begin

text \<open>
  What the consensus pass guarantees. The locale \<open>feed_store\<close> states what the pass needs of its
  \<open>Reader\<close> in terms of the blocklist table alone; its lemmas are proved once from these laws and
  then used for the modelled store through the interpretation of \<open>store_reader\<close>.
\<close>

subsection \<open>The store as a reader\<close>

datatype store_call = CallCandidates | CallAllowlist | CallUpsert | CallExpire | CallListIPs | CallDelete
  | CallPruneEvents | CallPruneIngest | CallPruneRequests | CallList

definition call :: "(store_call \<Rightarrow> bool) \<Rightarrow> store_call \<Rightarrow> 'a \<Rightarrow> string + 'a" where
  "call fails c x = (if fails c then Inl ''store'' else Inr x)"

text \<open>An empty batch returns before the database is touched, so it cannot fail.\<close>

definition store_reader :: "(store_call \<Rightarrow> bool) \<Rightarrow> threat_store reader" where
  "store_reader fails = \<lparr>
     rd_candidates = \<lambda>s since. call fails CallCandidates (ConsensusCandidates since s),
     rd_allowlist = \<lambda>s now. call fails CallAllowlist (ThreatAllowlist now s),
     rd_upsert = \<lambda>s rows. if rows = [] then Inr s else call fails CallUpsert (UpsertBlocklistEntries rows s),
     rd_expire = \<lambda>s now. call fails CallExpire (snd (ExpireBlocklist now s)),
     rd_list_ips = \<lambda>s now. call fails CallListIPs (ListBlocklistIPs now s),
     rd_delete = \<lambda>s ips. if ips = [] then Inr s else call fails CallDelete (snd (DeleteBlocklistEntries ips s)),
     rd_prune_events = \<lambda>s t. call fails CallPruneEvents (snd (PruneThreatEvents t s)),
     rd_prune_ingest = \<lambda>s t. call fails CallPruneIngest (snd (PruneThreatIngestDaily t s)),
     rd_prune_requests = \<lambda>s t. call fails CallPruneRequests (s\<lparr>ts_requests := filter (\<lambda>r. \<not> rr_created_at r < t) (ts_requests s)\<rparr>),
     rd_list = \<lambda>s now limit. call fails CallList (ListBlocklist now limit s)\<rparr>"

lemma call_Inr [simp]: "call fails c x = Inr y \<longleftrightarrow> \<not> fails c \<and> y = x"
  by (auto simp: call_def)

subsection \<open>Folding candidates\<close>

definition systems_of :: "candidate_row list \<Rightarrow> addr \<Rightarrow> string set" where
  "systems_of rows a = cr_system ` {r \<in> set rows. row_addr r = Some a}"

definition cand_systems :: "candidate list \<Rightarrow> addr \<Rightarrow> string set" where
  "cand_systems cs a = (case find_key ca_addr a cs of None \<Rightarrow> {} | Some c \<Rightarrow> set (ca_systems c))"

definition cands_ok :: "candidate list \<Rightarrow> bool" where
  "cands_ok cs \<longleftrightarrow> keys_unique ca_addr cs \<and> list_all (\<lambda>c. distinct (ca_systems c) \<and> ca_systems c \<noteq> []) cs"

lemma fold_candidate_simps [simp]:
  "ca_addr (fold_candidate c r) = ca_addr c"
  "ca_systems (fold_candidate c r) = List.insert (cr_system r) (ca_systems c)"
  by (simp_all add: fold_candidate_def)

lemma fold_into_addrs: "ca_addr ` set (fold_into a r cs) = insert a (ca_addr ` set cs)"
  by (induction cs) auto

lemma fold_into_ok: "cands_ok cs \<Longrightarrow> cands_ok (fold_into a r cs)"
proof (induction cs)
  case Nil
  then show ?case by (simp add: cands_ok_def keys_unique_def List.insert_def)
next
  case (Cons c cs)
  then have ok: "cands_ok cs" and c: "ca_addr c \<notin> ca_addr ` set cs" "distinct (ca_systems c)" "ca_systems c \<noteq> []"
    by (simp_all add: cands_ok_def keys_unique_def)
  show ?case
  proof (cases "ca_addr c = a")
    case True
    have "distinct (List.insert (cr_system r) (ca_systems c)) \<and> List.insert (cr_system r) (ca_systems c) \<noteq> []"
      using c by (simp add: List.insert_def)
    then show ?thesis using True ok c(1) by (simp add: cands_ok_def keys_unique_def)
  next
    case False
    then have "ca_addr c \<notin> ca_addr ` set (fold_into a r cs)" using c(1) fold_into_addrs [of a r cs] by auto
    then show ?thesis using False Cons.IH [OF ok] c by (simp add: cands_ok_def keys_unique_def)
  qed
qed

lemma fold_into_systems:
  "cand_systems (fold_into a r cs) b = (if b = a then insert (cr_system r) (cand_systems cs a) else cand_systems cs b)"
proof (induction cs)
  case Nil
  then show ?case by (simp add: cand_systems_def)
next
  case (Cons c cs)
  then show ?case
    by (cases "ca_addr c = a"; cases "ca_addr c = b") (simp_all add: cand_systems_def)
qed

lemma fold_rows_spec:
  assumes "cands_ok cs"
  shows "cands_ok (fold_rows rows cs)" "cand_systems (fold_rows rows cs) a = cand_systems cs a \<union> systems_of rows a"
  using assms
proof (induction rows arbitrary: cs)
  case Nil
  {
    case 1
    then show ?case by simp
  next
    case 2
    show ?case by (simp add: systems_of_def)
  }
next
  case (Cons r rows)
  have s: "systems_of (r # rows) a = (if row_addr r = Some a then insert (cr_system r) (systems_of rows a) else systems_of rows a)"
    by (auto simp: systems_of_def)
  {
    case 1
    then show ?case using Cons.IH(1) fold_into_ok by (auto split: option.split)
  next
    case 2
    then show ?case using Cons.IH(2) fold_into_ok fold_into_systems s by (auto split: option.split)
  }
qed

lemma fold_rows_mem:
  assumes "c \<in> set (fold_rows rows [])"
  shows "set (ca_systems c) = systems_of rows (ca_addr c)" "int (length (ca_systems c)) = int (card (systems_of rows (ca_addr c)))"
    "systems_of rows (ca_addr c) \<noteq> {}"
proof -
  have ok: "cands_ok (fold_rows rows [])" by (rule fold_rows_spec) (simp add: cands_ok_def keys_unique_def)
  then have "find_key ca_addr (ca_addr c) (fold_rows rows []) = Some c"
    using assms by (simp add: cands_ok_def find_key_mem)
  then show s: "set (ca_systems c) = systems_of rows (ca_addr c)"
    using fold_rows_spec(2) [of "[]" rows "ca_addr c"] by (simp add: cands_ok_def keys_unique_def cand_systems_def)
  have "distinct (ca_systems c)" "ca_systems c \<noteq> []" using ok assms by (auto simp: cands_ok_def list_all_iff)
  then show "int (length (ca_systems c)) = int (card (systems_of rows (ca_addr c)))" "systems_of rows (ca_addr c) \<noteq> {}"
    using distinct_card [of "ca_systems c"] s by auto
qed

lemma fold_rows_addr:
  assumes "systems_of rows a \<noteq> {}"
  shows "\<exists>c \<in> set (fold_rows rows []). ca_addr c = a"
proof -
  have "cand_systems (fold_rows rows []) a \<noteq> {}"
    using fold_rows_spec(2) [of "[]" rows a] assms by (simp add: cands_ok_def keys_unique_def)
  then show ?thesis by (auto simp: cand_systems_def split: option.splits dest!: find_key_SomeD)
qed

definition eligible :: "config \<Rightarrow> candidate_row list \<Rightarrow> allowlist \<Rightarrow> addr \<Rightarrow> bool" where
  "eligible cfg rows allow a \<longleftrightarrow> systems_of rows a \<noteq> {} \<and> \<not> allow_contains allow a
     \<and> cf_min_systems cfg \<le> int (card (systems_of rows a))"

lemma promoted_row_simps [simp]:
  "br_ip (promoted_row cfg now c) = AddrString (ca_addr c)"
  "br_distinct_systems (promoted_row cfg now c) = int (length (ca_systems c))"
  "br_first_listed_at (promoted_row cfg now c) = now"
  by (simp_all add: promoted_row_def Let_def)

lemma promote_mem:
  "r \<in> set (promote cfg rows allow now) \<Longrightarrow> \<exists>c \<in> set (fold_rows rows []). promotes cfg allow c \<and> r = promoted_row cfg now c"
  by (auto simp: promote_def)

lemma promote_ips: "br_ip ` set (promote cfg rows allow now) = AddrString ` {a. eligible cfg rows allow a}"
proof -
  have "ca_addr ` {c \<in> set (fold_rows rows []). promotes cfg allow c} = {a. eligible cfg rows allow a}"
  proof (intro equalityI subsetI)
    fix a
    assume "a \<in> ca_addr ` {c \<in> set (fold_rows rows []). promotes cfg allow c}"
    then obtain c where c: "c \<in> set (fold_rows rows [])" "promotes cfg allow c" "a = ca_addr c" by blast
    show "a \<in> {a. eligible cfg rows allow a}"
      using c(2,3) fold_rows_mem(2,3) [OF c(1)] by (simp add: promotes_def eligible_def)
  next
    fix a
    assume "a \<in> {a. eligible cfg rows allow a}"
    then have e: "eligible cfg rows allow a" by simp
    then obtain c where c: "c \<in> set (fold_rows rows [])" "ca_addr c = a"
      using fold_rows_addr unfolding eligible_def by blast
    then have "promotes cfg allow c" using e fold_rows_mem(2) [OF c(1)] by (simp add: promotes_def eligible_def)
    then show "a \<in> ca_addr ` {c \<in> set (fold_rows rows []). promotes cfg allow c}" using c by blast
  qed
  then have "AddrString ` ca_addr ` {c \<in> set (fold_rows rows []). promotes cfg allow c}
      = AddrString ` {a. eligible cfg rows allow a}" by simp
  then show ?thesis by (simp add: promote_def image_image)
qed

lemma promote_distinct: "distinct (map br_ip (promote cfg rows allow now))"
proof -
  have "cands_ok (fold_rows rows [])" by (rule fold_rows_spec) (simp add: cands_ok_def keys_unique_def)
  then have "distinct (map ca_addr (filter (promotes cfg allow) (fold_rows rows [])))"
    by (simp add: cands_ok_def keys_unique_def distinct_map_filter)
  then have d: "distinct (map br_ip (map (promoted_row cfg now) (filter (promotes cfg allow) (fold_rows rows []))))"
    by (simp add: distinct_map comp_inj_on_iff inj_on_def AddrString_inject)
  have "mset (map br_ip (promote cfg rows allow now))
      = mset (map br_ip (map (promoted_row cfg now) (filter (promotes cfg allow) (fold_rows rows []))))"
    unfolding promote_def by (simp only: mset_map mset_sort)
  then show ?thesis using d by (metis mset_eq_imp_distinct_iff)
qed

subsection \<open>The interface\<close>

definition live :: "int \<Rightarrow> blocklist_row \<Rightarrow> bool" where
  "live now r \<longleftrightarrow> br_expires_at r > now"

definition covers :: "allowlist \<Rightarrow> string \<Rightarrow> bool" where
  "covers allow ip = (case ParseAddr ip of None \<Rightarrow> False | Some a \<Rightarrow> allow_contains allow a)"

definition feed_order :: "blocklist_row \<Rightarrow> int \<times> string" where
  "feed_order r = (- br_last_seen_at r, br_ip r)"

lemma covered_ips_filter: "covered_ips allow ips = filter (covers allow) ips"
  by (induction ips) (auto simp: covers_def split: option.split)

lemma covers_empty: "allow_len allow = 0 \<Longrightarrow> \<not> covers allow ip"
  by (simp add: covers_def allow_len_def allow_contains_def split: option.split)

locale feed_store =
  fixes rd :: "'s reader" and tbl :: "'s \<Rightarrow> blocklist_row list"
  assumes upsert_law: "rd_upsert rd s rows = Inr s' \<Longrightarrow> tbl s' = fold (upsert br_ip refresh_blocklist) rows (tbl s)"
    and expire_law: "rd_expire rd s now = Inr s' \<Longrightarrow> tbl s' = filter (live now) (tbl s)"
    and list_ips_law: "rd_list_ips rd s now = Inr ips \<Longrightarrow> set ips = br_ip ` {r \<in> set (tbl s). live now r}"
    and delete_law: "rd_delete rd s ips = Inr s' \<Longrightarrow> tbl s' = filter (\<lambda>r. br_ip r \<notin> set ips) (tbl s)"
    and prune_laws: "rd_prune_events rd s t = Inr s' \<Longrightarrow> tbl s' = tbl s"
      "rd_prune_ingest rd s t = Inr s' \<Longrightarrow> tbl s' = tbl s"
      "rd_prune_requests rd s t = Inr s' \<Longrightarrow> tbl s' = tbl s"
    and list_law: "rd_list rd s now limit = Inr rows \<Longrightarrow> 0 < limit \<Longrightarrow>
      rows = take (nat limit) (sort_key feed_order (filter (live now) (tbl s)))"
begin

lemma unlist_tbl:
  assumes "unlist rd s allow now = Inr s'" "list_all (live now) (tbl s)"
  shows "tbl s' = filter (\<lambda>r. \<not> covers allow (br_ip r)) (tbl s)"
proof (cases "allow_len allow = 0")
  case True
  then have "s' = s" "\<forall>r. \<not> covers allow (br_ip r)" using assms(1) covers_empty by (auto simp: unlist_def)
  then show ?thesis by (subst filter_True) auto
next
  case False
  then obtain ips where ips: "rd_list_ips rd s now = Inr ips"
    and u: "(if filter (covers allow) ips = [] then Inr s else rd_delete rd s (filter (covers allow) ips)) = Inr s'"
    using assms(1) by (auto simp: unlist_def rbind_Inr_iff Let_def covered_ips_filter)
  have set_ips: "set ips = br_ip ` set (tbl s)"
    using list_ips_law [OF ips] assms(2) by (auto simp: list_all_iff)
  have "tbl s' = filter (\<lambda>r. br_ip r \<notin> set (filter (covers allow) ips)) (tbl s)"
  proof (cases "filter (covers allow) ips = []")
    case True
    then show ?thesis using u by simp
  next
    case False
    then show ?thesis using u delete_law by simp
  qed
  also have "\<dots> = filter (\<lambda>r. \<not> covers allow (br_ip r)) (tbl s)"
    using set_ips by (intro filter_cong) auto
  finally show ?thesis .
qed

lemma best_effort_tbl:
  "tbl (best_effort s (rd_prune_events rd s t)) = tbl s" "tbl (best_effort s (rd_prune_ingest rd s t)) = tbl s"
  "tbl (best_effort s (rd_prune_requests rd s t)) = tbl s"
  using prune_laws by (auto simp: best_effort_def split: sum.split)

definition served :: "config \<Rightarrow> blocklist_row list \<Rightarrow> blocklist_row list" where
  "served cfg rows = take (nat (cf_max_entries cfg)) (sort_key feed_order rows)"

lemma run_tail_success:
  assumes "run_tail sha gzip rd cfg now s snap = (None, s', snap')" "0 < cf_max_entries cfg" "list_all (live now) (tbl s)"
  shows "tbl s' = tbl s \<and> (\<exists>capped. Generate sha gzip (served cfg (tbl s)) (config_rule cfg) capped now snap = Inr snap'
           \<and> (capped \<longleftrightarrow> cf_max_entries cfg < int (length (tbl s))))"
proof -
  define s6 where "s6 = best_effort (best_effort (best_effort s (rd_prune_events rd s (now - ms_of_ns (cf_retention cfg))))
    (rd_prune_ingest rd (best_effort s (rd_prune_events rd s (now - ms_of_ns (cf_retention cfg)))) (now - ms_of_ns (cf_ingest_retention cfg))))
    (rd_prune_requests rd (best_effort (best_effort s (rd_prune_events rd s (now - ms_of_ns (cf_retention cfg))))
    (rd_prune_ingest rd (best_effort s (rd_prune_events rd s (now - ms_of_ns (cf_retention cfg)))) (now - ms_of_ns (cf_ingest_retention cfg))))
      (now - ms_of_ns (cf_request_retention cfg)))"
  have t6: "tbl s6 = tbl s" by (simp add: s6_def best_effort_tbl)
  obtain live0 where l: "rd_list rd s6 now (cf_max_entries cfg + 1) = Inr live0" "s' = s6"
    and g: "Generate sha gzip (if int (length live0) > cf_max_entries cfg then take (nat (cf_max_entries cfg)) live0 else live0)
        (config_rule cfg) (int (length live0) > cf_max_entries cfg) now snap = Inr snap'"
    using assms(1) unfolding run_tail_def Let_def s6_def [symmetric] by (auto split: sum.splits)
  let ?all = "sort_key feed_order (tbl s)"
  have f: "filter (live now) (tbl s) = tbl s" using assms(3) by (simp add: list_all_iff filter_id_conv)
  have l0: "live0 = take (nat (cf_max_entries cfg + 1)) ?all"
    using list_law [OF l(1)] assms(2) t6 f by simp
  have c: "int (length live0) > cf_max_entries cfg \<longleftrightarrow> cf_max_entries cfg < int (length (tbl s))"
    using assms(2) by (auto simp: l0)
  have "(if int (length live0) > cf_max_entries cfg then take (nat (cf_max_entries cfg)) live0 else live0) = served cfg (tbl s)"
    using assms(2) by (auto simp: l0 served_def min_def)
  then show ?thesis using g c l(2) t6 by auto
qed

lemma Run_success:
  assumes "Run sha gzip rd cfg now s snap = (None, s', snap')" "0 < cf_max_entries cfg"
  shows "\<exists>rows allow capped. rd_candidates rd s (now - ms_of_ns (cf_window cfg)) = Inr rows
    \<and> runner_allowlist rd s now = Inr allow
    \<and> tbl s' = filter (\<lambda>r. live now r \<and> \<not> covers allow (br_ip r))
        (fold (upsert br_ip refresh_blocklist) (promote cfg rows allow now) (tbl s))
    \<and> Generate sha gzip (served cfg (tbl s')) (config_rule cfg) capped now snap = Inr snap'
    \<and> (capped \<longleftrightarrow> cf_max_entries cfg < int (length (tbl s')))"
proof -
  obtain rows where r: "rd_candidates rd s (now - ms_of_ns (cf_window cfg)) = Inr rows"
    using assms(1) by (auto simp: Run_def split: sum.splits)
  obtain allow where a: "runner_allowlist rd s now = Inr allow"
    using assms(1) r by (auto simp: Run_def split: sum.splits)
  obtain s1 where s1: "rd_upsert rd s (promote cfg rows allow now) = Inr s1"
    using assms(1) r a by (auto simp: Run_def split: sum.splits)
  obtain s2 where s2: "rd_expire rd s1 now = Inr s2"
    using assms(1) r a s1 by (auto simp: Run_def split: sum.splits)
  obtain s3 where s3: "unlist rd s2 allow now = Inr s3"
    using assms(1) r a s1 s2 by (auto simp: Run_def split: sum.splits)
  have tail: "run_tail sha gzip rd cfg now s3 snap = (None, s', snap')"
    using assms(1) r a s1 s2 s3 by (simp add: Run_def)
  have t2: "tbl s2 = filter (live now) (tbl s1)" by (rule expire_law [OF s2])
  then have l2: "list_all (live now) (tbl s2)" by (simp add: list_all_iff)
  have t3: "tbl s3 = filter (\<lambda>r. \<not> covers allow (br_ip r)) (tbl s2)" by (rule unlist_tbl [OF s3 l2])
  then have l3: "list_all (live now) (tbl s3)" using l2 by (simp add: list_all_iff)
  from run_tail_success [OF tail assms(2) l3] have "tbl s' = tbl s3" and
    g: "\<exists>capped. Generate sha gzip (served cfg (tbl s3)) (config_rule cfg) capped now snap = Inr snap'
           \<and> (capped \<longleftrightarrow> cf_max_entries cfg < int (length (tbl s3)))" by blast+
  moreover have "tbl s3 = filter (\<lambda>r. live now r \<and> \<not> covers allow (br_ip r))
        (fold (upsert br_ip refresh_blocklist) (promote cfg rows allow now) (tbl s))"
    using t3 t2 upsert_law [OF s1] by (simp add: filter_filter conj_commute)
  ultimately show ?thesis using r a by metis
qed

end

text \<open>
  Deleting one address after another is one filter.
\<close>

lemma delete_fold:
  "snd (fold (\<lambda>ip (n, rows). case delete_where (\<lambda>r. br_ip r = ip) rows of (k, rows') \<Rightarrow> (n + k, rows')) ips (n, rows))
     = filter (\<lambda>r. br_ip r \<notin> set ips) rows"
proof (induction ips arbitrary: n rows)
  case Nil
  then show ?case by simp
next
  case (Cons ip ips)
  then show ?case by (simp add: delete_where_def filter_filter conj_commute)
qed

interpretation fs: feed_store "store_reader fails" ts_blocklist for fails
proof
  fix s s' :: threat_store and rows now ips t limit
  show "rd_upsert (store_reader fails) s rows = Inr s' \<Longrightarrow>
      ts_blocklist s' = fold (upsert br_ip refresh_blocklist) rows (ts_blocklist s)"
    by (auto simp: store_reader_def UpsertBlocklistEntries_def split: if_splits)
  show "rd_expire (store_reader fails) s now = Inr s' \<Longrightarrow> ts_blocklist s' = filter (live now) (ts_blocklist s)"
    by (auto simp: store_reader_def ExpireBlocklist_def delete_where_def live_def not_le intro!: filter_cong)
  show "rd_list_ips (store_reader fails) s now = Inr ips \<Longrightarrow> set ips = br_ip ` {r \<in> set (ts_blocklist s). live now r}"
    by (auto simp: store_reader_def ListBlocklistIPs_def live_def)
  show "rd_delete (store_reader fails) s ips = Inr s' \<Longrightarrow>
      ts_blocklist s' = filter (\<lambda>r. br_ip r \<notin> set ips) (ts_blocklist s)"
    using delete_fold [of ips 0 "ts_blocklist s"]
    by (auto simp: store_reader_def DeleteBlocklistEntries_def split: prod.splits if_splits)
  show "rd_prune_events (store_reader fails) s t = Inr s' \<Longrightarrow> ts_blocklist s' = ts_blocklist s"
    "rd_prune_ingest (store_reader fails) s t = Inr s' \<Longrightarrow> ts_blocklist s' = ts_blocklist s"
    "rd_prune_requests (store_reader fails) s t = Inr s' \<Longrightarrow> ts_blocklist s' = ts_blocklist s"
    by (auto simp: store_reader_def PruneThreatEvents_def PruneThreatIngestDaily_def delete_where_def)
  show "rd_list (store_reader fails) s now limit = Inr rows \<Longrightarrow> 0 < limit \<Longrightarrow>
      rows = take (nat limit) (sort_key feed_order (filter (live now) (ts_blocklist s)))"
    by (simp add: store_reader_def ListBlocklist_def sql_limit_def feed_order_def [abs_def] live_def [abs_def])
qed

subsection \<open>The entity tag\<close>

lemma parsed_addrs_mset:
  "mset (parsed_addrs ss) = sum_mset (image_mset (\<lambda>s. case ParseAddr s of None \<Rightarrow> {#} | Some a \<Rightarrow> {#Unmap a#}) (mset ss))"
  by (induction ss) (auto split: option.split)

lemma sort_addr_unique:
  assumes "mset as = mset bs" shows "sort_key addr_key as = sort_key addr_key bs"
proof -
  have e: "map addr_key (sort_key addr_key cs) = sort (map addr_key cs)" for cs
    by (rule properties_for_sort [symmetric]) simp_all
  have "sort (map addr_key as) = sort (map addr_key bs)"
    by (rule properties_for_sort) (simp_all add: assms)
  then have "map addr_key (sort_key addr_key as) = map addr_key (sort_key addr_key bs)"
    by (simp add: e)
  moreover have "inj addr_key" by (auto intro: injI simp: addr_key_inject)
  ultimately show ?thesis by (metis inj_map_eq_map)
qed

lemma feed_addrs_cong: "mset (map br_ip rows) = mset (map br_ip rows') \<Longrightarrow> feed_addrs rows = feed_addrs rows'"
  unfolding feed_addrs_def by (rule sort_addr_unique) (simp only: parsed_addrs_mset)

lemma Generate_Inr:
  "Generate sha gzip rows r capped now s = Inr s' \<longleftrightarrow>
     (\<exists>gz. gzip (feed_body (feed_addrs rows) r now) = Some gz \<and>
       s' = \<lparr>sn_body = feed_body (feed_addrs rows) r now, sn_gz = gz, sn_etag = feed_etag sha (feed_addrs rows) r,
             sn_generated_at = now, sn_entries = int (length (feed_addrs rows)), sn_capped = capped, sn_ready = True\<rparr>)"
  by (auto simp: Generate_def Let_def split: option.splits)

lemma length_parsed: "length (parsed_addrs ss) \<le> length ss"
  by (induction ss) (auto split: option.split)

lemma run_tail_failure: "run_tail sha gzip rd cfg now s snap = (Some e, s', snap') \<Longrightarrow> snap' = snap"
  by (auto simp: run_tail_def Let_def split: sum.splits)

subsection \<open>Properties\<close>

text \<open>
  C12: promotion is exact: the addresses a pass promotes are those reported in the window by at
  least \<open>MinSystems\<close> distinct systems and not exempted, each once, however the reports spell the
  address and under however many scenarios one system reports it.
\<close>

theorem promote_exact:
  "br_ip ` set (promote cfg rows allow now)
     = AddrString ` {a. systems_of rows a \<noteq> {} \<and> cf_min_systems cfg \<le> int (card (systems_of rows a))
                        \<and> \<not> allow_contains allow a}
   \<and> distinct (map br_ip (promote cfg rows allow now))"
proof -
  have "{a. eligible cfg rows allow a}
     = {a. systems_of rows a \<noteq> {} \<and> cf_min_systems cfg \<le> int (card (systems_of rows a)) \<and> \<not> allow_contains allow a}"
    by (auto simp: eligible_def)
  then show ?thesis using promote_ips promote_distinct by simp
qed

text \<open>
  C5: a pass that succeeds leaves only live rows that no entry of the allowlist in force covers,
  and serves exactly these rows, the most recently seen first up to the cap: an exemption takes
  effect on the very pass that first sees it, and nothing expired is served.
\<close>

theorem Run_feed_safe:
  assumes "Run sha gzip (store_reader fails) cfg now s snap = (None, s', snap')" "0 < cf_max_entries cfg"
  shows "\<exists>allow rows. runner_allowlist (store_reader fails) s now = Inr allow
    \<and> list_all (\<lambda>r. now < br_expires_at r \<and> \<not> covers allow (br_ip r)) (ts_blocklist s')
    \<and> rows = take (nat (cf_max_entries cfg)) (sort_key feed_order (ts_blocklist s'))
    \<and> sn_body snap' = feed_body (feed_addrs rows) (config_rule cfg) now
    \<and> sn_entries snap' \<le> cf_max_entries cfg
    \<and> (sn_capped snap' \<longleftrightarrow> cf_max_entries cfg < int (length (ts_blocklist s')))"
proof -
  obtain rows allow capped where R: "runner_allowlist (store_reader fails) s now = Inr allow"
    "ts_blocklist s' = filter (\<lambda>r. live now r \<and> \<not> covers allow (br_ip r))
        (fold (upsert br_ip refresh_blocklist) (promote cfg rows allow now) (ts_blocklist s))"
    "Generate sha gzip (fs.served cfg (ts_blocklist s')) (config_rule cfg) capped now snap = Inr snap'"
    "capped \<longleftrightarrow> cf_max_entries cfg < int (length (ts_blocklist s'))"
    using fs.Run_success [OF assms] by blast
  have "list_all (\<lambda>r. now < br_expires_at r \<and> \<not> covers allow (br_ip r)) (ts_blocklist s')"
    unfolding R(2) by (auto simp: list_all_iff live_def)
  moreover have "length (feed_addrs (fs.served cfg (ts_blocklist s'))) \<le> nat (cf_max_entries cfg)"
    unfolding feed_addrs_def fs.served_def
    by (simp only: length_sort) (rule order_trans [OF length_parsed], simp)
  then have "int (length (feed_addrs (fs.served cfg (ts_blocklist s')))) \<le> cf_max_entries cfg"
    using assms(2) by linarith
  ultimately show ?thesis using R(1,3,4) by (auto simp: Generate_Inr fs.served_def)
qed

definition sample_config :: config where
  "sample_config = \<lparr>cf_window = 3600000000000, cf_min_systems = 3, cf_ttl = 86400000000000, cf_max_entries = 10,
     cf_retention = 86400000000000, cf_ingest_retention = 86400000000000, cf_request_retention = 86400000000000\<rparr>"

definition sample_event :: "string \<Rightarrow> string \<Rightarrow> event_row" where
  "sample_event sys ip = \<lparr>er_system = sys, er_ip = ip, er_scenario = ''ssh-bf'', er_observed_at = 999000,
     er_hits = 1, er_duration_seconds = None\<rparr>"

definition sample_store :: "string \<Rightarrow> threat_store" where
  "sample_store cidr = empty_store\<lparr>
     ts_events := [sample_event ''a'' ''1.2.3.4'', sample_event ''b'' ''1.2.3.4'', sample_event ''c'' ''1.2.3.4'',
                   sample_event ''a'' ''8.8.8.8'', sample_event ''b'' ''8.8.8.8'', sample_event ''c'' ''8.8.8.8''],
     ts_allowlist := [\<lparr>ar_cidr = cidr, ar_reason = [], ar_created_by = [], ar_created_at = 0, ar_expires_at = None\<rparr>]\<rparr>"

theorem Run_feed_safe_witness:
  "\<exists>s' snap'. Run id Some (store_reader (\<lambda>_. False)) sample_config 1000000 (sample_store ''8.8.8.0/24'') NewSnapshot = (None, s', snap')
    \<and> map br_ip (ts_blocklist s') = [''1.2.3.4''] \<and> sn_entries snap' \<le> 10"
proof -
  let ?R = "Run id Some (store_reader (\<lambda>_. False)) sample_config 1000000 (sample_store ''8.8.8.0/24'') NewSnapshot"
  have r: "fst ?R = None \<and> map br_ip (ts_blocklist (fst (snd ?R))) = [''1.2.3.4'']" by code_simp
  have m: "cf_max_entries sample_config = 10" by (simp add: sample_config_def)
  obtain s' snap' where e: "?R = (None, s', snap')" using r by (metis prod.collapse)
  have "sn_entries snap' \<le> cf_max_entries sample_config"
    using Run_feed_safe [OF e] m by auto
  then show ?thesis using e r m by auto
qed

text \<open>
  A pass that fails leaves the served snapshot as it was: subscribers get a stale list,
  never a blank one. A pass that succeeds stamps the snapshot with its own time and marks it
  ready.
\<close>

lemma Run_failure_keeps_feed:
  "case Run sha gzip (store_reader fails) cfg now s snap of
     (Some e, s', snap') \<Rightarrow> snap' = snap
   | (None, s', snap') \<Rightarrow> sn_ready snap' \<and> sn_generated_at snap' = now"
  by (auto simp: Run_def run_tail_def Let_def Generate_Inr split: sum.splits option.splits prod.splits)

text \<open>
  A stored allowlist entry that does not parse stops the pass before it writes anything:
  neither the tables nor the feed move until it is repaired.
\<close>

lemma Run_bad_allowlist:
  assumes "ParsePrefix c = None" "c \<in> set (map ar_cidr (ThreatAllowlist now s))"
  shows "\<exists>e. Run sha gzip (store_reader fails) cfg now s snap = (Some e, s, snap)"
proof -
  have "\<exists>e. ParseAllowlist cs = Inl e" if "c \<in> set cs" for cs
    using that assms(1) by (induction cs) (fastforce simp: rbind_Inl_iff split: option.split)+
  then have "\<exists>e. runner_allowlist (store_reader fails) s now = Inl e"
    using assms(2) by (auto simp: runner_allowlist_def store_reader_def call_def rbind_Inl_iff)
  then show ?thesis by (auto simp: Run_def split: sum.splits)
qed

text \<open>
  The entity tag identifies the entries and the rule, not the rendering: two generations
  whose rows name the same addresses, at whatever times and in whatever order, carry the same
  tag.
\<close>

lemma Generate_etag_content:
  assumes "mset (map br_ip rows) = mset (map br_ip rows')"
  shows "map_sum id sn_etag (Generate sha (Some \<circ> gz) rows r c t s) = map_sum id sn_etag (Generate sha (Some \<circ> gz) rows' r c' t' s')"
  using feed_addrs_cong [OF assms] by (simp add: Generate_def Let_def)

definition sample_row :: "string \<Rightarrow> int \<Rightarrow> blocklist_row" where
  "sample_row ip t = \<lparr>br_ip = ip, br_first_listed_at = t, br_last_seen_at = t, br_expires_at = t + 1, br_distinct_systems = 3,
     br_scenarios = [], br_reason = \<lparr>lr_systems = 3, lr_hits = 3, lr_scenarios = [], lr_window_minutes = 60,
       lr_min_systems = 3, lr_rule = ''v1'', lr_decided_at = t\<rparr>\<rparr>"

end
