(* ===== verification/Threat_History.thy ===== *)
theory Threat_History
  imports Threat_Api Consensus_Props
begin

text \<open>
  Threat Shield as a whole: the client API, the ingest queue with its workers, the consensus
  pass and the operators, acting in any order on one state. \<open>td_step\<close> has one event for each
  of their actions, a store call that fails included. The main invariant follows an address
  from the report that named it to the feed that serves it.
\<close>

record threatd_env =
  en_dur :: "string \<Rightarrow> int option"
  en_decode :: "bool \<Rightarrow> string \<Rightarrow> threat_report decoded"
  en_decode_request :: "string \<Rightarrow> allowlist_request option"
  en_trusted :: trusted_proxies
  en_api :: api_config
  en_config :: config
  en_sha :: "string \<Rightarrow> string"
  en_gzip :: "string \<Rightarrow> string option"

record threatd =
  td_queue :: "work pool"
  td_store :: threat_store
  td_snap :: snapshot

definition threatd_start :: "ingest_limits \<Rightarrow> threatd" where
  "threatd_start limits = \<lparr>td_queue = ingestq_New (il_queue_size limits) (il_queue_workers limits),
     td_store = empty_store, td_snap = NewSnapshot\<rparr>"

datatype td_event =
    TdReport http_request int
  | TdTake nat
  | TdWrite nat bool bool
  | TdExit nat
  | TdStop
  | TdAsk http_request int bool
  | TdOperator review_op
  | TdPass int "store_call \<Rightarrow> bool"

text \<open>The event \<open>TdWrite i f g\<close> is the consumer run by worker \<open>i\<close>, with failing inserts or counts.\<close>

definition td_write :: "nat \<Rightarrow> bool \<Rightarrow> bool \<Rightarrow> threatd \<Rightarrow> threatd option" where
  "td_write i f g s =
     (if i < length (p_workers (td_queue s))
      then case p_workers (td_queue s) ! i of
             Handling w \<Rightarrow> (case NewConsumer f g w (td_store s) of
                (out, st) \<Rightarrow> map_option (\<lambda>p. s\<lparr>td_queue := p, td_store := st\<rparr>) (ingestq_process i out (td_queue s)))
           | _ \<Rightarrow> None
      else None)"

fun td_step :: "threatd_env \<Rightarrow> td_event \<Rightarrow> threatd \<Rightarrow> threatd option" where
  "td_step en (TdReport r now) s =
     Some (s\<lparr>td_queue := snd (handleEvents (en_dur en) (en_decode en) (en_trusted en) (en_api en) r now (td_queue s))\<rparr>)"
| "td_step en (TdTake i) s = map_option (\<lambda>p. s\<lparr>td_queue := p\<rparr>) (pool_take i (td_queue s))"
| "td_step en (TdWrite i f g) s = td_write i f g s"
| "td_step en (TdExit i) s = map_option (\<lambda>p. s\<lparr>td_queue := p\<rparr>) (pool_exit i (td_queue s))"
| "td_step en TdStop s = (if p_closed (td_queue s) then None else Some (s\<lparr>td_queue := pool_close (td_queue s)\<rparr>))"
| "td_step en (TdAsk r now fails) s =
     Some (s\<lparr>td_store := snd (handleAllowlistRequest (en_decode_request en) (en_trusted en) (en_api en) fails r now (td_store s))\<rparr>)"
| "td_step en (TdOperator op) s = Some (s\<lparr>td_store := review_step (ac_max_requests (en_api en)) op (td_store s)\<rparr>)"
| "td_step en (TdPass now fails) s =
     (case Run (en_sha en) (en_gzip en) (store_reader fails) (en_config en) now (td_store s) (td_snap s) of
        (_, st, snap) \<Rightarrow> Some (s\<lparr>td_store := st, td_snap := snap\<rparr>))"

subsection \<open>Evidence\<close>

text \<open>
  The pairs of a system and an address that one report provides: the system is the one the
  proxy authenticated, and the address survived the sanitizer.
\<close>

definition report_evidence :: "threatd_env \<Rightarrow> http_request \<Rightarrow> int \<Rightarrow> (string \<times> string) set" where
  "report_evidence en r now =
     (case SystemID r (en_trusted en) of
        Inl _ \<Rightarrow> {}
      | Inr sys \<Rightarrow> (case en_decode en (hr_content_encoding r = ''gzip'') (hr_body r) of
          Decoded report \<Rightarrow> (\<lambda>e. (sys, te_ip e)) `
            set (sanitized_events (en_dur en) report
              \<lparr>so_source_ip = sourceAddr r (en_trusted en), so_max_decisions = ac_max_decisions (en_api en),
               so_max_age = ac_max_event_age (en_api en)\<rparr> now)
        | _ \<Rightarrow> {}))"

fun evidence :: "threatd_env \<Rightarrow> td_event list \<Rightarrow> (string \<times> string) set" where
  "evidence en [] = {}"
| "evidence en (TdReport r now # es) = report_evidence en r now \<union> evidence en es"
| "evidence en (_ # es) = evidence en es"

definition witnesses :: "(string \<times> string) set \<Rightarrow> string \<Rightarrow> string set" where
  "witnesses W ip = {sys. (sys, ip) \<in> W}"

definition public_text :: "string \<Rightarrow> bool" where
  "public_text ip \<longleftrightarrow> (\<exists>a. ip = AddrString a \<and> publicUnicast a \<and> Unmap a = a)"

definition listable :: "threatd_env \<Rightarrow> (string \<times> string) set \<Rightarrow> string \<Rightarrow> bool" where
  "listable en W ip \<longleftrightarrow> public_text ip \<and> cf_min_systems (en_config en) \<le> int (card (witnesses W ip))"

lemma finite_report_evidence: "finite (report_evidence en r now)"
  by (auto simp: report_evidence_def split: sum.split decoded.split)

lemma finite_evidence: "finite (evidence en es)"
  by (induction en es rule: evidence.induct) (simp_all add: finite_report_evidence)

lemma finite_witnesses: "finite W \<Longrightarrow> finite (witnesses W ip)"
proof -
  assume "finite W"
  moreover have "witnesses W ip \<subseteq> fst ` W" by (force simp: witnesses_def)
  ultimately show ?thesis by (meson finite_imageI finite_subset)
qed

lemma listable_mono: "finite W' \<Longrightarrow> W \<subseteq> W' \<Longrightarrow> listable en W ip \<Longrightarrow> listable en W' ip"
proof -
  assume a: "finite W'" "W \<subseteq> W'" "listable en W ip"
  then have "witnesses W ip \<subseteq> witnesses W' ip" by (auto simp: witnesses_def)
  from card_mono [OF finite_witnesses [OF a(1)] this] a(3) show ?thesis by (auto simp: listable_def)
qed

lemma report_evidence_public:
  assumes "x \<in> report_evidence en r now" shows "public_text (snd x)"
proof -
  obtain report opts e where e: "e \<in> set (sanitized_events (en_dur en) report opts now)" "snd x = te_ip e"
    using assms by (auto simp: report_evidence_def split: sum.splits decoded.splits)
  then obtain d where "judge opts now d = Inr (te_ip e, te_scenario e, te_observed_at e)"
    using event_from_judge(1) [OF e(1)] by (auto simp: event_key_def)
  from judge_Inr(1) [OF this] show ?thesis unfolding e(2) public_text_def by blast
qed

lemma evidence_public: "x \<in> evidence en es \<Longrightarrow> public_text (snd x)"
  by (induction en es rule: evidence.induct) (auto dest: report_evidence_public)

subsection \<open>The invariant\<close>

definition work_ok :: "(string \<times> string) set \<Rightarrow> work \<Rightarrow> bool" where
  "work_ok W w \<longleftrightarrow> list_all (\<lambda>e. (wk_system w, te_ip e) \<in> W) (wk_events w)"

definition events_ok :: "(string \<times> string) set \<Rightarrow> threat_store \<Rightarrow> bool" where
  "events_ok W st \<longleftrightarrow> list_all (\<lambda>r. (er_system r, er_ip r) \<in> W) (ts_events st)"

definition pool_ok :: "(string \<times> string) set \<Rightarrow> work pool \<Rightarrow> bool" where
  "pool_ok W p \<longleftrightarrow> list_all (work_ok W) (p_buf p)
     \<and> list_all (\<lambda>x. case x of Handling w \<Rightarrow> work_ok W w | _ \<Rightarrow> True) (p_workers p)"

definition list_ok :: "threatd_env \<Rightarrow> (string \<times> string) set \<Rightarrow> threat_store \<Rightarrow> bool" where
  "list_ok en W st \<longleftrightarrow> list_all (\<lambda>r. listable en W (br_ip r)) (ts_blocklist st)"

definition snap_ok :: "threatd_env \<Rightarrow> (string \<times> string) set \<Rightarrow> snapshot \<Rightarrow> bool" where
  "snap_ok en W sn \<longleftrightarrow> (sn_body sn = [] \<and> sn_gz sn = [] \<and> \<not> sn_ready sn) \<or> (\<exists>as t. sn_body sn = feed_body as (config_rule (en_config en)) t
     \<and> en_gzip en (sn_body sn) = Some (sn_gz sn) \<and> list_all (\<lambda>a. listable en W (AddrString a)) as)"

definition td_inv :: "threatd_env \<Rightarrow> (string \<times> string) set \<Rightarrow> threatd \<Rightarrow> bool" where
  "td_inv en W s \<longleftrightarrow> pool_ok W (td_queue s) \<and> events_ok W (td_store s) \<and> list_ok en W (td_store s) \<and> snap_ok en W (td_snap s)"

lemma td_inv_mono:
  assumes "finite W'" "W \<subseteq> W'" "td_inv en W s" shows "td_inv en W' s"
proof -
  have w: "work_ok W x \<Longrightarrow> work_ok W' x" for x using assms(2) by (auto simp: work_ok_def list_all_iff)
  then have "pool_ok W' (td_queue s)" using assms(3)
    by (auto simp: td_inv_def pool_ok_def list_all_iff split: worker.splits)
  moreover have "events_ok W' (td_store s)" using assms(2,3) by (auto simp: td_inv_def events_ok_def list_all_iff)
  moreover have "list_ok en W' (td_store s)" using assms listable_mono by (auto simp: td_inv_def list_ok_def list_all_iff)
  moreover have "snap_ok en W' (td_snap s)"
    using assms(3) listable_mono [OF assms(1,2)] unfolding td_inv_def snap_ok_def list_all_iff by blast
  ultimately show ?thesis by (simp add: td_inv_def)
qed

text \<open>What the operators and the clients' asks leave alone.\<close>

lemma review_step_frame:
  "ts_events (review_step cap op st) = ts_events st" "ts_blocklist (review_step cap op st) = ts_blocklist st"
  by (cases op; simp add: UpsertAllowlistRequest_def AddAllowlistEntry_def RemoveAllowlistEntry_def
      ApproveAllowlistRequest_def RejectAllowlistRequest_def PruneAllowlistRequests_def decideAllowlistRequest_def
      appendAllowlistAudit_def upsertAllowlistEntry_def delete_where_def Let_def)+

lemma ask_frame:
  "ts_events (snd (handleAllowlistRequest dec trusted cfg fails r now st)) = ts_events st"
  "ts_blocklist (snd (handleAllowlistRequest dec trusted cfg fails r now st)) = ts_blocklist st"
  by (auto simp: handleAllowlistRequest_def UpsertAllowlistRequest_def Let_def
      split: sum.split option.split prod.split request_error.split)

subsection \<open>Ingest keeps it\<close>

lemma handleEvents_pool_ok:
  assumes "pool_ok W q" "report_evidence en r now \<subseteq> W"
  shows "pool_ok W (snd (handleEvents (en_dur en) (en_decode en) (en_trusted en) (en_api en) r now q))"
proof (cases "snd (handleEvents (en_dur en) (en_decode en) (en_trusted en) (en_api en) r now q) = q")
  case True
  then show ?thesis using assms(1) by simp
next
  case False
  define opts where "opts = \<lparr>so_source_ip = sourceAddr r (en_trusted en), so_max_decisions = ac_max_decisions (en_api en),
               so_max_age = ac_max_event_age (en_api en)\<rparr>"
  obtain sys where sys: "SystemID r (en_trusted en) = Inr sys"
    using False by (auto simp: handleEvents_def split: if_splits sum.splits)
  then obtain report where d: "en_decode en (hr_content_encoding r = ''gzip'') (hr_body r) = Decoded report"
    using False by (auto simp: handleEvents_def split: if_splits decoded.splits)
  let ?w = "\<lparr>wk_system = sys, wk_events = sanitized_events (en_dur en) report opts now,
      wk_counters = sanitized_counters (en_dur en) report opts now, wk_day = DayString now\<rparr>"
  have q: "snd (handleEvents (en_dur en) (en_decode en) (en_trusted en) (en_api en) r now q) = snd (ingestq_Publish ?w q)"
    using False sys d unfolding handleEvents_def ingest_report_def opts_def [symmetric] Sanitize_pair
    by (auto split: if_splits prod.splits publish_answer.splits)
  have "report_evidence en r now = (\<lambda>e. (sys, te_ip e)) ` set (sanitized_events (en_dur en) report opts now)"
    using sys d by (simp add: report_evidence_def opts_def)
  then have "work_ok W ?w" using assms(2) by (auto simp: work_ok_def list_all_iff)
  moreover obtain a q' where "ingestq_Publish ?w q = (a, q')" by fastforce
  ultimately show ?thesis using ingestq_Publish_buf [of ?w q a q'] assms(1) unfolding q pool_ok_def list_all_iff by auto
qed

lemma insert_events_set:
  "insert_events rs (i, d, rows) = (i', d', rows') \<Longrightarrow> set rows' \<subseteq> set rows \<union> set rs"
proof (induction rs arbitrary: i d rows)
  case Nil
  then show ?case by simp
next
  case (Cons r rs)
  show ?case
  proof (cases "er_key r \<in> er_key ` set rows")
    case True
    then show ?thesis using Cons by fastforce
  next
    case False
    then have "insert_events rs (i + 1, d, rows @ [r]) = (i', d', rows')" using Cons.prems by simp
    from Cons.IH [OF this] show ?thesis by auto
  qed
qed

lemma NewConsumer_ok:
  assumes "NewConsumer f g w st = (out, st')" "work_ok W w" "events_ok W st"
  shows "events_ok W st' \<and> ts_blocklist st' = ts_blocklist st"
proof (cases "wk_events w \<noteq> [] \<and> f")
  case True
  then show ?thesis using assms by (auto simp: NewConsumer_def)
next
  case False
  obtain i d rows where I: "insert_events (map (event_row_of (wk_system w)) (wk_events w)) (0, 0, ts_events st) = (i, d, rows)"
    by (metis prod_cases3)
  have s: "set rows \<subseteq> set (ts_events st) \<union> set (map (event_row_of (wk_system w)) (wk_events w))"
    by (rule insert_events_set [OF I])
  have "list_all (\<lambda>r. (er_system r, er_ip r) \<in> W) rows"
    using assms(2,3) s by (fastforce simp: work_ok_def events_ok_def list_all_iff event_row_of_def)
  then show ?thesis using assms(1) False I
    by (auto simp: NewConsumer_def InsertThreatEvents_def RecordIngestCounters_def events_ok_def split: if_splits)
qed

subsection \<open>A pass keeps it\<close>

lemma candidates_systems:
  assumes "events_ok W st" "list_all (\<lambda>x. public_text (snd x)) ws" "set ws = W"
  shows "systems_of (ConsensusCandidates since st) a \<subseteq> witnesses W (AddrString a)"
    "systems_of (ConsensusCandidates since st) a \<noteq> {} \<Longrightarrow> public_text (AddrString a)"
proof -
  have m: "sys \<in> witnesses W (AddrString a) \<and> public_text (AddrString a)"
    if sy: "sys \<in> systems_of (ConsensusCandidates since st) a" for sys
  proof -
    obtain r where r: "r \<in> set (ConsensusCandidates since st)" "row_addr r = Some a" "cr_system r = sys"
      using sy unfolding systems_of_def by blast
    then obtain e where e: "e \<in> set (ts_events st)" "er_system e = sys" "er_ip e = cr_ip r"
      by (auto simp: ConsensusCandidates_def Let_def candidate_key_def)
    then have w: "(sys, cr_ip r) \<in> W" using assms(1) by (auto simp: events_ok_def list_all_iff)
    then have "public_text (cr_ip r)" using assms(2,3) by (auto simp: list_all_iff)
    then obtain b where b: "cr_ip r = AddrString b" "publicUnicast b" "Unmap b = b" by (auto simp: public_text_def)
    have "Zone b = []" using b(2) by (auto simp: publicUnicast_def)
    then have "WithoutZone b = b" by (cases b) simp_all
    then have "a = b" using r(2) b by (simp add: row_addr_def ParseAddr_AddrString)
    then show ?thesis using w b by (auto simp: witnesses_def public_text_def)
  qed
  show "systems_of (ConsensusCandidates since st) a \<subseteq> witnesses W (AddrString a)" using m by blast
  show "systems_of (ConsensusCandidates since st) a \<noteq> {} \<Longrightarrow> public_text (AddrString a)" using m by blast
qed

lemma promote_listable:
  assumes "events_ok W st" "\<And>x. x \<in> W \<Longrightarrow> public_text (snd x)" "finite W"
  shows "list_all (\<lambda>r. listable en W (br_ip r)) (promote (en_config en) (ConsensusCandidates since st) allow now)"
proof -
  obtain ws where ws: "set ws = W" using finite_list [OF assms(3)] by blast
  have p: "list_all (\<lambda>x. public_text (snd x)) ws" using assms(2) ws by (auto simp: list_all_iff)
  have "listable en W (AddrString a)" if "eligible (en_config en) (ConsensusCandidates since st) allow a" for a
  proof -
    note c = candidates_systems [OF assms(1) p ws, of since a]
    have "card (systems_of (ConsensusCandidates since st) a) \<le> card (witnesses W (AddrString a))"
      by (rule card_mono [OF finite_witnesses [OF assms(3)] c(1)])
    then show ?thesis using that c(2) by (auto simp: listable_def eligible_def)
  qed
  then have "br_ip ` set (promote (en_config en) (ConsensusCandidates since st) allow now) \<subseteq> Collect (listable en W)"
    unfolding promote_ips by auto
  then show ?thesis by (auto simp: list_all_iff)
qed

lemma upsert_ips: "br_ip ` set (fold (upsert br_ip refresh_blocklist) rows tbl) = br_ip ` set tbl \<union> br_ip ` set rows"
proof (induction rows arbitrary: tbl)
  case Nil
  then show ?case by simp
next
  case (Cons r rows)
  have "br_ip ` set (upsert br_ip refresh_blocklist r tbl) = insert (br_ip r) (br_ip ` set tbl)"
    by (rule keys_upsert) (simp add: refresh_blocklist_def)
  then show ?case using Cons.IH by auto
qed


definition shrinks :: "threat_store \<Rightarrow> threat_store \<Rightarrow> bool" where
  "shrinks st st' \<longleftrightarrow> set (ts_events st') \<subseteq> set (ts_events st) \<and> set (ts_blocklist st') \<subseteq> set (ts_blocklist st)"

lemma shrinks_refl [simp]: "shrinks st st"
  by (simp add: shrinks_def)

lemma shrinks_trans: "shrinks a b \<Longrightarrow> shrinks b c \<Longrightarrow> shrinks a c"
  by (auto simp: shrinks_def)

lemma reader_shrinks:
  "rd_expire (store_reader fails) st now = Inr st' \<Longrightarrow> shrinks st st'"
  "rd_delete (store_reader fails) st ips = Inr st' \<Longrightarrow> shrinks st st'"
  "rd_prune_events (store_reader fails) st t = Inr st' \<Longrightarrow> shrinks st st'"
  "rd_prune_ingest (store_reader fails) st t = Inr st' \<Longrightarrow> shrinks st st'"
  "rd_prune_requests (store_reader fails) st t = Inr st' \<Longrightarrow> shrinks st st'"
proof -
  show "rd_delete (store_reader fails) st ips = Inr st' \<Longrightarrow> shrinks st st'"
    using delete_fold [of ips 0 "ts_blocklist st"]
    by (auto simp: store_reader_def DeleteBlocklistEntries_def shrinks_def split: prod.splits if_splits)
qed (auto simp: store_reader_def ExpireBlocklist_def delete_where_def shrinks_def PruneThreatEvents_def
      PruneThreatIngestDaily_def)

lemma unlist_shrinks: "unlist (store_reader fails) st allow now = Inr st' \<Longrightarrow> shrinks st st'"
  by (auto simp: unlist_def rbind_Inr_iff Let_def split: if_splits dest: reader_shrinks(2))

lemma best_effort_shrinks:
  "shrinks st (best_effort st (rd_prune_events (store_reader fails) st t))"
  "shrinks st (best_effort st (rd_prune_ingest (store_reader fails) st t))"
  "shrinks st (best_effort st (rd_prune_requests (store_reader fails) st t))"
  by (auto simp: best_effort_def split: sum.split dest: reader_shrinks)

lemma run_tail_shrinks:
  assumes "run_tail sha gzip (store_reader fails) cfg now st snap = (e, st', snap')"
  shows "shrinks st st' \<and> (snap' = snap \<or> (\<exists>rows capped. set rows \<subseteq> set (ts_blocklist st')
           \<and> Generate sha gzip rows (config_rule cfg) capped now snap = Inr snap'))"
proof -
  define s4 where "s4 = best_effort st (rd_prune_events (store_reader fails) st (now - ms_of_ns (cf_retention cfg)))"
  define s5 where "s5 = best_effort s4 (rd_prune_ingest (store_reader fails) s4 (now - ms_of_ns (cf_ingest_retention cfg)))"
  define s6 where "s6 = best_effort s5 (rd_prune_requests (store_reader fails) s5 (now - ms_of_ns (cf_request_retention cfg)))"
  have "shrinks st s4" "shrinks s4 s5" "shrinks s5 s6" by (simp_all add: s4_def s5_def s6_def best_effort_shrinks)
  then have s: "shrinks st s6" by (meson shrinks_trans)
  show ?thesis
  proof (cases "rd_list (store_reader fails) s6 now (cf_max_entries cfg + 1)")
    case (Inl x)
    then show ?thesis using assms s by (simp add: run_tail_def Let_def s4_def [symmetric] s5_def [symmetric] s6_def [symmetric])
  next
    case (Inr rows0)
    define rows where "rows = (if int (length rows0) > cf_max_entries cfg then take (nat (cf_max_entries cfg)) rows0 else rows0)"
    have "set rows \<subseteq> set rows0" by (auto simp: rows_def dest: in_set_takeD)
    also have "set rows0 \<subseteq> set (ts_blocklist s6)"
      using Inr by (auto simp: store_reader_def ListBlocklist_def sql_limit_def split: if_splits dest: in_set_takeD)
    finally have r: "set rows \<subseteq> set (ts_blocklist s6)" .
    show ?thesis
      using assms s r Inr
      by (cases "Generate sha gzip rows (config_rule cfg) (int (length rows0) > cf_max_entries cfg) now snap")
        (auto simp: run_tail_def Let_def s4_def [symmetric] s5_def [symmetric] s6_def [symmetric] rows_def)
  qed
qed

lemma Run_effect:
  assumes "Run sha gzip (store_reader fails) cfg now st snap = (e, st', snap')"
  shows "set (ts_events st') \<subseteq> set (ts_events st)
    \<and> (\<exists>allow. br_ip ` set (ts_blocklist st')
         \<subseteq> br_ip ` set (ts_blocklist st) \<union> br_ip ` set (promote cfg (ConsensusCandidates (now - ms_of_ns (cf_window cfg)) st) allow now))
    \<and> (snap' = snap \<or> (\<exists>rows capped. set rows \<subseteq> set (ts_blocklist st')
           \<and> Generate sha gzip rows (config_rule cfg) capped now snap = Inr snap'))"
proof (cases "st' = st \<and> snap' = snap")
  case True
  then show ?thesis by blast
next
  case False
  let ?rd = "store_reader fails"
  obtain rows where r: "rd_candidates ?rd st (now - ms_of_ns (cf_window cfg)) = Inr rows"
    using assms False by (auto simp: Run_def split: sum.splits)
  obtain allow where a: "runner_allowlist ?rd st now = Inr allow"
    using assms False r by (auto simp: Run_def split: sum.splits)
  let ?new = "promote cfg rows allow now"
  obtain s1 where s1: "rd_upsert ?rd st ?new = Inr s1"
    using assms False r a by (auto simp: Run_def split: sum.splits)
  have rows: "rows = ConsensusCandidates (now - ms_of_ns (cf_window cfg)) st" using r by (simp add: store_reader_def)
  have e1: "ts_events s1 = ts_events st" using s1 by (auto simp: store_reader_def UpsertBlocklistEntries_def split: if_splits)
  have "ts_blocklist s1 = fold (upsert br_ip refresh_blocklist) ?new (ts_blocklist st)" by (rule fs.upsert_law [OF s1])
  then have b1: "br_ip ` set (ts_blocklist s1) = br_ip ` set (ts_blocklist st) \<union> br_ip ` set ?new" by (simp add: upsert_ips)
  have "shrinks s1 st' \<and> (snap' = snap \<or> (\<exists>rows capped. set rows \<subseteq> set (ts_blocklist st')
           \<and> Generate sha gzip rows (config_rule cfg) capped now snap = Inr snap'))"
  proof (cases "rd_expire ?rd s1 now")
    case (Inl x)
    then show ?thesis using assms r a s1 by (simp add: Run_def)
  next
    case (Inr s2)
    note x2 = reader_shrinks(1) [OF Inr]
    show ?thesis
    proof (cases "unlist ?rd s2 allow now")
      case (Inl x)
      then show ?thesis using assms r a s1 Inr x2 by (simp add: Run_def)
    next
      fix s3
      assume s3: "unlist ?rd s2 allow now = Inr s3"
      then have "run_tail sha gzip ?rd cfg now s3 snap = (e, st', snap')" using assms r a s1 Inr by (simp add: Run_def)
      from run_tail_shrinks [OF this] x2 unlist_shrinks [OF s3] show ?thesis by (meson shrinks_trans)
    qed
  qed
  then have s: "set (ts_events st') \<subseteq> set (ts_events s1)" "set (ts_blocklist st') \<subseteq> set (ts_blocklist s1)"
    and g: "snap' = snap \<or> (\<exists>rows capped. set rows \<subseteq> set (ts_blocklist st')
           \<and> Generate sha gzip rows (config_rule cfg) capped now snap = Inr snap')"
    by (simp_all add: shrinks_def)
  have "set (ts_events st') \<subseteq> set (ts_events st)" using s(1) e1 by simp
  moreover have "br_ip ` set (ts_blocklist st')
         \<subseteq> br_ip ` set (ts_blocklist st) \<union> br_ip ` set (promote cfg (ConsensusCandidates (now - ms_of_ns (cf_window cfg)) st) allow now)"
    using image_mono [OF s(2), of br_ip] b1 unfolding rows by simp
  ultimately show ?thesis using g by blast
qed

lemma feed_addrs_listable:
  assumes "list_all (\<lambda>r. listable en W (br_ip r)) rows"
  shows "list_all (\<lambda>a. listable en W (AddrString a)) (feed_addrs rows)"
proof -
  have "list_all (\<lambda>a. listable en W (AddrString a)) (parsed_addrs ips)" if "list_all (listable en W) ips" for ips
    using that
  proof (induction ips)
    case Nil
    then show ?case by simp
  next
    case (Cons ip ips)
    then obtain b where "ip = AddrString b" "Unmap b = b" by (auto simp: listable_def public_text_def)
    then show ?case using Cons by (simp add: ParseAddr_AddrString)
  qed
  from this [of "map br_ip rows"] assms show ?thesis by (simp add: feed_addrs_def list_all_iff)
qed

lemma Run_keeps:
  assumes inv: "events_ok W st" "list_ok en W st" "snap_ok en W snap"
    and W: "finite W" "\<And>x. x \<in> W \<Longrightarrow> public_text (snd x)"
    and run: "Run (en_sha en) (en_gzip en) (store_reader fails) (en_config en) now st snap = (e, st', snap')"
  shows "events_ok W st' \<and> list_ok en W st' \<and> snap_ok en W snap'"
proof -
  obtain allow where R: "set (ts_events st') \<subseteq> set (ts_events st)"
    "br_ip ` set (ts_blocklist st') \<subseteq> br_ip ` set (ts_blocklist st)
       \<union> br_ip ` set (promote (en_config en) (ConsensusCandidates (now - ms_of_ns (cf_window (en_config en))) st) allow now)"
    "snap' = snap \<or> (\<exists>rows capped. set rows \<subseteq> set (ts_blocklist st')
       \<and> Generate (en_sha en) (en_gzip en) rows (config_rule (en_config en)) capped now snap = Inr snap')"
    using Run_effect [OF run] by blast
  have e: "events_ok W st'" using R(1) inv(1) by (auto simp: events_ok_def list_all_iff)
  have "br_ip ` set (ts_blocklist st') \<subseteq> Collect (listable en W)"
    using R(2) inv(2) promote_listable [OF inv(1) W(2,1)] by (fastforce simp: list_ok_def list_all_iff)
  then have l: "list_ok en W st'" by (auto simp: list_ok_def list_all_iff)
  have "snap_ok en W snap'"
  proof (cases "snap' = snap")
    case True
    then show ?thesis using inv(3) by simp
  next
    case False
    then obtain rows capped where g: "set rows \<subseteq> set (ts_blocklist st')"
      "Generate (en_sha en) (en_gzip en) rows (config_rule (en_config en)) capped now snap = Inr snap'" using R(3) by blast
    have "list_all (\<lambda>a. listable en W (AddrString a)) (feed_addrs rows)"
      using l g(1) by (intro feed_addrs_listable) (auto simp: list_ok_def list_all_iff)
    moreover from g(2) have "sn_body snap' = feed_body (feed_addrs rows) (config_rule (en_config en)) now"
      "en_gzip en (sn_body snap') = Some (sn_gz snap')" unfolding Generate_Inr by auto
    ultimately show ?thesis unfolding snap_ok_def by blast
  qed
  then show ?thesis using e l by blast
qed

subsection \<open>Every event keeps it\<close>

lemma worker_update_ok:
  assumes "list_all P ws" "P w" shows "list_all P (ws[i := w])"
  using assms set_update_subset_insert [of ws i w] by (auto simp: list_all_iff)

lemma td_step_inv:
  assumes "td_step en e s = Some s'" "td_inv en W s" "finite W" "\<And>x. x \<in> W \<Longrightarrow> public_text (snd x)"
    and "\<And>r now. e = TdReport r now \<Longrightarrow> report_evidence en r now \<subseteq> W"
  shows "td_inv en W s'"
proof (cases e)
  case (TdReport r now)
  then show ?thesis using assms handleEvents_pool_ok by (auto simp: td_inv_def)
next
  case (TdTake i)
  then obtain p where p: "pool_take i (td_queue s) = Some p" "s' = s\<lparr>td_queue := p\<rparr>" using assms(1) by auto
  then have "pool_ok W p" using assms(2)
    by (auto simp: td_inv_def pool_ok_def pool_take_Some intro!: worker_update_ok)
  then show ?thesis using assms(2) p by (simp add: td_inv_def)
next
  case (TdWrite i f g)
  then obtain w out st p where x: "i < length (p_workers (td_queue s))" "p_workers (td_queue s) ! i = Handling w"
    "NewConsumer f g w (td_store s) = (out, st)" "pool_finish i out (td_queue s) = Some p"
    "s' = s\<lparr>td_queue := p, td_store := st\<rparr>"
    using assms(1) by (auto simp: td_write_def ingestq_process_def split: if_splits worker.splits prod.splits)
  then have "Handling w \<in> set (p_workers (td_queue s))" by (metis nth_mem)
  then have "work_ok W w" using assms(2) by (auto simp: td_inv_def pool_ok_def list_all_iff split: worker.splits)
  with NewConsumer_ok [OF x(3)] assms(2) have st: "events_ok W st" "list_ok en W st"
    by (simp_all add: td_inv_def list_ok_def)
  have "pool_ok W p" using assms(2) x(4)
    by (auto simp: td_inv_def pool_ok_def pool_finish_Some intro!: worker_update_ok)
  then show ?thesis using assms(2) x(5) st by (simp add: td_inv_def)
next
  case (TdExit i)
  then obtain p where p: "pool_exit i (td_queue s) = Some p" "s' = s\<lparr>td_queue := p\<rparr>" using assms(1) by auto
  then have "pool_ok W p" using assms(2)
    by (auto simp: td_inv_def pool_ok_def pool_exit_def split: if_splits intro!: worker_update_ok)
  then show ?thesis using assms(2) p by (simp add: td_inv_def)
next
  case TdStop
  then show ?thesis using assms(1,2) by (auto simp: td_inv_def pool_ok_def pool_close_def split: if_splits)
next
  case (TdAsk r now fails)
  then show ?thesis using assms(1,2) by (auto simp: td_inv_def events_ok_def list_ok_def ask_frame)
next
  case (TdOperator op)
  then show ?thesis using assms(1,2) by (auto simp: td_inv_def events_ok_def list_ok_def review_step_frame)
next
  case (TdPass now fails)
  obtain er st snap where r: "Run (en_sha en) (en_gzip en) (store_reader fails) (en_config en) now (td_store s) (td_snap s) = (er, st, snap)"
    by (metis prod_cases3)
  from Run_keeps [OF _ _ _ assms(3,4) r] assms(2) have "events_ok W st \<and> list_ok en W st \<and> snap_ok en W snap"
    by (simp add: td_inv_def)
  then show ?thesis using assms(1,2) TdPass r by (auto simp: td_inv_def)
qed

lemma td_start_inv: "td_inv en W (threatd_start limits)"
  by (simp add: list_all_iff td_inv_def threatd_start_def ingestq_New_def pool_ok_def start_pool_def new_pool_def events_ok_def
      list_ok_def snap_ok_def empty_store_def NewSnapshot_def)

lemma evidence_report: "TdReport r now \<in> set es \<Longrightarrow> report_evidence en r now \<subseteq> evidence en es"
  by (induction en es rule: evidence.induct) auto

lemma runs_prefix_invariant:
  assumes "runs (td_step en) es s = Some s'" "td_inv en W s" "finite W" "\<And>x. x \<in> W \<Longrightarrow> public_text (snd x)"
    "\<And>r now. TdReport r now \<in> set es \<Longrightarrow> report_evidence en r now \<subseteq> W"
  shows "td_inv en W s'"
  using assms(1,2,5)
proof (induction es arbitrary: s)
  case Nil
  then show ?case by simp
next
  case (Cons e es)
  then obtain t where t: "td_step en e s = Some t" "runs (td_step en) es t = Some s'" by (auto split: option.splits)
  have "td_inv en W t" using td_step_inv [OF t(1) Cons.prems(2) assms(3,4)] Cons.prems(3) by auto
  then show ?case using Cons.IH [OF t(2)] Cons.prems(3) by auto
qed

lemma runs_td_inv:
  assumes "runs (td_step en) es (threatd_start limits) = Some s"
  shows "td_inv en (evidence en es) s"
  by (rule runs_prefix_invariant [OF assms td_start_inv finite_evidence evidence_public])
    (auto dest: evidence_report)


subsection \<open>Properties\<close>

text \<open>
  C1: no address is blocked without agreement. Under any configuration \<open>threatd\<close> starts with,
  and whatever clients, workers, operators and passes do, in any order and with any store call
  failing, each row of the blocklist and each address of a feed ever served is a public unicast
  address for which at least three distinct systems, each authenticated by the proxy, sent a
  report whose sanitized events name it.
\<close>

theorem feed_needs_consensus:
  assumes "validateConfig (en_config en) interval limits = []"
    and "runs (td_step en) es (threatd_start limits) = Some s"
  shows "list_all (\<lambda>r. public_text (br_ip r) \<and> 3 \<le> card (witnesses (evidence en es) (br_ip r))) (ts_blocklist (td_store s))
    \<and> (case handleFeed (en_trusted en) rq (td_snap s) of
         Feed etag gz body \<Rightarrow> (\<exists>as t. let plain = feed_body as (config_rule (en_config en)) t in
             list_all (\<lambda>a. public_text (AddrString a) \<and> 3 \<le> card (witnesses (evidence en es) (AddrString a))) as
             \<and> body = (if hr_method rq = ''HEAD'' then [] else if gz then the (en_gzip en plain) else plain))
       | _ \<Rightarrow> True)"
proof -
  have m: "3 \<le> cf_min_systems (en_config en)" using assms(1) by (simp add: validateConfig_ok MinSystemsFloor_def)
  have l: "listable en W ip \<Longrightarrow> public_text ip \<and> 3 \<le> card (witnesses W ip)" for W ip
    using m by (simp add: listable_def)
  note inv = runs_td_inv [OF assms(2)]
  have "list_all (\<lambda>r. public_text (br_ip r) \<and> 3 \<le> card (witnesses (evidence en es) (br_ip r))) (ts_blocklist (td_store s))"
    using inv l by (auto simp: td_inv_def list_ok_def list_all_iff)
  moreover have "\<exists>as t. let plain = feed_body as (config_rule (en_config en)) t in
             list_all (\<lambda>a. public_text (AddrString a) \<and> 3 \<le> card (witnesses (evidence en es) (AddrString a))) as
             \<and> body = (if hr_method rq = ''HEAD'' then [] else if gz then the (en_gzip en plain) else plain)"
    if f: "handleFeed (en_trusted en) rq (td_snap s) = Feed etag gz body" for etag gz body
  proof -
    have ready: "sn_ready (td_snap s)" and b: "body = (if hr_method rq = ''HEAD'' then [] else if gz then sn_gz (td_snap s) else sn_body (td_snap s))"
      using f by (auto simp: handleFeed_def Let_def split: if_splits sum.splits)
    obtain as t where a: "sn_body (td_snap s) = feed_body as (config_rule (en_config en)) t"
      "en_gzip en (sn_body (td_snap s)) = Some (sn_gz (td_snap s))" "list_all (\<lambda>a. listable en (evidence en es) (AddrString a)) as"
      using inv ready unfolding td_inv_def snap_ok_def by blast
    have "list_all (\<lambda>a. public_text (AddrString a) \<and> 3 \<le> card (witnesses (evidence en es) (AddrString a))) as"
      using a(3) l by (auto simp: list_all_iff)
    then show ?thesis using a(1,2) b by (intro exI [of _ as] exI [of _ t]) (simp add: Let_def)
  qed
  ultimately show ?thesis by (cases "handleFeed (en_trusted en) rq (td_snap s)") simp_all
qed

definition sample_env :: threatd_env where
  "sample_env = \<lparr>en_dur = (\<lambda>_. None),
     en_decode = (\<lambda>_ _. Decoded (sample_report [sample_decision ''203.0.113.7'' ''2026-08-28T11:00:00Z''])),
     en_decode_request = (\<lambda>_. None), en_trusted = [px4 [127, 0, 0, 0] 8],
     en_api = \<lparr>ac_max_decisions = 500, ac_max_requests = 25, ac_max_event_age = 86400000000000\<rparr>,
     en_config = sample_config, en_sha = id, en_gzip = Some\<rparr>"
definition sample_request :: "string \<Rightarrow> http_request" where
  "sample_request auth = \<lparr>hr_method = ''POST'', hr_remote = ''127.0.0.1:5000'', hr_authorization = ''Basic '' @ auth,
     hr_forwarded_for = ''198.51.100.1'', hr_content_encoding = [], hr_accept_encoding = [], hr_if_none_match = [], hr_body = []\<rparr>"
definition sample_limits :: ingest_limits where
  "sample_limits = \<lparr>il_queue_size = 4, il_queue_workers = 1, il_queue_timeout = 1, il_max_decisions = 500, il_max_allowlist_per_system = 25\<rparr>"
definition sample_history :: "td_event list" where
  "sample_history = [TdReport (sample_request ''YTp4'') 1787918400000, TdReport (sample_request ''Yjp4'') 1787918400000,
     TdReport (sample_request ''Yzp4'') 1787918400000, TdTake 0, TdWrite 0 False False, TdTake 0, TdWrite 0 False False,
     TdTake 0, TdWrite 0 False False, TdPass 1787918400000 (\<lambda>_. False)]"

theorem feed_needs_consensus_witness:
  "\<exists>s. runs (td_step sample_env) sample_history (threatd_start sample_limits) = Some s
     \<and> map br_ip (ts_blocklist (td_store s)) = [''203.0.113.7'']
     \<and> 3 \<le> card (witnesses (evidence sample_env sample_history) ''203.0.113.7'')"
proof -
  have v: "validateConfig (en_config sample_env) 300000000000 sample_limits = []" by code_simp
  have r: "map_option (\<lambda>s. map br_ip (ts_blocklist (td_store s))) (runs (td_step sample_env) sample_history (threatd_start sample_limits))
      = Some [''203.0.113.7'']"
    by code_simp
  then obtain s where s: "runs (td_step sample_env) sample_history (threatd_start sample_limits) = Some s"
    "map br_ip (ts_blocklist (td_store s)) = [''203.0.113.7'']" by auto
  then obtain row where "row \<in> set (ts_blocklist (td_store s))" "br_ip row = ''203.0.113.7''" by auto
  then show ?thesis using feed_needs_consensus [OF v s(1)] s by (auto simp: list_all_iff)
qed

text \<open>
  C29: the client is told the truth about its report. A refused report leaves the queue as it
  was. An acknowledged one came authenticated, in the schema of the program and for no other
  system than the authenticated one, and what is queued for it is exactly what the sanitizer
  makes of the decoded report, its events and the very counters of the answer, under that
  system and the day of the report; only a report of which nothing counted is not queued. The
  handler panics only once the queue has been closed.
\<close>

theorem handleEvents_contract:
  "case handleEvents dur decode trusted cfg r now q of
     (Some (Refused n), q') \<Rightarrow> q' = q \<and> n \<in> {400, 401, 403, 405, 413, 503}
   | (Some (AcceptedReport c), q') \<Rightarrow>
       (\<exists>sys report w. SystemID r trusted = Inr sys
          \<and> decode (hr_content_encoding r = ''gzip'') (hr_body r) = Decoded report
          \<and> tr_schema_version report = ThreatSchemaVersion \<and> tr_system_id report \<in> {[], sys}
          \<and> Sanitize dur report \<lparr>so_source_ip = sourceAddr r trusted, so_max_decisions = ac_max_decisions cfg,
              so_max_age = ac_max_event_age cfg\<rparr> now = (wk_events w, c)
          \<and> wk_system w = sys \<and> wk_counters w = c \<and> wk_day w = DayString now
          \<and> q' = (if c = no_counts then q else q\<lparr>p_buf := p_buf q @ [w], p_accepted := p_accepted q @ [w]\<rparr>))
   | (None, q') \<Rightarrow> p_closed q \<and> q' = q"
proof -
  have i: "case ingest_report dur cfg sys src report now q of
     (Some (Refused n), q') \<Rightarrow> q' = q \<and> n = 503
   | (Some (AcceptedReport c), q') \<Rightarrow>
       (\<exists>w. Sanitize dur report \<lparr>so_source_ip = src, so_max_decisions = ac_max_decisions cfg, so_max_age = ac_max_event_age cfg\<rparr> now
            = (wk_events w, c) \<and> wk_system w = sys \<and> wk_counters w = c \<and> wk_day w = DayString now
          \<and> q' = (if c = no_counts then q else q\<lparr>p_buf := p_buf q @ [w], p_accepted := p_accepted q @ [w]\<rparr>))
   | (None, q') \<Rightarrow> p_closed q \<and> q' = q" for sys src report
  proof -
    obtain events c where S: "Sanitize dur report \<lparr>so_source_ip = src, so_max_decisions = ac_max_decisions cfg, so_max_age = ac_max_event_age cfg\<rparr> now = (events, c)"
      by fastforce
    let ?w = "\<lparr>wk_system = sys, wk_events = events, wk_counters = c, wk_day = DayString now\<rparr>"
    show ?thesis
      by (cases "c = no_counts"; cases rule: try_send_cases [of q ?w])
        (auto simp: ingest_report_def S ingestq_Publish_def intro: exI [of _ ?w])
  qed
  show ?thesis
  proof (cases "hr_method r = ''POST''")
    case True
    show ?thesis
    proof (cases "SystemID r trusted")
      case (Inr sys)
      show ?thesis
      proof (cases "decode (hr_content_encoding r = ''gzip'') (hr_body r)")
        case (Decoded report)
        obtain a q' where R: "ingest_report dur cfg sys (sourceAddr r trusted) report now q = (a, q')" by fastforce
        consider n where "handleEvents dur decode trusted cfg r now q = (Some (Refused n), q)" "n \<in> {400, 403}"
          | "handleEvents dur decode trusted cfg r now q = (a, q')" "tr_schema_version report = ThreatSchemaVersion"
            "tr_system_id report \<in> {[], sys}"
          using True Inr Decoded R
          by (cases "tr_schema_version report \<noteq> ThreatSchemaVersion"; cases "tr_system_id report \<noteq> [] \<and> tr_system_id report \<noteq> sys")
            (simp_all add: handleEvents_def)
        then show ?thesis
        proof cases
          case (1 n)
          then show ?thesis by auto
        next
          case 2
          note j = i [where sys = sys and src = "sourceAddr r trusted" and report = report, unfolded R prod.case]
          show ?thesis
          proof (cases a)
            case None
            then show ?thesis using j unfolding 2(1) by simp
          next
            case (Some x)
            then show ?thesis using j Inr Decoded 2(2,3) unfolding 2(1) by (cases x) auto
          qed
        qed
      qed (use True Inr in \<open>simp_all add: handleEvents_def\<close>)
    qed (use True in \<open>simp add: handleEvents_def\<close>)
  qed (simp add: handleEvents_def)
qed

text \<open>
  Redelivery is harmless: storing a batch a second time adds no row and changes none, and
  every event of it is counted as a duplicate, so a reporter that retries cannot inflate its
  evidence.
\<close>

lemma InsertThreatEvents_redelivery:
  "InsertThreatEvents sys ev (snd (InsertThreatEvents sys ev s)) = ((0, int (length ev)), snd (InsertThreatEvents sys ev s))"
proof -
  have dup: "insert_events rs (i, d, rows) = (i, d + int (length rs), rows)" if "er_key ` set rs \<subseteq> er_key ` set rows" for rs i d rows
    using that by (induction rs arbitrary: d) auto
  have keys: "er_key ` set rows \<union> er_key ` set rs \<subseteq> er_key ` set rows'"
    if "insert_events rs (i, d, rows) = (i', d', rows')" for rs i d i' d' rows rows'
    using that
  proof (induction rs arbitrary: i d rows)
    case Nil
    then show ?case by simp
  next
    case (Cons r rs)
    show ?case
    proof (cases "er_key r \<in> er_key ` set rows")
      case True
      then have "insert_events rs (i, d + 1, rows) = (i', d', rows')" using Cons.prems by simp
      from Cons.IH [OF this] True show ?thesis by auto
    next
      case False
      then have "insert_events rs (i + 1, d, rows @ [r]) = (i', d', rows')" using Cons.prems by simp
      from Cons.IH [OF this] show ?thesis by auto
    qed
  qed
  obtain i d rows where I: "insert_events (map (event_row_of sys) ev) (0, 0, ts_events s) = (i, d, rows)"
    by (metis prod_cases3)
  have "er_key ` set (map (event_row_of sys) ev) \<subseteq> er_key ` set rows" using keys [OF I] by blast
  from dup [OF this, of 0 0] show ?thesis by (simp add: InsertThreatEvents_def I)
qed


text \<open>
  Revalidation works: a client that sends back the entity tag of a feed it downloaded, as it
  is or weakened, gets 304 exactly when that tag is still the current one, and the whole feed
  otherwise. The digest is hexadecimal text.
\<close>

lemma handleFeed_revalidation:
  assumes "\<And>x. list_all (\<lambda>c. is_digit c \<or> is_lower c) (sha x)"
    and "hr_method rq = ''GET''" "SystemID rq trusted = Inr sys" "sn_ready view" "sn_etag view = feed_etag sha as r"
    and "hr_if_none_match rq = feed_etag sha as' r' \<or> hr_if_none_match rq = ''W/'' @ feed_etag sha as' r'"
  shows "handleFeed trusted rq view =
    (if feed_etag sha as' r' = feed_etag sha as r then NotModified (sn_etag view)
     else Feed (sn_etag view) (acceptsGzip rq) (if acceptsGzip rq then sn_gz view else sn_body view))"
proof -
  let ?t = "feed_etag sha as' r'"
  have p: "list_all (\<lambda>c. 32 < byte c \<and> byte c < 127 \<and> c \<noteq> CHR '','') ?t"
    using assms(1) by (fastforce simp: feed_etag_def list_all_iff byte_def is_digit_def is_lower_def)
  have q: "list_all (\<lambda>c. 32 < byte c \<and> byte c < 127 \<and> c \<noteq> CHR '','') (''W/'' @ ?t)"
    using p by (simp add: byte_def)
  have m: "matchesETag h e \<longleftrightarrow> trim_prefix h ''W/'' = e"
    if h: "list_all (\<lambda>c. 32 < byte c \<and> byte c < 127 \<and> c \<noteq> CHR '','') h" "h \<noteq> []" "h \<noteq> ''*''" for h e
  proof -
    have t: "TrimSpace h = h" by (rule TrimSpace_ascii) (use h(1) in \<open>auto simp: list_all_iff\<close>)
    have "CHR '','' \<notin> set h" using h(1) by (auto simp: list_all_iff)
    then have "split_byte (CHR '','') h = [h]" by (rule split_byte_single)
    then show ?thesis using h(2,3) t by (simp add: matchesETag_def Let_def)
  qed
  have n: "trim_prefix ?t ''W/'' = ?t" by (simp add: feed_etag_def trim_prefix_def)
  have "matchesETag (hr_if_none_match rq) (sn_etag view) \<longleftrightarrow> ?t = sn_etag view"
    using assms(6)
  proof
    assume "hr_if_none_match rq = ?t"
    then show ?thesis using m [OF p] n by (simp add: feed_etag_def)
  next
    assume h: "hr_if_none_match rq = ''W/'' @ ?t"
    show ?thesis unfolding h using m [OF q] trim_prefix_append [of "''W/''" ?t] by simp
  qed
  then show ?thesis using assms(2-5) by (simp add: handleFeed_def Let_def)
qed

lemma SystemID_frame: "SystemID (r\<lparr>hr_method := x, hr_if_none_match := y\<rparr>) t = SystemID r t"
  by (simp add: SystemID_def BasicAuth_def)

end
