(* ===== verification/Model_Nodes.thy ===== *)
theory Model_Nodes
  imports Model_Bundle
begin

text \<open>
  Node attribution, \<open>internal/model/nodes.go\<close>: the validation of host names, node-id sets
  and rosters that every bundle passes at ingest. A nil slice and an empty one are both \<open>[]\<close>;
  the code marshals them alike (\<open>omitempty\<close>).
\<close>

definition MaxRosterNodes :: nat where "MaxRosterNodes = 64"
definition MaxNodesPerTemplate :: nat where "MaxNodesPerTemplate = 64"
definition MaxFQDNLen :: nat where "MaxFQDNLen = 253"
definition maxLabelLen :: nat where "maxLabelLen = 63"

subsection \<open>Host names\<close>

definition ascii_space :: "char \<Rightarrow> bool" where
  "ascii_space c \<longleftrightarrow> byte c \<in> {32, 9, 10, 13, 11, 12}"

definition trimASCIISpace :: "string \<Rightarrow> string" where
  "trimASCIISpace s = trim_right ascii_space (trim_left ascii_space s)"

text \<open>
  The validation loop. \<open>n\<close> is \<open>labelLen\<close> and \<open>h\<close> is \<open>hasLetter\<close>; the result is the
  lowered text and the final \<open>hasLetter\<close>, or \<open>None\<close> where the loop returns the empty string.
  After a dot the code sets \<open>labelLen\<close> to -1 and the common increment makes it 0.
\<close>

fun fqdn_scan :: "string \<Rightarrow> nat \<Rightarrow> bool \<Rightarrow> (string \<times> bool) option" where
  "fqdn_scan [] n h = Some ([], h)"
| "fqdn_scan (c # rest) n h =
     (let continue = (\<lambda>d n' h'. if n' > maxLabelLen then None
                        else map_option (\<lambda>(out, g). (d # out, g)) (fqdn_scan rest n' h'))
      in if is_upper c then continue (ascii_lower c) (Suc n) True
         else if is_lower c then continue c (Suc n) True
         else if is_digit c then continue c (Suc n) h
         else if c = CHR ''-'' then
           (if n = 0 \<or> rest = [] \<or> hd rest = CHR ''.'' then None else continue c (Suc n) h)
         else if c = CHR ''.'' then
           (if n = 0 then None else continue c 0 h)
         else None)"

definition SanitizeFQDN :: "string \<Rightarrow> string" where
  "SanitizeFQDN s0 =
     (let s1 = trimASCIISpace s0;
          s = (if length s1 > 1 \<and> last s1 = CHR ''.'' then butlast s1 else s1)
      in if s = [] \<or> length s > MaxFQDNLen then []
         else case fqdn_scan s 0 False of
                None \<Rightarrow> []
              | Some (out, hasLetter) \<Rightarrow> if hasLetter then out else [])"

subsection \<open>Node ids and rosters\<close>

definition SanitizeNodeIDs :: "int list \<Rightarrow> int list" where
  "SanitizeNodeIDs ids = take MaxNodesPerTemplate (sort (nub_by id [] (filter (\<lambda>i. \<not> i < 1) ids)))"

definition SanitizeRoster :: "node_info list \<Rightarrow> node_info list" where
  "SanitizeRoster ns =
     take MaxRosterNodes (sort_key ni_node_id
       (map (\<lambda>n. \<lparr>ni_node_id = ni_node_id n, ni_fqdn = SanitizeFQDN (ni_fqdn n)\<rparr>)
         (nub_by ni_node_id [] (filter (\<lambda>n. \<not> ni_node_id n < 1) ns))))"

definition SanitizeNodes :: "log_bundle \<Rightarrow> log_bundle" where
  "SanitizeNodes b =
     b\<lparr>b_nodes := SanitizeRoster (b_nodes b),
       b_templates := map (\<lambda>t. t\<lparr>t_nodes := SanitizeNodeIDs (t_nodes t)\<rparr>) (b_templates b)\<rparr>"

definition MergeNodeIDs :: "int list \<Rightarrow> int list \<Rightarrow> int list" where
  "MergeNodeIDs a b =
     (if a = [] then SanitizeNodeIDs b
      else if b = [] then SanitizeNodeIDs a
      else SanitizeNodeIDs (a @ b))"

definition ResolveNodeRefs :: "int list \<Rightarrow> (int \<Rightarrow> string option) \<Rightarrow> node_info list" where
  "ResolveNodeRefs ids roster =
     map (\<lambda>i. \<lparr>ni_node_id = i, ni_fqdn = (case roster i of None \<Rightarrow> [] | Some f \<Rightarrow> f)\<rparr>) (SanitizeNodeIDs ids)"

subsection \<open>Lemmas\<close>

definition fqdn_char :: "char \<Rightarrow> bool" where
  "fqdn_char c \<longleftrightarrow> is_lower c \<or> is_digit c \<or> c = CHR ''-'' \<or> c = CHR ''.''"

lemma ascii_lower_is_lower: "is_upper c \<Longrightarrow> is_lower (ascii_lower c)"
proof -
  assume u: "is_upper c"
  then have "byte (char_of (byte c + 32)) = byte c + 32"
    by (simp add: is_upper_def byte_def take_bit_eq_mod)
  with u show ?thesis by (simp add: ascii_lower_def is_upper_def is_lower_def)
qed

lemma byte_sep: "byte (CHR ''-'') = 45" "byte (CHR ''.'') = 46"
  by (simp_all add: byte_def)

lemma not_lower_sep: "is_lower c \<Longrightarrow> c \<noteq> CHR ''-'' \<and> c \<noteq> CHR ''.''"
  using byte_sep by (auto simp: is_lower_def)

lemma not_digit_sep: "is_digit c \<Longrightarrow> c \<noteq> CHR ''-'' \<and> c \<noteq> CHR ''.''"
  using byte_sep by (auto simp: is_digit_def)

lemma fqdn_scan_charset:
  "fqdn_scan s n h = Some (out, g) \<Longrightarrow>
     (\<forall>c \<in> set out. fqdn_char c) \<and> length out = length s \<and> (g \<longrightarrow> h \<or> (\<exists>c \<in> set out. is_lower c))"
proof (induction s arbitrary: n h out g)
  case Nil
  then show ?case by simp
next
  case (Cons c s)
  obtain d n' h' out' where step: "fqdn_scan s n' h' = Some (out', g)" "out = d # out'" "fqdn_char d"
    "h' \<longrightarrow> h \<or> is_lower d"
    using Cons.prems
    by (auto simp: Let_def fqdn_char_def ascii_lower_is_lower split: if_splits)
  show ?case using Cons.IH [OF step(1)] step(2-4) by auto
qed

text \<open>A label: at most 63 bytes, not empty, no hyphen at either end.\<close>

definition fqdn_label :: "string \<Rightarrow> bool" where
  "fqdn_label w \<longleftrightarrow> w \<noteq> [] \<and> length w \<le> maxLabelLen \<and> hd w \<noteq> CHR ''-'' \<and> last w \<noteq> CHR ''-''"

lemma split_byte_nonempty: "split_byte sep s \<noteq> []"
  by (induction s) (auto split: list.split)

lemma fqdn_scan_ConsE:
  assumes "fqdn_scan (c # s) n h = Some (out, g)"
  obtains (letter) d h' out' where "fqdn_scan s (Suc n) h' = Some (out', g)" "out = d # out'"
      "is_lower d \<or> is_digit d" "Suc n \<le> maxLabelLen" "c \<noteq> CHR ''.''"
    | (hyphen) out' where "fqdn_scan s (Suc n) h = Some (out', g)" "out = CHR ''-'' # out'"
      "n \<noteq> 0" "s \<noteq> []" "hd s \<noteq> CHR ''.''" "Suc n \<le> maxLabelLen"
    | (dot) out' where "fqdn_scan s 0 h = Some (out', g)" "out = CHR ''.'' # out'" "n \<noteq> 0" "c = CHR ''.''"
proof -
  have nu: "\<not> is_upper (CHR ''.'')" "\<not> is_upper (CHR ''-'')"
    by (simp_all add: is_upper_def byte_sep)
  consider "is_upper c" | "\<not> is_upper c" "is_lower c" | "\<not> is_upper c" "\<not> is_lower c" "is_digit c"
    | "\<not> is_upper c" "\<not> is_lower c" "\<not> is_digit c" "c = CHR ''-''"
    | "\<not> is_upper c" "\<not> is_lower c" "\<not> is_digit c" "c = CHR ''.''"
    | "\<not> is_upper c" "\<not> is_lower c" "\<not> is_digit c" "c \<noteq> CHR ''-''" "c \<noteq> CHR ''.''"
    by blast
  then show thesis
  proof cases
    case 1
    then have "c \<noteq> CHR ''.''" using nu by auto
    then show thesis using 1 assms ascii_lower_is_lower [OF 1] letter
      by (auto simp: Let_def split: if_splits)
  next
    case 2
    then show thesis using assms not_lower_sep [of c] letter by (auto simp: Let_def split: if_splits)
  next
    case 3
    then show thesis using assms not_digit_sep [of c] letter by (auto simp: Let_def split: if_splits)
  next
    case 4
    then show thesis using assms hyphen by (auto simp: Let_def split: if_splits)
  next
    case 5
    then show thesis using assms dot by (auto simp: Let_def split: if_splits)
  next
    case 6
    then show thesis using assms by simp
  qed
qed

text \<open>
  The labels of the scanned text: the first one continues a label of \<open>n\<close> bytes, the others
  are whole, and only the last may be empty.
\<close>

lemma fqdn_scan_labels:
  "fqdn_scan s n h = Some (out, g) \<Longrightarrow> n \<le> maxLabelLen \<Longrightarrow>
     (\<exists>w ws. split_byte (CHR ''.'') out = w # ws \<and> n + length w \<le> maxLabelLen
        \<and> (w \<noteq> [] \<longrightarrow> last w \<noteq> CHR ''-'' \<and> (n = 0 \<longrightarrow> hd w \<noteq> CHR ''-''))
        \<and> (ws \<noteq> [] \<and> n = 0 \<longrightarrow> w \<noteq> [])
        \<and> list_all fqdn_label (butlast ws) \<and> (ws \<noteq> [] \<longrightarrow> last ws = [] \<or> fqdn_label (last ws)))
     \<and> (s \<noteq> [] \<and> hd s \<noteq> CHR ''.'' \<longrightarrow> out \<noteq> [] \<and> hd out \<noteq> CHR ''.'')"
proof (induction s arbitrary: n h out g)
  case Nil
  then show ?case by simp
next
  case (Cons c s)
  from Cons.prems(1) show ?case
  proof (cases rule: fqdn_scan_ConsE)
    case (letter d h' out')
    have d: "d \<noteq> CHR ''-''" "d \<noteq> CHR ''.''"
      using letter(3) not_lower_sep [of d] not_digit_sep [of d] by blast+
    from Cons.IH [OF letter(1,4)] obtain w ws where
      IH: "split_byte (CHR ''.'') out' = w # ws" "Suc n + length w \<le> maxLabelLen"
      "w \<noteq> [] \<longrightarrow> last w \<noteq> CHR ''-''" "list_all fqdn_label (butlast ws)"
      "ws \<noteq> [] \<longrightarrow> last ws = [] \<or> fqdn_label (last ws)" by auto
    with d letter(2) show ?thesis by simp
  next
    case (hyphen out')
    from Cons.IH [OF hyphen(1,6)] hyphen(4,5) obtain w ws where
      IH: "split_byte (CHR ''.'') out' = w # ws" "Suc n + length w \<le> maxLabelLen"
      "w \<noteq> [] \<longrightarrow> last w \<noteq> CHR ''-''" "list_all fqdn_label (butlast ws)"
      "ws \<noteq> [] \<longrightarrow> last ws = [] \<or> fqdn_label (last ws)" "out' \<noteq> []" "hd out' \<noteq> CHR ''.''"
      by auto
    have "w \<noteq> []" using IH(1,6,7) by (cases out') (auto split: list.splits)
    with IH hyphen show ?thesis by auto
  next
    case (dot out')
    from Cons.IH [OF dot(1)] obtain w ws where
      IH: "split_byte (CHR ''.'') out' = w # ws" "length w \<le> maxLabelLen"
      "w \<noteq> [] \<longrightarrow> last w \<noteq> CHR ''-'' \<and> hd w \<noteq> CHR ''-''" "ws \<noteq> [] \<longrightarrow> w \<noteq> []"
      "list_all fqdn_label (butlast ws)" "ws \<noteq> [] \<longrightarrow> last ws = [] \<or> fqdn_label (last ws)"
      by auto
    have "list_all fqdn_label (butlast (w # ws))"
      using IH by (auto simp: fqdn_label_def)
    moreover have "last (w # ws) = [] \<or> fqdn_label (last (w # ws))"
      using IH by (auto simp: fqdn_label_def)
    ultimately show ?thesis using dot Cons.prems(2) IH(1) by auto
  qed
qed

lemma SanitizeNodeIDs_props:
  "sorted (SanitizeNodeIDs ids) \<and> distinct (SanitizeNodeIDs ids)
   \<and> length (SanitizeNodeIDs ids) \<le> MaxNodesPerTemplate
   \<and> set (SanitizeNodeIDs ids) \<subseteq> {i \<in> set ids. 1 \<le> i}"
proof -
  have "distinct (nub_by id [] xs)" for xs :: "int list" using distinct_nub_by [of id "[]" xs] by simp
  then show ?thesis
    using set_nub_by [of id "[]" "filter (\<lambda>i. \<not> i < 1) ids"]
    by (auto simp: SanitizeNodeIDs_def sorted_take dest!: in_set_takeD)
qed

lemma nub_by_all_new: "distinct (map f xs) \<Longrightarrow> set (map f xs) \<inter> set seen = {} \<Longrightarrow> nub_by f seen xs = xs"
  by (induction xs arbitrary: seen) auto

lemma SanitizeNodeIDs_fixed:
  assumes "sorted ids" "distinct ids" "\<forall>i \<in> set ids. 1 \<le> i" "length ids \<le> MaxNodesPerTemplate"
  shows "SanitizeNodeIDs ids = ids"
proof -
  have "filter (\<lambda>i. \<not> i < 1) ids = ids" using assms(3) by (auto simp: filter_id_conv)
  moreover have "nub_by id [] ids = ids" using assms(2) by (intro nub_by_all_new) simp_all
  ultimately show ?thesis
    using assms(1,4) by (simp add: SanitizeNodeIDs_def sort_key_id_if_sorted)
qed

lemma SanitizeNodeIDs_small:
  assumes "card {i \<in> set ids. 1 \<le> i} \<le> MaxNodesPerTemplate"
  shows "set (SanitizeNodeIDs ids) = {i \<in> set ids. 1 \<le> i}"
proof -
  let ?n = "nub_by id [] (filter (\<lambda>i. \<not> i < 1) ids)"
  have "id ` set ?n = id ` set (filter (\<lambda>i. \<not> i < 1) ids) - set []" by (rule set_nub_by)
  then have s: "set ?n = {i \<in> set ids. 1 \<le> i}" by (simp add: not_less)
  moreover have "distinct (map id ?n)" by (rule distinct_nub_by)
  then have "distinct ?n" by simp
  ultimately have "length ?n \<le> MaxNodesPerTemplate" using assms by (metis distinct_card)
  then show ?thesis using s by (simp add: SanitizeNodeIDs_def)
qed

subsection \<open>Properties\<close>

text \<open>
  A host name that passes \<open>SanitizeFQDN\<close> holds only lower-case letters, digits, hyphens
  and dots, at most 253 bytes and at least one letter; its dot-separated labels are non-empty,
  at most 63 bytes and without a hyphen at either end, the last one possibly being empty.
\<close>

lemma SanitizeFQDN_shape:
  assumes "SanitizeFQDN s \<noteq> []"
  shows "(\<forall>c \<in> set (SanitizeFQDN s). fqdn_char c)
    \<and> length (SanitizeFQDN s) \<le> MaxFQDNLen
    \<and> (\<exists>c \<in> set (SanitizeFQDN s). is_lower c)
    \<and> list_all fqdn_label (butlast (split_byte (CHR ''.'') (SanitizeFQDN s)))
    \<and> (last (split_byte (CHR ''.'') (SanitizeFQDN s)) = []
        \<or> fqdn_label (last (split_byte (CHR ''.'') (SanitizeFQDN s))))"
proof -
  obtain t out where t: "fqdn_scan t 0 False = Some (out, True)" "length t \<le> MaxFQDNLen"
    and out: "SanitizeFQDN s = out"
    using assms unfolding SanitizeFQDN_def Let_def
    by (auto split: if_splits option.splits prod.splits)
  obtain w ws where w: "split_byte (CHR ''.'') out = w # ws" "length w \<le> maxLabelLen"
    "w \<noteq> [] \<longrightarrow> last w \<noteq> CHR ''-'' \<and> hd w \<noteq> CHR ''-''" "ws \<noteq> [] \<longrightarrow> w \<noteq> []"
    "list_all fqdn_label (butlast ws)" "ws \<noteq> [] \<longrightarrow> last ws = [] \<or> fqdn_label (last ws)"
    using fqdn_scan_labels [OF t(1) le0] by simp metis
  then have "list_all fqdn_label (butlast (w # ws))" "last (w # ws) = [] \<or> fqdn_label (last (w # ws))"
    by (auto simp: fqdn_label_def)
  then show ?thesis using fqdn_scan_charset [OF t(1)] t(2) out w(1) by auto
qed

text \<open>
  The trailing-dot normalisation is not complete: of two trailing dots only one is removed
  and the other passes the empty-label check, so one machine keeps two accepted spellings and
  \<open>SanitizeFQDN\<close> is not idempotent.
\<close>

lemma SanitizeFQDN_double_dot:
  "SanitizeFQDN ''a.example.org..'' = ''a.example.org.''
   \<and> SanitizeFQDN (SanitizeFQDN ''a.example.org..'') = ''a.example.org''"
  by code_simp

lemma nub_by_first: "x \<in> set (nub_by f seen xs) \<Longrightarrow> find (\<lambda>y. f y = f x) xs = Some x"
proof (induction xs arbitrary: seen)
  case (Cons y ys)
  show ?case
  proof (cases "f y \<in> set seen")
    case True
    then have "x \<in> set (nub_by f seen ys)" using Cons.prems by simp
    moreover from this have "f x \<in> f ` set (nub_by f seen ys)" by blast
    then have "f x \<notin> set seen" by (simp add: set_nub_by)
    ultimately show ?thesis using Cons.IH True by auto
  next
    case False
    show ?thesis
    proof (cases "x = y")
      case False': False
      then have x: "x \<in> set (nub_by f (f y # seen) ys)" using Cons.prems False by simp
      then have "f x \<in> f ` set (nub_by f (f y # seen) ys)" by blast
      then have "f y \<noteq> f x" by (auto simp: set_nub_by)
      then show ?thesis using Cons.IH [OF x] by simp
    qed simp
  qed
qed simp

lemma find_filter: "(\<And>y. P y \<Longrightarrow> Q y) \<Longrightarrow> find P (filter Q xs) = find P xs"
  by (induction xs) auto

lemma sorted_ids: "sorted (xs :: int list) \<Longrightarrow> distinct xs \<Longrightarrow> set xs = A \<Longrightarrow> xs = sorted_list_of_set A"
  by (metis sorted_list_of_set.idem_if_sorted_distinct)

lemma SanitizeNodeIDs_exact:
  "SanitizeNodeIDs ids = take MaxNodesPerTemplate (sorted_list_of_set {i \<in> set ids. 1 \<le> i})"
proof -
  have "sort (nub_by id [] (filter (\<lambda>i. \<not> i < 1) ids)) = sorted_list_of_set {i \<in> set ids. 1 \<le> i}"
    using distinct_nub_by [of id "[]" "filter (\<lambda>i. \<not> i < 1) ids"] set_nub_by [of id "[]" "filter (\<lambda>i. \<not> i < 1) ids"]
    by (intro sorted_ids) (auto simp: not_less)
  then show ?thesis by (simp add: SanitizeNodeIDs_def)
qed

text \<open>
  C28: the node sets and the roster that leave ingest are exact. The set of a template is the
  smallest of the positive ids reported for it, in order, each once and at most the cap;
  validating such a set again changes nothing. The roster has the smallest positive ids
  reported, in order, each once and at most its cap, and the name of each is what \<open>SanitizeFQDN\<close>
  makes of the first name reported for it. (A name can change when validated again, see
  \<open>SanitizeFQDN_double_dot\<close>; nothing is claimed of validating a roster twice.)
\<close>

theorem SanitizeNodes_valid:
  "map ni_node_id (b_nodes (SanitizeNodes b))
     = take MaxRosterNodes (sorted_list_of_set {i \<in> set (map ni_node_id (b_nodes b)). 1 \<le> i})
   \<and> sorted (map ni_node_id (b_nodes (SanitizeNodes b)))
   \<and> distinct (map ni_node_id (b_nodes (SanitizeNodes b)))
   \<and> list_all (\<lambda>n. map_option (\<lambda>m. SanitizeFQDN (ni_fqdn m)) (find (\<lambda>m. ni_node_id m = ni_node_id n) (b_nodes b)) = Some (ni_fqdn n))
      (b_nodes (SanitizeNodes b))
   \<and> map t_nodes (b_templates (SanitizeNodes b))
     = map (\<lambda>t. take MaxNodesPerTemplate (sorted_list_of_set {i \<in> set (t_nodes t). 1 \<le> i})) (b_templates b)
   \<and> list_all (\<lambda>t. sorted (t_nodes t) \<and> distinct (t_nodes t) \<and> SanitizeNodeIDs (t_nodes t) = t_nodes t)
      (b_templates (SanitizeNodes b))"
proof -
  let ?f = "\<lambda>n. \<lparr>ni_node_id = ni_node_id n, ni_fqdn = SanitizeFQDN (ni_fqdn n)\<rparr>"
  let ?n = "nub_by ni_node_id [] (filter (\<lambda>n. \<not> ni_node_id n < 1) (b_nodes b))"
  let ?r = "sort_key ni_node_id (map ?f ?n)"
  have r: "b_nodes (SanitizeNodes b) = take MaxRosterNodes ?r"
    by (simp add: SanitizeNodes_def SanitizeRoster_def)
  have m: "mset (map ni_node_id ?r) = mset (map ni_node_id ?n)"
    by (simp add: image_mset.compositionality comp_def)
  have "distinct (map ni_node_id ?n)" by (rule distinct_nub_by)
  then have d: "distinct (map ni_node_id ?r)" by (simp only: mset_eq_imp_distinct_iff [OF m])
  have "set (map ni_node_id ?r) = set (map ni_node_id ?n)" using mset_eq_setD [OF m] .
  also have "\<dots> = {i \<in> set (map ni_node_id (b_nodes b)). 1 \<le> i}"
    using set_nub_by [of ni_node_id "[]" "filter (\<lambda>n. \<not> ni_node_id n < 1) (b_nodes b)"] by (auto simp: not_less)
  finally have e: "map ni_node_id ?r = sorted_list_of_set {i \<in> set (map ni_node_id (b_nodes b)). 1 \<le> i}"
    using d by (intro sorted_ids) simp_all
  have ids: "map ni_node_id (b_nodes (SanitizeNodes b))
      = take MaxRosterNodes (sorted_list_of_set {i \<in> set (map ni_node_id (b_nodes b)). 1 \<le> i})"
    unfolding r take_map [symmetric] e ..
  have names: "map_option (\<lambda>m. SanitizeFQDN (ni_fqdn m)) (find (\<lambda>m. ni_node_id m = ni_node_id n) (b_nodes b)) = Some (ni_fqdn n)"
    if n: "n \<in> set (b_nodes (SanitizeNodes b))" for n
  proof -
    have "n \<in> ?f ` set ?n" using n unfolding r by (auto dest!: in_set_takeD)
    then obtain m where "m \<in> set ?n" "n = ?f m" by blast
    moreover from this(1) have "1 \<le> ni_node_id m" using nub_by_subset [of ni_node_id "[]"] by fastforce
    moreover have "find (\<lambda>y. ni_node_id y = ni_node_id m) (b_nodes b) = Some m"
      using nub_by_first [OF \<open>m \<in> set ?n\<close>] \<open>1 \<le> ni_node_id m\<close>
        find_filter [of "\<lambda>y. ni_node_id y = ni_node_id m" "\<lambda>n. \<not> ni_node_id n < 1" "b_nodes b"] by simp
    ultimately show ?thesis by simp
  qed
  have sets: "sorted (t_nodes t) \<and> distinct (t_nodes t) \<and> SanitizeNodeIDs (t_nodes t) = t_nodes t"
    if t: "t \<in> set (b_templates (SanitizeNodes b))" for t
  proof -
    obtain ids where ids: "t_nodes t = SanitizeNodeIDs ids" using t by (auto simp: SanitizeNodes_def)
    have "\<forall>i \<in> set (SanitizeNodeIDs ids). 1 \<le> i" using SanitizeNodeIDs_props [of ids] by blast
    then show ?thesis
      using SanitizeNodeIDs_props [of ids] SanitizeNodeIDs_fixed [of "SanitizeNodeIDs ids"] unfolding ids by blast
  qed
  have "map t_nodes (b_templates (SanitizeNodes b))
      = map (\<lambda>t. take MaxNodesPerTemplate (sorted_list_of_set {i \<in> set (t_nodes t). 1 \<le> i})) (b_templates b)"
    by (simp add: SanitizeNodes_def SanitizeNodeIDs_exact)
  moreover have "sorted (map ni_node_id (b_nodes (SanitizeNodes b))) \<and> distinct (map ni_node_id (b_nodes (SanitizeNodes b)))"
    unfolding ids by (simp add: sorted_take)
  ultimately show ?thesis using ids names sets by (simp add: list_all_iff)
qed

text \<open>
  While a cluster stays within the cap, merging the node sets of two cited templates is
  set union: no machine is lost and none is invented, in whichever order they are merged.
\<close>

lemma MergeNodeIDs_union:
  assumes "card {i \<in> set a \<union> set b. 1 \<le> i} \<le> MaxNodesPerTemplate"
  shows "set (MergeNodeIDs a b) = {i \<in> set a \<union> set b. 1 \<le> i} \<and> MergeNodeIDs a b = MergeNodeIDs b a"
proof -
  have m: "MergeNodeIDs x y = SanitizeNodeIDs (x @ y)" for x y by (simp add: MergeNodeIDs_def)
  have u: "{i \<in> set (x @ y). 1 \<le> i} = {i \<in> set x \<union> set y. 1 \<le> i}" for x y :: "int list" by auto
  have s: "set (SanitizeNodeIDs (a @ b)) = {i \<in> set a \<union> set b. 1 \<le> i}"
    "set (SanitizeNodeIDs (b @ a)) = {i \<in> set a \<union> set b. 1 \<le> i}"
    using assms SanitizeNodeIDs_small [of "a @ b"] SanitizeNodeIDs_small [of "b @ a"]
    by (simp_all only: u Un_commute)
  then have "SanitizeNodeIDs (a @ b) = SanitizeNodeIDs (b @ a)"
    using SanitizeNodeIDs_props [of "a @ b"] SanitizeNodeIDs_props [of "b @ a"]
    by (intro sorted_distinct_set_unique) auto
  with s show ?thesis by (simp add: m)
qed

end
