(* ===== verification/GoRegexp.thy ===== *)
theory GoRegexp
  imports GoStrings "HOL-Library.Code_Target_Nat"
begin

text \<open>
  Go's \<open>regexp\<close> package, as far as the program uses it: leftmost-first matching with capture
  groups and \<open>ReplaceAll\<close>. The matcher backtracks in priority order; a text is split at the
  current position into what has been passed (reversed) and what is left, so a word boundary
  can see both sides. The expressions of the program only tell ASCII apart, so bytes stand for
  runes. A starred body never matches the empty string there, so as many rounds as bytes are
  left suffice.
\<close>

datatype rx =
    Eps
  | Cls "char \<Rightarrow> bool"
  | Seq rx rx
  | Alt rx rx
  | Star rx
  | Lazy rx
  | Grp nat rx
  | WordB
  | Bol

record rx_state =
  rx_pre :: string
  rx_post :: string
  rx_caps :: "(nat \<times> string) list"

definition word_byte :: "char \<Rightarrow> bool" where
  "word_byte c \<longleftrightarrow> is_digit c \<or> c = CHR ''_'' \<or> is_lower c \<or> is_upper c"

definition word_at :: "string \<Rightarrow> bool" where
  "word_at s = (case s of [] \<Rightarrow> False | c # _ \<Rightarrow> word_byte c)"

text \<open>Rounds of a starred body, the longest first or the shortest first.\<close>

fun greedy :: "nat \<Rightarrow> ((rx_state \<Rightarrow> rx_state option) \<Rightarrow> rx_state \<Rightarrow> rx_state option)
    \<Rightarrow> (rx_state \<Rightarrow> rx_state option) \<Rightarrow> rx_state \<Rightarrow> rx_state option" where
  "greedy 0 f k st = k st"
| "greedy (Suc n) f k st = (case f (greedy n f k) st of Some x \<Rightarrow> Some x | None \<Rightarrow> k st)"

fun lazy :: "nat \<Rightarrow> ((rx_state \<Rightarrow> rx_state option) \<Rightarrow> rx_state \<Rightarrow> rx_state option)
    \<Rightarrow> (rx_state \<Rightarrow> rx_state option) \<Rightarrow> rx_state \<Rightarrow> rx_state option" where
  "lazy 0 f k st = k st"
| "lazy (Suc n) f k st = (case k st of Some x \<Rightarrow> Some x | None \<Rightarrow> f (lazy n f k) st)"

fun rx_match :: "rx \<Rightarrow> (rx_state \<Rightarrow> rx_state option) \<Rightarrow> rx_state \<Rightarrow> rx_state option" where
  "rx_match Eps k st = k st"
| "rx_match (Cls p) k st = (case rx_post st of
      [] \<Rightarrow> None
    | c # cs \<Rightarrow> if p c then k (st\<lparr>rx_pre := c # rx_pre st, rx_post := cs\<rparr>) else None)"
| "rx_match (Seq r s) k st = rx_match r (rx_match s k) st"
| "rx_match (Alt r s) k st = (case rx_match r k st of Some x \<Rightarrow> Some x | None \<Rightarrow> rx_match s k st)"
| "rx_match (Star r) k st = greedy (length (rx_post st)) (rx_match r) k st"
| "rx_match (Lazy r) k st = lazy (length (rx_post st)) (rx_match r) k st"
| "rx_match (Grp n r) k st = rx_match r (\<lambda>st'. k (st'\<lparr>rx_caps :=
      (n, rev (take (length (rx_pre st') - length (rx_pre st)) (rx_pre st'))) # rx_caps st'\<rparr>)) st"
| "rx_match WordB k st = (if word_at (rx_pre st) \<noteq> word_at (rx_post st) then k st else None)"
| "rx_match Bol k st = (if rx_pre st = [] then k st else None)"

definition group_text :: "nat \<Rightarrow> rx_state \<Rightarrow> string" where
  "group_text n st = (case map_of (rx_caps st) n of None \<Rightarrow> [] | Some s \<Rightarrow> s)"

text \<open>
  \<open>ReplaceAllStringFunc\<close> and, with the groups, \<open>ReplaceAllString\<close>: at each position the first
  match in priority order; after a match the search goes on behind it. The replacement gets the
  matched text and the groups.
\<close>

function replace_from :: "rx \<Rightarrow> (string \<Rightarrow> rx_state \<Rightarrow> string) \<Rightarrow> string \<Rightarrow> string \<Rightarrow> string" where
  "replace_from r f pre post =
     (case rx_match r Some \<lparr>rx_pre = pre, rx_post = post, rx_caps = []\<rparr> of
        Some st \<Rightarrow>
          if length (rx_post st) < length post
          then f (take (length post - length (rx_post st)) post) st @ replace_from r f (rx_pre st) (rx_post st)
          else (case post of [] \<Rightarrow> [] | c # cs \<Rightarrow> c # replace_from r f (c # pre) cs)
      | None \<Rightarrow> (case post of [] \<Rightarrow> [] | c # cs \<Rightarrow> c # replace_from r f (c # pre) cs))"
  by auto
termination by (relation "measure (\<lambda>(r, f, pre, post). length post)") auto

declare replace_from.simps [simp del]

definition replace_all :: "rx \<Rightarrow> (string \<Rightarrow> rx_state \<Rightarrow> string) \<Rightarrow> string \<Rightarrow> string" where
  "replace_all r f s = replace_from r f [] s"

subsection \<open>Building expressions\<close>

definition byte_in :: "string \<Rightarrow> char \<Rightarrow> bool" where
  "byte_in cs c \<longleftrightarrow> c \<in> set cs"

definition Dot :: "char \<Rightarrow> rx" where "Dot c = Cls (\<lambda>x. x = c)"

fun Txt :: "string \<Rightarrow> rx" where
  "Txt [] = Eps"
| "Txt (c # cs) = Seq (Dot c) (Txt cs)"

fun OneOf :: "rx list \<Rightarrow> rx" where
  "OneOf [] = Cls (\<lambda>_. False)"
| "OneOf [r] = r"
| "OneOf (r # rs) = Alt r (OneOf rs)"

fun Cat :: "rx list \<Rightarrow> rx" where
  "Cat [] = Eps"
| "Cat (r # rs) = Seq r (Cat rs)"

definition Plus :: "rx \<Rightarrow> rx" where "Plus r = Seq r (Star r)"
definition Opt :: "rx \<Rightarrow> rx" where "Opt r = Alt r Eps"

text \<open>At most \<open>n\<close> more, greedily.\<close>

fun UpTo :: "nat \<Rightarrow> rx \<Rightarrow> rx" where
  "UpTo 0 r = Eps"
| "UpTo (Suc n) r = Opt (Seq r (UpTo n r))"

definition is_alnum :: "char \<Rightarrow> bool" where
  "is_alnum c \<longleftrightarrow> is_digit c \<or> is_lower c \<or> is_upper c"

definition is_alpha :: "char \<Rightarrow> bool" where
  "is_alpha c \<longleftrightarrow> is_lower c \<or> is_upper c"

definition is_white :: "char \<Rightarrow> bool" where
  "is_white c \<longleftrightarrow> byte c \<in> {9, 10, 12, 13, 32}"

lemma replace_from_nil: "replace_from r f pre [] = []"
  by (simp add: replace_from.simps split: option.split)

end
