(* ===== verification/Model_Canonical.thy ===== *)
theory Model_Canonical
  imports Model_Bundle GoRegexp
begin

text \<open>
  The canonical form of a masked log line, \<open>internal/model/canonical.go\<close>: the regular
  expressions, the order they run in and the module's own instance name.
\<close>

subsection \<open>The expressions\<close>

definition num_or_mask :: rx where
  "num_or_mask = Alt (Plus (Cls is_digit)) (Txt ''<NUM>'')"

definition countryCode :: rx where
  "countryCode = Cat [Txt ''('', Grp 1 (Seq (Cls is_upper) (Cls is_upper)), Txt ''/'']"

definition micro :: string where "micro = [char_of (194::nat), char_of (181::nat), CHR ''s'']"

definition duration_rx :: rx where
  "duration_rx = Cat [Alt (Txt ''<NUM>'') (Seq WordB (Plus (Cls is_digit))),
     OneOf [Txt ''ms'', Txt micro, Txt ''us'', Txt ''ns'', Txt ''s'', Txt ''m'', Txt ''h'', Txt ''d''], WordB]"

definition percentage :: rx where
  "percentage = Cat [num_or_mask, Opt (Seq (Txt ''.'') num_or_mask), Txt ''%'']"

definition decimal :: rx where
  "decimal = Cat [num_or_mask, Txt ''.'', num_or_mask]"

definition bracketInstance :: rx where
  "bracketInstance = Cat [Txt ''['', Grp 1 (Seq (Cls is_alpha) (Lazy (Cls (\<lambda>c. word_byte c \<or> byte_in ''@.-'' c)))),
     Plus (Cls is_digit), Txt '']'']"

definition singleDigit :: rx where
  "singleDigit = Cat [WordB, Cls is_digit, WordB]"

definition hostname :: rx where
  "hostname = Cat [WordB,
     Plus (Cat [Cls (\<lambda>c. is_alnum c \<or> byte_in ''_<'' c), Star (Cls (\<lambda>c. is_alnum c \<or> byte_in ''_<>-'' c)), Txt ''.'']),
     Cls is_alpha, Cls is_alnum, UpTo 22 (Cls is_alnum), WordB]"

definition multiPath :: rx where
  "multiPath = Cat [Txt ''/'', Grp 1 (Plus (Cls (\<lambda>c. is_alnum c \<or> byte_in ''_.<>-'' c))),
     Plus (Seq (Txt ''/'') (Plus (Cls (\<lambda>c. is_alnum c \<or> byte_in ''_.<>~-'' c))))]"

definition objectName :: rx where
  "objectName = Cat [WordB, Grp 1 (OneOf (map Txt [''on'', ''table'', ''relation'', ''index'', ''database'', ''hypertable'',
       ''schema'', ''view'', ''constraint''])),
     Plus (Cls is_white), Cls (\<lambda>c. c = CHR 0x22), Star (Cls (\<lambda>c. c \<noteq> CHR 0x22)), Cls (\<lambda>c. c = CHR 0x22)]"

fun FoldTxt :: "string \<Rightarrow> rx" where
  "FoldTxt [] = Eps"
| "FoldTxt (c # cs) = Seq (Cls (\<lambda>x. ascii_lower x = c)) (FoldTxt cs)"

definition callIDField :: rx where
  "callIDField = Cat [WordB, Grp 1 (Cat [FoldTxt ''call'', Opt (Txt ''-''), FoldTxt ''id'', Txt ''='']),
     Plus (Cls (\<lambda>c. \<not> is_white c \<and> \<not> byte_in '',;='' c))]"

definition sip_methods :: "string list" where
  "sip_methods = [''INVITE'', ''REGISTER'', ''OPTIONS'', ''NOTIFY'', ''SUBSCRIBE'', ''PUBLISH'', ''MESSAGE'', ''REFER'',
     ''INFO'', ''UPDATE'', ''PRACK'', ''CANCEL'', ''BYE'', ''ACK'']"

definition sipRequest :: rx where
  "sipRequest = Cat [Grp 1 (Alt Bol (Cls is_white)), Plus (Cls (\<lambda>c. \<not> is_white c)), Txt '' '',
     Grp 2 (OneOf (map Txt sip_methods)), Txt ''-'', OneOf [Txt ''<NUM>'', Txt ''<HEX>'', Plus (Cls is_digit)]]"

definition rtpCallID :: rx where
  "rtpCallID = Cat [Txt ''['', Plus (Cls (\<lambda>c. \<not> is_white c \<and> \<not> byte_in ''[]'' c)), Txt '' port '',
     OneOf [Txt ''<NUM>'', Txt ''<PORT>'', Plus (Cls is_digit)], Txt '']'']"

definition sourceFileSuffix :: "string list" where
  "sourceFileSuffix = [''go'', ''py'', ''c'', ''h'', ''cc'', ''cpp'', ''js'', ''ts'', ''jsx'', ''tsx'', ''lua'', ''rb'',
     ''php'', ''java'', ''sh'', ''pl'', ''rs'', ''erl'', ''conf'', ''cfg'', ''ini'', ''yaml'', ''yml'', ''json'', ''toml'',
     ''xml'', ''html'', ''css'', ''log'', ''txt'', ''sql'', ''db'', ''sock'', ''pid'', ''key'', ''crt'', ''pem'', ''so'',
     ''service'', ''socket'', ''target'', ''timer'', ''mount'', ''slice'', ''scope'', ''device'', ''path'']"

subsection \<open>The passes\<close>

definition splitPriority :: "string \<Rightarrow> string \<times> string" where
  "splitPriority template =
     (case template of
        [] \<Rightarrow> ([], template)
      | c # _ \<Rightarrow>
          (if c \<noteq> CHR ''<'' then ([], template)
           else case index_byte template (CHR ''>'') of
                  None \<Rightarrow> ([], template)
                | Some e \<Rightarrow> (if list_all is_digit (take (e - 1) (drop 1 template))
                            then (take (Suc e) template, drop (Suc e) template) else ([], template))))"

definition replaceCallIDs :: "string \<Rightarrow> string" where
  "replaceCallIDs s0 =
     (let s1 = replace_all callIDField (\<lambda>_ st. group_text 1 st @ ''<ID>'') s0;
          s2 = replace_all sipRequest (\<lambda>_ st. group_text 1 st @ ''<ID> '' @ group_text 2 st @ ''-<NUM>'') s1
      in replace_all rtpCallID (\<lambda>_ _. ''[<ID> port <NUM>]'') s2)"

definition instanceSuffix :: "string \<Rightarrow> nat" where
  "instanceSuffix s =
     (if has_prefix s ''<NUM>'' then 5
      else let n = length (takeWhile is_digit s)
           in if n = 0 \<or> (n < length s \<and> word_byte (s ! n)) then 0 else n)"

text \<open>
  The loop over the occurrences of the family name, one byte at a time: \<open>prev\<close> tells whether the
  byte before the rest is a word byte. After an occurrence the search starts afresh, with
  nothing before it.
\<close>

function own_instance :: "string \<Rightarrow> bool \<Rightarrow> string \<Rightarrow> string" where
  "own_instance family prev s =
     (if family \<noteq> [] \<and> has_prefix s family
      then (let rest = drop (length family) s; n = instanceSuffix rest
            in if n = 0 \<or> prev then family @ own_instance family False rest
               else family @ own_instance family False (drop n rest))
      else case s of [] \<Rightarrow> [] | c # cs \<Rightarrow> c # own_instance family (word_byte c) cs)"
  by auto
termination
  by (relation "measure (\<lambda>(family, prev, s). length s)")
    (auto simp: has_prefix_iff diff_less_mono2 less_eq_Suc_le length_greater_0_conv [symmetric] simp del: length_greater_0_conv)

declare own_instance.simps [simp del]

definition replaceOwnInstance :: "string \<Rightarrow> string \<Rightarrow> string" where
  "replaceOwnInstance s family =
     (if family = [] \<or> is_digit (last family) then s else own_instance family False s)"

definition after_last_dot :: "string \<Rightarrow> string" where
  "after_last_dot m = rev (takeWhile (\<lambda>c. c \<noteq> CHR ''.'') (rev m))"

definition replaceHostnames :: "string \<Rightarrow> string" where
  "replaceHostnames s = replace_all hostname
     (\<lambda>m _. if map ascii_lower (after_last_dot m) \<in> set sourceFileSuffix then m else ''<HOST>'') s"

definition CanonicalTemplate :: "string \<Rightarrow> string \<Rightarrow> string" where
  "CanonicalTemplate moduleID template =
     (case splitPriority template of (prefix, r0) \<Rightarrow>
        (let r1 = replaceCallIDs r0;
             r2 = replaceOwnInstance r1 (ModuleFamily moduleID);
             r3 = replace_all countryCode (\<lambda>_ _. ''(<CC>/'') r2;
             r4 = replace_all objectName (\<lambda>_ st. group_text 1 st @ '' <STR>'') r3;
             r5 = replaceHostnames r4;
             r6 = replace_all multiPath (\<lambda>_ st. ''/'' @ group_text 1 st @ ''/<PATH>'') r5;
             r7 = replace_all percentage (\<lambda>_ _. ''<PCT>'') r6;
             r8 = replace_all decimal (\<lambda>_ _. ''<NUM>'') r7;
             r9 = replace_all duration_rx (\<lambda>_ _. ''<DUR>'') r8;
             r10 = replace_all bracketInstance (\<lambda>_ st. ''['' @ group_text 1 st @ '']'') r9
         in prefix @ replace_all singleDigit (\<lambda>_ _. ''<NUM>'') r10))"

definition CanonicalKey :: "string \<Rightarrow> string \<Rightarrow> string" where
  "CanonicalKey moduleID template = ModuleFamily moduleID @ [NUL] @ CanonicalTemplate moduleID template"

text \<open>The module enters by its family only.\<close>

lemma CanonicalTemplate_family: "CanonicalTemplate (ModuleFamily m) x = CanonicalTemplate m x"
  by (simp add: CanonicalTemplate_def ModuleFamily_idem)

lemma CanonicalKey_family: "ModuleFamily m = ModuleFamily m' \<Longrightarrow> CanonicalKey m x = CanonicalKey m' x"
  by (metis CanonicalKey_def CanonicalTemplate_family)

text \<open>An evaluated example, pass by pass: a version of three parts needs two rounds.\<close>

lemma canonical_version:
  "CanonicalTemplate ''samba'' ''v 1.2.3'' = ''v <NUM>.<NUM>''"
  "CanonicalTemplate ''samba'' ''v <NUM>.<NUM>'' = ''v <NUM>''"
proof -
  have f: "ModuleFamily ''samba'' = ''samba''" by code_simp
  have "splitPriority ''v 1.2.3'' = ([], ''v 1.2.3'')" "replaceCallIDs ''v 1.2.3'' = ''v 1.2.3''"
    "replaceOwnInstance ''v 1.2.3'' ''samba'' = ''v 1.2.3''"
    "replace_all countryCode (\<lambda>_ _. ''(<CC>/'') ''v 1.2.3'' = ''v 1.2.3''"
    "replace_all objectName (\<lambda>_ st. group_text 1 st @ '' <STR>'') ''v 1.2.3'' = ''v 1.2.3''"
    "replaceHostnames ''v 1.2.3'' = ''v 1.2.3''"
    "replace_all multiPath (\<lambda>_ st. ''/'' @ group_text 1 st @ ''/<PATH>'') ''v 1.2.3'' = ''v 1.2.3''"
    "replace_all percentage (\<lambda>_ _. ''<PCT>'') ''v 1.2.3'' = ''v 1.2.3''"
    "replace_all decimal (\<lambda>_ _. ''<NUM>'') ''v 1.2.3'' = ''v <NUM>.3''"
    "replace_all duration_rx (\<lambda>_ _. ''<DUR>'') ''v <NUM>.3'' = ''v <NUM>.3''"
    "replace_all bracketInstance (\<lambda>_ st. ''['' @ group_text 1 st @ '']'') ''v <NUM>.3'' = ''v <NUM>.3''"
    "replace_all singleDigit (\<lambda>_ _. ''<NUM>'') ''v <NUM>.3'' = ''v <NUM>.<NUM>''"
    by code_simp+
  then show "CanonicalTemplate ''samba'' ''v 1.2.3'' = ''v <NUM>.<NUM>''"
    unfolding CanonicalTemplate_def f by (simp only: prod.case Let_def append_Nil)
  have "splitPriority ''v <NUM>.<NUM>'' = ([], ''v <NUM>.<NUM>'')" "replaceCallIDs ''v <NUM>.<NUM>'' = ''v <NUM>.<NUM>''"
    "replaceOwnInstance ''v <NUM>.<NUM>'' ''samba'' = ''v <NUM>.<NUM>''"
    "replace_all countryCode (\<lambda>_ _. ''(<CC>/'') ''v <NUM>.<NUM>'' = ''v <NUM>.<NUM>''"
    "replace_all objectName (\<lambda>_ st. group_text 1 st @ '' <STR>'') ''v <NUM>.<NUM>'' = ''v <NUM>.<NUM>''"
    "replaceHostnames ''v <NUM>.<NUM>'' = ''v <NUM>.<NUM>''"
    "replace_all multiPath (\<lambda>_ st. ''/'' @ group_text 1 st @ ''/<PATH>'') ''v <NUM>.<NUM>'' = ''v <NUM>.<NUM>''"
    "replace_all percentage (\<lambda>_ _. ''<PCT>'') ''v <NUM>.<NUM>'' = ''v <NUM>.<NUM>''"
    "replace_all decimal (\<lambda>_ _. ''<NUM>'') ''v <NUM>.<NUM>'' = ''v <NUM>''"
    "replace_all duration_rx (\<lambda>_ _. ''<DUR>'') ''v <NUM>'' = ''v <NUM>''"
    "replace_all bracketInstance (\<lambda>_ st. ''['' @ group_text 1 st @ '']'') ''v <NUM>'' = ''v <NUM>''"
    "replace_all singleDigit (\<lambda>_ _. ''<NUM>'') ''v <NUM>'' = ''v <NUM>''"
    by code_simp+
  then show "CanonicalTemplate ''samba'' ''v <NUM>.<NUM>'' = ''v <NUM>''"
    unfolding CanonicalTemplate_def f by (simp only: prod.case Let_def append_Nil)
qed

end
