(* ===== verification/Logs_Store.thy ===== *)
theory Logs_Store
  imports Complex_Main Model_Nodes Model_Canonical
begin

text \<open>
  The tables of the log pipeline and the statements on them, \<open>internal/store/logs/store.go\<close>. A
  table is the list of its rows in insertion order, a nullable column an option, a statement a
  function on the tables. Columns holding a JSON array hold the list. The random row ids
  (ULIDs) are an argument where a statement reads them back, and left out elsewhere. A query
  without \<open>ORDER BY\<close> returns the rows in insertion order.
\<close>

subsection \<open>Rows\<close>

record system_row =
  sy_id :: string
  sy_version :: string
  sy_first_seen :: int
  sy_last_seen :: int

record template_row =
  lt_system :: string
  lt_key :: string
  lt_template :: string
  lt_module :: string
  lt_priority :: int
  lt_category :: string
  lt_first_seen :: int
  lt_last_seen :: int
  lt_total :: int

record node_row =
  no_system :: string
  no_id :: int
  no_fqdn :: string
  no_first_seen :: int
  no_last_seen :: int

record finding_row =
  fr_id :: string
  fr_system :: string
  fr_fingerprint :: string
  fr_severity :: string
  fr_title :: string
  fr_summary :: string
  fr_action :: string
  fr_modules :: "string list"
  fr_evidence :: "string list"
  fr_status :: string
  fr_count :: int
  fr_first_seen :: int
  fr_last_seen :: int
  fr_reopened_at :: "int option"
  fr_llm_model :: string
  fr_prompt_version :: string
  fr_nodes :: "int list"
  fr_class :: "string option"

record analysis_row =
  an_system :: string
  an_start :: int
  an_end :: int
  an_gated :: bool
  an_reasons :: "string list"
  an_called :: bool
  an_input :: int
  an_output :: int
  an_cost :: int
  an_model :: string
  an_duration :: int
  an_error :: string
  an_cached :: "int option"
  an_suppressed :: "string option"
  an_completed :: bool
  an_created :: int

record class_row =
  cl_key :: string
  cl_visibility :: string
  cl_security :: bool
  cl_severity :: "string option"
  cl_doc_ref :: "string option"
  cl_first_prompt_version :: "string option"
  cl_first_seen :: int
  cl_last_seen :: int

record text_row =
  tx_key :: string
  tx_title :: string
  tx_summary :: string
  tx_action :: string
  tx_title_override :: "string option"
  tx_summary_override :: "string option"
  tx_action_override :: "string option"
  tx_created :: int

record decision_row =
  de_key :: string
  de_actor :: string
  de_action :: string
  de_detail :: "string option"
  de_prompt_version :: string
  de_at :: int

record group_row =
  gr_key :: string
  gr_anchor :: string
  gr_similarity :: real
  gr_threshold :: real
  gr_model :: string
  gr_vector :: "real list"
  gr_created :: int

record logs_store =
  ls_systems :: "system_row list"
  ls_templates :: "template_row list"
  ls_nodes :: "node_row list"
  ls_findings :: "finding_row list"
  ls_analyses :: "analysis_row list"
  ls_classes :: "class_row list"
  ls_texts :: "text_row list"
  ls_decisions :: "decision_row list"
  ls_groups :: "group_row list"

definition empty_logs :: logs_store where
  "empty_logs = \<lparr>ls_systems = [], ls_templates = [], ls_nodes = [], ls_findings = [], ls_analyses = [],
     ls_classes = [], ls_texts = [], ls_decisions = [], ls_groups = []\<rparr>"

definition nullIfEmpty :: "string \<Rightarrow> string option" where
  "nullIfEmpty s = (if s = [] then None else Some s)"

fun null_string :: "string option \<Rightarrow> string" where
  "null_string None = []"
| "null_string (Some s) = s"

lemma null_string_nullIfEmpty [simp]: "null_string (nullIfEmpty s) = s"
  by (simp add: nullIfEmpty_def)

subsection \<open>Systems, templates and nodes\<close>

definition UpsertSystem :: "system_row \<Rightarrow> logs_store \<Rightarrow> logs_store" where
  "UpsertSystem sys s = s\<lparr>ls_systems := upsert sy_id
     (\<lambda>old new. old\<lparr>sy_version := sy_version new, sy_last_seen := sy_last_seen new\<rparr>) sys (ls_systems s)\<rparr>"

definition template_pk :: "template_row \<Rightarrow> string \<times> string \<times> string" where
  "template_pk r = (lt_system r, lt_module r, lt_key r)"

definition template_row_of :: "string \<Rightarrow> int \<Rightarrow> template \<Rightarrow> template_row" where
  "template_row_of systemID now t =
     \<lparr>lt_system = systemID, lt_key = CanonicalTemplate (t_module_id t) (t_template t), lt_template = t_template t,
      lt_module = ModuleFamily (t_module_id t), lt_priority = t_priority t, lt_category = t_category t,
      lt_first_seen = (if t_first_seen t = 0 then now else t_first_seen t),
      lt_last_seen = (if t_last_seen t = 0 then now else t_last_seen t), lt_total = t_count t\<rparr>"

definition merge_template :: "template_row \<Rightarrow> template_row \<Rightarrow> template_row" where
  "merge_template old new = old\<lparr>lt_template := lt_template new, lt_priority := lt_priority new,
     lt_category := lt_category new,
     lt_last_seen := (if lt_last_seen new > lt_last_seen old then lt_last_seen new else lt_last_seen old),
     lt_total := lt_total old + lt_total new\<rparr>"

fun upsert_templates :: "template_row list \<Rightarrow> template_row list \<Rightarrow> template_row list" where
  "upsert_templates [] rows = rows"
| "upsert_templates (r # rs) rows = upsert_templates rs (upsert template_pk merge_template r rows)"

definition UpsertTemplates :: "string \<Rightarrow> template list \<Rightarrow> int \<Rightarrow> logs_store \<Rightarrow> logs_store" where
  "UpsertTemplates systemID ts now s =
     s\<lparr>ls_templates := upsert_templates (map (template_row_of systemID now) ts) (ls_templates s)\<rparr>"

text \<open>
  The map by canonical key. A key absent from it reads 0, so a time that is not positive makes
  no entry.
\<close>

fun put_later :: "string \<Rightarrow> int \<Rightarrow> (string \<times> int) list \<Rightarrow> (string \<times> int) list" where
  "put_later k t [] = (if t > 0 then [(k, t)] else [])"
| "put_later k t ((k', t') # m) =
     (if k' = k then (k, if t > t' then t else t') # m else (k', t') # put_later k t m)"

fun known_templates :: "template_row list \<Rightarrow> (string \<times> int) list \<Rightarrow> (string \<times> int) list" where
  "known_templates [] m = m"
| "known_templates (r # rs) m = known_templates rs (put_later (CanonicalKey (lt_module r) (lt_key r)) (lt_last_seen r) m)"

definition KnownTemplates :: "string \<Rightarrow> logs_store \<Rightarrow> (string \<times> int) list" where
  "KnownTemplates systemID s = known_templates (filter (\<lambda>r. lt_system r = systemID) (ls_templates s)) []"

definition node_pk :: "node_row \<Rightarrow> string \<times> int" where
  "node_pk r = (no_system r, no_id r)"

definition upsert_node :: "string \<Rightarrow> int \<Rightarrow> node_info \<Rightarrow> node_row list \<Rightarrow> node_row list" where
  "upsert_node systemID now n rows = upsert node_pk
     (\<lambda>old new. old\<lparr>no_fqdn := (if no_fqdn new = [] then no_fqdn old else no_fqdn new), no_last_seen := no_last_seen new\<rparr>)
     \<lparr>no_system = systemID, no_id = ni_node_id n, no_fqdn = ni_fqdn n, no_first_seen = now, no_last_seen = now\<rparr> rows"

text \<open>One statement per node and no transaction: \<open>done\<close> statements run before one fails.\<close>

definition UpsertNodes_upto :: "nat \<Rightarrow> string \<Rightarrow> node_info list \<Rightarrow> int \<Rightarrow> logs_store \<Rightarrow> logs_store" where
  "UpsertNodes_upto done systemID nodes now s =
     s\<lparr>ls_nodes := fold (upsert_node systemID now) (take done (SanitizeRoster nodes)) (ls_nodes s)\<rparr>"

definition UpsertNodes :: "string \<Rightarrow> node_info list \<Rightarrow> int \<Rightarrow> logs_store \<Rightarrow> logs_store" where
  "UpsertNodes systemID nodes now s =
     (if SanitizeRoster nodes = [] then s
      else s\<lparr>ls_nodes := fold (upsert_node systemID now) (SanitizeRoster nodes) (ls_nodes s)\<rparr>)"

definition NodeRoster :: "string \<Rightarrow> logs_store \<Rightarrow> int \<Rightarrow> string option" where
  "NodeRoster systemID s i = map_option no_fqdn (find_key node_pk (systemID, i) (ls_nodes s))"

definition ResolveNodes :: "string \<Rightarrow> finding list \<Rightarrow> logs_store \<Rightarrow> finding list" where
  "ResolveNodes systemID findings s =
     map (\<lambda>f. f\<lparr>f_node_refs := ResolveNodeRefs (f_nodes f) (NodeRoster systemID s)\<rparr>) findings"

subsection \<open>The analyses ledger\<close>

record analysis =
  aa_system :: string
  aa_start :: int
  aa_end :: int
  aa_gated :: bool
  aa_reasons :: "string list"
  aa_called :: bool
  aa_input :: int
  aa_output :: int
  aa_cost :: int
  aa_model :: string
  aa_duration :: int
  aa_error :: string
  aa_cached :: int
  aa_suppressed :: string

definition analysis_pk :: "analysis_row \<Rightarrow> string \<times> int" where
  "analysis_pk r = (an_system r, an_start r)"

definition BeginAnalysis :: "string \<Rightarrow> int \<Rightarrow> int \<Rightarrow> int \<Rightarrow> logs_store \<Rightarrow> bool \<times> logs_store" where
  "BeginAnalysis systemID windowStart windowEnd now s =
     (case find_key analysis_pk (systemID, windowStart) (ls_analyses s) of
        None \<Rightarrow> (True, s\<lparr>ls_analyses := ls_analyses s @
          [\<lparr>an_system = systemID, an_start = windowStart, an_end = windowEnd, an_gated = False, an_reasons = [],
            an_called = False, an_input = 0, an_output = 0, an_cost = 0, an_model = [], an_duration = 0, an_error = [],
            an_cached = None, an_suppressed = None, an_completed = False, an_created = now\<rparr>]\<rparr>)
      | Some r \<Rightarrow>
          if an_completed r then (False, s)
          else (True, s\<lparr>ls_analyses := map (\<lambda>r. if analysis_pk r = (systemID, windowStart)
                 then r\<lparr>an_end := windowEnd, an_created := now\<rparr> else r) (ls_analyses s)\<rparr>))"

definition RecordAttemptError :: "string \<Rightarrow> int \<Rightarrow> string list \<Rightarrow> int \<Rightarrow> string \<Rightarrow> logs_store \<Rightarrow> logs_store" where
  "RecordAttemptError systemID windowStart reasons durationMs msg s =
     s\<lparr>ls_analyses := map (\<lambda>r. if analysis_pk r = (systemID, windowStart)
         then r\<lparr>an_reasons := reasons, an_called := True, an_duration := durationMs, an_error := msg\<rparr> else r)
       (ls_analyses s)\<rparr>"

definition FinalizeAnalysis :: "analysis \<Rightarrow> logs_store \<Rightarrow> logs_store" where
  "FinalizeAnalysis a s =
     s\<lparr>ls_analyses := map (\<lambda>r. if analysis_pk r = (aa_system a, aa_start a)
         then r\<lparr>an_gated := aa_gated a, an_reasons := aa_reasons a, an_called := aa_called a, an_input := aa_input a,
                an_output := aa_output a, an_cached := Some (aa_cached a), an_cost := aa_cost a, an_model := aa_model a,
                an_duration := aa_duration a, an_error := aa_error a, an_suppressed := Some (aa_suppressed a),
                an_completed := True\<rparr>
         else r) (ls_analyses s)\<rparr>"

definition DailySpendMicros :: "int \<Rightarrow> logs_store \<Rightarrow> int" where
  "DailySpendMicros since s = sum_list (map an_cost (filter (\<lambda>r. an_created r \<ge> since) (ls_analyses s)))"

definition SystemCallsSince :: "string \<Rightarrow> int \<Rightarrow> logs_store \<Rightarrow> int" where
  "SystemCallsSince systemID since s =
     int (length (filter (\<lambda>r. an_system r = systemID \<and> an_created r \<ge> since \<and> an_called r) (ls_analyses s)))"

end
