(* ===== verification/Logs_Findings.thy ===== *)
theory Logs_Findings
  imports Logs_Store
begin

text \<open>
  The findings table of \<open>internal/store/logs/store.go\<close>: reading it with and without the review
  state of the class, storing what the model reported, keeping a finding alive from the lines of
  a window, and going stale.
\<close>

subsection \<open>Reading\<close>

definition VisibilityPending :: string where "VisibilityPending = ''pending''"
definition VisibilityCustomer :: string where "VisibilityCustomer = ''customer''"
definition VisibilityOperator :: string where "VisibilityOperator = ''operator''"
definition VisibilityDismissed :: string where "VisibilityDismissed = ''dismissed''"

text \<open>\<open>coalesce(nullif(override, ''), nullif(seed, ''))\<close>, read into a string.\<close>

definition class_wording :: "string option \<Rightarrow> string \<Rightarrow> string" where
  "class_wording override seed = (if null_string override \<noteq> [] then null_string override else seed)"

text \<open>\<open>queryFindings\<close>, one row: the finding, then the columns of its class, absent or not joined.\<close>

definition finding_of_row :: "class_row option \<Rightarrow> text_row option \<Rightarrow> finding_row \<Rightarrow> finding" where
  "finding_of_row c t r =
     \<lparr>f_id = fr_id r, f_system_id = fr_system r, f_fingerprint = fr_fingerprint r, f_severity = fr_severity r,
      f_title = fr_title r, f_summary = fr_summary r, f_suggested_action = fr_action r, f_modules = fr_modules r,
      f_evidence = fr_evidence r, f_status = fr_status r, f_occurrence_count = fr_count r,
      f_first_seen = fr_first_seen r, f_last_seen = fr_last_seen r, f_reopened_at = fr_reopened_at r,
      f_llm_model = fr_llm_model r, f_prompt_version = fr_prompt_version r, f_nodes = fr_nodes r, f_node_refs = [],
      f_class_key = null_string (fr_class r),
      f_security = (case c of None \<Rightarrow> False | Some c \<Rightarrow> cl_security c),
      f_doc_ref = (case c of None \<Rightarrow> [] | Some c \<Rightarrow> null_string (cl_doc_ref c)),
      f_visibility = (case c of None \<Rightarrow> [] | Some c \<Rightarrow> cl_visibility c),
      f_severity_override = (case c of None \<Rightarrow> [] | Some c \<Rightarrow> null_string (cl_severity c)),
      f_class_title = (case t of None \<Rightarrow> [] | Some t \<Rightarrow> class_wording (tx_title_override t) (tx_title t)),
      f_class_summary = (case t of None \<Rightarrow> [] | Some t \<Rightarrow> class_wording (tx_summary_override t) (tx_summary t)),
      f_class_suggested_action = (case t of None \<Rightarrow> [] | Some t \<Rightarrow> class_wording (tx_action_override t) (tx_action t))\<rparr>"

definition class_of :: "logs_store \<Rightarrow> finding_row \<Rightarrow> class_row option" where
  "class_of s r = (case fr_class r of None \<Rightarrow> None | Some k \<Rightarrow> find_key cl_key k (ls_classes s))"

definition text_of :: "logs_store \<Rightarrow> finding_row \<Rightarrow> text_row option" where
  "text_of s r = (case fr_class r of None \<Rightarrow> None | Some k \<Rightarrow> find_key tx_key k (ls_texts s))"

definition OpenFindings :: "string \<Rightarrow> logs_store \<Rightarrow> finding list" where
  "OpenFindings systemID s = map (finding_of_row None None)
     (filter (\<lambda>r. fr_system r = systemID \<and> fr_status r = StatusOpen) (ls_findings s))"

definition apply_class :: "finding \<Rightarrow> finding" where
  "apply_class f =
     f\<lparr>f_severity := (if f_severity_override f \<noteq> [] then f_severity_override f else f_severity f),
       f_title := (if f_class_title f \<noteq> [] then f_class_title f else f_title f),
       f_summary := (if f_class_summary f \<noteq> [] then f_class_summary f else f_summary f),
       f_suggested_action := (if f_class_suggested_action f \<noteq> [] then f_class_suggested_action f else f_suggested_action f)\<rparr>"

definition listed :: "string \<Rightarrow> int \<Rightarrow> string \<Rightarrow> logs_store \<Rightarrow> finding_row \<Rightarrow> bool" where
  "listed systemID since status s r \<longleftrightarrow>
     fr_system r = systemID \<and> fr_last_seen r \<ge> since
     \<and> (case class_of s r of None \<Rightarrow> False | Some c \<Rightarrow> cl_visibility c = VisibilityCustomer)
     \<and> (status = [] \<or> fr_status r = status)"

definition ListFindings :: "string \<Rightarrow> int \<Rightarrow> string \<Rightarrow> logs_store \<Rightarrow> finding list" where
  "ListFindings systemID since status s =
     SortFindings (map (\<lambda>r. apply_class (finding_of_row (class_of s r) (text_of s r) r))
       (filter (listed systemID since status s) (ls_findings s)))"

subsection \<open>Storing a report\<close>

datatype finding_outcome = OutcomeInserted | OutcomeBumped | OutcomeReopened

definition finding_pk :: "finding_row \<Rightarrow> string \<times> string" where
  "finding_pk r = (fr_system r, fr_fingerprint r)"

definition finding_outcome_of :: "finding \<Rightarrow> logs_store \<Rightarrow> finding_outcome" where
  "finding_outcome_of f s =
     (case find_key finding_pk (f_system_id f, f_fingerprint f) (ls_findings s) of
        None \<Rightarrow> OutcomeInserted
      | Some r \<Rightarrow> if fr_status r = StatusOpen then OutcomeBumped else OutcomeReopened)"

definition new_finding_row :: "string \<Rightarrow> finding \<Rightarrow> int \<Rightarrow> finding_row" where
  "new_finding_row ulid f now =
     \<lparr>fr_id = (if f_id f = [] then ulid else f_id f), fr_system = f_system_id f, fr_fingerprint = f_fingerprint f,
      fr_severity = f_severity f, fr_title = f_title f, fr_summary = f_summary f, fr_action = f_suggested_action f,
      fr_modules = f_modules f, fr_evidence = f_evidence f, fr_status = StatusOpen, fr_count = 1, fr_first_seen = now,
      fr_last_seen = now, fr_reopened_at = None, fr_llm_model = f_llm_model f, fr_prompt_version = f_prompt_version f,
      fr_nodes = SanitizeNodeIDs (f_nodes f), fr_class = nullIfEmpty (f_class_key f)\<rparr>"

definition merge_finding :: "finding_outcome \<Rightarrow> int \<Rightarrow> finding_row \<Rightarrow> finding_row \<Rightarrow> finding_row" where
  "merge_finding outcome now old new =
     old\<lparr>fr_severity := fr_severity new, fr_title := fr_title new, fr_summary := fr_summary new, fr_action := fr_action new,
         fr_modules := fr_modules new, fr_evidence := fr_evidence new, fr_status := StatusOpen,
         fr_count := fr_count old + (if fr_last_seen old \<ge> now then 0 else 1), fr_last_seen := now,
         fr_nodes := fr_nodes new, fr_class := fr_class new,
         fr_reopened_at := (if outcome = OutcomeReopened then Some now else fr_reopened_at old),
         fr_llm_model := fr_llm_model new, fr_prompt_version := fr_prompt_version new\<rparr>"

definition new_class_row :: "string \<Rightarrow> bool \<Rightarrow> string \<Rightarrow> int \<Rightarrow> class_row" where
  "new_class_row key security pv now =
     \<lparr>cl_key = key, cl_visibility = VisibilityPending, cl_security = security, cl_severity = None, cl_doc_ref = None,
      cl_first_prompt_version = nullIfEmpty pv, cl_first_seen = now, cl_last_seen = now\<rparr>"

definition merge_class :: "class_row \<Rightarrow> class_row \<Rightarrow> class_row" where
  "merge_class old new = old\<lparr>cl_last_seen := (if cl_last_seen old < cl_last_seen new then cl_last_seen new else cl_last_seen old)\<rparr>"

text \<open>\<open>INSERT ... ON CONFLICT(class_key) DO NOTHING\<close>.\<close>

definition seed_text :: "string \<Rightarrow> string \<Rightarrow> string \<Rightarrow> string \<Rightarrow> int \<Rightarrow> text_row list \<Rightarrow> text_row list" where
  "seed_text key title summary action now rows = upsert tx_key (\<lambda>old new. old)
     \<lparr>tx_key = key, tx_title = title, tx_summary = summary, tx_action = action, tx_title_override = None,
      tx_summary_override = None, tx_action_override = None, tx_created = now\<rparr> rows"

definition UpsertFinding :: "string \<Rightarrow> finding \<Rightarrow> int \<Rightarrow> logs_store \<Rightarrow> finding_outcome \<times> logs_store" where
  "UpsertFinding ulid f now s =
     (let outcome = finding_outcome_of f s;
          s1 = s\<lparr>ls_findings := upsert finding_pk (merge_finding outcome now) (new_finding_row ulid f now) (ls_findings s)\<rparr>;
          s2 = (if f_class_key f \<noteq> []
                then s1\<lparr>ls_classes := upsert cl_key merge_class
                          (new_class_row (f_class_key f) (f_security f) (f_prompt_version f) now) (ls_classes s1),
                        ls_texts := seed_text (f_class_key f) (f_title f) (f_summary f) (f_suggested_action f) now (ls_texts s1)\<rparr>
                else s1)
      in (outcome, s2))"

subsection \<open>Going stale\<close>

definition goes_stale :: "string \<Rightarrow> int \<Rightarrow> finding_row \<Rightarrow> bool" where
  "goes_stale systemID olderThan r \<longleftrightarrow> fr_system r = systemID \<and> fr_status r = StatusOpen \<and> fr_last_seen r < olderThan"

definition MarkStale :: "string \<Rightarrow> int \<Rightarrow> logs_store \<Rightarrow> int \<times> logs_store" where
  "MarkStale systemID olderThan s =
     (int (length (filter (goes_stale systemID olderThan) (ls_findings s))),
      s\<lparr>ls_findings := map (\<lambda>r. if goes_stale systemID olderThan r then r\<lparr>fr_status := StatusStale\<rparr> else r) (ls_findings s)\<rparr>)"

subsection \<open>Staying alive\<close>

text \<open>The lines of the window by canonical key, with the nodes they came from.\<close>

definition put_line :: "template \<Rightarrow> (string \<Rightarrow> int list option) \<Rightarrow> string \<Rightarrow> int list option" where
  "put_line t present =
     (let k = CanonicalKey (t_module_id t) (t_template t)
      in present(k := Some (MergeNodeIDs (case present k of None \<Rightarrow> [] | Some n \<Rightarrow> n) (t_nodes t))))"

definition lines_present :: "template list \<Rightarrow> string \<Rightarrow> int list option" where
  "lines_present ts = fold put_line ts (\<lambda>_. None)"

text \<open>The two nested loops of \<open>findingsSeenIn\<close> over one row.\<close>

definition see_line :: "(string \<Rightarrow> int list option) \<Rightarrow> string \<times> string \<Rightarrow> bool \<times> int list \<Rightarrow> bool \<times> int list" where
  "see_line present em st =
     (case present (CanonicalKey (snd em) (fst em)) of
        None \<Rightarrow> st
      | Some n \<Rightarrow> (True, MergeNodeIDs (snd st) n))"

definition seen_in :: "(string \<Rightarrow> int list option) \<Rightarrow> finding_row \<Rightarrow> bool \<times> int list" where
  "seen_in present r = fold (see_line present)
     (concat (map (\<lambda>ev. map (\<lambda>m. (ev, m)) (fr_modules r)) (fr_evidence r))) (False, [])"

record refresh_hit =
  rh_id :: string
  rh_class :: string
  rh_nodes :: "int list"

definition findingsSeenIn :: "string \<Rightarrow> (string \<Rightarrow> int list option) \<Rightarrow> logs_store \<Rightarrow> refresh_hit list" where
  "findingsSeenIn systemID present s =
     map (\<lambda>r. \<lparr>rh_id = fr_id r, rh_class = null_string (fr_class r), rh_nodes = snd (seen_in present r)\<rparr>)
       (filter (\<lambda>r. fr_system r = systemID \<and> fst (seen_in present r)) (ls_findings s))"

definition refresh_row :: "int \<Rightarrow> int list \<Rightarrow> finding_row \<Rightarrow> finding_row" where
  "refresh_row now nodes r =
     r\<lparr>fr_count := fr_count r + (if fr_last_seen r \<ge> now then 0 else 1),
       fr_last_seen := (if fr_last_seen r > now then fr_last_seen r else now),
       fr_reopened_at := (if fr_status r \<noteq> StatusOpen then Some now else fr_reopened_at r),
       fr_status := StatusOpen,
       fr_nodes := (if nodes \<noteq> [] then SanitizeNodeIDs nodes else fr_nodes r)\<rparr>"

definition refresh_class :: "int \<Rightarrow> string \<Rightarrow> class_row list \<Rightarrow> class_row list" where
  "refresh_class now key rows =
     map (\<lambda>c. if cl_key c = key \<and> cl_last_seen c < now then c\<lparr>cl_last_seen := now\<rparr> else c) rows"

definition refresh_text :: "int \<Rightarrow> string \<Rightarrow> finding_row list \<Rightarrow> text_row list \<Rightarrow> text_row list" where
  "refresh_text now fid frows rows =
     (case find_key fr_id fid frows of
        None \<Rightarrow> rows
      | Some r \<Rightarrow> seed_text (null_string (fr_class r)) (fr_title r) (fr_summary r) (fr_action r) now rows)"

definition refresh_one :: "int \<Rightarrow> refresh_hit \<Rightarrow> logs_store \<Rightarrow> logs_store" where
  "refresh_one now h s =
     (let s1 = s\<lparr>ls_findings := map (\<lambda>r. if fr_id r = rh_id h then refresh_row now (rh_nodes h) r else r) (ls_findings s)\<rparr>
      in if rh_class h \<noteq> []
         then s1\<lparr>ls_classes := refresh_class now (rh_class h) (ls_classes s1),
                 ls_texts := refresh_text now (rh_id h) (ls_findings s1) (ls_texts s1)\<rparr>
         else s1)"

definition RefreshFindings :: "string \<Rightarrow> template list \<Rightarrow> int \<Rightarrow> logs_store \<Rightarrow> int \<times> logs_store" where
  "RefreshFindings systemID ts now s =
     (if ts = [] then (0, s)
      else let hits = findingsSeenIn systemID (lines_present ts) s
           in (int (length hits), fold (refresh_one now) hits s))"

end
