(* ===== verification/Logs_Classes.thy ===== *)
theory Logs_Classes
  imports Logs_Findings GoUtf8
begin

text \<open>
  The review of finding classes, \<open>internal/store/logs/classes.go\<close> and the decisions of
  \<open>groups.go\<close>. A refused operation is rolled back: its result is \<open>Inl\<close> and the caller keeps the
  tables it had.
\<close>

subsection \<open>Decisions\<close>

definition ActionDeliver :: string where "ActionDeliver = ''deliver''"
definition ActionInternal :: string where "ActionInternal = ''internal''"
definition ActionDismiss :: string where "ActionDismiss = ''dismiss''"
definition ActionSecurity :: string where "ActionSecurity = ''security''"
definition ActionSeverity :: string where "ActionSeverity = ''severity''"
definition ActionDocRef :: string where "ActionDocRef = ''doc_ref''"
definition ActionTitle :: string where "ActionTitle = ''title''"
definition ActionSummary :: string where "ActionSummary = ''summary''"
definition ActionSuggestedAction :: string where "ActionSuggestedAction = ''suggested_action''"

datatype class_error = ErrUnknownClass | ErrInvalidSeverity | ErrInvalidVisibility

record wording =
  wo_title :: string
  wo_summary :: string
  wo_action :: string

record class_text =
  ct_seed :: wording
  ct_override :: wording

record finding_class =
  fc_key :: string
  fc_visibility :: string
  fc_security :: bool
  fc_severity_override :: string
  fc_doc_ref :: string
  fc_first_prompt_version :: string
  fc_first_seen :: int
  fc_last_seen :: int
  fc_text :: class_text

definition pick_wording :: "string \<Rightarrow> string \<Rightarrow> string" where
  "pick_wording override seed = (if override \<noteq> [] then override else seed)"

definition Customer :: "class_text \<Rightarrow> wording" where
  "Customer t =
     \<lparr>wo_title = pick_wording (wo_title (ct_override t)) (wo_title (ct_seed t)),
      wo_summary = pick_wording (wo_summary (ct_override t)) (wo_summary (ct_seed t)),
      wo_action = pick_wording (wo_action (ct_override t)) (wo_action (ct_seed t))\<rparr>"

definition no_wording :: wording where
  "no_wording = \<lparr>wo_title = [], wo_summary = [], wo_action = []\<rparr>"

definition Edited :: "class_text \<Rightarrow> bool" where
  "Edited t \<longleftrightarrow> ct_override t \<noteq> no_wording"

text \<open>A class without a row in the text table has the zero value.\<close>

fun class_text_of :: "text_row option \<Rightarrow> class_text" where
  "class_text_of None = \<lparr>ct_seed = no_wording, ct_override = no_wording\<rparr>"
| "class_text_of (Some t) =
     \<lparr>ct_seed = \<lparr>wo_title = tx_title t, wo_summary = tx_summary t, wo_action = tx_action t\<rparr>,
      ct_override = \<lparr>wo_title = null_string (tx_title_override t), wo_summary = null_string (tx_summary_override t),
        wo_action = null_string (tx_action_override t)\<rparr>\<rparr>"

definition set_class :: "string \<Rightarrow> (class_row \<Rightarrow> class_row) \<Rightarrow> logs_store \<Rightarrow> logs_store" where
  "set_class key change s = s\<lparr>ls_classes := map (\<lambda>c. if cl_key c = key then change c else c) (ls_classes s)\<rparr>"

definition set_text :: "string \<Rightarrow> (text_row \<Rightarrow> text_row) \<Rightarrow> logs_store \<Rightarrow> logs_store" where
  "set_text key change s = s\<lparr>ls_texts := map (\<lambda>t. if tx_key t = key then change t else t) (ls_texts s)\<rparr>"

definition add_decision :: "string \<Rightarrow> string \<Rightarrow> string \<Rightarrow> string \<Rightarrow> string \<Rightarrow> int \<Rightarrow> logs_store \<Rightarrow> logs_store" where
  "add_decision key actor action detail pv now s =
     s\<lparr>ls_decisions := ls_decisions s @
        [\<lparr>de_key = key, de_actor = actor, de_action = action, de_detail = nullIfEmpty detail,
          de_prompt_version = pv, de_at = now\<rparr>]\<rparr>"

text \<open>The shape every single decision shares; \<open>change\<close> and \<open>detail\<close> are what \<open>apply\<close> does.\<close>

definition classDecision ::
  "string \<Rightarrow> string \<Rightarrow> string \<Rightarrow> int \<Rightarrow> (class_row \<Rightarrow> class_row) \<Rightarrow> string \<Rightarrow> logs_store \<Rightarrow> class_error + logs_store" where
  "classDecision key actor action now change detail s =
     (case find_key cl_key key (ls_classes s) of
        None \<Rightarrow> Inl ErrUnknownClass
      | Some c \<Rightarrow> Inr (add_decision key actor action detail (null_string (cl_first_prompt_version c)) now
                        (set_class key change s)))"

definition visibilityAction :: "string \<Rightarrow> string option" where
  "visibilityAction visibility =
     (if visibility = VisibilityCustomer then Some ActionDeliver
      else if visibility = VisibilityOperator then Some ActionInternal
      else if visibility = VisibilityDismissed then Some ActionDismiss
      else None)"

definition SetClassVisibility :: "string \<Rightarrow> string \<Rightarrow> string \<Rightarrow> int \<Rightarrow> logs_store \<Rightarrow> class_error + logs_store" where
  "SetClassVisibility key visibility actor now s =
     (case visibilityAction visibility of
        None \<Rightarrow> Inl ErrInvalidVisibility
      | Some action \<Rightarrow> classDecision key actor action now (\<lambda>c. c\<lparr>cl_visibility := visibility\<rparr>) [] s)"

definition on_off :: "bool \<Rightarrow> string" where
  "on_off b = (if b then ''on'' else ''off'')"

definition SetClassSecurity :: "string \<Rightarrow> bool \<Rightarrow> string \<Rightarrow> int \<Rightarrow> logs_store \<Rightarrow> class_error + logs_store" where
  "SetClassSecurity key security actor now s =
     classDecision key actor ActionSecurity now (\<lambda>c. c\<lparr>cl_security := security\<rparr>) (on_off security) s"

definition SetClassSeverity :: "string \<Rightarrow> string \<Rightarrow> string \<Rightarrow> int \<Rightarrow> logs_store \<Rightarrow> class_error + logs_store" where
  "SetClassSeverity key severity actor now s =
     (if severity \<noteq> [] \<and> \<not> ValidSeverity severity then Inl ErrInvalidSeverity
      else classDecision key actor ActionSeverity now (\<lambda>c. c\<lparr>cl_severity := nullIfEmpty severity\<rparr>) severity s)"

definition SetClassDocRef :: "string \<Rightarrow> string \<Rightarrow> string \<Rightarrow> int \<Rightarrow> logs_store \<Rightarrow> class_error + logs_store" where
  "SetClassDocRef key docRef actor now s =
     classDecision key actor ActionDocRef now (\<lambda>c. c\<lparr>cl_doc_ref := nullIfEmpty docRef\<rparr>) docRef s"

subsection \<open>The review form\<close>

record class_update =
  cu_visibility :: string
  cu_security :: bool
  cu_severity_override :: string
  cu_doc_ref :: string
  cu_wording :: wording

definition wordingOverride :: "string \<Rightarrow> string \<Rightarrow> string" where
  "wordingOverride posted seed = (if TrimSpace posted = TrimSpace seed then [] else TrimSpace posted)"

text \<open>\<open>ORDER BY last_seen DESC, id LIMIT 1\<close>.\<close>

definition latest_finding :: "string \<Rightarrow> finding_row list \<Rightarrow> finding_row option" where
  "latest_finding key rows =
     (case sort_key (\<lambda>r. (- fr_last_seen r, fr_id r)) (filter (\<lambda>r. fr_class r = Some key) rows) of
        [] \<Rightarrow> None | r # _ \<Rightarrow> Some r)"

definition seedClassText :: "string \<Rightarrow> int \<Rightarrow> logs_store \<Rightarrow> class_text \<times> logs_store" where
  "seedClassText key now s =
     (let rows = (case latest_finding key (ls_findings s) of
                    None \<Rightarrow> seed_text key [] [] [] now (ls_texts s)
                  | Some r \<Rightarrow> seed_text key (fr_title r) (fr_summary r) (fr_action r) now (ls_texts s))
      in (class_text_of (find_key tx_key key rows),
          s\<lparr>ls_texts := rows\<rparr>))"

record class_change =
  cc_action :: string
  cc_detail :: string
  cc_apply :: "logs_store \<Rightarrow> logs_store"

definition change_if :: "bool \<Rightarrow> string \<Rightarrow> string \<Rightarrow> (logs_store \<Rightarrow> logs_store) \<Rightarrow> class_change list" where
  "change_if b action detail f = (if b then [\<lparr>cc_action = action, cc_detail = detail, cc_apply = f\<rparr>] else [])"

definition class_changes :: "string \<Rightarrow> class_update \<Rightarrow> class_row \<Rightarrow> class_text \<Rightarrow> class_change list" where
  "class_changes key u c text =
     (let title = wordingOverride (wo_title (cu_wording u)) (wo_title (ct_seed text));
          summary = wordingOverride (wo_summary (cu_wording u)) (wo_summary (ct_seed text));
          action = wordingOverride (wo_action (cu_wording u)) (wo_action (ct_seed text))
      in change_if (cu_visibility u \<noteq> [] \<and> cu_visibility u \<noteq> cl_visibility c)
           (null_string (visibilityAction (cu_visibility u))) [] (set_class key (\<lambda>c. c\<lparr>cl_visibility := cu_visibility u\<rparr>))
       @ change_if (cu_security u \<noteq> cl_security c)
           ActionSecurity (on_off (cu_security u)) (set_class key (\<lambda>c. c\<lparr>cl_security := cu_security u\<rparr>))
       @ change_if (cu_severity_override u \<noteq> null_string (cl_severity c))
           ActionSeverity (cu_severity_override u) (set_class key (\<lambda>c. c\<lparr>cl_severity := nullIfEmpty (cu_severity_override u)\<rparr>))
       @ change_if (cu_doc_ref u \<noteq> null_string (cl_doc_ref c))
           ActionDocRef (cu_doc_ref u) (set_class key (\<lambda>c. c\<lparr>cl_doc_ref := nullIfEmpty (cu_doc_ref u)\<rparr>))
       @ change_if (title \<noteq> wo_title (ct_override text))
           ActionTitle title (set_text key (\<lambda>t. t\<lparr>tx_title_override := nullIfEmpty title\<rparr>))
       @ change_if (summary \<noteq> wo_summary (ct_override text))
           ActionSummary summary (set_text key (\<lambda>t. t\<lparr>tx_summary_override := nullIfEmpty summary\<rparr>))
       @ change_if (action \<noteq> wo_action (ct_override text))
           ActionSuggestedAction action (set_text key (\<lambda>t. t\<lparr>tx_action_override := nullIfEmpty action\<rparr>)))"

definition apply_change :: "string \<Rightarrow> string \<Rightarrow> string \<Rightarrow> int \<Rightarrow> class_change \<Rightarrow> logs_store \<Rightarrow> logs_store" where
  "apply_change key actor pv now ch s = add_decision key actor (cc_action ch) (cc_detail ch) pv now (cc_apply ch s)"

definition UpdateClass :: "string \<Rightarrow> class_update \<Rightarrow> string \<Rightarrow> int \<Rightarrow> logs_store \<Rightarrow> class_error + (int \<times> logs_store)" where
  "UpdateClass key u actor now s =
     (if cu_visibility u \<noteq> [] \<and> visibilityAction (cu_visibility u) = None then Inl ErrInvalidVisibility
      else if cu_severity_override u \<noteq> [] \<and> \<not> ValidSeverity (cu_severity_override u) then Inl ErrInvalidSeverity
      else case find_key cl_key key (ls_classes s) of
             None \<Rightarrow> Inl ErrUnknownClass
           | Some c \<Rightarrow>
               (case seedClassText key now s of
                  (text, s1) \<Rightarrow>
                    (let changes = class_changes key u c text
                     in if changes = [] then Inr (0, s)
                        else Inr (int (length changes),
                                  fold (apply_change key actor (null_string (cl_first_prompt_version c)) now) changes s1))))"

subsection \<open>Decisions on several classes\<close>

definition SetClassGroup :: "group_row \<Rightarrow> logs_store \<Rightarrow> logs_store" where
  "SetClassGroup g s = s\<lparr>ls_groups := upsert gr_key (\<lambda>old new. new) g (ls_groups s)\<rparr>"

definition applyVisibility :: "string \<Rightarrow> string \<Rightarrow> string \<Rightarrow> string \<Rightarrow> int \<Rightarrow> class_row \<Rightarrow> logs_store \<Rightarrow> logs_store" where
  "applyVisibility visibility action detail actor now p s =
     add_decision (cl_key p) actor action detail (null_string (cl_first_prompt_version p)) now
       (set_class (cl_key p) (\<lambda>c. c\<lparr>cl_visibility := visibility\<rparr>) s)"

definition pendingGroupClasses :: "string \<Rightarrow> string list \<Rightarrow> logs_store \<Rightarrow> class_row list" where
  "pendingGroupClasses anchor members s =
     sort_key cl_key (filter (\<lambda>c. cl_visibility c = VisibilityPending \<and> cl_key c \<in> set members
        \<and> (case find_key gr_key (cl_key c) (ls_groups s) of None \<Rightarrow> False | Some g \<Rightarrow> gr_anchor g = anchor)) (ls_classes s))"

definition SetGroupVisibility ::
  "string \<Rightarrow> string list \<Rightarrow> string \<Rightarrow> string \<Rightarrow> int \<Rightarrow> logs_store \<Rightarrow> class_error + (int \<times> logs_store)" where
  "SetGroupVisibility anchor members visibility actor now s =
     (case visibilityAction visibility of
        None \<Rightarrow> Inl ErrInvalidVisibility
      | Some action \<Rightarrow>
          if \<not> list_ex (\<lambda>g. gr_anchor g = anchor) (ls_groups s) then Inl ErrUnknownClass
          else (let todo = pendingGroupClasses anchor members s
                in Inr (int (length todo),
                        fold (applyVisibility visibility action (''group '' @ anchor) actor now) todo s)))"

definition changingClasses :: "string list \<Rightarrow> string \<Rightarrow> logs_store \<Rightarrow> class_row list" where
  "changingClasses keys visibility s =
     sort_key cl_key (filter (\<lambda>c. cl_visibility c \<noteq> visibility \<and> cl_key c \<in> set keys) (ls_classes s))"

definition SetClassesVisibility ::
  "string list \<Rightarrow> string \<Rightarrow> string \<Rightarrow> int \<Rightarrow> logs_store \<Rightarrow> class_error + (int \<times> logs_store)" where
  "SetClassesVisibility keys visibility actor now s =
     (case visibilityAction visibility of
        None \<Rightarrow> Inl ErrInvalidVisibility
      | Some action \<Rightarrow>
          if keys = [] then Inr (0, s)
          else (let todo = changingClasses keys visibility s
                in Inr (int (length todo), fold (applyVisibility visibility action ''bulk'' actor now) todo s)))"

subsection \<open>Reads\<close>

definition ExistingClasses :: "string list \<Rightarrow> logs_store \<Rightarrow> string set" where
  "ExistingClasses keys s = set (filter (\<lambda>k. k \<in> set keys) (map cl_key (ls_classes s)))"

definition GetClass :: "string \<Rightarrow> logs_store \<Rightarrow> finding_class option" where
  "GetClass key s = map_option (\<lambda>c.
     \<lparr>fc_key = cl_key c, fc_visibility = cl_visibility c, fc_security = cl_security c,
      fc_severity_override = null_string (cl_severity c), fc_doc_ref = null_string (cl_doc_ref c),
      fc_first_prompt_version = null_string (cl_first_prompt_version c),
      fc_first_seen = cl_first_seen c, fc_last_seen = cl_last_seen c,
      fc_text = class_text_of (find_key tx_key (cl_key c) (ls_texts s))\<rparr>)
     (find_key cl_key key (ls_classes s))"

definition ClassDecisions :: "string \<Rightarrow> logs_store \<Rightarrow> decision_row list" where
  "ClassDecisions key s = sort_key de_at (filter (\<lambda>d. de_key d = key) (ls_decisions s))"

end
