(* ===== verification/Logs_Prune.thy ===== *)
theory Logs_Prune
  imports Logs_Classes
begin

text \<open>
  Pruning, \<open>internal/store/logs/prune.go\<close>, and the maintenance pass over it, \<open>internal/maint\<close>.
  A statement deletes at most \<open>pruneBatchSize\<close> rows, here the first matching ones, and the loop
  runs until a batch is not full. \<open>stop i\<close> says that the pass fails or is cancelled before batch
  \<open>i\<close>; the batches before it stay deleted.
\<close>

subsection \<open>The loop\<close>

fun delete_batch :: "nat \<Rightarrow> ('r \<Rightarrow> bool) \<Rightarrow> 'r list \<Rightarrow> nat \<times> 'r list" where
  "delete_batch n P [] = (0, [])"
| "delete_batch 0 P rows = (0, rows)"
| "delete_batch (Suc n) P (r # rs) =
     (if P r then (case delete_batch n P rs of (k, rest) \<Rightarrow> (Suc k, rest))
      else (case delete_batch (Suc n) P rs of (k, rest) \<Rightarrow> (k, r # rest)))"

lemma delete_batch_le: "fst (delete_batch n P rows) \<le> n"
  by (induction n P rows rule: delete_batch.induct) (auto split: prod.splits)

lemma delete_batch_length: "fst (delete_batch n P rows) + length (snd (delete_batch n P rows)) = length rows"
  by (induction n P rows rule: delete_batch.induct) (auto split: prod.splits)

lemma delete_batch_filter: "filter (\<lambda>r. \<not> P r) (snd (delete_batch n P rows)) = filter (\<lambda>r. \<not> P r) rows"
  by (induction n P rows rule: delete_batch.induct) (auto split: prod.splits)

lemma delete_batch_short: "fst (delete_batch n P rows) < n \<Longrightarrow> snd (delete_batch n P rows) = filter (\<lambda>r. \<not> P r) rows"
  by (induction n P rows rule: delete_batch.induct) (auto split: prod.splits if_splits)

text \<open>A deletion keeps the primary key and never loses a row that does not match.\<close>

lemma delete_batch_set: "set (snd (delete_batch n P rows)) \<subseteq> set rows"
  by (induction n P rows rule: delete_batch.induct) (auto split: prod.splits if_splits)

lemma delete_batch_find:
  "keys_unique key rows \<Longrightarrow> keys_unique key (snd (delete_batch n P rows))
     \<and> (find_key key k (snd (delete_batch n P rows)) = find_key key k rows
        \<or> find_key key k (snd (delete_batch n P rows)) = None \<and> (\<exists>r. find_key key k rows = Some r \<and> P r))"
proof (induction n P rows rule: delete_batch.induct)
  case (3 n P r rs)
  have u: "keys_unique key rs" "key r \<notin> key ` set rs" using "3.prems" by (auto simp: keys_unique_def)
  note sub = delete_batch_set [of n P rs] delete_batch_set [of "Suc n" P rs]
  show ?case
  proof (cases "P r")
    case True
    have "find_key key (key r) (snd (delete_batch n P rs)) = None"
      using u sub(1) by (auto simp: find_key_None)
    then show ?thesis using "3.IH"(1) [OF True u(1)] True by (auto split: prod.splits)
  next
    case False
    have "keys_unique key (r # snd (delete_batch (Suc n) P rs))"
      using "3.IH"(2) [OF False u(1)] u(2) sub(2) by (auto simp: keys_unique_def)
    then show ?thesis using "3.IH"(2) [OF False u(1)] False by (auto split: prod.splits)
  qed
qed auto

text \<open>The batch size is \<open>Suc b\<close>: with a size of 0 the loop would never end.\<close>

function prune_loop :: "nat \<Rightarrow> (nat \<Rightarrow> bool) \<Rightarrow> nat \<Rightarrow> ('r \<Rightarrow> bool) \<Rightarrow> 'r list \<Rightarrow> nat \<times> bool \<times> 'r list" where
  "prune_loop b stop i P rows =
     (if stop i then (0, False, rows)
      else if fst (delete_batch (Suc b) P rows) < Suc b
      then (fst (delete_batch (Suc b) P rows), True, snd (delete_batch (Suc b) P rows))
      else (case prune_loop b stop (Suc i) P (snd (delete_batch (Suc b) P rows)) of
              (n, ok, rest) \<Rightarrow> (fst (delete_batch (Suc b) P rows) + n, ok, rest)))"
  by auto
termination
proof (relation "measure (\<lambda>(b, stop, i, P, rows). length rows)")
  fix b :: nat and stop :: "nat \<Rightarrow> bool" and i :: nat and P :: "'r \<Rightarrow> bool" and rows :: "'r list"
  assume "\<not> fst (delete_batch (Suc b) P rows) < Suc b"
  then show "((b, stop, Suc i, P, snd (delete_batch (Suc b) P rows)), (b, stop, i, P, rows))
      \<in> measure (\<lambda>(b, stop, i, P, rows). length rows)"
    using delete_batch_length [of "Suc b" P rows] by simp
qed simp

declare prune_loop.simps [simp del]

definition pruneBatchSize :: nat where "pruneBatchSize = 5000"

type_synonym batch_stop = "nat \<Rightarrow> bool"

definition pruneLoop :: "batch_stop \<Rightarrow> ('r \<Rightarrow> bool) \<Rightarrow> 'r list \<Rightarrow> nat \<times> bool \<times> 'r list" where
  "pruneLoop stop P rows = prune_loop (pruneBatchSize - 1) stop 0 P rows"

lemma prune_loop_keeps: "filter (\<lambda>r. \<not> P r) (snd (snd (prune_loop b stop i P rows))) = filter (\<lambda>r. \<not> P r) rows"
proof (induction b stop i P rows rule: prune_loop.induct)
  case (1 b stop i P rows)
  then show ?case
    by (subst prune_loop.simps) (auto simp: delete_batch_filter split: prod.splits)
qed

lemma prune_loop_done:
  "fst (snd (prune_loop b stop i P rows)) \<Longrightarrow> snd (snd (prune_loop b stop i P rows)) = filter (\<lambda>r. \<not> P r) rows"
proof (induction b stop i P rows rule: prune_loop.induct)
  case (1 b stop i P rows)
  note step = prune_loop.simps [of b stop i P rows]
  from 1 show ?case unfolding step
    by (auto simp: delete_batch_filter delete_batch_short split: prod.splits if_splits)
qed

lemma prune_loop_count:
  "fst (prune_loop b stop i P rows) + length (snd (snd (prune_loop b stop i P rows))) = length rows"
proof (induction b stop i P rows rule: prune_loop.induct)
  case (1 b stop i P rows)
  show ?case
    using 1 delete_batch_length [of "Suc b" P rows]
    by (subst (1 2) prune_loop.simps) (auto split: prod.splits)
qed

lemma prune_loop_find:
  "keys_unique key rows \<Longrightarrow> keys_unique key (snd (snd (prune_loop b stop i P rows)))
     \<and> (find_key key k (snd (snd (prune_loop b stop i P rows))) = find_key key k rows
        \<or> find_key key k (snd (snd (prune_loop b stop i P rows))) = None \<and> (\<exists>r. find_key key k rows = Some r \<and> P r))"
proof (induction b stop i P rows rule: prune_loop.induct)
  case (1 b stop i P rows)
  note step = prune_loop.simps [of b stop i P rows]
  let ?rest = "snd (delete_batch (Suc b) P rows)"
  have d: "keys_unique key ?rest \<and> (find_key key k ?rest = find_key key k rows
      \<or> find_key key k ?rest = None \<and> (\<exists>r. find_key key k rows = Some r \<and> P r))"
    by (rule delete_batch_find [OF 1(2)])
  show ?case
  proof (cases "stop i \<or> fst (delete_batch (Suc b) P rows) < Suc b")
    case True
    then show ?thesis unfolding step using d 1(2) by auto
  next
    case False
    then have IH: "keys_unique key (snd (snd (prune_loop b stop (Suc i) P ?rest)))
       \<and> (find_key key k (snd (snd (prune_loop b stop (Suc i) P ?rest))) = find_key key k ?rest
        \<or> find_key key k (snd (snd (prune_loop b stop (Suc i) P ?rest))) = None
           \<and> (\<exists>r. find_key key k ?rest = Some r \<and> P r))"
      using 1(1) d by blast
    have "snd (snd (prune_loop b stop i P rows)) = snd (snd (prune_loop b stop (Suc i) P ?rest))"
      unfolding step using False by (auto split: prod.splits)
    then show ?thesis using IH d by (auto simp del: ex_simps)
  qed
qed

lemma prune_loop_total: "(\<And>k. \<not> stop k) \<Longrightarrow> fst (snd (prune_loop b stop i P rows))"
proof (induction b stop i P rows rule: prune_loop.induct)
  case (1 b stop i P rows)
  note step = prune_loop.simps [of b stop i P rows]
  have "\<not> fst (delete_batch (Suc b) P rows) < Suc b \<Longrightarrow> fst (snd (prune_loop b stop (Suc i) P (snd (delete_batch (Suc b) P rows))))"
    using 1 by blast
  then show ?case unfolding step using 1(2) by (auto split: prod.splits)
qed

subsection \<open>The tables\<close>

definition prune_templates :: "batch_stop \<Rightarrow> int \<Rightarrow> logs_store \<Rightarrow> nat \<times> bool \<times> logs_store" where
  "prune_templates stop olderThan s =
     (case pruneLoop stop (\<lambda>r. lt_last_seen r < olderThan) (ls_templates s) of (n, ok, rows) \<Rightarrow> (n, ok, s\<lparr>ls_templates := rows\<rparr>))"

definition prune_nodes :: "batch_stop \<Rightarrow> int \<Rightarrow> logs_store \<Rightarrow> nat \<times> bool \<times> logs_store" where
  "prune_nodes stop olderThan s =
     (case pruneLoop stop (\<lambda>r. no_last_seen r < olderThan) (ls_nodes s) of (n, ok, rows) \<Rightarrow> (n, ok, s\<lparr>ls_nodes := rows\<rparr>))"

definition prune_findings :: "batch_stop \<Rightarrow> int \<Rightarrow> logs_store \<Rightarrow> nat \<times> bool \<times> logs_store" where
  "prune_findings stop olderThan s =
     (case pruneLoop stop (\<lambda>r. fr_status r \<noteq> StatusOpen \<and> fr_last_seen r < olderThan) (ls_findings s) of
        (n, ok, rows) \<Rightarrow> (n, ok, s\<lparr>ls_findings := rows\<rparr>))"

definition prune_analyses :: "batch_stop \<Rightarrow> int \<Rightarrow> logs_store \<Rightarrow> nat \<times> bool \<times> logs_store" where
  "prune_analyses stop olderThan s =
     (case pruneLoop stop (\<lambda>r. an_created r < olderThan) (ls_analyses s) of (n, ok, rows) \<Rightarrow> (n, ok, s\<lparr>ls_analyses := rows\<rparr>))"

definition class_unused :: "int \<Rightarrow> logs_store \<Rightarrow> class_row \<Rightarrow> bool" where
  "class_unused olderThan s c \<longleftrightarrow> cl_last_seen c < olderThan
     \<and> \<not> list_ex (\<lambda>d. de_key d = cl_key c) (ls_decisions s)
     \<and> \<not> list_ex (\<lambda>f. fr_class f = Some (cl_key c)) (ls_findings s)"

definition class_stored :: "logs_store \<Rightarrow> string \<Rightarrow> bool" where
  "class_stored s key \<longleftrightarrow> list_ex (\<lambda>c. cl_key c = key) (ls_classes s)"

text \<open>Three loops; a failure of one ends the operation. The count is that of the classes.\<close>

definition prune_classes :: "batch_stop \<Rightarrow> batch_stop \<Rightarrow> batch_stop \<Rightarrow> int \<Rightarrow> logs_store \<Rightarrow> nat \<times> bool \<times> logs_store" where
  "prune_classes stop1 stop2 stop3 olderThan s =
     (case pruneLoop stop1 (class_unused olderThan s) (ls_classes s) of (n, ok1, classes) \<Rightarrow>
       (let s1 = s\<lparr>ls_classes := classes\<rparr>
        in if \<not> ok1 then (n, False, s1)
           else case pruneLoop stop2 (\<lambda>g. \<not> class_stored s1 (gr_key g)) (ls_groups s1) of (_, ok2, groups) \<Rightarrow>
             (let s2 = s1\<lparr>ls_groups := groups\<rparr>
              in if \<not> ok2 then (n, False, s2)
                 else case pruneLoop stop3 (\<lambda>t. \<not> class_stored s2 (tx_key t)) (ls_texts s2) of (_, ok3, texts) \<Rightarrow>
                   (n, ok3, s2\<lparr>ls_texts := texts\<rparr>))))"

subsection \<open>The maintenance pass\<close>

record maint_config =
  mc_template_retention :: int
  mc_finding_retention :: int
  mc_analysis_retention :: int

datatype prune_call = PrTemplates | PrFindings | PrClasses | PrClassGroups | PrClassTexts | PrAnalyses | PrNodes

text \<open>A failed prune is logged and counts for 0; the others run all the same.\<close>

definition pruned :: "nat \<times> bool \<times> logs_store \<Rightarrow> nat \<times> logs_store" where
  "pruned r = (case r of (n, ok, s) \<Rightarrow> (if ok then n else 0, s))"

definition maint_Run :: "(prune_call \<Rightarrow> batch_stop) \<Rightarrow> maint_config \<Rightarrow> int \<Rightarrow> logs_store \<Rightarrow> nat list \<times> logs_store" where
  "maint_Run stop cfg now s =
     (let (templates, s1) = pruned (prune_templates (stop PrTemplates) (now - mc_template_retention cfg) s);
          (findings, s2) = pruned (prune_findings (stop PrFindings) (now - mc_finding_retention cfg) s1);
          (classes, s3) = pruned (prune_classes (stop PrClasses) (stop PrClassGroups) (stop PrClassTexts)
                                    (now - mc_finding_retention cfg) s2);
          (analyses, s4) = pruned (prune_analyses (stop PrAnalyses) (now - mc_analysis_retention cfg) s3);
          (nodes, s5) = pruned (prune_nodes (stop PrNodes) (now - mc_template_retention cfg) s4)
      in ([templates, findings, classes, analyses, nodes], s5))"

subsection \<open>Properties\<close>

lemma prune_loop_exact:
  "prune_loop b (\<lambda>_. False) i P rows = (length (filter P rows), True, filter (\<lambda>r. \<not> P r) rows)"
proof -
  let ?r = "prune_loop b (\<lambda>_. False) i P rows"
  have ok: "fst (snd ?r)" by (rule prune_loop_total) simp
  then have rest: "snd (snd ?r) = filter (\<lambda>r. \<not> P r) rows" by (rule prune_loop_done)
  have "fst ?r + length (filter (\<lambda>r. \<not> P r) rows) = length rows"
    using prune_loop_count [of b "\<lambda>_. False" i P rows] rest by simp
  then have "fst ?r = length (filter P rows)" using sum_length_filter_compl [of P rows] by linarith
  then show ?thesis using ok rest by (simp add: prod_eq_iff)
qed

text \<open>
  C33: pruning in batches is exact, whatever the batch size, so long as it is positive. Left
  alone, the loop ends and leaves precisely the rows that do not match, and counts precisely
  those that do; stopped anywhere, by a failure or by a cancellation, it has still deleted
  matching rows only and its count is the number of rows gone. \<open>pruneLoop\<close> is that loop at the
  size the program uses, so no row depends on it.
\<close>

theorem pruneLoop_exact:
  "prune_loop b (\<lambda>_. False) i P rows = (length (filter P rows), True, filter (\<lambda>r. \<not> P r) rows)
   \<and> filter (\<lambda>r. \<not> P r) (snd (snd (prune_loop b stop i P rows))) = filter (\<lambda>r. \<not> P r) rows
   \<and> fst (prune_loop b stop i P rows) + length (snd (snd (prune_loop b stop i P rows))) = length rows
   \<and> pruneLoop (\<lambda>_. False) P rows = (length (filter P rows), True, filter (\<lambda>r. \<not> P r) rows)"
  by (simp add: prune_loop_exact prune_loop_keeps prune_loop_count pruneLoop_def)

end
