(* ===== verification/Logs_History.thy ===== *)
theory Logs_History
  imports Logs_Prune
begin

text \<open>
  Histories of the log store: every operation that writes it, in any order, and what holds after
  each of them. The audit trail of the classes is the abstract view of what the operators
  decided; the tables implement it.
\<close>

subsection \<open>Operations\<close>

datatype logs_event =
    EvSystem system_row
  | EvTemplates string "template list" int
  | EvNodes nat string "node_info list" int
  | EvBegin string int int int
  | EvAttemptError string int "string list" int string
  | EvFinalize analysis
  | EvFinding string finding int
  | EvStale string int
  | EvRefresh string "template list" int
  | EvVisibility string string string int
  | EvSecurity string bool string int
  | EvSeverity string string string int
  | EvDocRef string string string int
  | EvUpdate string class_update string int
  | EvGroup group_row
  | EvGroupVisibility string "string list" string string int
  | EvClassesVisibility "string list" string string int
  | EvMaint "prune_call \<Rightarrow> batch_stop" maint_config int

definition committed :: "'e + logs_store \<Rightarrow> logs_store \<Rightarrow> logs_store" where
  "committed r s = (case r of Inl _ \<Rightarrow> s | Inr s' \<Rightarrow> s')"

definition committed2 :: "'e + (int \<times> logs_store) \<Rightarrow> logs_store \<Rightarrow> logs_store" where
  "committed2 r s = (case r of Inl _ \<Rightarrow> s | Inr (_, s') \<Rightarrow> s')"

fun logs_step :: "logs_event \<Rightarrow> logs_store \<Rightarrow> logs_store" where
  "logs_step (EvSystem r) s = UpsertSystem r s"
| "logs_step (EvTemplates sys ts now) s = UpsertTemplates sys ts now s"
| "logs_step (EvNodes n sys ns now) s = UpsertNodes_upto n sys ns now s"
| "logs_step (EvBegin sys ws we now) s = snd (BeginAnalysis sys ws we now s)"
| "logs_step (EvAttemptError sys ws rs ms msg) s = RecordAttemptError sys ws rs ms msg s"
| "logs_step (EvFinalize a) s = FinalizeAnalysis a s"
| "logs_step (EvFinding ulid f now) s = snd (UpsertFinding ulid f now s)"
| "logs_step (EvStale sys t) s = snd (MarkStale sys t s)"
| "logs_step (EvRefresh sys ts now) s = snd (RefreshFindings sys ts now s)"
| "logs_step (EvVisibility k v a now) s = committed (SetClassVisibility k v a now s) s"
| "logs_step (EvSecurity k b a now) s = committed (SetClassSecurity k b a now s) s"
| "logs_step (EvSeverity k sev a now) s = committed (SetClassSeverity k sev a now s) s"
| "logs_step (EvDocRef k d a now) s = committed (SetClassDocRef k d a now s) s"
| "logs_step (EvUpdate k u a now) s = committed2 (UpdateClass k u a now s) s"
| "logs_step (EvGroup g) s = SetClassGroup g s"
| "logs_step (EvGroupVisibility g ms v a now) s = committed2 (SetGroupVisibility g ms v a now s) s"
| "logs_step (EvClassesVisibility ks v a now) s = committed2 (SetClassesVisibility ks v a now s) s"
| "logs_step (EvMaint stop cfg now) s = snd (maint_Run stop cfg now s)"

definition logs_run :: "logs_event list \<Rightarrow> logs_store" where
  "logs_run evs = fold logs_step evs empty_logs"

subsection \<open>The trail\<close>

definition action_visibility :: "string \<Rightarrow> string option" where
  "action_visibility a =
     (if a = ActionDeliver then Some VisibilityCustomer else if a = ActionInternal then Some VisibilityOperator
      else if a = ActionDismiss then Some VisibilityDismissed else None)"

text \<open>The last decision of a class, newest last: its visibility, and the detail of an action.\<close>

fun trail_visibility :: "string \<Rightarrow> decision_row list \<Rightarrow> string" where
  "trail_visibility k [] = VisibilityPending"
| "trail_visibility k (d # older) =
     (case (if de_key d = k then action_visibility (de_action d) else None) of
        Some v \<Rightarrow> v | None \<Rightarrow> trail_visibility k older)"

fun trail_detail :: "string \<Rightarrow> string \<Rightarrow> decision_row list \<Rightarrow> string" where
  "trail_detail k a [] = []"
| "trail_detail k a (d # older) =
     (if de_key d = k \<and> de_action d = a then null_string (de_detail d) else trail_detail k a older)"

definition live_visibility :: "string \<Rightarrow> logs_store \<Rightarrow> string" where
  "live_visibility k s = (case find_key cl_key k (ls_classes s) of None \<Rightarrow> VisibilityPending | Some c \<Rightarrow> cl_visibility c)"

definition class_field :: "(class_row \<Rightarrow> string option) \<Rightarrow> string \<Rightarrow> logs_store \<Rightarrow> string" where
  "class_field f k s = (case find_key cl_key k (ls_classes s) of None \<Rightarrow> [] | Some c \<Rightarrow> null_string (f c))"

definition text_field :: "(text_row \<Rightarrow> string option) \<Rightarrow> string \<Rightarrow> logs_store \<Rightarrow> string" where
  "text_field f k s = (case find_key tx_key k (ls_texts s) of None \<Rightarrow> [] | Some t \<Rightarrow> null_string (f t))"

definition decisions_of :: "logs_store \<Rightarrow> decision_row list" where
  "decisions_of s = rev (ls_decisions s)"

definition audited :: "logs_store \<Rightarrow> string \<Rightarrow> bool" where
  "audited s k \<longleftrightarrow>
     live_visibility k s = trail_visibility k (decisions_of s)
     \<and> class_field cl_severity k s = trail_detail k ActionSeverity (decisions_of s)
     \<and> class_field cl_doc_ref k s = trail_detail k ActionDocRef (decisions_of s)
     \<and> text_field tx_title_override k s = trail_detail k ActionTitle (decisions_of s)
     \<and> text_field tx_summary_override k s = trail_detail k ActionSummary (decisions_of s)
     \<and> text_field tx_action_override k s = trail_detail k ActionSuggestedAction (decisions_of s)"

definition review_inv :: "logs_store \<Rightarrow> bool" where
  "review_inv s \<longleftrightarrow> keys_unique cl_key (ls_classes s) \<and> keys_unique tx_key (ls_texts s)
     \<and> de_key ` set (ls_decisions s) \<subseteq> cl_key ` set (ls_classes s)
     \<and> (\<forall>k. audited s k)"

subsection \<open>Decisions keep the trail\<close>

lemmas action_defs = ActionDeliver_def ActionInternal_def ActionDismiss_def ActionSecurity_def ActionSeverity_def
  ActionDocRef_def ActionTitle_def ActionSummary_def ActionSuggestedAction_def

lemma action_visibility_simps [simp]:
  "action_visibility ActionSecurity = None" "action_visibility ActionSeverity = None"
  "action_visibility ActionDocRef = None" "action_visibility ActionTitle = None"
  "action_visibility ActionSummary = None" "action_visibility ActionSuggestedAction = None"
  by (simp_all add: action_visibility_def action_defs)

lemma visibilityAction_action: "visibilityAction v = Some a \<Longrightarrow> action_visibility a = Some v
    \<and> a \<notin> {ActionSeverity, ActionDocRef, ActionTitle, ActionSummary, ActionSuggestedAction, ActionSecurity}"
  by (auto simp: visibilityAction_def action_visibility_def action_defs split: if_splits)

lemma actions_distinct [simp]:
  "distinct [ActionSecurity, ActionSeverity, ActionDocRef, ActionTitle, ActionSummary, ActionSuggestedAction]"
  by (simp add: action_defs)

lemma action_neq [simp]:
  "ActionSecurity \<noteq> ActionSeverity" "ActionSecurity \<noteq> ActionDocRef" "ActionSecurity \<noteq> ActionTitle"
  "ActionSecurity \<noteq> ActionSummary" "ActionSecurity \<noteq> ActionSuggestedAction"
  "ActionSeverity \<noteq> ActionDocRef" "ActionSeverity \<noteq> ActionTitle" "ActionSeverity \<noteq> ActionSummary"
  "ActionSeverity \<noteq> ActionSuggestedAction" "ActionDocRef \<noteq> ActionTitle" "ActionDocRef \<noteq> ActionSummary"
  "ActionDocRef \<noteq> ActionSuggestedAction" "ActionTitle \<noteq> ActionSummary" "ActionTitle \<noteq> ActionSuggestedAction"
  "ActionSummary \<noteq> ActionSuggestedAction"
  by (simp_all add: action_defs)

lemma decisions_of_add [simp]:
  "decisions_of (add_decision k actor a d pv now s) =
     \<lparr>de_key = k, de_actor = actor, de_action = a, de_detail = nullIfEmpty d, de_prompt_version = pv, de_at = now\<rparr> # decisions_of s"
  by (simp add: decisions_of_def add_decision_def)

lemma add_decision_frame [simp]:
  "ls_classes (add_decision k actor a d pv now s) = ls_classes s"
  "ls_texts (add_decision k actor a d pv now s) = ls_texts s"
  "ls_findings (add_decision k actor a d pv now s) = ls_findings s"
  "ls_templates (add_decision k actor a d pv now s) = ls_templates s"
  by (simp_all add: add_decision_def)

text \<open>A decision that writes only the class or only the text of its key.\<close>

definition review_frame :: "string \<Rightarrow> logs_store \<Rightarrow> logs_store \<Rightarrow> bool" where
  "review_frame key s s' \<longleftrightarrow> map cl_key (ls_classes s') = map cl_key (ls_classes s)
     \<and> map tx_key (ls_texts s') = map tx_key (ls_texts s) \<and> ls_decisions s' = ls_decisions s
     \<and> (\<forall>k. k \<noteq> key \<longrightarrow> find_key cl_key k (ls_classes s') = find_key cl_key k (ls_classes s)
             \<and> find_key tx_key k (ls_texts s') = find_key tx_key k (ls_texts s))"

lemma review_frame_set_class: "(\<And>c. cl_key (f c) = cl_key c) \<Longrightarrow> review_frame key s (set_class key f s)"
  by (simp add: review_frame_def set_class_def find_key_update map_key_update)

lemma review_frame_set_text: "(\<And>t. tx_key (f t) = tx_key t) \<Longrightarrow> review_frame key s (set_text key f s)"
  by (simp add: review_frame_def set_text_def find_key_update map_key_update)

lemma review_inv_decide:
  assumes "review_inv s" "review_frame key s s'" "key \<in> cl_key ` set (ls_classes s)"
    "audited (add_decision key actor a d pv now s') key"
  shows "review_inv (add_decision key actor a d pv now s')"
proof -
  have k: "cl_key ` set (ls_classes s') = cl_key ` set (ls_classes s)"
    using assms(2) by (metis list.set_map review_frame_def)
  have "decisions_of s' = decisions_of s" using assms(2) by (simp add: decisions_of_def review_frame_def)
  then have "audited (add_decision key actor a d pv now s') k" if "k \<noteq> key" for k
    using assms(1,2) that
    by (simp add: review_inv_def audited_def review_frame_def live_visibility_def class_field_def text_field_def)
  then have "audited (add_decision key actor a d pv now s') k" for k using assms(4) by (cases "k = key") simp_all
  moreover have "de_key ` set (ls_decisions (add_decision key actor a d pv now s')) \<subseteq> cl_key ` set (ls_classes s)"
    using assms by (auto simp: add_decision_def review_frame_def review_inv_def)
  ultimately show ?thesis using assms(1,2) k by (simp add: review_inv_def keys_unique_def review_frame_def)
qed

text \<open>The effect of each change on the key it is about.\<close>

lemma decided_class:
  assumes "find_key cl_key key (ls_classes s) = Some c" "\<And>c. cl_key (f c) = cl_key c"
  shows "live_visibility key (add_decision key actor a d pv now (set_class key f s)) = cl_visibility (f c)"
    "class_field g key (add_decision key actor a d pv now (set_class key f s)) = null_string (g (f c))"
    "text_field h key (add_decision key actor a d pv now (set_class key f s)) = text_field h key s"
    "decisions_of (set_class key f s) = decisions_of s"
  using assms by (simp_all add: live_visibility_def class_field_def text_field_def set_class_def find_key_update decisions_of_def)

lemma decided_text:
  assumes "find_key tx_key key (ls_texts s) = Some t" "\<And>t. tx_key (f t) = tx_key t"
  shows "live_visibility key (add_decision key actor a d pv now (set_text key f s)) = live_visibility key s"
    "class_field g key (add_decision key actor a d pv now (set_text key f s)) = class_field g key s"
    "text_field h key (add_decision key actor a d pv now (set_text key f s)) = null_string (h (f t))"
    "decisions_of (set_text key f s) = decisions_of s"
  using assms by (simp_all add: live_visibility_def class_field_def text_field_def set_text_def find_key_update decisions_of_def)

lemma stored_class:
  "find_key cl_key key (ls_classes s) = Some c \<Longrightarrow> live_visibility key s = cl_visibility c"
  "find_key cl_key key (ls_classes s) = Some c \<Longrightarrow> class_field g key s = null_string (g c)"
  "find_key tx_key key (ls_texts s) = Some t \<Longrightarrow> text_field h key s = null_string (h t)"
  by (simp_all add: live_visibility_def class_field_def text_field_def)

lemma audited_visibility:
  assumes "audited s key" "key \<in> cl_key ` set (ls_classes s)" "visibilityAction v = Some a"
  shows "audited (add_decision key actor a d pv now (set_class key (\<lambda>c. c\<lparr>cl_visibility := v\<rparr>) s)) key"
proof -
  obtain c where c: "find_key cl_key key (ls_classes s) = Some c" using find_key_stored [OF assms(2)] by blast
  note D = decided_class [OF c, where f = "\<lambda>c. c\<lparr>cl_visibility := v\<rparr>", simplified]
  show ?thesis using assms(1) visibilityAction_action [OF assms(3)] stored_class(1,2) [OF c]
    unfolding audited_def D decisions_of_add by simp
qed

lemma audited_class_field:
  assumes "audited s key" "key \<in> cl_key ` set (ls_classes s)"
  shows "audited (add_decision key actor ActionSecurity d pv now (set_class key (\<lambda>c. c\<lparr>cl_security := b\<rparr>) s)) key"
    "audited (add_decision key actor ActionSeverity x pv now (set_class key (\<lambda>c. c\<lparr>cl_severity := nullIfEmpty x\<rparr>) s)) key"
    "audited (add_decision key actor ActionDocRef x pv now (set_class key (\<lambda>c. c\<lparr>cl_doc_ref := nullIfEmpty x\<rparr>) s)) key"
proof -
  obtain c where c: "find_key cl_key key (ls_classes s) = Some c" using find_key_stored [OF assms(2)] by blast
  note D1 = decided_class [OF c, where f = "\<lambda>c. c\<lparr>cl_security := b\<rparr>", simplified]
    and D2 = decided_class [OF c, where f = "\<lambda>c. c\<lparr>cl_severity := nullIfEmpty x\<rparr>", simplified]
    and D3 = decided_class [OF c, where f = "\<lambda>c. c\<lparr>cl_doc_ref := nullIfEmpty x\<rparr>", simplified]
    and N = action_neq [symmetric]
  show "audited (add_decision key actor ActionSecurity d pv now (set_class key (\<lambda>c. c\<lparr>cl_security := b\<rparr>) s)) key"
    using assms(1) stored_class(1,2) [OF c] unfolding audited_def D1 decisions_of_add by (simp add: N)
  show "audited (add_decision key actor ActionSeverity x pv now (set_class key (\<lambda>c. c\<lparr>cl_severity := nullIfEmpty x\<rparr>) s)) key"
    using assms(1) stored_class(1,2) [OF c] unfolding audited_def D2 decisions_of_add by (simp add: N)
  show "audited (add_decision key actor ActionDocRef x pv now (set_class key (\<lambda>c. c\<lparr>cl_doc_ref := nullIfEmpty x\<rparr>) s)) key"
    using assms(1) stored_class(1,2) [OF c] unfolding audited_def D3 decisions_of_add by (simp add: N)
qed

lemma audited_text_field:
  assumes "audited s key" "key \<in> tx_key ` set (ls_texts s)"
  shows "audited (add_decision key actor ActionTitle x pv now (set_text key (\<lambda>t. t\<lparr>tx_title_override := nullIfEmpty x\<rparr>) s)) key"
    "audited (add_decision key actor ActionSummary x pv now (set_text key (\<lambda>t. t\<lparr>tx_summary_override := nullIfEmpty x\<rparr>) s)) key"
    "audited (add_decision key actor ActionSuggestedAction x pv now (set_text key (\<lambda>t. t\<lparr>tx_action_override := nullIfEmpty x\<rparr>) s)) key"
proof -
  obtain t where t: "find_key tx_key key (ls_texts s) = Some t" using find_key_stored [OF assms(2)] by blast
  note D1 = decided_text [OF t, where f = "\<lambda>t. t\<lparr>tx_title_override := nullIfEmpty x\<rparr>", simplified]
    and D2 = decided_text [OF t, where f = "\<lambda>t. t\<lparr>tx_summary_override := nullIfEmpty x\<rparr>", simplified]
    and D3 = decided_text [OF t, where f = "\<lambda>t. t\<lparr>tx_action_override := nullIfEmpty x\<rparr>", simplified]
    and N = action_neq [symmetric]
  show "audited (add_decision key actor ActionTitle x pv now (set_text key (\<lambda>t. t\<lparr>tx_title_override := nullIfEmpty x\<rparr>) s)) key"
    using assms(1) stored_class(3) [OF t] unfolding audited_def D1 decisions_of_add by (simp add: N)
  show "audited (add_decision key actor ActionSummary x pv now (set_text key (\<lambda>t. t\<lparr>tx_summary_override := nullIfEmpty x\<rparr>) s)) key"
    using assms(1) stored_class(3) [OF t] unfolding audited_def D2 decisions_of_add by (simp add: N)
  show "audited (add_decision key actor ActionSuggestedAction x pv now (set_text key (\<lambda>t. t\<lparr>tx_action_override := nullIfEmpty x\<rparr>) s)) key"
    using assms(1) stored_class(3) [OF t] unfolding audited_def D3 decisions_of_add by (simp add: N)
qed

subsection \<open>Every operation keeps the trail\<close>

lemmas live_defs = audited_def live_visibility_def class_field_def text_field_def

lemma review_inv_frame:
  "ls_classes s' = ls_classes s \<Longrightarrow> ls_texts s' = ls_texts s \<Longrightarrow> ls_decisions s' = ls_decisions s \<Longrightarrow>
   review_inv s' = review_inv s"
  by (simp add: review_inv_def live_defs decisions_of_def)

lemma review_inv_findings [simp]: "review_inv (s\<lparr>ls_findings := fs\<rparr>) = review_inv s"
  by (rule review_inv_frame) simp_all

text \<open>An operation that decides nothing: every live value is what it was.\<close>

definition same_live :: "logs_store \<Rightarrow> logs_store \<Rightarrow> bool" where
  "same_live s s' \<longleftrightarrow> ls_decisions s' = ls_decisions s
     \<and> (\<forall>k. live_visibility k s' = live_visibility k s \<and> class_field cl_severity k s' = class_field cl_severity k s
          \<and> class_field cl_doc_ref k s' = class_field cl_doc_ref k s
          \<and> text_field tx_title_override k s' = text_field tx_title_override k s
          \<and> text_field tx_summary_override k s' = text_field tx_summary_override k s
          \<and> text_field tx_action_override k s' = text_field tx_action_override k s)"

lemma review_inv_observe:
  assumes "review_inv s" "same_live s s'" "keys_unique cl_key (ls_classes s')" "keys_unique tx_key (ls_texts s')"
    "de_key ` set (ls_decisions s) \<subseteq> cl_key ` set (ls_classes s')"
  shows "review_inv s'"
  using assms by (simp add: review_inv_def audited_def same_live_def decisions_of_def)

lemma merge_class_key: "cl_key (merge_class a b) = cl_key a"
  by (simp add: merge_class_def)

lemma seed_text_props:
  assumes "keys_unique tx_key rows"
  shows "keys_unique tx_key (seed_text key t sm a now rows)"
    "find_key tx_key k (seed_text key t sm a now rows) = (if k = key \<and> find_key tx_key k rows = None
       then Some \<lparr>tx_key = key, tx_title = t, tx_summary = sm, tx_action = a, tx_title_override = None,
              tx_summary_override = None, tx_action_override = None, tx_created = now\<rparr>
       else find_key tx_key k rows)"
  unfolding seed_text_def using assms
  by (simp_all add: keys_unique_upsert find_key_upsert split: option.split)

lemma review_inv_seed_text:
  assumes "review_inv s"
  shows "review_inv (s\<lparr>ls_texts := seed_text key t sm a now (ls_texts s)\<rparr>)"
proof (rule review_inv_observe [OF assms])
  have u: "keys_unique tx_key (ls_texts s)" using assms by (simp add: review_inv_def)
  show "same_live s (s\<lparr>ls_texts := seed_text key t sm a now (ls_texts s)\<rparr>)"
    by (simp add: same_live_def live_visibility_def class_field_def text_field_def seed_text_props(2) [OF u])
  show "keys_unique tx_key (ls_texts (s\<lparr>ls_texts := seed_text key t sm a now (ls_texts s)\<rparr>))"
    by (simp add: seed_text_props(1) [OF u])
qed (use assms in \<open>simp_all add: review_inv_def\<close>)

lemma review_inv_upsert_class:
  assumes "review_inv s" "cl_visibility c = VisibilityPending" "cl_severity c = None" "cl_doc_ref c = None"
  shows "review_inv (s\<lparr>ls_classes := upsert cl_key merge_class c (ls_classes s)\<rparr>)"
proof (rule review_inv_observe [OF assms(1)])
  have m: "\<And>a b. cl_key a = cl_key b \<Longrightarrow> cl_key (merge_class a b) = cl_key b" by (simp add: merge_class_key)
  note f = find_key_upsert [where key = cl_key and merge = merge_class, OF m]
    and u = keys_unique_upsert [where key = cl_key and merge = merge_class, OF m]
    and k = keys_upsert [where key = cl_key and merge = merge_class, OF m]
  show "same_live s (s\<lparr>ls_classes := upsert cl_key merge_class c (ls_classes s)\<rparr>)"
    using assms(2-4) unfolding same_live_def live_visibility_def class_field_def text_field_def
    by (simp add: f merge_class_def split: option.split)
  show "keys_unique cl_key (ls_classes (s\<lparr>ls_classes := upsert cl_key merge_class c (ls_classes s)\<rparr>))"
    using u assms(1) by (simp add: review_inv_def)
  show "de_key ` set (ls_decisions s) \<subseteq> cl_key ` set (ls_classes (s\<lparr>ls_classes := upsert cl_key merge_class c (ls_classes s)\<rparr>))"
    using assms(1) by (auto simp: review_inv_def k)
qed (use assms in \<open>simp add: review_inv_def\<close>)

lemma UpsertFinding_inv: "review_inv s \<Longrightarrow> review_inv (snd (UpsertFinding ulid f now s))"
proof -
  assume "review_inv s"
  then have 1: "review_inv (s\<lparr>ls_findings := fs\<rparr>)" for fs by simp
  let ?s1 = "s\<lparr>ls_findings := upsert finding_pk (merge_finding (finding_outcome_of f s) now) (new_finding_row ulid f now) (ls_findings s)\<rparr>"
  have "review_inv (?s1\<lparr>ls_classes := upsert cl_key merge_class
      (new_class_row (f_class_key f) (f_security f) (f_prompt_version f) now) (ls_classes ?s1)\<rparr>)"
    by (rule review_inv_upsert_class [OF 1]) (simp_all add: new_class_row_def)
  from review_inv_seed_text [OF this] 1 show ?thesis by (simp add: UpsertFinding_def Let_def)
qed

lemma find_key_map_key:
  assumes "\<And>c. key (f c) = key c"
  shows "find_key key k (map f rs) = map_option f (find_key key k rs)"
  using assms by (induction rs) auto

lemma refresh_class_inv:
  assumes "review_inv s"
  shows "review_inv (s\<lparr>ls_classes := refresh_class now key (ls_classes s)\<rparr>)"
proof (rule review_inv_observe [OF assms])
  let ?f = "\<lambda>c. if cl_key c = key \<and> cl_last_seen c < now then c\<lparr>cl_last_seen := now\<rparr> else c"
  have m: "map cl_key (refresh_class now key (ls_classes s)) = map cl_key (ls_classes s)"
    by (simp add: refresh_class_def)
  have f: "find_key cl_key k (refresh_class now key (ls_classes s)) = map_option ?f (find_key cl_key k (ls_classes s))" for k
    unfolding refresh_class_def by (rule find_key_map_key) simp
  show "same_live s (s\<lparr>ls_classes := refresh_class now key (ls_classes s)\<rparr>)"
    unfolding same_live_def live_visibility_def class_field_def text_field_def by (simp add: f split: option.split)
  show "keys_unique cl_key (ls_classes (s\<lparr>ls_classes := refresh_class now key (ls_classes s)\<rparr>))"
    using assms m by (simp add: review_inv_def keys_unique_def)
  have "cl_key ` set (refresh_class now key (ls_classes s)) = cl_key ` set (ls_classes s)"
    using m by (metis list.set_map)
  then show "de_key ` set (ls_decisions s) \<subseteq> cl_key ` set (ls_classes (s\<lparr>ls_classes := refresh_class now key (ls_classes s)\<rparr>))"
    using assms by (simp add: review_inv_def)
qed (use assms in \<open>simp add: review_inv_def\<close>)

lemma refresh_one_inv: "review_inv s \<Longrightarrow> review_inv (refresh_one now h s)"
proof -
  assume "review_inv s"
  then have 1: "review_inv (s\<lparr>ls_findings := fs\<rparr>)" for fs by simp
  let ?s1 = "s\<lparr>ls_findings := map (\<lambda>r. if fr_id r = rh_id h then refresh_row now (rh_nodes h) r else r) (ls_findings s)\<rparr>"
  have 2: "review_inv (?s1\<lparr>ls_classes := refresh_class now (rh_class h) (ls_classes ?s1)\<rparr>)"
    by (rule refresh_class_inv [OF 1])
  have "review_inv (?s1\<lparr>ls_classes := refresh_class now (rh_class h) (ls_classes ?s1),
      ls_texts := refresh_text now (rh_id h) (ls_findings ?s1) (ls_texts ?s1)\<rparr>)"
    using review_inv_seed_text [OF 2] 2 by (simp add: refresh_text_def split: option.split)
  with 1 show ?thesis by (simp add: refresh_one_def Let_def)
qed

lemma fold_inv: "(\<And>x s. x \<in> set xs \<Longrightarrow> P s \<Longrightarrow> P (f x s)) \<Longrightarrow> P s \<Longrightarrow> P (fold f xs s)"
  by (induction xs arbitrary: s) auto

lemma RefreshFindings_inv: "review_inv s \<Longrightarrow> review_inv (snd (RefreshFindings sys ts now s))"
  by (simp add: RefreshFindings_def Let_def fold_inv refresh_one_inv)

text \<open>The single decisions.\<close>

lemma classDecision_inv:
  assumes "review_inv s" "classDecision key actor a now f d s = Inr s'" "\<And>c. cl_key (f c) = cl_key c"
    "\<And>pv. audited s key \<Longrightarrow> key \<in> cl_key ` set (ls_classes s) \<Longrightarrow>
        audited (add_decision key actor a d pv now (set_class key f s)) key"
  shows "review_inv s'"
proof -
  obtain c where c: "find_key cl_key key (ls_classes s) = Some c"
    "s' = add_decision key actor a d (null_string (cl_first_prompt_version c)) now (set_class key f s)"
    using assms(2) by (auto simp: classDecision_def split: option.splits)
  have k: "key \<in> cl_key ` set (ls_classes s)" using find_key_SomeD [OF c(1)] by auto
  have "audited s key" using assms(1) by (simp add: review_inv_def)
  then show ?thesis unfolding c(2)
    using review_inv_decide [OF assms(1) review_frame_set_class k] assms(3,4) k by blast
qed

lemma SetClassVisibility_inv: "review_inv s \<Longrightarrow> SetClassVisibility key v actor now s = Inr s' \<Longrightarrow> review_inv s'"
  by (auto simp: SetClassVisibility_def split: option.splits elim!: classDecision_inv intro: audited_visibility)

lemma SetClassSecurity_inv: "review_inv s \<Longrightarrow> SetClassSecurity key b actor now s = Inr s' \<Longrightarrow> review_inv s'"
  unfolding SetClassSecurity_def by (erule (1) classDecision_inv) (auto intro: audited_class_field)

lemma SetClassSeverity_inv: "review_inv s \<Longrightarrow> SetClassSeverity key x actor now s = Inr s' \<Longrightarrow> review_inv s'"
  unfolding SetClassSeverity_def
  by (auto split: if_splits elim!: classDecision_inv intro: audited_class_field)

lemma SetClassDocRef_inv: "review_inv s \<Longrightarrow> SetClassDocRef key x actor now s = Inr s' \<Longrightarrow> review_inv s'"
  unfolding SetClassDocRef_def by (erule (1) classDecision_inv) (auto intro: audited_class_field)

text \<open>The review form: each of its changes is a decision on a stored class with a stored text.\<close>

definition form_ready :: "string \<Rightarrow> logs_store \<Rightarrow> bool" where
  "form_ready key s \<longleftrightarrow> review_inv s \<and> key \<in> cl_key ` set (ls_classes s) \<and> key \<in> tx_key ` set (ls_texts s)"

definition sound_change :: "string \<Rightarrow> class_change \<Rightarrow> bool" where
  "sound_change key ch \<longleftrightarrow>
     (\<forall>s. review_frame key s (cc_apply ch s))
     \<and> (\<forall>s actor pv now. form_ready key s \<longrightarrow> audited (apply_change key actor pv now ch s) key)"

lemma sound_change_if: "(b \<Longrightarrow> sound_change key \<lparr>cc_action = a, cc_detail = d, cc_apply = f\<rparr>) \<Longrightarrow>
    list_all (sound_change key) (change_if b a d f)"
  by (simp add: change_if_def)

lemma class_changes_sound:
  assumes "cu_visibility u = [] \<or> visibilityAction (cu_visibility u) \<noteq> None"
  shows "list_all (sound_change key) (class_changes key u c text)"
proof -
  have V: "sound_change key \<lparr>cc_action = a, cc_detail = [], cc_apply = set_class key (\<lambda>c. c\<lparr>cl_visibility := v\<rparr>)\<rparr>"
    if "visibilityAction v = Some a" for v a
    using that by (simp add: sound_change_def apply_change_def form_ready_def review_inv_def review_frame_set_class audited_visibility)
  have C: "sound_change key \<lparr>cc_action = ActionSecurity, cc_detail = d, cc_apply = set_class key (\<lambda>c. c\<lparr>cl_security := b\<rparr>)\<rparr>"
    "sound_change key \<lparr>cc_action = ActionSeverity, cc_detail = x, cc_apply = set_class key (\<lambda>c. c\<lparr>cl_severity := nullIfEmpty x\<rparr>)\<rparr>"
    "sound_change key \<lparr>cc_action = ActionDocRef, cc_detail = x, cc_apply = set_class key (\<lambda>c. c\<lparr>cl_doc_ref := nullIfEmpty x\<rparr>)\<rparr>"
    for d b x
    by (simp_all add: sound_change_def apply_change_def form_ready_def review_inv_def review_frame_set_class audited_class_field)
  have T: "sound_change key \<lparr>cc_action = ActionTitle, cc_detail = x, cc_apply = set_text key (\<lambda>t. t\<lparr>tx_title_override := nullIfEmpty x\<rparr>)\<rparr>"
    "sound_change key \<lparr>cc_action = ActionSummary, cc_detail = x, cc_apply = set_text key (\<lambda>t. t\<lparr>tx_summary_override := nullIfEmpty x\<rparr>)\<rparr>"
    "sound_change key \<lparr>cc_action = ActionSuggestedAction, cc_detail = x, cc_apply = set_text key (\<lambda>t. t\<lparr>tx_action_override := nullIfEmpty x\<rparr>)\<rparr>"
    for x
    by (simp_all add: sound_change_def apply_change_def form_ready_def review_inv_def review_frame_set_text audited_text_field)
  have "sound_change key \<lparr>cc_action = null_string (visibilityAction (cu_visibility u)), cc_detail = [],
      cc_apply = set_class key (\<lambda>c. c\<lparr>cl_visibility := cu_visibility u\<rparr>)\<rparr>" if "cu_visibility u \<noteq> []"
    using assms that V by auto
  then show ?thesis
    unfolding class_changes_def Let_def list_all_append by (simp add: sound_change_if C T)
qed

lemma sound_change_ready:
  assumes "form_ready key s" "sound_change key ch"
  shows "form_ready key (apply_change key actor pv now ch s)"
proof -
  have f: "review_frame key s (cc_apply ch s)" using assms(2) by (simp add: sound_change_def)
  have "audited (apply_change key actor pv now ch s) key" using assms by (simp add: sound_change_def)
  then have "review_inv (apply_change key actor pv now ch s)"
    using assms(1) f unfolding form_ready_def apply_change_def by (blast intro: review_inv_decide)
  moreover have "cl_key ` set (ls_classes (cc_apply ch s)) = cl_key ` set (ls_classes s)"
    "tx_key ` set (ls_texts (cc_apply ch s)) = tx_key ` set (ls_texts s)"
    using f by (metis list.set_map review_frame_def)+
  ultimately show ?thesis using assms(1) by (simp add: form_ready_def apply_change_def)
qed

lemma seedClassText_ready:
  assumes "review_inv s" "find_key cl_key key (ls_classes s) = Some c"
  shows "form_ready key (snd (seedClassText key now s))"
proof -
  have "review_inv (snd (seedClassText key now s))"
    using assms(1) by (simp add: seedClassText_def Let_def review_inv_seed_text split: option.split)
  moreover have "key \<in> tx_key ` set (seed_text key a b c now (ls_texts s))" for a b c
  proof -
    have "find_key tx_key key (seed_text key a b c now (ls_texts s)) \<noteq> None"
      using assms(1) by (simp add: seed_text_props(2) review_inv_def split: if_splits)
    then show ?thesis unfolding find_key_None by blast
  qed
  then have "key \<in> tx_key ` set (ls_texts (snd (seedClassText key now s)))"
    by (simp add: seedClassText_def Let_def split: option.split)
  moreover have "key \<in> cl_key ` set (ls_classes (snd (seedClassText key now s)))"
    using find_key_SomeD [OF assms(2)] by (auto simp: seedClassText_def Let_def)
  ultimately show ?thesis by (simp add: form_ready_def)
qed

lemma UpdateClass_Inr:
  assumes "UpdateClass key u actor now s = Inr (n, s')"
  obtains c tx s1 where "find_key cl_key key (ls_classes s) = Some c" "seedClassText key now s = (tx, s1)"
    "cu_visibility u = [] \<or> visibilityAction (cu_visibility u) \<noteq> None"
    "n = int (length (class_changes key u c tx))"
    "s' = (if class_changes key u c tx = [] then s
           else fold (apply_change key actor (null_string (cl_first_prompt_version c)) now) (class_changes key u c tx) s1)"
  using assms by (auto simp: UpdateClass_def Let_def split: if_splits option.splits prod.splits)

lemma UpdateClass_inv:
  assumes "review_inv s" "UpdateClass key u actor now s = Inr (n, s')"
  shows "review_inv s'"
proof -
  obtain c tx s1 where U: "find_key cl_key key (ls_classes s) = Some c" "seedClassText key now s = (tx, s1)"
    "cu_visibility u = [] \<or> visibilityAction (cu_visibility u) \<noteq> None"
    "s' = (if class_changes key u c tx = [] then s
           else fold (apply_change key actor (null_string (cl_first_prompt_version c)) now) (class_changes key u c tx) s1)"
    using UpdateClass_Inr [OF assms(2)] by metis
  have "form_ready key s1" using seedClassText_ready [OF assms(1) U(1), of now] U(2) by simp
  moreover have "\<And>ch. ch \<in> set (class_changes key u c tx) \<Longrightarrow> sound_change key ch"
    using class_changes_sound [OF U(3), of key c tx] by (simp add: list_all_iff)
  ultimately have "form_ready key (fold (apply_change key actor (null_string (cl_first_prompt_version c)) now)
      (class_changes key u c tx) s1)"
    using fold_inv [of "class_changes key u c tx" "form_ready key"] sound_change_ready by blast
  then show ?thesis using U(4) assms(1) by (simp add: form_ready_def)
qed

text \<open>Decisions on several classes.\<close>

definition stored_keys :: "string set \<Rightarrow> logs_store \<Rightarrow> bool" where
  "stored_keys ks s \<longleftrightarrow> review_inv s \<and> ks \<subseteq> cl_key ` set (ls_classes s)"

lemma applyVisibility_ready:
  assumes "stored_keys ks s" "cl_key p \<in> ks" "visibilityAction v = Some a"
  shows "stored_keys ks (applyVisibility v a d actor now p s)"
proof -
  have k: "cl_key p \<in> cl_key ` set (ls_classes s)" using assms(1,2) by (auto simp: stored_keys_def)
  have f: "review_frame (cl_key p) s (set_class (cl_key p) (\<lambda>c. c\<lparr>cl_visibility := v\<rparr>) s)"
    by (rule review_frame_set_class) simp
  have "review_inv (applyVisibility v a d actor now p s)"
    unfolding applyVisibility_def
    using assms(1) k f assms(3) by (intro review_inv_decide) (auto simp: stored_keys_def review_inv_def intro!: audited_visibility)
  moreover have "cl_key ` set (ls_classes (set_class (cl_key p) (\<lambda>c. c\<lparr>cl_visibility := v\<rparr>) s)) = cl_key ` set (ls_classes s)"
    using f by (metis list.set_map review_frame_def)
  ultimately show ?thesis using assms(1) by (simp add: stored_keys_def applyVisibility_def)
qed

lemma apply_all_inv:
  assumes "review_inv s" "set todo \<subseteq> set (ls_classes s)" "visibilityAction v = Some a"
  shows "review_inv (fold (applyVisibility v a d actor now) todo s)"
proof -
  have "stored_keys (cl_key ` set todo) (fold (applyVisibility v a d actor now) todo s)"
  proof (rule fold_inv)
    show "stored_keys (cl_key ` set todo) s" using assms(1,2) by (auto simp: stored_keys_def)
  qed (use assms(3) in \<open>simp add: applyVisibility_ready\<close>)
  then show ?thesis by (simp add: stored_keys_def)
qed

lemma SetGroupVisibility_inv:
  "review_inv s \<Longrightarrow> SetGroupVisibility g ms v actor now s = Inr (n, s') \<Longrightarrow> review_inv s'"
  by (auto simp: SetGroupVisibility_def Let_def pendingGroupClasses_def split: option.splits if_splits intro!: apply_all_inv)

lemma SetClassesVisibility_inv:
  "review_inv s \<Longrightarrow> SetClassesVisibility ks v actor now s = Inr (n, s') \<Longrightarrow> review_inv s'"
  by (auto simp: SetClassesVisibility_def Let_def changingClasses_def split: option.splits if_splits intro!: apply_all_inv)

text \<open>Pruning removes classes nobody decided, and texts of classes that are gone.\<close>

lemma trail_undecided:
  "k \<notin> de_key ` set ds \<Longrightarrow> trail_visibility k ds = VisibilityPending \<and> trail_detail k a ds = []"
  by (induction ds) auto

lemma pruneLoop_find:
  "keys_unique key rows \<Longrightarrow> pruneLoop stop P rows = (n, ok, rows') \<Longrightarrow>
   keys_unique key rows' \<and> (find_key key k rows' = find_key key k rows
        \<or> find_key key k rows' = None \<and> (\<exists>r. find_key key k rows = Some r \<and> P r))"
  using prune_loop_find [of key rows "pruneBatchSize - 1" stop 0 P k] by (simp add: pruneLoop_def)

lemma prune_class_rows_inv:
  assumes "review_inv s" "pruneLoop stop (class_unused old s) (ls_classes s) = (n, ok, rows)"
  shows "review_inv (s\<lparr>ls_classes := rows\<rparr>)"
proof (rule review_inv_observe [OF assms(1)])
  have u: "keys_unique cl_key (ls_classes s)" using assms(1) by (simp add: review_inv_def)
  note find = pruneLoop_find [OF u assms(2)]
  show "keys_unique cl_key (ls_classes (s\<lparr>ls_classes := rows\<rparr>))" using find by simp
  have lost: "k \<notin> de_key ` set (ls_decisions s)" if "find_key cl_key k rows \<noteq> find_key cl_key k (ls_classes s)" for k
    using find [of k] that find_key_SomeD [of cl_key k "ls_classes s"] by (auto simp: class_unused_def list_ex_iff)
  show "de_key ` set (ls_decisions s) \<subseteq> cl_key ` set (ls_classes (s\<lparr>ls_classes := rows\<rparr>))"
  proof
    fix k
    assume k: "k \<in> de_key ` set (ls_decisions s)"
    then have "k \<in> cl_key ` set (ls_classes s)" using assms(1) by (auto simp: review_inv_def)
    moreover have "find_key cl_key k rows = find_key cl_key k (ls_classes s)" using lost k by blast
    ultimately show "k \<in> cl_key ` set (ls_classes (s\<lparr>ls_classes := rows\<rparr>))"
      using find_key_None [of cl_key k rows] find_key_None [of cl_key k "ls_classes s"] by simp
  qed
  have "live_visibility k (s\<lparr>ls_classes := rows\<rparr>) = live_visibility k s
      \<and> class_field cl_severity k (s\<lparr>ls_classes := rows\<rparr>) = class_field cl_severity k s
      \<and> class_field cl_doc_ref k (s\<lparr>ls_classes := rows\<rparr>) = class_field cl_doc_ref k s" for k
  proof (cases "find_key cl_key k rows = find_key cl_key k (ls_classes s)")
    case True
    then show ?thesis by (simp add: live_visibility_def class_field_def)
  next
    case False
    then have n: "find_key cl_key k rows = None" using find [of k] by blast
    have "k \<notin> de_key ` set (decisions_of s)" using lost [OF False] by (simp add: decisions_of_def)
    from trail_undecided [OF this] have "live_visibility k s = VisibilityPending \<and> class_field cl_severity k s = []
        \<and> class_field cl_doc_ref k s = []"
      using assms(1) by (simp add: review_inv_def audited_def)
    then show ?thesis using n by (simp add: live_visibility_def class_field_def)
  qed
  then show "same_live s (s\<lparr>ls_classes := rows\<rparr>)" by (simp add: same_live_def text_field_def)
qed (use assms in \<open>simp add: review_inv_def\<close>)

lemma prune_text_rows_inv:
  assumes "review_inv s" "pruneLoop stop (\<lambda>t. \<not> class_stored s (tx_key t)) (ls_texts s) = (n, ok, rows)"
  shows "review_inv (s\<lparr>ls_texts := rows\<rparr>)"
proof (rule review_inv_observe [OF assms(1)])
  have u: "keys_unique tx_key (ls_texts s)" using assms(1) by (simp add: review_inv_def)
  note find = pruneLoop_find [OF u assms(2)]
  show "keys_unique tx_key (ls_texts (s\<lparr>ls_texts := rows\<rparr>))" using find by simp
  have "text_field tx_title_override k (s\<lparr>ls_texts := rows\<rparr>) = text_field tx_title_override k s
      \<and> text_field tx_summary_override k (s\<lparr>ls_texts := rows\<rparr>) = text_field tx_summary_override k s
      \<and> text_field tx_action_override k (s\<lparr>ls_texts := rows\<rparr>) = text_field tx_action_override k s" for k
  proof (cases "find_key tx_key k rows = find_key tx_key k (ls_texts s)")
    case True
    then show ?thesis by (simp add: text_field_def)
  next
    case False
    then obtain r where n: "find_key tx_key k rows = None" "find_key tx_key k (ls_texts s) = Some r" "\<not> class_stored s (tx_key r)"
      using find [of k] by blast
    then have "k \<notin> cl_key ` set (ls_classes s)" using find_key_SomeD [OF n(2)] by (auto simp: class_stored_def list_ex_iff)
    then have "k \<notin> de_key ` set (decisions_of s)" using assms(1) by (auto simp: review_inv_def decisions_of_def)
    note trail_undecided [OF this]
    then have "text_field tx_title_override k s = [] \<and> text_field tx_summary_override k s = []
        \<and> text_field tx_action_override k s = []"
      using assms(1) by (simp add: review_inv_def audited_def)
    then show ?thesis using n(1) by (simp add: text_field_def)
  qed
  then show "same_live s (s\<lparr>ls_texts := rows\<rparr>)" by (simp add: same_live_def live_visibility_def class_field_def)
qed (use assms in \<open>simp_all add: review_inv_def\<close>)

lemma prune_classes_inv: "review_inv s \<Longrightarrow> review_inv (snd (snd (prune_classes st1 st2 st3 old s)))"
proof -
  assume inv: "review_inv s"
  obtain n ok1 cs where 1: "pruneLoop st1 (class_unused old s) (ls_classes s) = (n, ok1, cs)" by (metis prod_cases3)
  let ?s1 = "s\<lparr>ls_classes := cs\<rparr>"
  obtain m ok2 gs where 2: "pruneLoop st2 (\<lambda>g. \<not> class_stored ?s1 (gr_key g)) (ls_groups ?s1) = (m, ok2, gs)" by (metis prod_cases3)
  let ?s2 = "?s1\<lparr>ls_groups := gs\<rparr>"
  obtain l ok3 ts where 3: "pruneLoop st3 (\<lambda>t. \<not> class_stored ?s2 (tx_key t)) (ls_texts ?s2) = (l, ok3, ts)" by (metis prod_cases3)
  have i1: "review_inv ?s1" by (rule prune_class_rows_inv [OF inv 1])
  have i2: "review_inv ?s2" using i1 by (subst review_inv_frame [of _ ?s1]) simp_all
  have i3: "review_inv (?s2\<lparr>ls_texts := ts\<rparr>)" by (rule prune_text_rows_inv [OF i2 3])
  have r: "snd (snd (prune_classes st1 st2 st3 old s)) = (if \<not> ok1 then ?s1 else if \<not> ok2 then ?s2 else ?s2\<lparr>ls_texts := ts\<rparr>)"
    unfolding prune_classes_def Let_def 1 prod.case 2 3 by simp
  show ?thesis using i1 i2 i3 r by (auto split: if_splits)
qed

lemma review_inv_other [simp]:
  "review_inv (s\<lparr>ls_systems := a\<rparr>) = review_inv s" "review_inv (s\<lparr>ls_templates := b\<rparr>) = review_inv s"
  "review_inv (s\<lparr>ls_nodes := c\<rparr>) = review_inv s" "review_inv (s\<lparr>ls_analyses := d\<rparr>) = review_inv s"
  "review_inv (s\<lparr>ls_groups := g\<rparr>) = review_inv s"
  by (rule review_inv_frame; simp)+

lemma prune_frame:
  "review_inv (snd (snd (prune_templates st old s))) = review_inv s"
  "review_inv (snd (snd (prune_nodes st old s))) = review_inv s"
  "review_inv (snd (snd (prune_findings st old s))) = review_inv s"
  "review_inv (snd (snd (prune_analyses st old s))) = review_inv s"
  by (auto simp: prune_templates_def prune_nodes_def prune_findings_def prune_analyses_def
      split: prod.split)

lemma snd_pruned: "snd (pruned r) = snd (snd r)"
  by (simp add: pruned_def split: prod.split)

definition tables_after :: "(logs_store \<Rightarrow> nat \<times> bool \<times> logs_store) \<Rightarrow> logs_store \<Rightarrow> logs_store" where
  "tables_after f s = snd (snd (f s))"

definition maint_tables :: "(prune_call \<Rightarrow> batch_stop) \<Rightarrow> maint_config \<Rightarrow> int \<Rightarrow> logs_store \<Rightarrow> logs_store" where
  "maint_tables stop cfg now =
     tables_after (prune_nodes (stop PrNodes) (now - mc_template_retention cfg))
     \<circ> tables_after (prune_analyses (stop PrAnalyses) (now - mc_analysis_retention cfg))
     \<circ> tables_after (prune_classes (stop PrClasses) (stop PrClassGroups) (stop PrClassTexts) (now - mc_finding_retention cfg))
     \<circ> tables_after (prune_findings (stop PrFindings) (now - mc_finding_retention cfg))
     \<circ> tables_after (prune_templates (stop PrTemplates) (now - mc_template_retention cfg))"

lemma maint_Run_tables: "snd (maint_Run stop cfg now s) = maint_tables stop cfg now s"
  by (simp add: maint_Run_def maint_tables_def tables_after_def Let_def snd_pruned [symmetric] split: prod.split)

lemma maint_inv: "review_inv s \<Longrightarrow> review_inv (snd (maint_Run stop cfg now s))"
  by (simp add: maint_Run_tables maint_tables_def tables_after_def prune_frame prune_classes_inv)

lemmas plain_writes = UpsertSystem_def UpsertTemplates_def UpsertNodes_upto_def BeginAnalysis_def RecordAttemptError_def
  FinalizeAnalysis_def SetClassGroup_def MarkStale_def

lemma committed_inv:
  "review_inv s \<Longrightarrow> (\<And>s'. r = Inr s' \<Longrightarrow> review_inv s') \<Longrightarrow> review_inv (committed r s)"
  "review_inv s \<Longrightarrow> (\<And>n s'. r2 = Inr (n, s') \<Longrightarrow> review_inv s') \<Longrightarrow> review_inv (committed2 r2 s)"
  by (auto simp: committed_def committed2_def split: sum.split)

lemma logs_step_inv:
  assumes "review_inv s"
  shows "review_inv (logs_step e s)"
proof (cases e)
  case (EvBegin sys ws we now)
  then show ?thesis using assms by (simp add: BeginAnalysis_def split: option.split)
next
  case (EvVisibility k v a now)
  show ?thesis unfolding EvVisibility logs_step.simps by (rule committed_inv(1) [OF assms SetClassVisibility_inv [OF assms]])
next
  case (EvSecurity k b a now)
  show ?thesis unfolding EvSecurity logs_step.simps by (rule committed_inv(1) [OF assms SetClassSecurity_inv [OF assms]])
next
  case (EvSeverity k x a now)
  show ?thesis unfolding EvSeverity logs_step.simps by (rule committed_inv(1) [OF assms SetClassSeverity_inv [OF assms]])
next
  case (EvDocRef k d a now)
  show ?thesis unfolding EvDocRef logs_step.simps by (rule committed_inv(1) [OF assms SetClassDocRef_inv [OF assms]])
next
  case (EvUpdate k u a now)
  show ?thesis unfolding EvUpdate logs_step.simps by (rule committed_inv(2) [OF assms UpdateClass_inv [OF assms]])
next
  case (EvGroupVisibility g ms v a now)
  show ?thesis unfolding EvGroupVisibility logs_step.simps by (rule committed_inv(2) [OF assms SetGroupVisibility_inv [OF assms]])
next
  case (EvClassesVisibility ks v a now)
  show ?thesis unfolding EvClassesVisibility logs_step.simps by (rule committed_inv(2) [OF assms SetClassesVisibility_inv [OF assms]])
qed (use assms in \<open>simp_all add: plain_writes UpsertFinding_inv RefreshFindings_inv maint_inv\<close>)

lemma logs_run_inv: "review_inv (logs_run evs)"
proof -
  have "review_inv empty_logs"
    by (simp add: review_inv_def live_defs decisions_of_def empty_logs_def keys_unique_def)
  then show ?thesis unfolding logs_run_def by (rule fold_inv [where P = review_inv, rotated]) (rule logs_step_inv)
qed

subsection \<open>The security flag\<close>

text \<open>
  A class takes the flag of the report that created it until an operator decides on it. Beside
  the store a history carries, for every class key, the flag of the report that created the row
  it last had; nothing of the program reads it.
\<close>

definition creates_class :: "logs_store \<Rightarrow> string \<Rightarrow> bool" where
  "creates_class s key \<longleftrightarrow> key \<noteq> [] \<and> find_key cl_key key (ls_classes s) = None"

definition origin_step :: "logs_event \<Rightarrow> logs_store \<Rightarrow> (string \<Rightarrow> bool) \<Rightarrow> string \<Rightarrow> bool" where
  "origin_step e s g =
     (case e of
        EvFinding ulid f now \<Rightarrow> if creates_class s (f_class_key f) then g(f_class_key f := f_security f) else g
      | _ \<Rightarrow> g)"

definition traced_run :: "logs_event list \<Rightarrow> logs_store \<times> (string \<Rightarrow> bool)" where
  "traced_run evs = fold (\<lambda>e (s, g). (logs_step e s, origin_step e s g)) evs (empty_logs, \<lambda>_. False)"

definition reported_flag :: "logs_event list \<Rightarrow> string \<Rightarrow> bool" where
  "reported_flag evs = snd (traced_run evs)"

lemma traced_run_store: "fst (traced_run evs) = logs_run evs"
proof -
  have "fst (fold (\<lambda>e (s, g). (logs_step e s, origin_step e s g)) evs (s, g)) = fold logs_step evs s" for s g
    by (induction evs arbitrary: s g) auto
  then show ?thesis by (simp add: traced_run_def logs_run_def)
qed

definition security_of :: "string \<Rightarrow> logs_store \<Rightarrow> string option" where
  "security_of k s = map_option (\<lambda>c. on_off (cl_security c)) (find_key cl_key k (ls_classes s))"

definition flag_inv :: "(string \<Rightarrow> bool) \<Rightarrow> logs_store \<Rightarrow> bool" where
  "flag_inv g s \<longleftrightarrow> (\<forall>k x. security_of k s = Some x \<longrightarrow>
     x = pick_wording (trail_detail k ActionSecurity (decisions_of s)) (on_off (g k)))"

text \<open>An operation that decides no flag: a class that is still stored has the one it had.\<close>

definition same_flags :: "logs_store \<Rightarrow> logs_store \<Rightarrow> bool" where
  "same_flags s s' \<longleftrightarrow> (\<forall>k. (security_of k s' = None \<or> security_of k s' = security_of k s)
     \<and> trail_detail k ActionSecurity (decisions_of s') = trail_detail k ActionSecurity (decisions_of s))"

lemma flag_inv_same: "same_flags s s' \<Longrightarrow> flag_inv g s \<Longrightarrow> flag_inv g s'"
  unfolding same_flags_def flag_inv_def by (metis option.distinct(1))

lemma same_flags_frame:
  "ls_classes s' = ls_classes s \<Longrightarrow> ls_decisions s' = ls_decisions s \<Longrightarrow> same_flags s s'"
  by (simp add: same_flags_def security_of_def decisions_of_def)

lemma same_flags_classes:
  assumes "\<And>k c. find_key cl_key k cs = Some c \<Longrightarrow> \<exists>c0. find_key cl_key k (ls_classes s) = Some c0 \<and> cl_security c = cl_security c0"
    "ls_classes s' = cs" "ls_decisions s' = ls_decisions s"
  shows "same_flags s s'"
proof -
  have "security_of k s' = None \<or> security_of k s' = security_of k s" for k
    using assms(1) [of k] assms(2) by (cases "find_key cl_key k cs") (auto simp: security_of_def)
  then show ?thesis using assms(3) by (simp add: same_flags_def decisions_of_def)
qed

lemma same_flags_set_class:
  "(\<And>c. cl_key (f c) = cl_key c) \<Longrightarrow> (\<And>c. cl_security (f c) = cl_security c) \<Longrightarrow> same_flags s (set_class key f s)"
  by (rule same_flags_classes [where cs = "ls_classes (set_class key f s)"])
    (auto simp: set_class_def find_key_update split: if_splits)

lemma flag_inv_add: "a \<noteq> ActionSecurity \<Longrightarrow> flag_inv g (add_decision k actor a d pv now s) = flag_inv g s"
  by (simp add: flag_inv_def security_of_def)

lemma flag_inv_decide_flag:
  assumes "flag_inv g s"
  shows "flag_inv g (add_decision key actor ActionSecurity (on_off b) pv now (set_class key (\<lambda>c. c\<lparr>cl_security := b\<rparr>) s))"
proof -
  have "on_off b \<noteq> []" by (simp add: on_off_def)
  moreover have "decisions_of (set_class key (\<lambda>c. c\<lparr>cl_security := b\<rparr>) s) = decisions_of s"
    by (simp add: decisions_of_def set_class_def)
  ultimately show ?thesis
    using assms unfolding flag_inv_def security_of_def
    by (auto simp: set_class_def find_key_update pick_wording_def split: if_splits)
qed

lemma visibility_not_flag: "visibilityAction v = Some a \<Longrightarrow> a \<noteq> ActionSecurity"
  using visibilityAction_action by blast

lemma classDecision_flag:
  assumes "flag_inv g s" "classDecision key actor a now f d s = Inr s'"
    "\<And>pv. flag_inv g (add_decision key actor a d pv now (set_class key f s))"
  shows "flag_inv g s'"
  using assms by (auto simp: classDecision_def split: option.splits)

lemma flag_inv_other:
  assumes "flag_inv g s" "a \<noteq> ActionSecurity" "\<And>c. cl_key (f c) = cl_key c" "\<And>c. cl_security (f c) = cl_security c"
  shows "flag_inv g (add_decision key actor a d pv now (set_class key f s))"
  unfolding flag_inv_add [OF assms(2)] by (rule flag_inv_same [OF same_flags_set_class assms(1)]) (simp_all add: assms(3,4))

lemma class_changes_flag:
  assumes "cu_visibility u = [] \<or> visibilityAction (cu_visibility u) \<noteq> None" "ch \<in> set (class_changes key u c text)" "flag_inv g s"
  shows "flag_inv g (apply_change key actor pv now ch s)"
proof -
  have v: "null_string (visibilityAction (cu_visibility u)) \<noteq> ActionSecurity" if "cu_visibility u \<noteq> []"
    using assms(1) that visibility_not_flag [of "cu_visibility u"] by auto
  have t: "flag_inv g (set_text key f s)" for f
    by (rule flag_inv_same [OF same_flags_frame assms(3)]) (simp_all add: set_text_def)
  show ?thesis
    using assms(2,3) v unfolding class_changes_def Let_def change_if_def apply_change_def
    by (auto simp: flag_inv_add t action_neq [symmetric]
        intro!: flag_inv_same [OF same_flags_set_class assms(3)] flag_inv_decide_flag split: if_splits)
qed

lemma UpdateClass_flag:
  assumes "flag_inv g s" "UpdateClass key u actor now s = Inr (n, s')"
  shows "flag_inv g s'"
proof -
  obtain c tx s1 where U: "find_key cl_key key (ls_classes s) = Some c" "seedClassText key now s = (tx, s1)"
    "cu_visibility u = [] \<or> visibilityAction (cu_visibility u) \<noteq> None"
    "s' = (if class_changes key u c tx = [] then s
           else fold (apply_change key actor (null_string (cl_first_prompt_version c)) now) (class_changes key u c tx) s1)"
    using UpdateClass_Inr [OF assms(2)] by metis
  have "same_flags s s1" by (rule same_flags_frame) (use U(2) in \<open>auto simp: seedClassText_def Let_def\<close>)
  then have "flag_inv g s1" using assms(1) flag_inv_same by blast
  then have "flag_inv g (fold (apply_change key actor (null_string (cl_first_prompt_version c)) now) (class_changes key u c tx) s1)"
    by (rule fold_inv [rotated]) (rule class_changes_flag [OF U(3)])
  then show ?thesis using U(4) assms(1) by simp
qed

lemma apply_all_flag:
  assumes "flag_inv g s" "visibilityAction v = Some a"
  shows "flag_inv g (fold (applyVisibility v a d actor now) todo s)"
  by (rule fold_inv [where P = "flag_inv g", OF _ assms(1)])
    (auto simp: applyVisibility_def visibility_not_flag [OF assms(2)] intro!: flag_inv_other)

lemma refresh_one_flags: "same_flags s (refresh_one now h s)"
proof -
  have f: "find_key cl_key k (refresh_class now key rows)
      = map_option (\<lambda>c. if cl_key c = key \<and> cl_last_seen c < now then c\<lparr>cl_last_seen := now\<rparr> else c) (find_key cl_key k rows)" for k key rows
    unfolding refresh_class_def by (rule find_key_map_key) simp
  have c: "ls_classes (refresh_one now h s) = (if rh_class h = [] then ls_classes s else refresh_class now (rh_class h) (ls_classes s))"
    "ls_decisions (refresh_one now h s) = ls_decisions s" by (simp_all add: refresh_one_def Let_def)
  show ?thesis
    by (rule same_flags_classes [OF _ c]) (auto simp: f split: if_splits)
qed

lemma prune_classes_flags:
  assumes "review_inv s"
  shows "same_flags s (snd (snd (prune_classes st1 st2 st3 old s)))"
proof (rule same_flags_classes [OF _ refl])
  obtain n ok1 cs where 1: "pruneLoop st1 (class_unused old s) (ls_classes s) = (n, ok1, cs)" by (metis prod_cases3)
  have c: "ls_classes (snd (snd (prune_classes st1 st2 st3 old s))) = cs"
    by (simp add: prune_classes_def Let_def 1 split: prod.split)
  show "ls_decisions (snd (snd (prune_classes st1 st2 st3 old s))) = ls_decisions s"
    by (simp add: prune_classes_def Let_def split: prod.split)
  fix k c
  assume "find_key cl_key k (ls_classes (snd (snd (prune_classes st1 st2 st3 old s)))) = Some c"
  then show "\<exists>c0. find_key cl_key k (ls_classes s) = Some c0 \<and> cl_security c = cl_security c0"
    using pruneLoop_find [OF _ 1, of cl_key k] assms unfolding c by (auto simp: review_inv_def intro!: exI [of _ c])
qed

lemma prune_other_flags:
  "same_flags s s' \<Longrightarrow> same_flags s (snd (snd (prune_templates st old s')))"
  "same_flags s s' \<Longrightarrow> same_flags s (snd (snd (prune_nodes st old s')))"
  "same_flags s s' \<Longrightarrow> same_flags s (snd (snd (prune_findings st old s')))"
  "same_flags s s' \<Longrightarrow> same_flags s (snd (snd (prune_analyses st old s')))"
  by (auto simp: prune_templates_def prune_nodes_def prune_findings_def prune_analyses_def same_flags_def security_of_def
      decisions_of_def split: prod.split)

lemma same_flags_trans: "same_flags s s' \<Longrightarrow> same_flags s' s'' \<Longrightarrow> same_flags s s''"
  unfolding same_flags_def by metis

lemma same_flags_refl: "same_flags s s"
  by (simp add: same_flags_def)

lemma maint_flags:
  assumes "review_inv s"
  shows "same_flags s (snd (maint_Run stop cfg now s))"
proof -
  let ?f = "snd (snd (prune_findings (stop PrFindings) (now - mc_finding_retention cfg)
    (snd (snd (prune_templates (stop PrTemplates) (now - mc_template_retention cfg) s)))))"
  have "review_inv ?f" using assms by (simp add: prune_frame)
  then have "same_flags ?f (snd (snd (prune_classes (stop PrClasses) (stop PrClassGroups) (stop PrClassTexts) (now - mc_finding_retention cfg) ?f)))"
    by (rule prune_classes_flags)
  moreover have "same_flags s ?f" by (intro prune_other_flags same_flags_refl)
  ultimately have "same_flags s (snd (snd (prune_classes (stop PrClasses) (stop PrClassGroups) (stop PrClassTexts) (now - mc_finding_retention cfg) ?f)))"
    by (rule same_flags_trans [rotated])
  then show ?thesis by (simp add: maint_Run_tables maint_tables_def tables_after_def prune_other_flags)
qed

lemma UpsertFinding_flag:
  assumes "review_inv s" "flag_inv g s"
  shows "flag_inv (if creates_class s (f_class_key f) then g(f_class_key f := f_security f) else g) (snd (UpsertFinding ulid f now s))"
proof (cases "f_class_key f = []")
  case True
  then have "same_flags s (snd (UpsertFinding ulid f now s))" by (intro same_flags_frame) (simp_all add: UpsertFinding_def Let_def)
  then show ?thesis using assms(2) True by (simp add: creates_class_def flag_inv_same)
next
  case False
  let ?key = "f_class_key f" and ?s = "snd (UpsertFinding ulid f now s)"
  have m: "\<And>a b. cl_key a = cl_key b \<Longrightarrow> cl_key (merge_class a b) = cl_key b" by (simp add: merge_class_key)
  have find: "find_key cl_key k (ls_classes ?s) = (if k = ?key
      then Some (case find_key cl_key k (ls_classes s) of None \<Rightarrow> new_class_row ?key (f_security f) (f_prompt_version f) now
                 | Some c \<Rightarrow> merge_class c (new_class_row ?key (f_security f) (f_prompt_version f) now))
      else find_key cl_key k (ls_classes s))" for k
    using False find_key_upsert [where key = cl_key and merge = merge_class, OF m]
    by (simp add: UpsertFinding_def Let_def) (simp add: new_class_row_def)
  have d: "decisions_of ?s = decisions_of s" by (simp add: UpsertFinding_def Let_def decisions_of_def)
  have new: "trail_detail ?key ActionSecurity (decisions_of s) = []" if "find_key cl_key ?key (ls_classes s) = None"
  proof -
    have "?key \<notin> de_key ` set (decisions_of s)"
      using assms(1) that unfolding find_key_None by (auto simp: review_inv_def decisions_of_def)
    then show ?thesis using trail_undecided by blast
  qed
  have old: "on_off (cl_security c) = pick_wording (trail_detail k ActionSecurity (decisions_of s)) (on_off (g k))"
    if "find_key cl_key k (ls_classes s) = Some c" for k c
    using assms(2) that by (simp add: flag_inv_def security_of_def)
  show ?thesis unfolding flag_inv_def security_of_def d
  proof (intro allI impI, elim map_option_eq_Some [THEN iffD1, elim_format] exE conjE)
    fix k x c
    assume c: "find_key cl_key k (ls_classes ?s) = Some c" "on_off (cl_security c) = x"
    then show "x = pick_wording (trail_detail k ActionSecurity (decisions_of s))
        (on_off ((if creates_class s ?key then g(?key := f_security f) else g) k))"
      using old new False unfolding find
      by (cases "k = ?key"; cases "find_key cl_key k (ls_classes s)")
        (auto simp: creates_class_def merge_class_def new_class_row_def pick_wording_def)
  qed
qed

lemma committed_flag:
  "flag_inv g s \<Longrightarrow> (\<And>s'. r = Inr s' \<Longrightarrow> flag_inv g s') \<Longrightarrow> flag_inv g (committed r s)"
  "flag_inv g s \<Longrightarrow> (\<And>n s'. r2 = Inr (n, s') \<Longrightarrow> flag_inv g s') \<Longrightarrow> flag_inv g (committed2 r2 s)"
  by (auto simp: committed_def committed2_def split: sum.split)

lemma flag_step:
  assumes "review_inv s" "flag_inv g s"
  shows "flag_inv (origin_step e s g) (logs_step e s)"
proof -
  note same = flag_inv_same [OF _ assms(2)] and N = action_neq [symmetric]
  show ?thesis
  proof (cases e)
    case (EvVisibility k v a now)
    show ?thesis unfolding EvVisibility logs_step.simps origin_step_def logs_event.case
      by (rule committed_flag(1) [OF assms(2)])
        (auto simp: SetClassVisibility_def split: option.splits dest!: visibility_not_flag
          elim!: classDecision_flag [OF assms(2)] intro!: flag_inv_other [OF assms(2)])
  next
    case (EvSecurity k b a now)
    show ?thesis unfolding EvSecurity logs_step.simps origin_step_def logs_event.case
      by (rule committed_flag(1) [OF assms(2)])
        (auto simp: SetClassSecurity_def elim!: classDecision_flag [OF assms(2)] intro!: flag_inv_decide_flag [OF assms(2)])
  next
    case (EvSeverity k x a now)
    show ?thesis unfolding EvSeverity logs_step.simps origin_step_def logs_event.case
      by (rule committed_flag(1) [OF assms(2)])
        (auto simp: SetClassSeverity_def N split: if_splits elim!: classDecision_flag [OF assms(2)] intro!: flag_inv_other [OF assms(2)])
  next
    case (EvDocRef k d a now)
    show ?thesis unfolding EvDocRef logs_step.simps origin_step_def logs_event.case
      by (rule committed_flag(1) [OF assms(2)])
        (auto simp: SetClassDocRef_def N elim!: classDecision_flag [OF assms(2)] intro!: flag_inv_other [OF assms(2)])
  next
    case (EvUpdate k u a now)
    show ?thesis unfolding EvUpdate logs_step.simps origin_step_def logs_event.case
      by (rule committed_flag(2) [OF assms(2) UpdateClass_flag [OF assms(2)]])
  next
    case (EvGroupVisibility gr ms v a now)
    show ?thesis unfolding EvGroupVisibility logs_step.simps origin_step_def logs_event.case
      by (rule committed_flag(2) [OF assms(2)])
        (auto simp: SetGroupVisibility_def Let_def assms(2) split: option.splits if_splits intro: apply_all_flag [OF assms(2)])
  next
    case (EvClassesVisibility ks v a now)
    show ?thesis unfolding EvClassesVisibility logs_step.simps origin_step_def logs_event.case
      by (rule committed_flag(2) [OF assms(2)])
        (auto simp: SetClassesVisibility_def Let_def assms(2) split: option.splits if_splits intro: apply_all_flag [OF assms(2)])
  next
    case (EvMaint stop cfg now)
    show ?thesis unfolding EvMaint logs_step.simps origin_step_def logs_event.case by (rule same [OF maint_flags [OF assms(1)]])
  next
    case (EvFinding ulid f now)
    show ?thesis unfolding EvFinding logs_step.simps origin_step_def logs_event.case by (rule UpsertFinding_flag [OF assms])
  next
    case (EvRefresh sys ts now)
    have "flag_inv g (fold (refresh_one now) hits s)" for hits
      by (rule fold_inv [where P = "flag_inv g", OF _ assms(2)]) (rule flag_inv_same [OF refresh_one_flags])
    then show ?thesis unfolding EvRefresh logs_step.simps origin_step_def logs_event.case
      using assms(2) by (simp add: RefreshFindings_def Let_def)
  next
    case (EvBegin sys ws we now)
    show ?thesis unfolding EvBegin logs_step.simps origin_step_def logs_event.case
      by (rule same [OF same_flags_frame]) (simp_all add: BeginAnalysis_def split: option.split)
  qed (simp_all only: logs_step.simps origin_step_def logs_event.case, (rule same [OF same_flags_frame]; simp add: plain_writes)+)
qed

lemma traced_run_inv: "review_inv (fst (traced_run evs)) \<and> flag_inv (snd (traced_run evs)) (fst (traced_run evs))"
proof -
  have "flag_inv (\<lambda>_. False) empty_logs" by (simp add: flag_inv_def security_of_def empty_logs_def)
  moreover have "review_inv empty_logs" using logs_run_inv [of "[]"] by (simp add: logs_run_def)
  ultimately show ?thesis unfolding traced_run_def
    by (intro fold_inv [where P = "\<lambda>(s, g). review_inv s \<and> flag_inv g s", simplified case_prod_beta])
      (auto simp: logs_step_inv flag_step)
qed

lemma logs_run_flag:
  "security_of k (logs_run evs) = Some x \<Longrightarrow>
   x = pick_wording (trail_detail k ActionSecurity (decisions_of (logs_run evs))) (on_off (reported_flag evs k))"
  using traced_run_inv [of evs] by (simp add: traced_run_store reported_flag_def flag_inv_def)

subsection \<open>What review and maintenance cannot touch\<close>

fun is_review :: "logs_event \<Rightarrow> bool" where
  "is_review (EvVisibility k v a now) = True"
| "is_review (EvSecurity k b a now) = True"
| "is_review (EvSeverity k sev a now) = True"
| "is_review (EvDocRef k d a now) = True"
| "is_review (EvUpdate k u a now) = True"
| "is_review (EvGroup g) = True"
| "is_review (EvGroupVisibility g ms v a now) = True"
| "is_review (EvClassesVisibility ks v a now) = True"
| "is_review _ = False"

text \<open>What the analysis reads: everything but the review tables.\<close>

definition pipeline_view :: "logs_store \<Rightarrow>
    system_row list \<times> template_row list \<times> node_row list \<times> finding_row list \<times> analysis_row list \<times> string list" where
  "pipeline_view s = (ls_systems s, ls_templates s, ls_nodes s, ls_findings s, ls_analyses s, map cl_key (ls_classes s))"

lemma pipeline_view_simps [simp]:
  "pipeline_view (add_decision k actor a d pv now s) = pipeline_view s"
  "pipeline_view (set_text k g s) = pipeline_view s"
  "pipeline_view (s\<lparr>ls_texts := ts\<rparr>) = pipeline_view s"
  "pipeline_view (s\<lparr>ls_groups := gs\<rparr>) = pipeline_view s"
  by (simp_all add: pipeline_view_def add_decision_def set_text_def)

lemma pipeline_view_set_class: "(\<And>c. cl_key (f c) = cl_key c) \<Longrightarrow> pipeline_view (set_class k f s) = pipeline_view s"
  by (simp add: pipeline_view_def set_class_def map_key_update)

lemma pipeline_view_applyVisibility [simp]: "pipeline_view (applyVisibility v a d actor now p s) = pipeline_view s"
  by (simp add: applyVisibility_def pipeline_view_set_class)

lemma fold_view: "(\<And>x s. x \<in> set xs \<Longrightarrow> v (f x s) = v s) \<Longrightarrow> v (fold f xs s) = v s"
  by (induction xs arbitrary: s) auto

lemma pipeline_view_decision:
  "(\<And>c. cl_key (f c) = cl_key c) \<Longrightarrow> pipeline_view (committed (classDecision k actor a now f d s) s) = pipeline_view s"
  by (simp add: classDecision_def committed_def pipeline_view_set_class split: option.split)

lemma pipeline_view_changes:
  "ch \<in> set (class_changes k u c tx) \<Longrightarrow> pipeline_view (cc_apply ch s) = pipeline_view s"
  unfolding class_changes_def Let_def
  by (auto simp: change_if_def pipeline_view_set_class split: if_splits)

lemma pipeline_view_UpdateClass: "pipeline_view (committed2 (UpdateClass k u actor now s) s) = pipeline_view s"
proof -
  have "pipeline_view s' = pipeline_view s" if U: "UpdateClass k u actor now s = Inr (n, s')" for n s'
  proof -
    obtain c tx s1 where U: "seedClassText k now s = (tx, s1)"
      "s' = (if class_changes k u c tx = [] then s
             else fold (apply_change k actor (null_string (cl_first_prompt_version c)) now) (class_changes k u c tx) s1)"
      using UpdateClass_Inr [OF U] by metis
    have "pipeline_view (fold (apply_change k actor pv now) (class_changes k u c tx) s1) = pipeline_view s1" for pv
      by (rule fold_view) (simp add: apply_change_def pipeline_view_changes)
    moreover have "pipeline_view s1 = pipeline_view s" using U(1) by (auto simp: seedClassText_def Let_def)
    ultimately show ?thesis unfolding U(2) by simp
  qed
  then show ?thesis by (auto simp: committed2_def split: sum.split)
qed

lemma pipeline_view_review: "is_review e \<Longrightarrow> pipeline_view (logs_step e s) = pipeline_view s"
proof (cases e)
  case (EvVisibility k v a now)
  then show ?thesis
    by (auto simp: SetClassVisibility_def pipeline_view_decision split: option.split) (simp add: committed_def)
next
  case (EvSeverity k sev a now)
  then show ?thesis
    by (auto simp: SetClassSeverity_def pipeline_view_decision) (simp_all add: committed_def)
next
  case (EvGroupVisibility g ms v a now)
  then show ?thesis
    by (auto simp: SetGroupVisibility_def committed2_def Let_def fold_view split: option.split)
next
  case (EvClassesVisibility ks v a now)
  then show ?thesis
    by (auto simp: SetClassesVisibility_def committed2_def Let_def fold_view split: option.split)
qed (simp_all add: SetClassSecurity_def SetClassDocRef_def pipeline_view_decision pipeline_view_UpdateClass SetClassGroup_def)

lemma OpenFindings_view: "pipeline_view s = pipeline_view s' \<Longrightarrow> OpenFindings sys s = OpenFindings sys s'"
  by (simp add: pipeline_view_def OpenFindings_def)

text \<open>A table after a prune, for the rows the condition spares.\<close>

lemma pruneLoop_spares:
  assumes "\<And>r. Q r \<Longrightarrow> \<not> P r"
  shows "filter Q (snd (snd (pruneLoop stop P rows))) = filter Q rows"
proof -
  have "filter Q (filter (\<lambda>r. \<not> P r) xs) = filter Q xs" for xs using assms by (induction xs) auto
  then show ?thesis using prune_loop_keeps [of P "pruneBatchSize - 1" stop 0 rows] unfolding pruneLoop_def by metis
qed

lemma tables_after_prune:
  "tables_after (prune_templates st old) s = s\<lparr>ls_templates := snd (snd (pruneLoop st (\<lambda>r. lt_last_seen r < old) (ls_templates s)))\<rparr>"
  "tables_after (prune_nodes st old) s = s\<lparr>ls_nodes := snd (snd (pruneLoop st (\<lambda>r. no_last_seen r < old) (ls_nodes s)))\<rparr>"
  "tables_after (prune_findings st old) s =
     s\<lparr>ls_findings := snd (snd (pruneLoop st (\<lambda>r. fr_status r \<noteq> StatusOpen \<and> fr_last_seen r < old) (ls_findings s)))\<rparr>"
  "tables_after (prune_analyses st old) s = s\<lparr>ls_analyses := snd (snd (pruneLoop st (\<lambda>r. an_created r < old) (ls_analyses s)))\<rparr>"
  by (simp_all add: tables_after_def prune_templates_def prune_nodes_def prune_findings_def prune_analyses_def split: prod.split)

lemma tables_after_prune_classes:
  "ls_classes (tables_after (prune_classes st1 st2 st3 old) s) = snd (snd (pruneLoop st1 (class_unused old s) (ls_classes s)))"
  "ls_findings (tables_after (prune_classes st1 st2 st3 old) s) = ls_findings s"
  "ls_templates (tables_after (prune_classes st1 st2 st3 old) s) = ls_templates s"
  "ls_nodes (tables_after (prune_classes st1 st2 st3 old) s) = ls_nodes s"
  "ls_analyses (tables_after (prune_classes st1 st2 st3 old) s) = ls_analyses s"
  "ls_decisions (tables_after (prune_classes st1 st2 st3 old) s) = ls_decisions s"
  by (simp_all add: tables_after_def prune_classes_def Let_def split: prod.split)

lemma prune_classes_keep:
  "filter (\<lambda>g. class_stored (tables_after (prune_classes st1 st2 st3 old) s) (gr_key g)) (ls_groups (tables_after (prune_classes st1 st2 st3 old) s))
     = filter (\<lambda>g. class_stored (tables_after (prune_classes st1 st2 st3 old) s) (gr_key g)) (ls_groups s)"
  "filter (\<lambda>t. class_stored (tables_after (prune_classes st1 st2 st3 old) s) (tx_key t)) (ls_texts (tables_after (prune_classes st1 st2 st3 old) s))
     = filter (\<lambda>t. class_stored (tables_after (prune_classes st1 st2 st3 old) s) (tx_key t)) (ls_texts s)"
proof -
  obtain n ok1 cs where 1: "pruneLoop st1 (class_unused old s) (ls_classes s) = (n, ok1, cs)" by (metis prod_cases3)
  let ?s1 = "s\<lparr>ls_classes := cs\<rparr>"
  obtain m ok2 gs where 2: "pruneLoop st2 (\<lambda>g. \<not> class_stored ?s1 (gr_key g)) (ls_groups ?s1) = (m, ok2, gs)" by (metis prod_cases3)
  let ?s2 = "?s1\<lparr>ls_groups := gs\<rparr>"
  obtain l ok3 ts where 3: "pruneLoop st3 (\<lambda>t. \<not> class_stored ?s2 (tx_key t)) (ls_texts ?s2) = (l, ok3, ts)" by (metis prod_cases3)
  have r: "tables_after (prune_classes st1 st2 st3 old) s = (if \<not> ok1 then ?s1 else if \<not> ok2 then ?s2 else ?s2\<lparr>ls_texts := ts\<rparr>)"
    unfolding tables_after_def prune_classes_def Let_def 1 prod.case 2 3 by simp
  have c: "class_stored (tables_after (prune_classes st1 st2 st3 old) s) = class_stored ?s1" "class_stored ?s2 = class_stored ?s1"
    by (simp_all add: r class_stored_def fun_eq_iff)
  have "filter (\<lambda>g. class_stored ?s1 (gr_key g)) gs = filter (\<lambda>g. class_stored ?s1 (gr_key g)) (ls_groups s)"
    using pruneLoop_spares [of "\<lambda>g. class_stored ?s1 (gr_key g)" "\<lambda>g. \<not> class_stored ?s1 (gr_key g)" st2 "ls_groups s"] 2 by simp
  then show "filter (\<lambda>g. class_stored (tables_after (prune_classes st1 st2 st3 old) s) (gr_key g)) (ls_groups (tables_after (prune_classes st1 st2 st3 old) s))
     = filter (\<lambda>g. class_stored (tables_after (prune_classes st1 st2 st3 old) s) (gr_key g)) (ls_groups s)"
    unfolding c(1) by (simp add: r)
  have "filter (\<lambda>t. class_stored ?s1 (tx_key t)) ts = filter (\<lambda>t. class_stored ?s1 (tx_key t)) (ls_texts s)"
    using pruneLoop_spares [of "\<lambda>t. class_stored ?s1 (tx_key t)" "\<lambda>t. \<not> class_stored ?s1 (tx_key t)" st3 "ls_texts s"] 3 c(2) by simp
  then show "filter (\<lambda>t. class_stored (tables_after (prune_classes st1 st2 st3 old) s) (tx_key t)) (ls_texts (tables_after (prune_classes st1 st2 st3 old) s))
     = filter (\<lambda>t. class_stored (tables_after (prune_classes st1 st2 st3 old) s) (tx_key t)) (ls_texts s)"
    unfolding c(1) by (simp add: r)
qed

subsection \<open>Properties\<close>

text \<open>
  C7: over every history of the log store, every class stands exactly as its audit trail says: its
  visibility is that of the last decision on it, and pending without one; its severity, its
  documentation link and its three customer texts are the details of the last decisions on
  them; and a stored class has the security flag of the last decision on it, or, without one,
  that of the report that created the class. No change is without a record and no record without
  its change, through recurrences, refreshes, seeding, review forms, group and bulk decisions
  and interrupted prunes alike.
\<close>

theorem class_reviews_are_audited:
  "audited (logs_run evs) key
   \<and> security_of key (logs_run evs) =
      (if class_stored (logs_run evs) key
       then Some (pick_wording (trail_detail key ActionSecurity (decisions_of (logs_run evs))) (on_off (reported_flag evs key)))
       else None)"
proof -
  have "class_stored (logs_run evs) key \<longleftrightarrow> security_of key (logs_run evs) \<noteq> None"
    by (auto simp: class_stored_def list_ex_iff security_of_def find_key_None)
  then show ?thesis using logs_run_inv [of evs] logs_run_flag [of key evs]
    by (cases "security_of key (logs_run evs)") (simp_all add: review_inv_def)
qed

text \<open>
  C3: a customer reads only what was delivered. In every history, every finding the customer
  query returns belongs to the system that asked, is recent enough and in the status asked for,
  and its class was last decided to be delivered. Its documentation link is that of the last
  decision; its severity and its texts are those of the last decisions whenever there are any;
  and its security flag is that of the last decision, or, without one, that of the report that
  created the class.
\<close>

theorem customer_sees_only_delivered:
  "list_all (\<lambda>f. f_system_id f = sys \<and> since \<le> f_last_seen f \<and> f_status f = pick_wording status (f_status f)
       \<and> trail_visibility (f_class_key f) (decisions_of (logs_run evs)) = VisibilityCustomer
       \<and> on_off (f_security f) = pick_wording (trail_detail (f_class_key f) ActionSecurity (decisions_of (logs_run evs)))
                                   (on_off (reported_flag evs (f_class_key f)))
       \<and> f_doc_ref f = trail_detail (f_class_key f) ActionDocRef (decisions_of (logs_run evs))
       \<and> f_severity f = pick_wording (trail_detail (f_class_key f) ActionSeverity (decisions_of (logs_run evs))) (f_severity f)
       \<and> f_title f = pick_wording (trail_detail (f_class_key f) ActionTitle (decisions_of (logs_run evs))) (f_title f)
       \<and> f_summary f = pick_wording (trail_detail (f_class_key f) ActionSummary (decisions_of (logs_run evs))) (f_summary f)
       \<and> f_suggested_action f
           = pick_wording (trail_detail (f_class_key f) ActionSuggestedAction (decisions_of (logs_run evs))) (f_suggested_action f))
     (ListFindings sys since status (logs_run evs))"
proof -
  let ?s = "logs_run evs"
  have A: "audited ?s k" for k using logs_run_inv [of evs] by (simp add: review_inv_def)
  have "f_system_id f = sys \<and> since \<le> f_last_seen f \<and> f_status f = pick_wording status (f_status f)
      \<and> live_visibility (f_class_key f) ?s = VisibilityCustomer
      \<and> security_of (f_class_key f) ?s = Some (on_off (f_security f))
      \<and> f_doc_ref f = class_field cl_doc_ref (f_class_key f) ?s
      \<and> f_severity f = pick_wording (class_field cl_severity (f_class_key f) ?s) (f_severity f)
      \<and> f_title f = pick_wording (text_field tx_title_override (f_class_key f) ?s) (f_title f)
      \<and> f_summary f = pick_wording (text_field tx_summary_override (f_class_key f) ?s) (f_summary f)
      \<and> f_suggested_action f = pick_wording (text_field tx_action_override (f_class_key f) ?s) (f_suggested_action f)"
    if f: "f \<in> set (ListFindings sys since status ?s)" for f
  proof -
    obtain r where l: "listed sys since status ?s r" "f = apply_class (finding_of_row (class_of ?s r) (text_of ?s r) r)"
      using f by (auto simp: ListFindings_def SortFindings_def)
    then obtain c where "class_of ?s r = Some c" by (auto simp: listed_def split: option.splits)
    note r = l(1) this l(2)
    obtain k where k: "fr_class r = Some k" "find_key cl_key k (ls_classes ?s) = Some c"
      using r(2) by (auto simp: class_of_def split: option.splits)
    show ?thesis
      using r k by (auto simp: listed_def apply_class_def finding_of_row_def text_of_def live_visibility_def class_field_def
          security_of_def text_field_def pick_wording_def class_wording_def split: option.split)
  qed
  moreover have "on_off b = pick_wording (trail_detail k ActionSecurity (decisions_of ?s)) (on_off (reported_flag evs k))"
    if "security_of k ?s = Some (on_off b)" for k b using logs_run_flag [OF that] .
  ultimately show ?thesis using A unfolding list_all_iff audited_def by metis
qed

text \<open>
  C31: nothing an operator decides reaches the model. Whatever review operations run, in any number
  and order, the open findings the prompt is written from, the gate's memory of known
  templates, the roster of machines, the spend ledger, the calls of a system and the set of
  stored classes are what they were; indeed every table the analysis reads keeps every row.
\<close>

theorem review_never_reaches_prompt:
  "OpenFindings sys (fold logs_step (filter is_review evs) s) = OpenFindings sys s
   \<and> KnownTemplates sys (fold logs_step (filter is_review evs) s) = KnownTemplates sys s
   \<and> NodeRoster sys (fold logs_step (filter is_review evs) s) = NodeRoster sys s
   \<and> DailySpendMicros since (fold logs_step (filter is_review evs) s) = DailySpendMicros since s
   \<and> SystemCallsSince sys since (fold logs_step (filter is_review evs) s) = SystemCallsSince sys since s
   \<and> ExistingClasses keys (fold logs_step (filter is_review evs) s) = ExistingClasses keys s
   \<and> pipeline_view (fold logs_step (filter is_review evs) s) = pipeline_view s"
proof -
  have "pipeline_view (fold logs_step (filter is_review evs) s) = pipeline_view s"
    by (rule fold_view) (simp add: pipeline_view_review)
  then show ?thesis
    by (simp add: pipeline_view_def OpenFindings_def KnownTemplates_def NodeRoster_def fun_eq_iff DailySpendMicros_def SystemCallsSince_def
        ExistingClasses_def)
qed

text \<open>
  C32: maintenance never loses what matters. However each of its prunes is interrupted, the pass
  keeps every open finding; every finding, template, machine and ledger row younger than its
  retention; every class an operator decided on, that was seen recently, or that a finding left
  by the pass names; the group and the texts of every class it leaves; and the whole audit trail.
\<close>

theorem maint_keeps_what_matters:
  "(let s' = snd (maint_Run stop cfg now s);
        live = (\<lambda>r. fr_status r = StatusOpen \<or> now - mc_finding_retention cfg \<le> fr_last_seen r);
        used = (\<lambda>c. cl_key c \<in> de_key ` set (ls_decisions s) \<or> now - mc_finding_retention cfg \<le> cl_last_seen c
                  \<or> list_ex (\<lambda>r. fr_class r = Some (cl_key c)) (ls_findings s'))
    in filter live (ls_findings s') = filter live (ls_findings s)
     \<and> filter (\<lambda>r. now - mc_template_retention cfg \<le> lt_last_seen r) (ls_templates s')
       = filter (\<lambda>r. now - mc_template_retention cfg \<le> lt_last_seen r) (ls_templates s)
     \<and> filter (\<lambda>r. now - mc_template_retention cfg \<le> no_last_seen r) (ls_nodes s')
       = filter (\<lambda>r. now - mc_template_retention cfg \<le> no_last_seen r) (ls_nodes s)
     \<and> filter (\<lambda>r. now - mc_analysis_retention cfg \<le> an_created r) (ls_analyses s')
       = filter (\<lambda>r. now - mc_analysis_retention cfg \<le> an_created r) (ls_analyses s)
     \<and> filter used (ls_classes s') = filter used (ls_classes s)
     \<and> filter (\<lambda>g. class_stored s' (gr_key g)) (ls_groups s') = filter (\<lambda>g. class_stored s' (gr_key g)) (ls_groups s)
     \<and> filter (\<lambda>t. class_stored s' (tx_key t)) (ls_texts s') = filter (\<lambda>t. class_stored s' (tx_key t)) (ls_texts s)
     \<and> ls_decisions s' = ls_decisions s)"
proof -
  let ?T = "snd (snd (pruneLoop (stop PrTemplates) (\<lambda>r. lt_last_seen r < now - mc_template_retention cfg) (ls_templates s)))"
  let ?F = "snd (snd (pruneLoop (stop PrFindings)
        (\<lambda>r. fr_status r \<noteq> StatusOpen \<and> fr_last_seen r < now - mc_finding_retention cfg) (ls_findings s)))"
  let ?s1 = "s\<lparr>ls_templates := ?T, ls_findings := ?F\<rparr>"
  let ?c = "tables_after (prune_classes (stop PrClasses) (stop PrClassGroups) (stop PrClassTexts) (now - mc_finding_retention cfg)) ?s1"
  let ?m = "maint_tables stop cfg now s"
  have t: "ls_findings ?m = ?F \<and> ls_templates ?m = ?T
      \<and> ls_nodes ?m = snd (snd (pruneLoop (stop PrNodes) (\<lambda>r. no_last_seen r < now - mc_template_retention cfg) (ls_nodes s)))
      \<and> ls_analyses ?m
        = snd (snd (pruneLoop (stop PrAnalyses) (\<lambda>r. an_created r < now - mc_analysis_retention cfg) (ls_analyses s)))
      \<and> ls_classes ?m
        = snd (snd (pruneLoop (stop PrClasses) (class_unused (now - mc_finding_retention cfg) ?s1) (ls_classes s)))
      \<and> ls_groups ?m = ls_groups ?c \<and> ls_texts ?m = ls_texts ?c
      \<and> ls_decisions ?m = ls_decisions s"
    by (simp add: maint_tables_def tables_after_prune tables_after_prune_classes)
  have "filter (\<lambda>r. fr_status r = StatusOpen \<or> now - mc_finding_retention cfg \<le> fr_last_seen r) ?F
      = filter (\<lambda>r. fr_status r = StatusOpen \<or> now - mc_finding_retention cfg \<le> fr_last_seen r) (ls_findings s)"
    by (rule pruneLoop_spares) auto
  moreover have "filter (\<lambda>r. now - mc_template_retention cfg \<le> lt_last_seen r) ?T
      = filter (\<lambda>r. now - mc_template_retention cfg \<le> lt_last_seen r) (ls_templates s)"
    by (rule pruneLoop_spares) auto
  moreover have "filter (\<lambda>r. now - mc_template_retention cfg \<le> no_last_seen r) (ls_nodes ?m)
      = filter (\<lambda>r. now - mc_template_retention cfg \<le> no_last_seen r) (ls_nodes s)"
    using t by (simp only:) (rule pruneLoop_spares, auto)
  moreover have "filter (\<lambda>r. now - mc_analysis_retention cfg \<le> an_created r) (ls_analyses ?m)
      = filter (\<lambda>r. now - mc_analysis_retention cfg \<le> an_created r) (ls_analyses s)"
    using t by (simp only:) (rule pruneLoop_spares, auto)
  moreover have "filter (\<lambda>c. cl_key c \<in> de_key ` set (ls_decisions s) \<or> now - mc_finding_retention cfg \<le> cl_last_seen c
        \<or> list_ex (\<lambda>r. fr_class r = Some (cl_key c)) ?F)
        (snd (snd (pruneLoop (stop PrClasses) (class_unused (now - mc_finding_retention cfg) ?s1) (ls_classes s))))
      = filter (\<lambda>c. cl_key c \<in> de_key ` set (ls_decisions s) \<or> now - mc_finding_retention cfg \<le> cl_last_seen c
        \<or> list_ex (\<lambda>r. fr_class r = Some (cl_key c)) ?F) (ls_classes s)"
    by (rule pruneLoop_spares) (auto simp: class_unused_def list_ex_iff)
  moreover have same: "ls_groups ?s1 = ls_groups s" "ls_texts ?s1 = ls_texts s" by simp_all
  moreover have "filter (\<lambda>g. class_stored ?c (gr_key g)) (ls_groups ?c) = filter (\<lambda>g. class_stored ?c (gr_key g)) (ls_groups s)"
    using prune_classes_keep(1) [of "stop PrClasses" "stop PrClassGroups" "stop PrClassTexts" "now - mc_finding_retention cfg" ?s1] unfolding same .
  moreover have "filter (\<lambda>t. class_stored ?c (tx_key t)) (ls_texts ?c) = filter (\<lambda>t. class_stored ?c (tx_key t)) (ls_texts s)"
    using prune_classes_keep(2) [of "stop PrClasses" "stop PrClassGroups" "stop PrClassTexts" "now - mc_finding_retention cfg" ?s1] unfolding same .
  moreover have "class_stored ?m = class_stored ?c"
  proof -
    have "ls_classes ?m = ls_classes ?c" by (simp add: maint_tables_def tables_after_prune)
    then show ?thesis by (simp only: class_stored_def fun_eq_iff) simp
  qed
  ultimately show ?thesis
    unfolding maint_Run_tables Let_def using t by (elim conjE) (intro conjI; simp only:)
qed

end
