(* ===== verification/Gate.thy ===== *)
theory Gate
  imports Model_Canonical Complex_Main
begin

text \<open>
  The novelty gate, \<open>internal/gate\<close>: which windows are worth a call. \<open>gate.go\<close> and
  \<open>similar.go\<close>. A Go map with an unobservable order is a function to an option, or the list of
  its keys in order of insertion. The similarity share is a rational: the code adds \<open>1e-9\<close> to
  hide the rounding of its floating point product.
\<close>

subsection \<open>Near-known templates\<close>

definition similarityEligible :: "template \<Rightarrow> bool" where
  "similarityEligible t \<longleftrightarrow> t_category t \<noteq> ''security'' \<and> t_priority t > 2"

definition tok_byte :: "char \<Rightarrow> bool" where
  "tok_byte c \<longleftrightarrow> is_lower c \<or> is_upper c \<or> is_digit c \<or> c = CHR ''_'' \<or> c = CHR ''<'' \<or> c = CHR ''>''"

definition blank_byte :: "char \<Rightarrow> bool" where
  "blank_byte c \<longleftrightarrow> byte c \<in> {32, 9, 10, 13}"

text \<open>The scan; \<open>cur\<close> is the word being read, reversed.\<close>

fun tokenize_from :: "string \<Rightarrow> string \<Rightarrow> string list" where
  "tokenize_from cur [] = (if cur = [] then [] else [rev cur])"
| "tokenize_from cur (c # cs) =
     (if tok_byte c then tokenize_from (c # cur) cs
      else (if cur = [] then [] else [rev cur]) @ (if blank_byte c then [] else [[c]]) @ tokenize_from [] cs)"

definition tokenize :: "string \<Rightarrow> string list" where
  "tokenize s = tokenize_from [] s"

fun plain_from :: "char option \<Rightarrow> string \<Rightarrow> bool" where
  "plain_from prev [] = True"
| "plain_from prev (c # cs) =
     (if \<not> is_upper c \<and> \<not> is_lower c then False
      else if is_upper c \<and> (case prev of None \<Rightarrow> False | Some p \<Rightarrow> is_lower p) then False
      else plain_from (Some c) cs)"

definition plainWord :: "string \<Rightarrow> bool" where
  "plainWord tok \<longleftrightarrow> \<not> length tok < 2 \<and> plain_from None tok"

fun similar_from :: "nat \<Rightarrow> string list \<Rightarrow> string list \<Rightarrow> nat \<Rightarrow> bool" where
  "similar_from diff (a # as) (b # bs) allowed =
     (if a = b then similar_from diff as bs allowed
      else if Suc diff > allowed \<or> plainWord a \<or> plainWord b then False
      else similar_from (Suc diff) as bs allowed)"
| "similar_from diff _ _ allowed = True"

definition similar :: "string list \<Rightarrow> string list \<Rightarrow> nat \<Rightarrow> bool" where
  "similar a b allowed = similar_from 0 a b allowed"

text \<open>
  The index: one entry per known template recent enough. A lookup by shape is a filter; the
  order of the entries of one shape does not matter to an existential loop.
\<close>

type_synonym known_index = "(string \<times> string list) list"

definition newKnownIndex :: "(string \<times> int) list \<Rightarrow> int \<Rightarrow> known_index" where
  "newKnownIndex known silentBefore =
     concat (map (\<lambda>(key, lastSeen).
        if lastSeen < silentBefore then []
        else case cut NUL key of None \<Rightarrow> [] | Some (family, text) \<Rightarrow> [(family, tokenize text)]) known)"

definition mismatch_budget :: "nat \<Rightarrow> rat \<Rightarrow> nat" where
  "mismatch_budget n threshold = nat \<lfloor>of_nat n * (1 - threshold) + 1 / 1000000000\<rfloor>"

definition near :: "known_index \<Rightarrow> string \<Rightarrow> rat \<Rightarrow> bool" where
  "near idx key threshold =
     (case cut NUL key of
        None \<Rightarrow> False
      | Some (family, text) \<Rightarrow>
          (let toks = tokenize text; allowed = mismatch_budget (length toks) threshold
           in if toks = [] then False
              else if allowed = 0 then False
              else list_ex (\<lambda>(f, other). f = family \<and> length other = length toks \<and> similar toks other allowed) idx))"

subsection \<open>The decision\<close>

record system_state =
  ss_known :: "(string \<times> int) list"
  ss_security_only :: bool

record gate_config =
  gc_min_new :: int
  gc_similarity :: rat
  gc_silence :: int

record gate_decision =
  gd_call :: bool
  gd_reasons :: "string list"
  gd_novel :: "string list"
  gd_near_known :: int
  gd_returning :: int

definition ReasonNewTemplates :: string where "ReasonNewTemplates = ''new_templates''"
definition ReasonSecurityNew :: string where "ReasonSecurityNew = ''security_new''"

definition silent_before :: "gate_config \<Rightarrow> int \<Rightarrow> int" where
  "silent_before cfg start = (if gc_silence cfg > 0 then start - gc_silence cfg else - (2 ^ 63))"

definition template_ckey :: "template \<Rightarrow> string" where
  "template_ckey t = CanonicalKey (t_module_id t) (t_template t)"

text \<open>
  The first loop: the keys back after a silence, and the unknown keys in order with whether all
  of their templates may be matched by similarity.
\<close>

fun mark_unknown :: "string \<Rightarrow> bool \<Rightarrow> (string \<times> bool) list \<Rightarrow> (string \<times> bool) list" where
  "mark_unknown key eligible [] = [(key, eligible)]"
| "mark_unknown key eligible ((k, e) # us) =
     (if k = key then (k, e \<and> eligible) # us else (k, e) # mark_unknown key eligible us)"

fun scan_templates ::
  "(string \<Rightarrow> int option) \<Rightarrow> int \<Rightarrow> template list \<Rightarrow> string list \<times> (string \<times> bool) list \<Rightarrow> string list \<times> (string \<times> bool) list" where
  "scan_templates known silent [] st = st"
| "scan_templates known silent (t # ts) (returning, unknown) =
     (let key = template_ckey t
      in case known key of
           None \<Rightarrow> scan_templates known silent ts (returning, mark_unknown key (similarityEligible t) unknown)
         | Some lastSeen \<Rightarrow>
             if lastSeen < silent then scan_templates known silent ts (List.insert key returning, unknown)
             else scan_templates known silent ts (returning, unknown))"

definition is_near :: "gate_config \<Rightarrow> system_state \<Rightarrow> int \<Rightarrow> string \<times> bool \<Rightarrow> bool" where
  "is_near cfg s silent u \<longleftrightarrow>
     snd u \<and> gc_similarity cfg < 1 \<and> near (newKnownIndex (ss_known s) silent) (fst u) (gc_similarity cfg)"

definition gate_Evaluate :: "log_bundle \<Rightarrow> system_state \<Rightarrow> gate_config \<Rightarrow> gate_decision" where
  "gate_Evaluate b s cfg =
     (let silent = silent_before cfg (w_start (b_window b))
      in case scan_templates (map_of (ss_known s)) silent (b_templates b) ([], []) of
        (returning, unknown) \<Rightarrow>
          (let novel = returning @ map fst (filter (\<lambda>u. \<not> is_near cfg s silent u) unknown);
               securityNew = list_ex (\<lambda>t. t_category t = ''security'' \<and> template_ckey t \<in> set novel) (b_templates b);
               reasons = (if securityNew then [ReasonSecurityNew] else [])
                 @ (if \<not> ss_security_only s \<and> int (length novel) \<ge> gc_min_new cfg \<and> gc_min_new cfg > 0
                    then [ReasonNewTemplates] else [])
           in \<lparr>gd_call = (reasons \<noteq> []), gd_reasons = reasons, gd_novel = novel,
               gd_near_known = int (length (filter (is_near cfg s silent) unknown)),
               gd_returning = int (length returning)\<rparr>))"

subsection \<open>Novelty\<close>

definition back_after_silence :: "system_state \<Rightarrow> int \<Rightarrow> string \<Rightarrow> bool" where
  "back_after_silence s silent key \<longleftrightarrow> (case map_of (ss_known s) key of None \<Rightarrow> False | Some l \<Rightarrow> l < silent)"

definition never_seen :: "system_state \<Rightarrow> string \<Rightarrow> bool" where
  "never_seen s key \<longleftrightarrow> map_of (ss_known s) key = None"

text \<open>An unknown key may be explained away only when every template of the window that has it may.\<close>

definition explained :: "gate_config \<Rightarrow> system_state \<Rightarrow> log_bundle \<Rightarrow> string \<Rightarrow> bool" where
  "explained cfg s b key \<longleftrightarrow>
     list_all similarityEligible (filter (\<lambda>t. template_ckey t = key) (b_templates b)) \<and> gc_similarity cfg < 1
     \<and> near (newKnownIndex (ss_known s) (silent_before cfg (w_start (b_window b)))) key (gc_similarity cfg)"

definition novel_key :: "gate_config \<Rightarrow> system_state \<Rightarrow> log_bundle \<Rightarrow> string \<Rightarrow> bool" where
  "novel_key cfg s b key \<longleftrightarrow> key \<in> template_ckey ` set (b_templates b)
     \<and> (back_after_silence s (silent_before cfg (w_start (b_window b))) key
        \<or> never_seen s key \<and> \<not> explained cfg s b key)"

lemma mark_unknown_keys: "fst ` set (mark_unknown k e us) = insert k (fst ` set us)"
proof (induction us)
  case (Cons u us)
  then show ?case by (cases u) auto
qed simp

lemma mark_unknown_distinct: "distinct (map fst us) \<Longrightarrow> distinct (map fst (mark_unknown k e us))"
proof (induction us)
  case Nil
  then show ?case by simp
next
  case (Cons u us)
  then show ?case
    by (cases u; cases "fst u = k") (simp_all add: mark_unknown_keys)
qed

lemma mark_unknown_lookup:
  "map_of (mark_unknown k e us) x = (if x = k then Some (case map_of us k of None \<Rightarrow> e | Some e' \<Rightarrow> e' \<and> e) else map_of us x)"
  by (induction k e us rule: mark_unknown.induct) auto

definition elig :: "template list \<Rightarrow> string \<Rightarrow> bool option" where
  "elig ts key = (if key \<in> template_ckey ` set ts
     then Some (list_all similarityEligible (filter (\<lambda>t. template_ckey t = key) ts)) else None)"

definition and_opt :: "bool option \<Rightarrow> bool option \<Rightarrow> bool option" where
  "and_opt a b = (case a of None \<Rightarrow> b | Some x \<Rightarrow> Some (case b of None \<Rightarrow> x | Some y \<Rightarrow> x \<and> y))"

lemma elig_Cons: "elig (t # ts) key = (if key = template_ckey t then and_opt (Some (similarityEligible t)) (elig ts key) else elig ts key)"
proof (cases "template_ckey t \<in> template_ckey ` set ts")
  case True
  then show ?thesis by (auto simp: elig_def and_opt_def)
next
  case False
  then have "filter (\<lambda>u. template_ckey u = template_ckey t) ts = []"
    by (auto simp: filter_empty_conv) (metis imageI)
  then show ?thesis using False by (auto simp: elig_def and_opt_def)
qed

lemma scan_spec:
  assumes "scan_templates known silent ts (ret, unk) = (ret', unk')" "distinct ret" "distinct (map fst unk)"
  shows "distinct ret' \<and> distinct (map fst unk')
    \<and> set ret' = set ret \<union> {k \<in> template_ckey ` set ts. \<exists>l. known k = Some l \<and> l < silent}
    \<and> (\<forall>k. map_of unk' k = (if known k = None then and_opt (map_of unk k) (elig ts k) else map_of unk k))"
  using assms
proof (induction ts arbitrary: ret unk)
  case Nil
  then show ?case by (auto simp: elig_def and_opt_def split: option.split)
next
  case (Cons t ts)
  let ?k = "template_ckey t"
  show ?case
  proof (cases "known ?k")
    case None
    then have s: "scan_templates known silent ts (ret, mark_unknown ?k (similarityEligible t) unk) = (ret', unk')"
      using Cons.prems(1) by (simp add: Let_def)
    note IH = Cons.IH [OF s Cons.prems(2) mark_unknown_distinct [OF Cons.prems(3)]]
    have m: "map_of unk' k = (if known k = None then and_opt (map_of unk k) (elig (t # ts) k) else map_of unk k)" for k
      using IH None by (auto simp: mark_unknown_lookup elig_Cons and_opt_def split: option.split)
    have r: "set ret' = set ret \<union> {k \<in> template_ckey ` set (t # ts). \<exists>l. known k = Some l \<and> l < silent}"
      using IH None by auto
    show ?thesis using IH m r by blast
  next
    case (Some l)
    let ?ret = "if l < silent then List.insert ?k ret else ret"
    have s: "scan_templates known silent ts (?ret, unk) = (ret', unk')"
      using Cons.prems(1) Some by (auto simp: Let_def)
    have d: "distinct ?ret" using Cons.prems(2) by simp
    note IH = Cons.IH [OF s d Cons.prems(3)]
    have m: "map_of unk' k = (if known k = None then and_opt (map_of unk k) (elig (t # ts) k) else map_of unk k)" for k
      using IH Some by (auto simp: elig_Cons)
    have r: "set ret' = set ret \<union> {k \<in> template_ckey ` set (t # ts). \<exists>l. known k = Some l \<and> l < silent}"
      using IH Some by auto
    show ?thesis using IH m r by blast
  qed
qed

lemma Evaluate_novel:
  "distinct (gd_novel (gate_Evaluate b s cfg)) \<and> set (gd_novel (gate_Evaluate b s cfg)) = {k. novel_key cfg s b k}"
proof -
  let ?silent = "silent_before cfg (w_start (b_window b))"
  obtain ret unk where sc: "scan_templates (map_of (ss_known s)) ?silent (b_templates b) ([], []) = (ret, unk)"
    by fastforce
  from scan_spec [OF sc] have S: "distinct ret" "distinct (map fst unk)"
    "set ret = {k \<in> template_ckey ` set (b_templates b). back_after_silence s ?silent k}"
    "\<And>k. map_of unk k = (if never_seen s k then elig (b_templates b) k else None)"
    by (auto simp: back_after_silence_def never_seen_def and_opt_def split: option.splits)
  have u: "(k, e) \<in> set unk \<longleftrightarrow> never_seen s k \<and> elig (b_templates b) k = Some e" for k e
    using S(4) [of k] map_of_eq_Some_iff [OF S(2), of k e] by (simp split: if_splits)
  let ?new = "map fst (filter (\<lambda>u. \<not> is_near cfg s ?silent u) unk)"
  have n: "set ?new = {k \<in> template_ckey ` set (b_templates b). never_seen s k \<and> \<not> explained cfg s b k}"
  proof (intro equalityI subsetI)
    fix k
    assume "k \<in> set ?new"
    then obtain e where "(k, e) \<in> set unk" "\<not> is_near cfg s ?silent (k, e)" by auto
    then show "k \<in> {k \<in> template_ckey ` set (b_templates b). never_seen s k \<and> \<not> explained cfg s b k}"
      by (auto simp: u elig_def is_near_def explained_def split: if_splits)
  next
    fix k
    assume "k \<in> {k \<in> template_ckey ` set (b_templates b). never_seen s k \<and> \<not> explained cfg s b k}"
    then obtain e where "(k, e) \<in> set unk" "\<not> is_near cfg s ?silent (k, e)"
      by (auto simp: u elig_def is_near_def explained_def)
    then show "k \<in> set ?new" by force
  qed
  have nov: "gd_novel (gate_Evaluate b s cfg) = ret @ ?new"
    by (simp add: gate_Evaluate_def Let_def sc)
  have "distinct ?new" using S(2) by (simp add: distinct_map_filter)
  moreover have "set ret \<inter> set ?new = {}" unfolding n S(3) by (auto simp: never_seen_def back_after_silence_def)
  ultimately have "distinct (ret @ ?new)" using S(1) by (simp only: distinct_append)
  moreover have "set (ret @ ?new) = {k. novel_key cfg s b k}"
    unfolding set_append n S(3) by (auto simp: novel_key_def)
  ultimately show ?thesis unfolding nov by blast
qed

lemma Evaluate_reasons:
  "gd_reasons (gate_Evaluate b s cfg) =
     (if list_ex (\<lambda>t. t_category t = ''security'' \<and> template_ckey t \<in> set (gd_novel (gate_Evaluate b s cfg))) (b_templates b)
      then [ReasonSecurityNew] else [])
     @ (if \<not> ss_security_only s \<and> int (length (gd_novel (gate_Evaluate b s cfg))) \<ge> gc_min_new cfg \<and> gc_min_new cfg > 0
        then [ReasonNewTemplates] else [])"
  "gd_call (gate_Evaluate b s cfg) \<longleftrightarrow> gd_reasons (gate_Evaluate b s cfg) \<noteq> []"
  by (auto simp: gate_Evaluate_def Let_def split: prod.splits)


text \<open>\<open>similar\<close> counts the positions that differ.\<close>

definition differing :: "string list \<Rightarrow> string list \<Rightarrow> (string \<times> string) list" where
  "differing a b = filter (\<lambda>(x, y). x \<noteq> y) (zip a b)"

lemma similar_from_iff:
  "similar_from d a b allowed \<longleftrightarrow> differing a b = [] \<or>
     d + length (differing a b) \<le> allowed \<and> list_all (\<lambda>(x, y). \<not> plainWord x \<and> \<not> plainWord y) (differing a b)"
proof (induction d a b allowed rule: similar_from.induct)
  case (1 d a as b bs allowed)
  then show ?case by (cases "differing as bs = []") (auto simp: differing_def)
qed (auto simp: differing_def)

lemma similar_iff:
  "similar a b allowed \<longleftrightarrow> length (differing a b) \<le> allowed
     \<and> list_all (\<lambda>(x, y). \<not> plainWord x \<and> \<not> plainWord y) (differing a b)"
  by (auto simp: similar_def similar_from_iff)

text \<open>At a share of nine tenths a line needs ten tokens before one may differ.\<close>

lemma mismatch_budget_short: "n < 10 \<Longrightarrow> mismatch_budget n (9 / 10) = 0"
proof -
  assume "n < 10"
  then have "n \<le> 9" by simp
  then have "(of_nat n :: rat) \<le> of_nat 9" by (simp only: of_nat_le_iff)
  then have "of_nat n * (1 - 9 / 10) + 1 / 1000000000 < (1 :: rat)" by simp
  then show ?thesis by (simp add: mismatch_budget_def floor_less_iff)
qed

subsection \<open>Properties\<close>

text \<open>
  C14: the gate decides by novelty and nothing else. The keys it calls novel are, each once,
  exactly those of the window that the system never sent and that no similar known line
  explains, or that return after the silence; and it pays for a call exactly when one of them
  belongs to a security line, or when the fleet is not degraded and their number reaches the
  quorum. In particular the order of the known templates cannot matter.
\<close>

theorem gate_decides_by_novelty:
  "distinct (gd_novel (gate_Evaluate b s cfg)) \<and> set (gd_novel (gate_Evaluate b s cfg)) = {k. novel_key cfg s b k}
   \<and> (gd_call (gate_Evaluate b s cfg) \<longleftrightarrow>
        list_ex (\<lambda>t. t_category t = ''security'' \<and> novel_key cfg s b (template_ckey t)) (b_templates b)
        \<or> (\<not> ss_security_only s \<and> 0 < gc_min_new cfg \<and> gc_min_new cfg \<le> int (card {k. novel_key cfg s b k})))"
proof -
  have d: "distinct (gd_novel (gate_Evaluate b s cfg))" and n: "set (gd_novel (gate_Evaluate b s cfg)) = {k. novel_key cfg s b k}"
    using Evaluate_novel by blast+
  have c: "length (gd_novel (gate_Evaluate b s cfg)) = card {k. novel_key cfg s b k}"
    using distinct_card [OF d] n by simp
  have "gd_call (gate_Evaluate b s cfg) \<longleftrightarrow>
        list_ex (\<lambda>t. t_category t = ''security'' \<and> novel_key cfg s b (template_ckey t)) (b_templates b)
        \<or> (\<not> ss_security_only s \<and> 0 < gc_min_new cfg \<and> gc_min_new cfg \<le> int (card {k. novel_key cfg s b k}))"
    unfolding Evaluate_reasons n c by (simp add: conj_commute)
  then show ?thesis using d n by blast
qed

text \<open>
  C15: no new security line is ever missed. Whatever the quorum, the similarity share and the
  spend cap, the security reason is given exactly when the window holds a security line that
  the system never sent or that returns after the silence: neither a similar known line nor the
  degraded mode can hide one.
\<close>

theorem gate_security_new:
  "ReasonSecurityNew \<in> set (gd_reasons (gate_Evaluate b s cfg)) \<longleftrightarrow>
     list_ex (\<lambda>t. t_category t = ''security''
       \<and> (never_seen s (template_ckey t) \<or> back_after_silence s (silent_before cfg (w_start (b_window b))) (template_ckey t)))
       (b_templates b)"
proof -
  have n: "novel_key cfg s b (template_ckey t) \<longleftrightarrow>
      never_seen s (template_ckey t) \<or> back_after_silence s (silent_before cfg (w_start (b_window b))) (template_ckey t)"
    if "t \<in> set (b_templates b)" "t_category t = ''security''" for t
  proof -
    have "\<not> similarityEligible t" using that(2) by (simp add: similarityEligible_def)
    then have "\<not> explained cfg s b (template_ckey t)" using that(1) by (auto simp: explained_def list_all_iff)
    then show ?thesis using that(1) by (auto simp: novel_key_def)
  qed
  have "set (gd_novel (gate_Evaluate b s cfg)) = {k. novel_key cfg s b k}" using Evaluate_novel by blast
  then have "ReasonSecurityNew \<in> set (gd_reasons (gate_Evaluate b s cfg)) \<longleftrightarrow>
      list_ex (\<lambda>t. t_category t = ''security'' \<and> novel_key cfg s b (template_ckey t)) (b_templates b)"
    unfolding Evaluate_reasons by (simp add: ReasonSecurityNew_def ReasonNewTemplates_def)
  then show ?thesis using n by (auto simp: list_ex_iff)
qed

end
