(* ===== verification/Logs_Props.thy ===== *)
theory Logs_Props
  imports Logs_History Gate
begin

text \<open>
  What the log store promises the analysis: a window keeps its findings alive and counts once, the
  ledger of attempts, and the memory of known templates as the gate reads it.
\<close>

subsection \<open>Refreshing\<close>

definition refreshed :: "string \<Rightarrow> template list \<Rightarrow> int \<Rightarrow> finding_row \<Rightarrow> finding_row" where
  "refreshed sys ts now r =
     (if fr_system r = sys \<and> fst (seen_in (lines_present ts) r) then refresh_row now (snd (seen_in (lines_present ts) r)) r else r)"

lemma refresh_one_findings: "ls_findings (refresh_one now h s) =
    map (\<lambda>r. if fr_id r = rh_id h then refresh_row now (rh_nodes h) r else r) (ls_findings s)"
  by (simp add: refresh_one_def Let_def)

lemma refresh_row_id [simp]: "fr_id (refresh_row now n r) = fr_id r"
  by (simp add: refresh_row_def)

lemma fold_refresh_findings:
  "distinct (map rh_id hs) \<Longrightarrow> ls_findings (fold (refresh_one now) hs s) =
    map (\<lambda>r. case find_key rh_id (fr_id r) hs of None \<Rightarrow> r | Some h \<Rightarrow> refresh_row now (rh_nodes h) r) (ls_findings s)"
proof (induction hs arbitrary: s)
  case (Cons h hs)
  have n: "find_key rh_id (rh_id h) hs = None" using Cons.prems by (simp add: find_key_None)
  have "ls_findings (fold (refresh_one now) (h # hs) s) =
      map (\<lambda>r. case find_key rh_id (fr_id r) hs of None \<Rightarrow> r | Some h \<Rightarrow> refresh_row now (rh_nodes h) r)
        (ls_findings (refresh_one now h s))"
    using Cons by simp
  also have "\<dots> = map (\<lambda>r. case find_key rh_id (fr_id r) (h # hs) of None \<Rightarrow> r | Some h \<Rightarrow> refresh_row now (rh_nodes h) r)
      (ls_findings s)"
    unfolding refresh_one_findings map_map by (rule map_cong [OF refl]) (auto simp: n)
  finally show ?case .
qed simp

lemma find_hit:
  assumes "keys_unique fr_id rows" "r \<in> set rows" "\<And>x. rh_id (f x) = fr_id x"
  shows "find_key rh_id (fr_id r) (map f (filter P rows)) = (if P r then Some (f r) else None)"
proof -
  have "find_key rh_id k (map f xs) = map_option f (find_key fr_id k xs)" for k xs
    using assms(3) by (induction xs) auto
  moreover have "find_key fr_id (fr_id r) rows = Some r" by (rule find_key_mem [OF assms(1,2)])
  ultimately show ?thesis using find_key_filter [OF assms(1), of "fr_id r" P] by simp
qed

lemma RefreshFindings_findings:
  assumes "keys_unique fr_id (ls_findings s)"
  shows "ls_findings (snd (RefreshFindings sys ts now s)) = map (refreshed sys ts now) (ls_findings s)"
proof (cases "ts = []")
  case True
  have "fold (see_line (\<lambda>_. None)) xs st = st" for xs st by (induction xs) (simp_all add: see_line_def)
  then have "\<not> fst (seen_in (lines_present ts) r)" for r using True by (simp add: lines_present_def seen_in_def)
  then have "refreshed sys ts now = (\<lambda>r. r)" by (simp add: refreshed_def fun_eq_iff)
  then show ?thesis using True by (simp add: RefreshFindings_def)
next
  case False
  let ?P = "\<lambda>r. fr_system r = sys \<and> fst (seen_in (lines_present ts) r)"
  let ?f = "\<lambda>r. \<lparr>rh_id = fr_id r, rh_class = null_string (fr_class r), rh_nodes = snd (seen_in (lines_present ts) r)\<rparr>"
  have hits: "findingsSeenIn sys (lines_present ts) s = map ?f (filter ?P (ls_findings s))"
    by (simp add: findingsSeenIn_def)
  have d: "distinct (map rh_id (map ?f (filter ?P (ls_findings s))))"
    using keys_unique_filter [OF assms, of ?P] by (simp add: keys_unique_def comp_def)
  have "ls_findings (snd (RefreshFindings sys ts now s)) = map (\<lambda>r. case find_key rh_id (fr_id r) (map ?f (filter ?P (ls_findings s)))
      of None \<Rightarrow> r | Some h \<Rightarrow> refresh_row now (rh_nodes h) r) (ls_findings s)"
    using False fold_refresh_findings [OF d] by (simp add: RefreshFindings_def hits Let_def)
  also have "\<dots> = map (refreshed sys ts now) (ls_findings s)"
    by (rule map_cong [OF refl]) (simp add: find_hit [OF assms] refreshed_def)
  finally show ?thesis .
qed

lemma refresh_row_twice: "refresh_row now n (refresh_row now n r) = refresh_row now n r"
  by (simp add: refresh_row_def)

lemma seen_in_refreshed: "seen_in present (refresh_row now n r) = seen_in present r"
  by (simp add: seen_in_def refresh_row_def)

lemma refreshed_twice: "refreshed sys ts now (refreshed sys ts now r) = refreshed sys ts now r"
  by (simp add: refreshed_def seen_in_refreshed refresh_row_twice)

lemma refreshed_keys: "fr_id (refreshed sys ts now r) = fr_id r" "finding_pk (refreshed sys ts now r) = finding_pk r"
  by (simp_all add: refreshed_def refresh_row_def finding_pk_def)

subsection \<open>Known templates\<close>

definition latest_of :: "string \<Rightarrow> template_row list \<Rightarrow> int" where
  "latest_of k rows = foldr max (map lt_last_seen (filter (\<lambda>r. CanonicalKey (lt_module r) (lt_key r) = k) rows)) 0"

lemma put_later_lookup:
  "map_of (put_later k t m) x =
     (if x = k then (case map_of m k of None \<Rightarrow> if t > 0 then Some t else None | Some t' \<Rightarrow> Some (max t' t)) else map_of m x)"
  by (induction k t m rule: put_later.induct) auto

definition known_opt :: "int \<Rightarrow> int option" where
  "known_opt t = (if t > 0 then Some t else None)"

lemma latest_of_nonneg: "0 \<le> latest_of k rows"
proof -
  have "0 \<le> foldr max xs (0 :: int)" for xs by (induction xs) auto
  then show ?thesis by (simp add: latest_of_def)
qed

lemma known_templates_lookup:
  "(\<And>k. map_of m k = known_opt (f k)) \<Longrightarrow> (\<And>k. 0 \<le> f k) \<Longrightarrow>
   map_of (known_templates rows m) k = known_opt (max (f k) (latest_of k rows))"
proof (induction rows m arbitrary: f rule: known_templates.induct)
  case (1 m)
  then show ?case by (simp add: latest_of_def max_def known_opt_def)
next
  case (2 r rs m)
  let ?k = "CanonicalKey (lt_module r) (lt_key r)"
  let ?g = "\<lambda>x. if x = ?k then max (f x) (lt_last_seen r) else f x"
  have "map_of (put_later ?k (lt_last_seen r) m) x = known_opt (?g x)" for x
    using "2.prems"(1) [of ?k] "2.prems"(1) [of x] "2.prems"(2) [of ?k]
    by (auto simp: put_later_lookup known_opt_def split: if_splits)
  moreover have "0 \<le> ?g x" for x using "2.prems"(2) [of x] by auto
  ultimately have "map_of (known_templates (r # rs) m) k = known_opt (max (?g k) (latest_of k rs))"
    unfolding known_templates.simps by (rule "2.IH")
  also have "max (?g k) (latest_of k rs) = max (f k) (latest_of k (r # rs))"
    by (auto simp: latest_of_def max.assoc)
  finally show ?case .
qed

lemma KnownTemplates_lookup:
  "map_of (KnownTemplates sys s) k = known_opt (latest_of k (filter (\<lambda>r. lt_system r = sys) (ls_templates s)))"
  using known_templates_lookup [of "[]" "\<lambda>_. 0" "filter (\<lambda>r. lt_system r = sys) (ls_templates s)" k]
    latest_of_nonneg [of k "filter (\<lambda>r. lt_system r = sys) (ls_templates s)"]
  by (simp add: KnownTemplates_def known_opt_def max_def)

subsection \<open>Properties\<close>

text \<open>
  A window counts once. When the lines of a window keep a stored finding alive and the model
  reports the same finding again in the same run, the finding ends up open, seen now, counted
  at most once for the window, and reopened exactly when it was not open; and refreshing
  again from the same window changes nothing.
\<close>

lemma window_counts_once:
  assumes "keys_unique fr_id (ls_findings s)" "keys_unique finding_pk (ls_findings s)" "r \<in> set (ls_findings s)"
    "fr_system r = sys" "fst (seen_in (lines_present ts) r)" "f_system_id f = sys" "f_fingerprint f = fr_fingerprint r"
  shows "(case find_key finding_pk (finding_pk r)
             (ls_findings (snd (UpsertFinding ulid f now (snd (RefreshFindings sys ts now s))))) of
            None \<Rightarrow> False
          | Some r' \<Rightarrow> fr_status r' = StatusOpen \<and> fr_last_seen r' = now
              \<and> fr_count r' = fr_count r + (if now \<le> fr_last_seen r then 0 else 1)
              \<and> fr_reopened_at r' = (if fr_status r = StatusOpen then fr_reopened_at r else Some now))
         \<and> ls_findings (snd (RefreshFindings sys ts now (snd (RefreshFindings sys ts now s))))
           = ls_findings (snd (RefreshFindings sys ts now s))"
proof -
  let ?s1 = "snd (RefreshFindings sys ts now s)"
  note R = RefreshFindings_findings [OF assms(1), of sys ts now]
  have u1: "keys_unique fr_id (ls_findings ?s1)" "keys_unique finding_pk (ls_findings ?s1)"
    using assms(1,2) unfolding R by (simp_all add: keys_unique_def comp_def refreshed_keys)
  have "refreshed sys ts now r \<in> set (ls_findings ?s1)" using assms(3) unfolding R by simp
  then have find: "find_key finding_pk (finding_pk r) (ls_findings ?s1) = Some (refreshed sys ts now r)"
    using find_key_mem [OF u1(2)] by (metis refreshed_keys(2))
  have row: "refreshed sys ts now r = refresh_row now (snd (seen_in (lines_present ts) r)) r"
    using assms(4,5) by (simp add: refreshed_def)
  have pk: "finding_pk r = (f_system_id f, f_fingerprint f)" using assms(4,6,7) by (simp add: finding_pk_def)
  have out: "finding_outcome_of f ?s1 = OutcomeBumped"
    using find by (simp add: finding_outcome_of_def pk row refresh_row_def)
  have new: "finding_pk (new_finding_row ulid f now) = finding_pk r" using assms(4,6,7) by (simp add: finding_pk_def new_finding_row_def)
  have m: "\<And>a b. finding_pk a = finding_pk b \<Longrightarrow> finding_pk (merge_finding OutcomeBumped now a b) = finding_pk b"
    by (simp add: finding_pk_def merge_finding_def)
  have "find_key finding_pk (finding_pk r) (ls_findings (snd (UpsertFinding ulid f now ?s1)))
      = Some (merge_finding OutcomeBumped now (refreshed sys ts now r) (new_finding_row ulid f now))"
    using find_key_upsert [where key = finding_pk and merge = "merge_finding OutcomeBumped now", OF m, of "finding_pk r"
        "new_finding_row ulid f now" "ls_findings ?s1"] find new
    by (simp add: UpsertFinding_def Let_def out)
  moreover have "map (refreshed sys ts now) (ls_findings ?s1) = ls_findings ?s1"
    unfolding R by (simp add: refreshed_twice)
  ultimately show ?thesis using RefreshFindings_findings [OF u1(1), of sys ts now]
    by (simp add: merge_finding_def row refresh_row_def)
qed

text \<open>
  The gate reads its memory as the table has it: a key is known exactly when some stored
  template of the system gives it with a positive time, and since the latest of those times.
\<close>

lemma KnownTemplates_latest:
  "map_of (KnownTemplates sys s) k =
     (let times = map lt_last_seen (filter (\<lambda>r. lt_system r = sys \<and> CanonicalKey (lt_module r) (lt_key r) = k) (ls_templates s))
      in if foldr max times 0 > 0 then Some (foldr max times 0) else None)"
  by (simp add: KnownTemplates_lookup known_opt_def latest_of_def conj_commute)

text \<open>
  The cap on calls counts windows, not attempts. However many times one window is retried
  after a failed call, each retry claims it again and the ledger counts a single call.
\<close>

lemma failed_attempts_count_once:
  assumes "find_key analysis_pk (sys, ws) (ls_analyses s) = None" "since \<le> now"
  shows "SystemCallsSince sys since
       (((\<lambda>s. RecordAttemptError sys ws reasons ms msg (snd (BeginAnalysis sys ws we now s))) ^^ Suc n) s)
     = SystemCallsSince sys since s + 1
   \<and> fst (BeginAnalysis sys ws we now
       (((\<lambda>s. RecordAttemptError sys ws reasons ms msg (snd (BeginAnalysis sys ws we now s))) ^^ Suc n) s))"
proof -
  let ?step = "\<lambda>s. RecordAttemptError sys ws reasons ms msg (snd (BeginAnalysis sys ws we now s))"
  let ?row = "\<lparr>an_system = sys, an_start = ws, an_end = we, an_gated = False, an_reasons = reasons, an_called = True, an_input = 0,
     an_output = 0, an_cost = 0, an_model = [], an_duration = ms, an_error = msg, an_cached = None, an_suppressed = None,
     an_completed = False, an_created = now\<rparr>"
  have old: "map (\<lambda>r. if analysis_pk r = (sys, ws) then g r else r) (ls_analyses s) = ls_analyses s" for g
    using assms(1) by (intro map_idI) (auto simp: find_key_None image_iff)
  have app: "find_key analysis_pk (sys, ws) (xs @ [?row]) = Some ?row" if "find_key analysis_pk (sys, ws) xs = None" for xs
    using that by (induction xs) (auto simp: analysis_pk_def split: if_splits)
  have "(?step ^^ Suc n) s = s\<lparr>ls_analyses := ls_analyses s @ [?row]\<rparr>"
  proof (induction n)
    case 0
    then show ?case using assms(1) by (simp add: BeginAnalysis_def RecordAttemptError_def old) (simp add: analysis_pk_def)
  next
    case (Suc n)
    then show ?case using app [OF assms(1)]
      by (simp add: BeginAnalysis_def RecordAttemptError_def old)
  qed
  then show ?thesis using app [OF assms(1)] assms(2) by (simp add: SystemCallsSince_def BeginAnalysis_def)
qed

definition disk_template :: template where
  "disk_template = \<lparr>t_template = ''<3> disk sda failing'', t_count = 4, t_module_id = ''samba1'', t_priority = 3, t_category = [],
     t_first_seen = 0, t_last_seen = 0, t_samples = [], t_nodes = [1]\<rparr>"

definition disk_row :: finding_row where
  "disk_row = \<lparr>fr_id = ''01'', fr_system = ''s1'', fr_fingerprint = ''fp'', fr_severity = ''high'', fr_title = ''Disk'',
     fr_summary = ''A disk fails'', fr_action = ''Replace it'', fr_modules = [''samba''], fr_evidence = [''<3> disk sda failing''],
     fr_status = StatusStale, fr_count = 2, fr_first_seen = 5, fr_last_seen = 7, fr_reopened_at = None, fr_llm_model = ''m'',
     fr_prompt_version = ''v5'', fr_nodes = [], fr_class = None\<rparr>"

lemma disk_seen: "seen_in (lines_present [disk_template]) disk_row = (True, [1])"
proof -
  have "CanonicalKey ''samba1'' x = CanonicalKey ''samba'' x" for x
    by (rule CanonicalKey_family) code_simp
  moreover have "MergeNodeIDs [] [1] = [1]" by code_simp
  ultimately show ?thesis
    by (simp add: seen_in_def disk_row_def lines_present_def put_line_def disk_template_def see_line_def)
qed

definition version_template :: template where
  "version_template = disk_template\<lparr>t_template := ''v 1.2.3'', t_module_id := ''samba''\<rparr>"

definition version_bundle :: log_bundle where
  "version_bundle = \<lparr>b_schema_version = 1, b_system_id = ''s1'', b_collector_version = [], b_masking_version = 1,
     b_window = \<lparr>w_start = 100, w_end = 200\<rparr>, b_templates = [version_template],
     b_budget = \<lparr>lb_max_lines = 10, lb_lines_seen = 1, lb_lines_kept = 1, lb_truncated_modules = []\<rparr>, b_nodes = []\<rparr>"

text \<open>
  The canonical form is not stable, and the gate pays for it. A line that names a version
  of three parts is stored under its canonical text, but looking the stored text up
  canonicalises it again, to something else: at any time and with any silence the gate still
  calls the line novel right after the first window that recorded it.
\<close>

lemma recorded_line_stays_novel:
  "CanonicalTemplate ''samba'' (CanonicalTemplate ''samba'' ''v 1.2.3'') \<noteq> CanonicalTemplate ''samba'' ''v 1.2.3''
   \<and> gd_call (gate_Evaluate version_bundle
      \<lparr>ss_known = KnownTemplates ''s1'' (UpsertTemplates ''s1'' (b_templates version_bundle) now empty_logs), ss_security_only = False\<rparr>
      \<lparr>gc_min_new = 1, gc_similarity = 1, gc_silence = silence\<rparr>)"
proof -
  have f: "ModuleFamily ''samba'' = ''samba''" by code_simp
  have k: "template_ckey version_template = ''samba'' @ [NUL] @ ''v <NUM>.<NUM>''"
    by (simp add: template_ckey_def version_template_def CanonicalKey_def f canonical_version)
  have r: "KnownTemplates ''s1'' (UpsertTemplates ''s1'' [version_template] now empty_logs)
      = (if now > 0 then [(''samba'' @ [NUL] @ ''v <NUM>'', now)] else [])"
    by (simp add: KnownTemplates_def UpsertTemplates_def empty_logs_def template_row_of_def version_template_def disk_template_def
        f canonical_version CanonicalKey_def)
  show ?thesis
    by (simp add: version_bundle_def r k gate_Evaluate_def Let_def canonical_version is_near_def)
qed

end
