(* ===== verification/Prompt.thy ===== *)
theory Prompt
  imports Model_Nodes Model_Canonical GoUtf8
begin

text \<open>
  What the model is asked and what is made of its answer, \<open>internal/prompt/prompt.go\<close>: the lines
  shown and their identifiers, the rendered text, the resolution of cited identifiers and the
  validation of the response. \<open>json.Unmarshal\<close> of the response is an argument. The counts of
  a group are added as integers.
\<close>

subsection \<open>Lines\<close>

record selection =
  sel_novel :: "string list"
  sel_max_ambient :: int

record prompt_line =
  pl_template :: template
  pl_variants :: int

definition TemplateID :: "nat \<Rightarrow> string" where
  "TemplateID i = ''T'' @ int_dec (int i + 1)"

definition line_key :: "template \<Rightarrow> string \<times> int \<times> string" where
  "line_key t = (ModuleFamily (t_module_id t), t_priority t, CanonicalTemplate (t_module_id t) (t_template t))"

definition new_line :: "template \<Rightarrow> prompt_line" where
  "new_line t = \<lparr>pl_template = t\<lparr>t_module_id := ModuleFamily (t_module_id t), t_samples := [],
       t_nodes := SanitizeNodeIDs (t_nodes t)\<rparr>, pl_variants = 1\<rparr>"

text \<open>A further variant: \<open>line.Template.Count\<close> is already the sum when it is compared.\<close>

definition add_variant :: "template \<Rightarrow> prompt_line \<Rightarrow> prompt_line" where
  "add_variant t line =
     (let total = t_count (pl_template line) + t_count t;
          nodes = MergeNodeIDs (t_nodes (pl_template line)) (t_nodes t);
          rep = (if t_count t > total - t_count t
                    \<or> (t_count t = total - t_count t \<and> t_template t < t_template (pl_template line))
                 then t\<lparr>t_module_id := ModuleFamily (t_module_id t), t_samples := []\<rparr>
                 else pl_template line);
          merged = rep\<lparr>t_count := total, t_nodes := nodes\<rparr>
      in \<lparr>pl_template = (if t_category t = ''security'' then merged\<lparr>t_category := ''security''\<rparr> else merged),
          pl_variants = pl_variants line + 1\<rparr>)"

text \<open>The map and the order of its keys: an association list in order of insertion.\<close>

fun put_variant :: "template \<Rightarrow> ((string \<times> int \<times> string) \<times> prompt_line) list \<Rightarrow> ((string \<times> int \<times> string) \<times> prompt_line) list" where
  "put_variant t [] = [(line_key t, new_line t)]"
| "put_variant t ((k, line) # ls) =
     (if k = line_key t then (k, add_variant t line) # ls else (k, line) # put_variant t ls)"

definition group_lines :: "template list \<Rightarrow> ((string \<times> int \<times> string) \<times> prompt_line) list" where
  "group_lines ts = fold put_variant ts []"

definition line_kept :: "selection \<Rightarrow> (string \<times> int \<times> string) \<times> prompt_line \<Rightarrow> bool" where
  "line_kept sel kl \<longleftrightarrow>
     CanonicalKey (fst (fst kl)) (t_template (pl_template (snd kl))) \<in> set (sel_novel sel)
     \<or> t_category (pl_template (snd kl)) = ''security''"

definition ambient_key :: "prompt_line \<Rightarrow> int \<times> string \<times> int \<times> string" where
  "ambient_key l = (- t_count (pl_template l), template_key (pl_template l))"

definition ambient_lines :: "log_bundle \<Rightarrow> selection \<Rightarrow> prompt_line list" where
  "ambient_lines b sel =
     (let ambient = sort_key ambient_key (map snd (filter (\<lambda>kl. \<not> line_kept sel kl) (group_lines (b_templates b))))
      in if sel_max_ambient sel \<ge> 0 \<and> int (length ambient) > sel_max_ambient sel
         then take (nat (sel_max_ambient sel)) ambient else ambient)"

definition Select :: "log_bundle \<Rightarrow> selection \<Rightarrow> prompt_line list" where
  "Select b sel = sort_key (\<lambda>l. template_key (pl_template l))
     (map snd (filter (line_kept sel) (group_lines (b_templates b))) @ ambient_lines b sel)"

subsection \<open>Evidence\<close>

datatype evidence_error = UnknownTemplate string | NoEvidence

definition line_index :: "prompt_line list \<Rightarrow> (string \<times> template) list" where
  "line_index lines = map (\<lambda>(i, l). (TemplateID i, pl_template l)) (enumerate 0 lines)"

text \<open>
  \<open>strings.ToUpper\<close>, for ASCII: no other letter has an upper case form among the bytes of an
  identifier, so it cannot make a lookup succeed.
\<close>

definition ToUpper :: "string \<Rightarrow> string" where
  "ToUpper s = map (\<lambda>c. if is_lower c then char_of (byte c - 32) else c) s"

fun resolve_ids :: "(string \<times> template) list \<Rightarrow> string list \<Rightarrow> string list \<Rightarrow> evidence_error + template list" where
  "resolve_ids index seen [] = Inr []"
| "resolve_ids index seen (raw # ids) =
     (let cited = ToUpper (TrimSpace raw)
      in case map_of index cited of
           None \<Rightarrow> Inl (UnknownTemplate raw)
         | Some t \<Rightarrow>
             if cited \<in> set seen then resolve_ids index seen ids
             else rbind (resolve_ids index (cited # seen) ids) (\<lambda>ts. Inr (t # ts)))"

definition ResolveEvidence :: "log_bundle \<Rightarrow> selection \<Rightarrow> string list \<Rightarrow> evidence_error + template list" where
  "ResolveEvidence b sel ids =
     rbind (resolve_ids (line_index (Select b sel)) [] ids) (\<lambda>out. if out = [] then Inl NoEvidence else Inr out)"

subsection \<open>The rendered text\<close>

definition NL :: string where "NL = [char_of (10 :: nat)]"

definition text_lines :: "string list \<Rightarrow> string" where
  "text_lines ls = concat (map (\<lambda>l. l @ NL) ls)"

definition prompt_header :: string where
  "prompt_header = text_lines
    [''SECTIONS'',
     ''TEMPLATES  the log lines worth your attention this window, each with an'',
     ''           identifier to cite. count is how many lines matched; variants is'',
     ''           how many spellings of the same line were folded into it. Templates'',
     ''           that are neither new nor security-classified are shown only as'',
     ''           ambient context, most frequent first.'',
     ''SAMPLING   how much of the window survived the collector'' @ [CHR 0x27] @ ''s line budget.'',
     ''ALREADY KNOWN  conditions already raised for this system. Do not report them'',
     ''           again.'',
     ''WINDOW     the time range and collector version this bundle covers.'',
     []]"

definition HostBucketLabel :: string where "HostBucketLabel = ''<host>''"

definition render_line :: "nat \<times> prompt_line \<Rightarrow> string" where
  "render_line il =
     (let t = pl_template (snd il)
      in ''['' @ TemplateID (fst il) @ ''] count='' @ int_dec (t_count t)
         @ '' module='' @ (if t_module_id t = [] then HostBucketLabel else t_module_id t)
         @ '' priority='' @ int_dec (t_priority t)
         @ '' category='' @ (if t_category t = [] then ''-'' else t_category t)
         @ (if pl_variants (snd il) > 1 then '' variants='' @ int_dec (pl_variants (snd il)) else []) @ NL
         @ ''    '' @ t_template t @ NL)"

definition render_sampling :: "log_bundle \<Rightarrow> string" where
  "render_sampling b =
     ''SAMPLING'' @ NL
     @ ''lines_seen='' @ int_dec (lb_lines_seen (b_budget b)) @ '' lines_kept='' @ int_dec (lb_lines_kept (b_budget b))
     @ '' max_lines='' @ int_dec (lb_max_lines (b_budget b)) @ NL
     @ ''under_sampled (module dropped)'' @ NL
     @ concat (map (\<lambda>tm. tm_module_id tm @ '' '' @ int_dec (tm_dropped tm) @ NL)
         (sort_key tm_module_id (lb_truncated_modules (b_budget b))))"

definition id_by_text :: "prompt_line list \<Rightarrow> (string \<times> string) list" where
  "id_by_text lines =
     map (\<lambda>(i, l). (CanonicalKey (t_module_id (pl_template l)) (t_template (pl_template l)), TemplateID i)) (enumerate 0 lines)"

text \<open>The identifiers a known finding was raised from, as this window has them.\<close>

definition known_ids :: "prompt_line list \<Rightarrow> finding \<Rightarrow> string list" where
  "known_ids lines f = sort (nub_by id []
     (concat (map (\<lambda>ev. List.map_filter (\<lambda>m. map_of (id_by_text lines) (CanonicalKey m ev)) (f_modules f)) (f_evidence f))))"

fun join_sep :: "string \<Rightarrow> string list \<Rightarrow> string" where
  "join_sep sep [] = []"
| "join_sep sep [s] = s"
| "join_sep sep (s # ss) = s @ sep @ join_sep sep ss"

definition render_known :: "prompt_line list \<Rightarrow> finding \<Rightarrow> string" where
  "render_known lines f =
     ''['' @ f_severity f @ ''] '' @ f_title f @ NL
     @ (if known_ids lines f = [] then [] else ''    evidence: '' @ join_sep '', '' (known_ids lines f) @ NL)"

definition known_order :: "finding \<Rightarrow> string \<times> string" where
  "known_order f = (f_severity f, f_title f)"

definition Render :: "log_bundle \<Rightarrow> finding list \<Rightarrow> selection \<Rightarrow> string" where
  "Render b open_findings sel =
     (let lines = Select b sel
      in prompt_header
         @ ''TEMPLATES (cite these identifiers in evidence)'' @ NL
         @ concat (map render_line (enumerate 0 lines)) @ NL
         @ render_sampling b @ NL
         @ ''ALREADY KNOWN (do not report these again)'' @ NL
         @ (if open_findings = [] then ''none'' @ NL
            else concat (map (render_known lines) (sort_key known_order open_findings)))
         @ NL @ ''WINDOW'' @ NL
         @ ''start_ms='' @ int_dec (w_start (b_window b)) @ '' end_ms='' @ int_dec (w_end (b_window b))
         @ '' collector='' @ b_collector_version b @ '' masking='' @ int_dec (b_masking_version b) @ NL)"

subsection \<open>The response\<close>

record parsed_finding =
  pf_severity :: string
  pf_title :: string
  pf_summary :: string
  pf_suggested_action :: string
  pf_modules :: "string list"
  pf_evidence :: "string list"

record response_body =
  rb_assessment :: string
  rb_findings :: "parsed_finding list"

datatype parse_error = InvalidJSON | InvalidAssessment string | InvalidSeverity nat string | BlankTitle nat | BlankSummary nat
  | EmptyEvidence nat

definition fence :: string where "fence = ''```''"

definition trim_suffix :: "string \<Rightarrow> string \<Rightarrow> string" where
  "trim_suffix suf s = (if has_prefix (rev s) (rev suf) then take (length s - length suf) s else s)"

definition stripFence :: "string \<Rightarrow> string" where
  "stripFence body =
     (let s = TrimSpace body
      in TrimSpace
          (if has_prefix s fence
           then trim_suffix fence (TrimSpace (case index_byte s (char_of (10 :: nat)) of None \<Rightarrow> s | Some i \<Rightarrow> drop (Suc i) s))
           else s))"

fun check_findings :: "nat \<Rightarrow> parsed_finding list \<Rightarrow> parse_error option" where
  "check_findings i [] = None"
| "check_findings i (f # fs) =
     (if \<not> ValidSeverity (pf_severity f) then Some (InvalidSeverity i (pf_severity f))
      else if TrimSpace (pf_title f) = [] then Some (BlankTitle i)
      else if TrimSpace (pf_summary f) = [] then Some (BlankSummary i)
      else if pf_evidence f = [] then Some (EmptyEvidence i)
      else check_findings (Suc i) fs)"

definition Parse :: "(string \<Rightarrow> response_body option) \<Rightarrow> string \<Rightarrow> parse_error + (parsed_finding list \<times> string)" where
  "Parse unmarshal body =
     (case unmarshal (stripFence body) of
        None \<Rightarrow> Inl InvalidJSON
      | Some rb \<Rightarrow>
          if \<not> ValidAssessment (rb_assessment rb) then Inl (InvalidAssessment (rb_assessment rb))
          else case check_findings 0 (rb_findings rb) of
                 Some e \<Rightarrow> Inl e
               | None \<Rightarrow> Inr (rb_findings rb, rb_assessment rb))"

subsection \<open>The groups\<close>

definition line_of :: "(string \<times> int \<times> string) \<Rightarrow> prompt_line \<Rightarrow> bool" where
  "line_of k l \<longleftrightarrow> t_module_id (pl_template l) = fst k \<and> t_priority (pl_template l) = fst (snd k)
     \<and> CanonicalTemplate (fst k) (t_template (pl_template l)) = snd (snd k)
     \<and> ModuleFamily (fst k) = fst k"

definition members :: "(string \<times> int \<times> string) \<Rightarrow> template list \<Rightarrow> template list" where
  "members k ts = filter (\<lambda>t. line_key t = k) ts"

definition group_ok :: "template list \<Rightarrow> ((string \<times> int \<times> string) \<times> prompt_line) list \<Rightarrow> bool" where
  "group_ok ts ls \<longleftrightarrow> distinct (map fst ls) \<and> set (map fst ls) = line_key ` set ts
     \<and> (\<forall>(k, l) \<in> set ls. line_of k l \<and> t_count (pl_template l) = sum_list (map t_count (members k ts))
          \<and> pl_variants l = int (length (members k ts)))"

lemma line_of_new: "line_of (line_key t) (new_line t)"
  by (simp add: line_of_def line_key_def new_line_def CanonicalTemplate_family ModuleFamily_idem)

lemma line_of_add: "line_key t = k \<Longrightarrow> line_of k l \<Longrightarrow> line_of k (add_variant t l)"
  by (auto simp: line_of_def line_key_def add_variant_def Let_def CanonicalTemplate_family ModuleFamily_idem)

lemma add_variant_count: "t_count (pl_template (add_variant t l)) = t_count (pl_template l) + t_count t"
  "pl_variants (add_variant t l) = pl_variants l + 1"
  by (simp_all add: add_variant_def Let_def)

lemma put_variant_keys: "map fst (put_variant t ls) = (if line_key t \<in> set (map fst ls) then map fst ls else map fst ls @ [line_key t])"
  by (induction t ls rule: put_variant.induct) auto

lemma put_variant_mem:
  "distinct (map fst ls) \<Longrightarrow> (k, l) \<in> set (put_variant t ls) \<Longrightarrow>
    (k \<noteq> line_key t \<and> (k, l) \<in> set ls)
    \<or> (k = line_key t \<and> (l = new_line t \<and> k \<notin> set (map fst ls) \<or> (\<exists>l0. (k, l0) \<in> set ls \<and> l = add_variant t l0)))"
proof (induction t ls rule: put_variant.induct)
  case (2 t k0 line ls)
  show ?case
  proof (cases "k0 = line_key t")
    case True
    then have "(k, l) = (k0, add_variant t line) \<or> (k, l) \<in> set ls" using "2.prems"(2) by simp
    moreover have "k0 \<notin> fst ` set ls" using "2.prems"(1) by simp
    ultimately show ?thesis using True by force
  next
    case False
    then have "(k, l) = (k0, line) \<or> (k, l) \<in> set (put_variant t ls)" using "2.prems"(2) by simp
    then show ?thesis using "2.IH" [OF False] "2.prems"(1) False by auto
  qed
qed simp

lemma group_lines_snoc: "group_lines (ts @ [t]) = put_variant t (group_lines ts)"
  by (simp add: group_lines_def)

lemma group_lines_ok: "group_ok ts (group_lines ts)"
proof (induction ts rule: rev_induct)
  case Nil
  then show ?case by (simp add: group_ok_def group_lines_def)
next
  case (snoc t ts)
  let ?g = "group_lines ts"
  have d: "distinct (map fst ?g)" and s: "set (map fst ?g) = line_key ` set ts"
    and e: "\<And>k l. (k, l) \<in> set ?g \<Longrightarrow> line_of k l \<and> t_count (pl_template l) = sum_list (map t_count (members k ts))
          \<and> pl_variants l = int (length (members k ts))"
    using snoc by (auto simp: group_ok_def)
  have "line_of k l \<and> t_count (pl_template l) = sum_list (map t_count (members k (ts @ [t])))
      \<and> pl_variants l = int (length (members k (ts @ [t])))" if m: "(k, l) \<in> set (put_variant t ?g)" for k l
  proof -
    consider "k \<noteq> line_key t" "(k, l) \<in> set ?g" | "k = line_key t" "l = new_line t" "k \<notin> set (map fst ?g)"
      | l0 where "k = line_key t" "(k, l0) \<in> set ?g" "l = add_variant t l0"
      using put_variant_mem [OF d m] by blast
    then show ?thesis
    proof cases
      case 1
      then show ?thesis using e [of k l] by (simp add: members_def)
    next
      case 2
      then have "k \<notin> line_key ` set ts" using s by simp
      then have "members k ts = []" by (auto simp: members_def filter_empty_conv)
      then show ?thesis using 2 line_of_new [of t] by (simp add: members_def new_line_def)
    next
      case (3 l0)
      then show ?thesis using e [of k l0] line_of_add [of t k l0] by (simp add: members_def add_variant_count)
    qed
  qed
  then show ?case using d s unfolding group_lines_snoc group_ok_def put_variant_keys by auto
qed

subsection \<open>Identifiers\<close>

lemma TemplateID_chars: "list_all (\<lambda>c. is_digit c \<or> c = CHR ''T'') (TemplateID i)"
  using nat_dec_digits [of "int i + 1"] by (auto simp: TemplateID_def int_dec_def list_all_iff)

lemma TemplateID_normal: "ToUpper (TrimSpace (TemplateID i)) = TemplateID i"
proof -
  have c: "32 < byte c \<and> byte c < 127 \<and> \<not> is_lower c" if "is_digit c \<or> c = CHR ''T''" for c
    using that by (auto simp: is_digit_def is_lower_def byte_def)
  have "list_all (\<lambda>c. 32 < byte c \<and> byte c < 127) (TemplateID i)"
    by (rule list.pred_mono_strong [OF TemplateID_chars]) (simp add: c)
  then have "TrimSpace (TemplateID i) = TemplateID i" by (rule TrimSpace_ascii)
  moreover have "ToUpper (TemplateID i) = TemplateID i"
    unfolding ToUpper_def using TemplateID_chars [of i] c by (intro map_idI) (auto simp: list_all_iff)
  ultimately show ?thesis by simp
qed

lemma TemplateID_inject: "TemplateID i = TemplateID j \<Longrightarrow> i = j"
  using int_dec_inject [of "int i + 1" "int j + 1"] by (simp add: TemplateID_def)

lemma line_index_at: "i < length lines \<Longrightarrow> map_of (line_index lines) (TemplateID i) = Some (pl_template (lines ! i))"
proof -
  assume i: "i < length lines"
  have "map fst (line_index lines) = map TemplateID (map fst (enumerate 0 lines))"
    unfolding map_map line_index_def by (rule map_cong) auto
  then have "map fst (line_index lines) = map TemplateID [0..<length lines]" unfolding map_fst_enumerate by simp
  then have d: "distinct (map fst (line_index lines))" by (simp add: distinct_map inj_on_def TemplateID_inject)
  have "(TemplateID i, pl_template (lines ! i)) \<in> set (line_index lines)"
    using i by (force simp: line_index_def in_set_enumerate_eq)
  then show ?thesis using d by simp
qed

lemma line_index_range: "map_of (line_index lines) x = Some t \<Longrightarrow> \<exists>i < length lines. x = TemplateID i \<and> t = pl_template (lines ! i)"
  by (drule map_of_SomeD) (auto simp: line_index_def in_set_enumerate_eq)

text \<open>An identifier as the code compares it, and whether it is one of the first \<open>n\<close>.\<close>

definition cited_id :: "string \<Rightarrow> string" where "cited_id raw = ToUpper (TrimSpace raw)"

lemma line_index_None: "map_of (line_index lines) x = None \<longleftrightarrow> x \<notin> TemplateID ` {..<length lines}"
proof -
  have "map_of (line_index lines) x = None" if "x \<notin> TemplateID ` {..<length lines}"
    using that line_index_range [of lines x] by (cases "map_of (line_index lines) x") auto
  then show ?thesis by (auto simp: line_index_at)
qed

lemma resolve_ids_spec:
  "(case resolve_ids (line_index lines) (map TemplateID seen) ids of
      Inl e \<Rightarrow> list_ex (\<lambda>raw. e = UnknownTemplate raw \<and> cited_id raw \<notin> TemplateID ` {..<length lines}) ids
    | Inr ts \<Rightarrow> (\<exists>js. list_all (\<lambda>j. j < length lines) js \<and> ts = map (\<lambda>j. pl_template (lines ! j)) js
                 \<and> map TemplateID js = nub_by id (map TemplateID seen) (map cited_id ids)))"
proof (induction ids arbitrary: seen)
  case (Cons raw ids)
  show ?case
  proof (cases "map_of (line_index lines) (cited_id raw)")
    case None
    then have "resolve_ids (line_index lines) (map TemplateID seen) (raw # ids) = Inl (UnknownTemplate raw)"
      by (simp add: cited_id_def [symmetric] Let_def)
    moreover have "cited_id raw \<notin> TemplateID ` {..<length lines}" using None unfolding line_index_None .
    ultimately show ?thesis by simp
  next
    case (Some t)
    then obtain j where j: "j < length lines" "cited_id raw = TemplateID j" "t = pl_template (lines ! j)"
      using line_index_range by blast
    show ?thesis
    proof (cases "cited_id raw \<in> set (map TemplateID seen)")
      case True
      then show ?thesis using Cons.IH [of seen] Some by (auto simp: cited_id_def [symmetric] Let_def split: sum.splits)
    next
      case False
      have step: "resolve_ids (line_index lines) (map TemplateID seen) (raw # ids)
          = rbind (resolve_ids (line_index lines) (map TemplateID (j # seen)) ids) (\<lambda>ts. Inr (t # ts))"
        using False Some j(2) by (simp add: cited_id_def [symmetric] Let_def)
      have nub: "nub_by id (map TemplateID seen) (map cited_id (raw # ids))
          = TemplateID j # nub_by id (map TemplateID (j # seen)) (map cited_id ids)"
        using False j(2) by simp
      show ?thesis
      proof (cases "resolve_ids (line_index lines) (map TemplateID (j # seen)) ids")
        case (Inl e)
        then show ?thesis unfolding step using Cons.IH [of "j # seen"] by simp
      next
        case (Inr us)
        then obtain js where js: "list_all (\<lambda>j. j < length lines) js" "us = map (\<lambda>j. pl_template (lines ! j)) js"
          "map TemplateID js = nub_by id (map TemplateID (j # seen)) (map cited_id ids)"
          using Cons.IH [of "j # seen"] by auto
        have "resolve_ids (line_index lines) (map TemplateID seen) (raw # ids) = Inr (t # us)" unfolding step Inr by simp
        then show ?thesis unfolding nub using js j by (auto intro!: exI [of _ "j # js"])
      qed
    qed
  qed
qed simp

lemma resolve_ids_shown:
  "list_all (\<lambda>i. i < length lines) is \<Longrightarrow>
   resolve_ids (line_index lines) (map TemplateID seen) (map TemplateID is)
     = Inr (map (\<lambda>i. pl_template (lines ! i)) (nub_by id seen is))"
proof (induction "is" arbitrary: seen)
  case (Cons i js)
  have m: "TemplateID i \<in> TemplateID ` set seen \<longleftrightarrow> i \<in> set seen" using TemplateID_inject by blast
  show ?case using Cons.IH [of seen] Cons.IH [of "i # seen"] Cons.prems
    by (simp add: TemplateID_normal line_index_at m)
qed simp

lemma id_by_text_range: "map_of (id_by_text lines) k = Some x \<Longrightarrow> \<exists>i < length lines. x = TemplateID i"
  by (drule map_of_SomeD) (auto simp: id_by_text_def in_set_enumerate_eq)

lemma known_ids_shown: "set (known_ids lines f) \<subseteq> TemplateID ` {..<length lines}"
proof -
  let ?all = "concat (map (\<lambda>ev. List.map_filter (\<lambda>m. map_of (id_by_text lines) (CanonicalKey m ev)) (f_modules f)) (f_evidence f))"
  have "set ?all \<subseteq> TemplateID ` {..<length lines}"
  proof -
    have "the (map_of (id_by_text lines) k) \<in> TemplateID ` {..<length lines}" if "map_of (id_by_text lines) k \<noteq> None" for k
      using that id_by_text_range by fastforce
    then show ?thesis by (auto simp: map_filter_def)
  qed
  then show ?thesis using nub_by_subset [of id "[]" ?all] by (auto simp: known_ids_def)
qed

subsection \<open>Properties\<close>

text \<open>
  What the model is shown it can cite, and nothing else. Any list of shown identifiers
  resolves to the templates of those very lines, each once, and every identifier printed beside
  an already known finding is one of a line of this window.
\<close>

lemma cited_identifiers_resolve:
  assumes "is \<noteq> []" "list_all (\<lambda>i. i < length (Select b sel)) is"
  shows "ResolveEvidence b sel (map TemplateID is) = Inr (map (\<lambda>i. pl_template (Select b sel ! i)) (nub_by id [] is))
    \<and> set (known_ids (Select b sel) f) \<subseteq> TemplateID ` {..<length (Select b sel)}"
proof -
  have "nub_by id [] is \<noteq> []" using assms(1) by (cases "is") auto
  then show ?thesis using resolve_ids_shown [OF assms(2), of "[]"] known_ids_shown by (simp add: ResolveEvidence_def)
qed

text \<open>
  C34: no text of the model reaches the identity of a finding. Whatever strings a response cites,
  the evidence is refused, for having cited nothing or a line that was not shown, or it is the
  templates of distinct lines of the selection: one for each different identifier cited, in
  the order of its first mention and however often, and in whatever case or spacing, it is repeated.
\<close>

theorem evidence_is_the_servers:
  "(case ResolveEvidence b sel ids of
      Inl e \<Rightarrow> (if ids = [] then e = NoEvidence
                else list_ex (\<lambda>raw. e = UnknownTemplate raw \<and> cited_id raw \<notin> TemplateID ` {..<length (Select b sel)}) ids)
    | Inr ts \<Rightarrow> (\<exists>js. distinct js \<and> js \<noteq> [] \<and> list_all (\<lambda>j. j < length (Select b sel)) js
                 \<and> ts = map (\<lambda>j. pl_template (Select b sel ! j)) js
                 \<and> map TemplateID js = nub_by id [] (map cited_id ids)))"
proof (cases "ids = []")
  case True
  then show ?thesis by (simp add: ResolveEvidence_def)
next
  case False
  let ?r = "resolve_ids (line_index (Select b sel)) [] ids"
  note spec = resolve_ids_spec [where lines = "Select b sel" and seen = "[]" and ids = ids, unfolded list.map]
  show ?thesis
  proof (cases ?r)
    case (Inl e)
    then show ?thesis using spec False by (simp add: ResolveEvidence_def)
  next
    case (Inr ts)
    then obtain js where js: "list_all (\<lambda>j. j < length (Select b sel)) js" "ts = map (\<lambda>j. pl_template (Select b sel ! j)) js"
      "map TemplateID js = nub_by id [] (map cited_id ids)" using spec by auto
    have "distinct (map TemplateID js)" unfolding js(3) using distinct_nub_by [of id "[]" "map cited_id ids"] by simp
    then have "distinct js" by (simp add: distinct_map)
    moreover have "js \<noteq> []" using js(3) False by (cases ids) auto
    moreover have "ResolveEvidence b sel ids = Inr ts" using Inr js(2) \<open>js \<noteq> []\<close> by (simp add: ResolveEvidence_def)
    ultimately show ?thesis using js by auto
  qed
qed

lemma group_member:
  assumes "t \<in> set ts"
  shows "\<exists>l. (line_key t, l) \<in> set (group_lines ts) \<and> line_of (line_key t) l"
proof -
  have "line_key t \<in> set (map fst (group_lines ts))" using group_lines_ok [of ts] assms by (simp add: group_ok_def)
  then obtain l where "(line_key t, l) \<in> set (group_lines ts)" by auto
  then show ?thesis using group_lines_ok [of ts] by (auto simp: group_ok_def)
qed

lemma line_of_ckey: "line_of (line_key t) l \<Longrightarrow>
    CanonicalKey (fst (line_key t)) (t_template (pl_template l)) = CanonicalKey (t_module_id t) (t_template t)"
  by (simp add: line_of_def line_key_def CanonicalKey_def ModuleFamily_idem)

lemma length_ambient: "0 \<le> sel_max_ambient sel \<Longrightarrow> int (length (ambient_lines b sel)) \<le> sel_max_ambient sel"
  by (simp add: ambient_lines_def Let_def)

text \<open>A line stands for a template; what it carries of its group; what is shown as context only.\<close>

definition stands_for :: "template \<Rightarrow> prompt_line \<Rightarrow> bool" where
  "stands_for t l \<longleftrightarrow> t_module_id (pl_template l) = ModuleFamily (t_module_id t) \<and> t_priority (pl_template l) = t_priority t
     \<and> CanonicalKey (t_module_id (pl_template l)) (t_template (pl_template l)) = CanonicalKey (t_module_id t) (t_template t)"

definition group_sums :: "template list \<Rightarrow> prompt_line \<Rightarrow> bool" where
  "group_sums ts l \<longleftrightarrow> t_count (pl_template l) = sum_list (map t_count (filter (\<lambda>t. stands_for t l) ts))
     \<and> pl_variants l = int (length (filter (\<lambda>t. stands_for t l) ts))"

definition context_only :: "selection \<Rightarrow> prompt_line \<Rightarrow> bool" where
  "context_only sel l \<longleftrightarrow> CanonicalKey (t_module_id (pl_template l)) (t_template (pl_template l)) \<notin> set (sel_novel sel)
     \<and> t_category (pl_template l) \<noteq> ''security''"

lemma stands_for_member:
  assumes "line_of k l"
  shows "stands_for t l \<longleftrightarrow> line_key t = k"
  using assms
  by (auto simp: stands_for_def line_of_def line_key_def CanonicalKey_def CanonicalTemplate_family prod_eq_iff)

lemma group_entry:
  assumes "(k, l) \<in> set (group_lines ts)"
  shows "line_of k l" "group_sums ts l"
proof -
  show l: "line_of k l" using assms group_lines_ok [of ts] by (auto simp: group_ok_def)
  have "filter (\<lambda>t. stands_for t l) ts = members k ts" by (simp add: members_def stands_for_member [OF l])
  then show "group_sums ts l" using assms group_lines_ok [of ts] by (auto simp: group_ok_def group_sums_def)
qed

lemma Select_entry: "l \<in> set (Select b sel) \<Longrightarrow> \<exists>k. (k, l) \<in> set (group_lines (b_templates b))"
  by (auto simp: Select_def ambient_lines_def Let_def dest!: in_set_takeD split: if_splits; blast)

lemma Select_represents:
  assumes "t \<in> set (b_templates b)" "CanonicalKey (t_module_id t) (t_template t) \<in> set (sel_novel sel)"
  shows "\<exists>l \<in> set (Select b sel). stands_for t l"
proof -
  obtain l where l: "(line_key t, l) \<in> set (group_lines (b_templates b))" "line_of (line_key t) l"
    using group_member [OF assms(1)] by blast
  then have "line_kept sel (line_key t, l)" using assms(2) line_of_ckey [OF l(2)] by (simp add: line_kept_def)
  then have "l \<in> set (Select b sel)" using l(1) by (force simp: Select_def)
  then show ?thesis using stands_for_member [OF l(2)] by blast
qed

lemma Select_context: "length (filter (context_only sel) (Select b sel)) \<le> length (ambient_lines b sel)"
proof -
  have "\<not> context_only sel l" if "(k, l) \<in> set (group_lines (b_templates b))" "line_kept sel (k, l)" for k l
    using that group_entry(1) [OF that(1)] by (auto simp: line_of_def line_kept_def context_only_def)
  then have "filter (context_only sel) (map snd (filter (line_kept sel) (group_lines (b_templates b)))) = []"
    by (auto simp: filter_empty_conv)
  then show ?thesis unfolding Select_def filter_sort length_sort filter_append by simp
qed

text \<open>
  The prompt shows what paid for the call, and stays small. Every template whose key the gate
  found novel is represented by a line of its module family, priority and key; each line
  shown carries the number of its variants and the sum of their counts; the lines are in
  template order; and with a cap on the context, those that are neither novel nor of the
  security category are at most that many.
\<close>

lemma Select_shows_novel:
  "list_all (\<lambda>t. list_ex (stands_for t) (Select b sel))
     (filter (\<lambda>t. CanonicalKey (t_module_id t) (t_template t) \<in> set (sel_novel sel)) (b_templates b))
   \<and> list_all (group_sums (b_templates b)) (Select b sel)
   \<and> sorted (map (\<lambda>l. template_key (pl_template l)) (Select b sel))
   \<and> (if 0 \<le> sel_max_ambient sel then int (length (filter (context_only sel) (Select b sel))) \<le> sel_max_ambient sel else True)"
proof (intro conjI)
  show "list_all (\<lambda>t. list_ex (stands_for t) (Select b sel))
     (filter (\<lambda>t. CanonicalKey (t_module_id t) (t_template t) \<in> set (sel_novel sel)) (b_templates b))"
    using Select_represents by (auto simp: list_all_iff list_ex_iff)
  show "list_all (group_sums (b_templates b)) (Select b sel)"
    using Select_entry group_entry(2) by (fastforce simp: list_all_iff)
  show "sorted (map (\<lambda>l. template_key (pl_template l)) (Select b sel))" by (simp add: Select_def)
  show "(if 0 \<le> sel_max_ambient sel then int (length (filter (context_only sel) (Select b sel))) \<le> sel_max_ambient sel else True)"
    using Select_context [of sel b] length_ambient [of sel b] by auto
qed

text \<open>
  The security category of a group can be lost. When a busier variant without the category
  comes after one with it, the representative is replaced and its category with it: the group
  is then shown as mere context, and with no context allowed not at all, while the same two
  lines in the other order are always shown.
\<close>

lemma Select_loses_security:
  assumes "line_key t = line_key u" "t_category t = ''security''" "t_category u \<noteq> ''security''" "t_count t < t_count u"
    "sel_novel sel = []" "sel_max_ambient sel = 0"
  shows "Select (b\<lparr>b_templates := [t, u]\<rparr>) sel = [] \<and> length (Select (b\<lparr>b_templates := [u, t]\<rparr>) sel) = 1"
proof -
  have "group_lines [t, u] = [(line_key t, add_variant u (new_line t))]" "group_lines [u, t] = [(line_key t, add_variant t (new_line u))]"
    using assms(1) by (simp_all add: group_lines_def)
  moreover have "t_category (pl_template (add_variant u (new_line t))) = t_category u"
    "t_category (pl_template (add_variant t (new_line u))) = ''security''"
    using assms(2-4) by (simp_all add: add_variant_def new_line_def Let_def)
  ultimately show ?thesis
    using assms(3,5,6) by (simp add: Select_def ambient_lines_def line_kept_def)
qed

text \<open>
  The representative of a group is not the busiest variant, and depends on the order of the
  bundle: a variant is compared with the sum of those before it. Of three variants in rising
  order of count, where the third does not exceed the first two together, the second is shown;
  in falling order the busiest is.
\<close>

lemma representative_not_busiest:
  assumes "line_key t = line_key u" "line_key u = line_key v" "0 < t_count t" "t_count t < t_count u" "t_count u < t_count v"
    "t_count v < t_count t + t_count u"
  shows "map (\<lambda>kl. t_template (pl_template (snd kl))) (group_lines [t, u, v]) = [t_template u]
    \<and> map (\<lambda>kl. t_template (pl_template (snd kl))) (group_lines [v, u, t]) = [t_template v]"
  using assms by (simp add: group_lines_def add_variant_def new_line_def Let_def)

definition ssh_line :: "string \<Rightarrow> int \<Rightarrow> string \<Rightarrow> template" where
  "ssh_line module n category = \<lparr>t_template = ''<4> login failed'', t_count = n, t_module_id = module, t_priority = 4,
     t_category = category, t_first_seen = 0, t_last_seen = 0, t_samples = [], t_nodes = []\<rparr>"

lemma ssh_line_key: "line_key (ssh_line ''ssh1'' n c) = line_key (ssh_line ''ssh2'' m d)"
proof -
  have "ModuleFamily ''ssh1'' = ModuleFamily ''ssh2''" by code_simp
  then show ?thesis using CanonicalTemplate_family by (simp add: line_key_def ssh_line_def) (metis CanonicalTemplate_family)
qed

definition ssh_bundle :: log_bundle where
  "ssh_bundle = \<lparr>b_schema_version = 1, b_system_id = ''s1'', b_collector_version = [], b_masking_version = 1,
     b_window = \<lparr>w_start = 100, w_end = 200\<rparr>, b_templates = [ssh_line ''ssh1'' 2 ''security'', ssh_line ''ssh2'' 5 []],
     b_budget = \<lparr>lb_max_lines = 10, lb_lines_seen = 1, lb_lines_kept = 1, lb_truncated_modules = []\<rparr>, b_nodes = []\<rparr>"

lemma representative_not_busiest_example:
  "map (\<lambda>kl. t_template (pl_template (snd kl))) (group_lines [ssh_line ''ssh1'' 3 [], ssh_line ''ssh2'' 4 [], ssh_line ''ssh1'' 5 []])
     = [''<4> login failed'']"
  using representative_not_busiest [OF ssh_line_key ssh_line_key [symmetric], of 3 "[]" 4 "[]" 5 "[]"] by (simp add: ssh_line_def)

lemma ssh_selected:
  "Select ssh_bundle \<lparr>sel_novel = [CanonicalKey ''ssh'' ''<4> login failed''], sel_max_ambient = 0\<rparr>
     = [add_variant (ssh_line ''ssh2'' 5 []) (new_line (ssh_line ''ssh1'' 2 ''security''))]"
proof -
  have m: "ModuleFamily ''ssh1'' = ''ssh''" by code_simp
  show ?thesis
    using ssh_line_key [of 2 "''security''" 5 "[]"]
    by (simp add: Select_def ssh_bundle_def group_lines_def ambient_lines_def line_kept_def ssh_line_key)
      (simp add: line_key_def ssh_line_def add_variant_def new_line_def Let_def m)
qed

end
