(* ===== verification/Fingerprint.thy ===== *)
theory Fingerprint
  imports Model_Canonical GoUtf8
begin

text \<open>
  The identity of a finding, \<open>internal/fingerprint\<close>: \<open>evidence.go\<close> and \<open>fingerprint.go\<close>. The
  digest is an argument, \<open>sha\<close> of the bytes written, in hexadecimal.
\<close>

subsection \<open>Evidence\<close>

definition Normalize :: "string \<Rightarrow> string \<Rightarrow> string" where
  "Normalize moduleID template = CanonicalTemplate moduleID template"

definition evidence_text :: "template \<Rightarrow> string" where
  "evidence_text t = ''primary:'' @ t_module_id t @ ''/'' @ int_dec (t_priority t) @ ''/'' @ TrimSpace (t_template t)"

definition EvidenceCandidates :: "template list \<Rightarrow> string list list" where
  "EvidenceCandidates cited =
     (if cited = [] then []
      else let normalized = map (\<lambda>t. t\<lparr>t_template := Normalize (t_module_id t) (t_template t)\<rparr>) cited
           in map (\<lambda>key. [key]) (nub_by id [] (map evidence_text (sort_key template_key normalized))))"

definition EvidenceKey :: "template list \<Rightarrow> string list option" where
  "EvidenceKey cited = (case EvidenceCandidates cited of [] \<Rightarrow> None | c # _ \<Rightarrow> Some c)"

subsection \<open>The hashed bytes\<close>

definition fp_Version :: string where "fp_Version = ''v7''"

text \<open>\<open>binary.BigEndian.PutUint64\<close>: the last byte first, from the right.\<close>

fun big_endian :: "nat \<Rightarrow> nat \<Rightarrow> string" where
  "big_endian 0 n = []"
| "big_endian (Suc k) n = big_endian k (n div 256) @ [char_of (n mod 256)]"

definition be64 :: "nat \<Rightarrow> string" where
  "be64 n = big_endian 8 n"

definition writeField :: "string \<Rightarrow> string" where
  "writeField s = be64 (length s) @ s"

definition writeList :: "string list \<Rightarrow> string" where
  "writeList items = (let deduped = remdups_adj (sort items)
     in be64 (length deduped) @ concat (map writeField deduped))"

definition fp_text :: "string \<Rightarrow> string list \<Rightarrow> string list \<Rightarrow> string \<Rightarrow> string" where
  "fp_text systemID modules evidence category =
     writeField fp_Version @ writeField systemID @ writeField category @ writeList modules @ writeList evidence"

definition Compute :: "(string \<Rightarrow> string) \<Rightarrow> string \<Rightarrow> string list \<Rightarrow> string list \<Rightarrow> string \<Rightarrow> string" where
  "Compute sha systemID modules evidence category = sha (fp_text systemID modules evidence category)"

definition class_text :: "string list \<Rightarrow> string list \<Rightarrow> string \<Rightarrow> string" where
  "class_text modules evidence category =
     writeField fp_Version @ writeField category @ writeList modules @ writeList evidence"

definition Class :: "(string \<Rightarrow> string) \<Rightarrow> string list \<Rightarrow> string list \<Rightarrow> string \<Rightarrow> string" where
  "Class sha modules evidence category = fp_Version @ '':'' @ sha (class_text modules evidence category)"

subsection \<open>Reading the bytes back\<close>

lemma length_be64: "length (be64 n) = 8"
proof -
  have "length (big_endian k m) = k" for k m by (induction k m rule: big_endian.induct) simp_all
  then show ?thesis by (simp add: be64_def)
qed

definition of_be64 :: "string \<Rightarrow> nat" where
  "of_be64 s = foldl (\<lambda>a c. a * 256 + byte c) 0 s"

lemma of_be64_be64: "n < 2 ^ 64 \<Longrightarrow> of_be64 (be64 n) = n"
proof -
  have "of_be64 (big_endian k m) = m mod 256 ^ k" for k m
  proof (induction k m rule: big_endian.induct)
    case (1 n)
    then show ?case by (simp add: of_be64_def)
  next
    case (2 k n)
    have "of_be64 (big_endian (Suc k) n) = of_be64 (big_endian k (n div 256)) * 256 + n mod 256"
      by (simp add: of_be64_def byte_def)
    then show ?case using 2 mod_mult2_eq [of n 256 "256 ^ k"] by (simp add: mult.commute)
  qed
  then show "n < 2 ^ 64 \<Longrightarrow> of_be64 (be64 n) = n" by (simp add: be64_def)
qed

lemma be64_inject: "m < 2 ^ 64 \<Longrightarrow> n < 2 ^ 64 \<Longrightarrow> be64 m = be64 n \<Longrightarrow> m = n"
  by (metis of_be64_be64)

definition short_text :: "string \<Rightarrow> bool" where
  "short_text s \<longleftrightarrow> length s < 2 ^ 64"

lemma writeField_inject:
  assumes "short_text s" "short_text t" "writeField s @ x = writeField t @ y"
  shows "s = t \<and> x = y"
proof -
  have "be64 (length s) = be64 (length t) \<and> s @ x = t @ y"
    using assms(3) by (simp add: writeField_def length_be64)
  then show ?thesis using assms(1,2) be64_inject by (metis append_eq_append_conv short_text_def)
qed

lemma writeFields_inject:
  "list_all short_text ss \<Longrightarrow> list_all short_text ts \<Longrightarrow> length ss = length ts \<Longrightarrow>
   concat (map writeField ss) @ x = concat (map writeField ts) @ y \<Longrightarrow> ss = ts \<and> x = y"
proof (induction ss arbitrary: ts)
  case (Cons s ss)
  then obtain t ts' where ts: "ts = t # ts'" by (cases ts) auto
  have "s = t \<and> concat (map writeField ss) @ x = concat (map writeField ts') @ y"
    using writeField_inject [of s t] Cons.prems ts by simp
  then show ?case using Cons ts by simp
qed simp

definition short_list :: "string list \<Rightarrow> bool" where
  "short_list ss \<longleftrightarrow> length ss < 2 ^ 64 \<and> list_all short_text ss"

lemma writeList_inject:
  assumes "short_list ss" "short_list ts" "writeList ss @ x = writeList ts @ y"
  shows "set ss = set ts \<and> x = y"
proof -
  let ?s = "remdups_adj (sort ss)" and ?t = "remdups_adj (sort ts)"
  have l: "length ?s < 2 ^ 64" "length ?t < 2 ^ 64"
    using assms(1,2) remdups_adj_length [of "sort ss"] remdups_adj_length [of "sort ts"]
    by (auto simp: short_list_def)
  have a: "list_all short_text ?s" "list_all short_text ?t" using assms(1,2) by (auto simp: short_list_def list_all_iff)
  have "be64 (length ?s) = be64 (length ?t)" "concat (map writeField ?s) @ x = concat (map writeField ?t) @ y"
    using assms(3) by (simp_all add: writeList_def Let_def length_be64)
  then have "?s = ?t \<and> x = y" using be64_inject [OF l] writeFields_inject [OF a] by blast
  then show ?thesis by (metis remdups_adj_set set_sort)
qed

lemma sorted_remdups_adj_distinct: "sorted (xs :: string list) \<Longrightarrow> distinct (remdups_adj xs)"
proof (induction xs rule: remdups_adj.induct)
  case (3 x y xs)
  then show ?case by (auto simp: dest: antisym)
qed simp_all

lemma writeList_set: "set ss = set ts \<Longrightarrow> writeList ss = writeList ts"
proof -
  assume "set ss = set ts"
  then have "remdups_adj (sort ss) = remdups_adj (sort ts)"
    by (intro sorted_distinct_set_unique) (simp_all add: sorted_remdups_adj_distinct)
  then show ?thesis by (simp add: writeList_def)
qed

lemma evidence_text_key: "template_key t = template_key u \<Longrightarrow> evidence_text t = evidence_text u"
  by (simp add: template_key_def evidence_text_def)

lemma EvidenceCandidates_mset:
  assumes "mset cited = mset cited'" shows "EvidenceCandidates cited = EvidenceCandidates cited'"
proof -
  define f where "f k = ''primary:'' @ fst k @ ''/'' @ int_dec (fst (snd k)) @ ''/'' @ TrimSpace (snd (snd k))" for k :: "string \<times> int \<times> string"
  have e: "evidence_text = f \<circ> template_key" by (auto simp: fun_eq_iff f_def evidence_text_def template_key_def)
  have k: "map template_key (sort_key template_key ts) = sort (map template_key ts)" for ts
    by (rule properties_for_sort [symmetric]) simp_all
  let ?n = "map (\<lambda>t. t\<lparr>t_template := Normalize (t_module_id t) (t_template t)\<rparr>)"
  have "sort (map template_key (?n cited)) = sort (map template_key (?n cited'))"
    by (rule properties_for_sort) (simp_all add: assms)
  then have "map evidence_text (sort_key template_key (?n cited)) = map evidence_text (sort_key template_key (?n cited'))"
    unfolding e by (simp only: map_map [symmetric] k)
  moreover have "cited = [] \<longleftrightarrow> cited' = []" using assms by (metis mset_zero_iff)
  ultimately show ?thesis by (simp add: EvidenceCandidates_def Let_def)
qed

subsection \<open>Properties\<close>

text \<open>
  C30: a fingerprint identifies exactly its fields. With a digest that does not collide on the
  two texts, two findings have one fingerprint if and only if they agree on the system, the
  category, the set of modules and the set of evidence lines: the length prefixes leave no way
  to shift bytes from one field into another, and order and repetition do not count.
\<close>

theorem Compute_identifies:
  assumes "inj_on sha {fp_text sys mods ev cat, fp_text sys' mods' ev' cat'}"
    and "list_all short_text [sys, cat, sys', cat']" and "list_all short_list [mods, ev, mods', ev']"
  shows "Compute sha sys mods ev cat = Compute sha sys' mods' ev' cat' \<longleftrightarrow>
    sys = sys' \<and> cat = cat' \<and> set mods = set mods' \<and> set ev = set ev'"
proof
  assume "Compute sha sys mods ev cat = Compute sha sys' mods' ev' cat'"
  then have t: "fp_text sys mods ev cat = fp_text sys' mods' ev' cat'"
    unfolding Compute_def by (rule inj_onD [OF assms(1)]) simp_all
  have v: "short_text fp_Version" by (simp add: short_text_def fp_Version_def)
  have h: "short_text sys" "short_text cat" "short_text sys'" "short_text cat'"
    "short_list mods" "short_list ev" "short_list mods'" "short_list ev'" using assms(2,3) by simp_all
  note r1 = writeField_inject [OF v v t [unfolded fp_text_def], THEN conjunct2]
  note r2 = writeField_inject [OF h(1,3) r1]
  note r3 = writeField_inject [OF h(2,4) r2 [THEN conjunct2]]
  note r4 = writeList_inject [OF h(5,7) r3 [THEN conjunct2]]
  have s: "sys = sys'" and c: "cat = cat'" using r2 r3 by blast+
  have "set mods = set mods'" and e: "writeList ev = writeList ev'" using r4 by blast+
  moreover have "set ev = set ev'" using writeList_inject [OF h(6,8), of "[]" "[]"] e by simp
  ultimately show "sys = sys' \<and> cat = cat' \<and> set mods = set mods' \<and> set ev = set ev'" using s c by blast
next
  assume "sys = sys' \<and> cat = cat' \<and> set mods = set mods' \<and> set ev = set ev'"
  then show "Compute sha sys mods ev cat = Compute sha sys' mods' ev' cat'"
    using writeList_set [of mods mods'] writeList_set [of ev ev'] by (simp add: Compute_def fp_text_def)
qed

theorem Compute_identifies_witness:
  "Compute id ''s'' [''ab'', ''c''] [''e''] [] \<noteq> Compute id ''s'' [''a'', ''bc''] [''e''] []"
proof -
  have "Compute id ''s'' [''ab'', ''c''] [''e''] [] = Compute id ''s'' [''a'', ''bc''] [''e''] [] \<longleftrightarrow>
      ''s'' = ''s'' \<and> ([] :: string) = [] \<and> set [''ab'', ''c''] = set [''a'', ''bc''] \<and> set [''e''] = set [''e'']"
    by (rule Compute_identifies) (simp_all add: short_text_def short_list_def)
  then show ?thesis by (simp add: doubleton_eq_iff)
qed

text \<open>
  A finding's class does not depend on how its evidence was cited: any order of the same
  citations gives the same key, one candidate is offered for each distinct normalised line, and
  a class computed from them ignores the order and repetition of the modules.
\<close>

lemma Class_ignores_citation_order:
  assumes "mset cited = mset cited'" "set mods = set mods'"
  shows "EvidenceKey cited = EvidenceKey cited' \<and> distinct (EvidenceCandidates cited)
    \<and> map_option (\<lambda>ev. Class sha mods ev cat) (EvidenceKey cited) = map_option (\<lambda>ev. Class sha mods' ev cat) (EvidenceKey cited')"
proof -
  have k: "EvidenceKey cited = EvidenceKey cited'" by (simp add: EvidenceKey_def EvidenceCandidates_mset [OF assms(1)])
  have "distinct (nub_by id [] ks)" for ks :: "string list" using distinct_nub_by [of id "[]" ks] by simp
  then have "distinct (EvidenceCandidates cited)" by (auto simp: EvidenceCandidates_def Let_def distinct_map inj_on_def)
  then show ?thesis using k writeList_set [OF assms(2)] by (simp add: Class_def class_text_def)
qed


definition cited_line :: "string \<Rightarrow> int \<Rightarrow> string \<Rightarrow> template" where
  "cited_line m p text = \<lparr>t_template = text, t_count = 1, t_module_id = m, t_priority = p, t_category = [],
     t_first_seen = 0, t_last_seen = 0, t_samples = [], t_nodes = []\<rparr>"

end
