(* ===== verification/Budget_Grouping.thy ===== *)
theory Budget_Grouping
  imports Complex_Main GoTime GoUtf8
begin

text \<open>
  The ceiling under the spend, \<open>internal/budget/budget.go\<close>, and the pure core of review grouping,
  \<open>internal/grouping/grouping.go\<close>. Amounts are rationals and vectors are lists of reals; the
  ledger's two queries are arguments that may fail.
\<close>

subsection \<open>Budget\<close>

record budget_config =
  bc_max_concurrency :: int
  bc_max_calls_per_system :: int
  bc_daily_cap_usd :: rat

record budget_verdict =
  bv_suppressed :: string
  bv_security_only :: bool

definition SuppressedSystemCap :: string where "SuppressedSystemCap = ''system_call_cap''"
definition ReasonSpendCap :: string where "ReasonSpendCap = ''daily_spend_cap''"

definition startOfUTCDay :: "int \<Rightarrow> int" where
  "startOfUTCDay ms = day_start ms"

definition budget_Check ::
  "(string \<Rightarrow> int \<Rightarrow> string + int) \<Rightarrow> (int \<Rightarrow> string + int) \<Rightarrow> budget_config \<Rightarrow> string \<Rightarrow> int \<Rightarrow> string + budget_verdict" where
  "budget_Check SystemCallsSince DailySpendMicros cfg systemID now =
     (let dayStart = startOfUTCDay now;
          v = \<lparr>bv_suppressed = [], bv_security_only = False\<rparr>;
          spend = (if bc_daily_cap_usd cfg > 0
                   then rbind (DailySpendMicros dayStart) (\<lambda>spent.
                     Inr (if of_int spent / 1000000 \<ge> bc_daily_cap_usd cfg then v\<lparr>bv_security_only := True\<rparr> else v))
                   else Inr v)
      in if bc_max_calls_per_system cfg > 0
         then rbind (SystemCallsSince systemID dayStart) (\<lambda>calls.
           if calls \<ge> bc_max_calls_per_system cfg then Inr (v\<lparr>bv_suppressed := SuppressedSystemCap\<rparr>) else spend)
         else spend)"

text \<open>
  The semaphore: the number of slots taken. \<open>Acquire\<close> is not enabled while it is full and
  release is the returned function; \<open>None\<close> as the capacity is the nil channel, unlimited.
\<close>

record budget_slots =
  sl_cap :: "nat option"
  sl_taken :: nat

datatype slot_event = Acquire | ReleaseSlot

definition new_slots :: "budget_config \<Rightarrow> budget_slots" where
  "new_slots cfg = \<lparr>sl_cap = (if bc_max_concurrency cfg > 0 then Some (nat (bc_max_concurrency cfg)) else None), sl_taken = 0\<rparr>"

fun slot_step :: "slot_event \<Rightarrow> budget_slots \<Rightarrow> budget_slots option" where
  "slot_step Acquire s = (case sl_cap s of
      None \<Rightarrow> Some s
    | Some c \<Rightarrow> if sl_taken s < c then Some (s\<lparr>sl_taken := Suc (sl_taken s)\<rparr>) else None)"
| "slot_step ReleaseSlot s = (case sl_cap s of
      None \<Rightarrow> Some s
    | Some c \<Rightarrow> if 0 < sl_taken s then Some (s\<lparr>sl_taken := sl_taken s - 1\<rparr>) else None)"

subsection \<open>Grouping\<close>

definition MaxChars :: nat where "MaxChars = 1500"

fun join_with :: "string \<Rightarrow> string list \<Rightarrow> string" where
  "join_with sep [] = []"
| "join_with sep [s] = s"
| "join_with sep (s # ss) = s @ sep @ join_with sep ss"

text \<open>\<open>utf8.RuneStart\<close>, and the loop that backs the cut up to it.\<close>

definition rune_start :: "char \<Rightarrow> bool" where
  "rune_start c \<longleftrightarrow> \<not> cont_byte c"

fun back_up :: "string \<Rightarrow> nat \<Rightarrow> nat" where
  "back_up s 0 = 0"
| "back_up s (Suc n) = (if \<not> rune_start (s ! Suc n) then back_up s n else Suc n)"

definition grouping_Text :: "string list \<Rightarrow> string list \<Rightarrow> string" where
  "grouping_Text modules evidence =
     (let s = ''modules: '' @ join_with '','' modules @ [char_of (10::nat)] @ join_with [char_of (10::nat)] evidence
      in if length s \<le> MaxChars then s else take (back_up s MaxChars) s)"

definition Cosine :: "real list \<Rightarrow> real list \<Rightarrow> real" where
  "Cosine a b =
     (if length a \<noteq> length b then 0
      else let dot = sum_list (map2 (*) a b); na = sum_list (map2 (*) a a); nb = sum_list (map2 (*) b b)
           in if na = 0 \<or> nb = 0 then 0 else dot / (sqrt na * sqrt nb))"

record anchor =
  an_key :: string
  an_vector :: "real list"

text \<open>The loop; \<open>None\<close> is the initial minus infinity.\<close>

fun assign_loop :: "real list \<Rightarrow> anchor list \<Rightarrow> (string \<times> real) option \<Rightarrow> (string \<times> real) option" where
  "assign_loop v [] best = best"
| "assign_loop v (a # as) best =
     (let c = Cosine v (an_vector a)
      in if (case best of None \<Rightarrow> True | Some (_, x) \<Rightarrow> c > x)
         then assign_loop v as (Some (an_key a, c)) else assign_loop v as best)"

definition Assign :: "real list \<Rightarrow> anchor list \<Rightarrow> real \<Rightarrow> string \<times> real \<times> bool" where
  "Assign v anchors threshold = (case assign_loop v anchors None of
      None \<Rightarrow> ([], 0, False) | Some (key, best) \<Rightarrow> (key, best, best \<ge> threshold))"

definition decided :: "string \<Rightarrow> bool" where
  "decided v \<longleftrightarrow> v \<in> {''customer'', ''operator'', ''dismissed''}"

fun suggest_loop :: "string list \<Rightarrow> string \<Rightarrow> string \<times> bool" where
  "suggest_loop [] found = (found, found \<noteq> [])"
| "suggest_loop (v # vs) found =
     (if \<not> decided v then suggest_loop vs found
      else if found \<noteq> [] \<and> found \<noteq> v then ([], False)
      else suggest_loop vs v)"

definition Suggest :: "string list \<Rightarrow> string \<times> bool" where
  "Suggest vs = suggest_loop vs []"

subsection \<open>Lemmas\<close>

lemma suggest_loop_found:
  "w \<noteq> [] \<Longrightarrow> decided w \<Longrightarrow> suggest_loop vs w = (if {v \<in> set vs. decided v} \<subseteq> {w} then (w, True) else ([], False))"
proof (induction vs)
  case (Cons v vs)
  then show ?case by (cases "decided v"; cases "v = w") auto
qed simp

lemma suggest_loop_none:
  "suggest_loop vs [] = (case filter decided vs of [] \<Rightarrow> ([], False) | w # ws \<Rightarrow> if set ws \<subseteq> {w} then (w, True) else ([], False))"
proof (induction vs)
  case (Cons v vs)
  have "decided v \<Longrightarrow> v \<noteq> []" by (auto simp: decided_def)
  moreover have "{x \<in> set vs. decided x} = set (filter decided vs)" by auto
  ultimately show ?case using Cons suggest_loop_found [of v vs] by simp
qed simp

text \<open>The first anchor of the greatest cosine.\<close>

definition first_best :: "real list \<Rightarrow> anchor list \<Rightarrow> string \<Rightarrow> real \<Rightarrow> bool" where
  "first_best v as k x \<longleftrightarrow> (\<exists>bs a cs. as = bs @ a # cs \<and> an_key a = k \<and> Cosine v (an_vector a) = x
     \<and> list_all (\<lambda>b. Cosine v (an_vector b) < x) bs \<and> list_all (\<lambda>c. Cosine v (an_vector c) \<le> x) cs)"

lemma assign_loop_Some:
  "assign_loop v as (Some (k, x)) = Some (k', x') \<Longrightarrow>
     (k' = k \<and> x' = x \<and> list_all (\<lambda>a. Cosine v (an_vector a) \<le> x) as) \<or> (x < x' \<and> first_best v as k' x')"
proof (induction as arbitrary: k x)
  case Nil
  then show ?case by simp
next
  case (Cons a as)
  let ?c = "Cosine v (an_vector a)"
  show ?case
  proof (cases "?c > x")
    case True
    then have "assign_loop v as (Some (an_key a, ?c)) = Some (k', x')" using Cons.prems by (simp add: Let_def)
    from Cons.IH [OF this] show ?thesis
    proof
      assume "k' = an_key a \<and> x' = ?c \<and> list_all (\<lambda>a. Cosine v (an_vector a) \<le> ?c) as"
      then have "first_best v (a # as) k' x'" unfolding first_best_def by (intro exI [of _ "[]"]) simp
      then show ?thesis using True \<open>k' = an_key a \<and> _\<close> by simp
    next
      assume b: "?c < x' \<and> first_best v as k' x'"
      then obtain bs a' cs where "as = bs @ a' # cs" "an_key a' = k'" "Cosine v (an_vector a') = x'"
        "list_all (\<lambda>b. Cosine v (an_vector b) < x') bs" "list_all (\<lambda>c. Cosine v (an_vector c) \<le> x') cs"
        by (auto simp: first_best_def)
      then have "first_best v (a # as) k' x'" using b unfolding first_best_def by (intro exI [of _ "a # bs"]) auto
      then show ?thesis using b True by simp
    qed
  next
    case False
    then have "assign_loop v as (Some (k, x)) = Some (k', x')" using Cons.prems by (simp add: Let_def)
    from Cons.IH [OF this] show ?thesis
    proof
      assume b: "x < x' \<and> first_best v as k' x'"
      then obtain bs a' cs where "as = bs @ a' # cs" "an_key a' = k'" "Cosine v (an_vector a') = x'"
        "list_all (\<lambda>b. Cosine v (an_vector b) < x') bs" "list_all (\<lambda>c. Cosine v (an_vector c) \<le> x') cs"
        by (auto simp: first_best_def)
      then have "first_best v (a # as) k' x'" using b False unfolding first_best_def by (intro exI [of _ "a # bs"]) auto
      then show ?thesis using b by simp
    qed (use False in simp)
  qed
qed

lemma assign_loop_none: "as \<noteq> [] \<Longrightarrow> \<exists>k x. assign_loop v as None = Some (k, x) \<and> first_best v as k x"
proof -
  have some: "\<exists>k' x'. assign_loop v as (Some (k, x)) = Some (k', x')" for as k x
    by (induction as arbitrary: k x) (auto simp: Let_def)
  assume "as \<noteq> []"
  then obtain a as' where as: "as = a # as'" by (cases as) auto
  obtain k x where l: "assign_loop v as' (Some (an_key a, Cosine v (an_vector a))) = Some (k, x)" using some by blast
  from assign_loop_Some [OF l] have "first_best v as k x"
  proof
    assume "k = an_key a \<and> x = Cosine v (an_vector a) \<and> list_all (\<lambda>c. Cosine v (an_vector c) \<le> Cosine v (an_vector a)) as'"
    then show ?thesis unfolding as first_best_def by (intro exI [of _ "[]"]) simp
  next
    assume b: "Cosine v (an_vector a) < x \<and> first_best v as' k x"
    then obtain bs a' cs where "as' = bs @ a' # cs" "an_key a' = k" "Cosine v (an_vector a') = x"
        "list_all (\<lambda>b. Cosine v (an_vector b) < x) bs" "list_all (\<lambda>c. Cosine v (an_vector c) \<le> x) cs"
      by (auto simp: first_best_def)
    then show ?thesis unfolding as first_best_def using b by (intro exI [of _ "a # bs"]) auto
  qed
  then show ?thesis using l as by (simp add: Let_def)
qed

text \<open>The cut never falls inside a rune.\<close>

lemma back_up_start: "back_up s n \<le> n \<and> (back_up s n = 0 \<or> rune_start (s ! back_up s n))"
  by (induction n) auto

subsection \<open>Properties\<close>

text \<open>
  Grouping decides the way its rules say. A vector joins the first of the anchors that are
  nearest to it, exactly when the nearest reaches the threshold; and a group suggests a
  decision exactly when its decided members all agree on one.
\<close>

lemma Assign_Suggest_spec:
  "(case Assign v anchors threshold of (key, sim, joined) \<Rightarrow>
      if anchors = [] then key = [] \<and> \<not> joined
      else first_best v anchors key sim \<and> (joined \<longleftrightarrow> list_ex (\<lambda>a. threshold \<le> Cosine v (an_vector a)) anchors))
   \<and> Suggest vs = (case filter decided vs of [] \<Rightarrow> ([], False)
       | w # ws \<Rightarrow> if set ws \<subseteq> {w} then (w, True) else ([], False))"
proof -
  have "first_best v anchors k x \<and> (threshold \<le> x \<longleftrightarrow> list_ex (\<lambda>a. threshold \<le> Cosine v (an_vector a)) anchors)"
    if f: "first_best v anchors k x" for k x
  proof -
    obtain bs a cs where "anchors = bs @ a # cs" "Cosine v (an_vector a) = x"
      "list_all (\<lambda>b. Cosine v (an_vector b) < x) bs" "list_all (\<lambda>c. Cosine v (an_vector c) \<le> x) cs"
      using f by (auto simp: first_best_def)
    then show ?thesis using f by (fastforce simp: list_all_iff list_ex_iff)
  qed
  then have "case Assign v anchors threshold of (key, sim, joined) \<Rightarrow>
      if anchors = [] then key = [] \<and> \<not> joined
      else first_best v anchors key sim \<and> (joined \<longleftrightarrow> list_ex (\<lambda>a. threshold \<le> Cosine v (an_vector a)) anchors)"
    using assign_loop_none [of anchors v] by (auto simp: Assign_def split: option.split)
  then show ?thesis by (simp add: Suggest_def suggest_loop_none)
qed

text \<open>
  The ceiling holds. A system at its cap is suppressed and nothing else is asked of the
  ledger; below it the only other verdict is the degraded mode, given exactly when the day's
  spend has reached the cap; both are counted from midnight UTC, so no restart resets them.
\<close>

lemma budget_Check_verdicts:
  "budget_Check calls spend cfg sys now =
     (let day = now - now mod 86400000
      in if 0 < bc_max_calls_per_system cfg \<and> \<not> is_ok (calls sys day) then Inl (projl (calls sys day))
         else if 0 < bc_max_calls_per_system cfg \<and> bc_max_calls_per_system cfg \<le> projr (calls sys day)
         then Inr \<lparr>bv_suppressed = SuppressedSystemCap, bv_security_only = False\<rparr>
         else if bc_daily_cap_usd cfg \<le> 0 then Inr \<lparr>bv_suppressed = [], bv_security_only = False\<rparr>
         else map_sum id (\<lambda>spent. \<lparr>bv_suppressed = [], bv_security_only = bc_daily_cap_usd cfg * 1000000 \<le> of_int spent\<rparr>) (spend day))"
  by (cases "calls sys (now - now mod 86400000)"; cases "spend (now - now mod 86400000)")
    (auto simp: budget_Check_def startOfUTCDay_def day_start_def dayMillis_def Let_def pos_le_divide_eq)

text \<open>
  At most \<open>MaxConcurrency\<close> calls are in flight, however acquisitions and releases interleave,
  and a slot given back can be taken again.
\<close>

lemma slots_bounded:
  assumes "foldl (\<lambda>s e. case s of None \<Rightarrow> None | Some s \<Rightarrow> slot_step e s) (Some (new_slots cfg)) es = Some s"
    and "0 < bc_max_concurrency cfg"
  shows "int (sl_taken s) \<le> bc_max_concurrency cfg
    \<and> sl_taken s = length (filter (\<lambda>e. e = Acquire) es) - length (filter (\<lambda>e. e = ReleaseSlot) es)
    \<and> (slot_step Acquire s = None \<longleftrightarrow> int (sl_taken s) = bc_max_concurrency cfg)"
proof -
  let ?run = "foldl (\<lambda>s e. case s of None \<Rightarrow> None | Some s \<Rightarrow> slot_step e s)"
  have none: "?run None es = None" for es by (induction es) simp_all
  have "sl_cap s = Some (nat (bc_max_concurrency cfg)) \<and> sl_taken s \<le> nat (bc_max_concurrency cfg)
    \<and> sl_taken s + length (filter (\<lambda>e. e = ReleaseSlot) es) = length (filter (\<lambda>e. e = Acquire) es)"
    using assms(1)
  proof (induction es arbitrary: s rule: rev_induct)
    case Nil
    then show ?case using assms(2) by (auto simp: new_slots_def)
  next
    case (snoc e es)
    then obtain t where t: "?run (Some (new_slots cfg)) es = Some t" "slot_step e t = Some s"
      by (auto split: option.splits)
    from snoc.IH [OF t(1)] t(2) show ?case by (cases e) (auto split: if_splits)
  qed
  then show ?thesis using assms(2) by auto
qed

end
