(* ===== verification/Analyzer.thy ===== *)
theory Analyzer
  imports Logs_Props Prompt Fingerprint Budget_Grouping
begin

text \<open>
  One window through the pipeline, \<open>internal/analyzer/analyzer.go\<close> with \<open>internal/llm/llm.go\<close>: the
  claim, the bookkeeping, the budget, the gate, the call and what is made of the answer.
  Everything outside the process is in \<open>run_env\<close>: the clocks, the model provider, the JSON
  decoder, the digest, fresh ids, and which statements fail. A failed statement changes nothing;
  the roster is stored row by row. Amounts are rationals where the code has floating point.
\<close>

subsection \<open>Configuration, provider, surroundings\<close>

record analyzer_config =
  ac_gate :: gate_config
  ac_prompt_ambient :: int
  ac_stale_after :: int
  ac_model :: string
  ac_input_per_mtok :: rat
  ac_output_per_mtok :: rat
  ac_cached_input_per_mtok :: rat

record llm_response =
  rp_content :: string
  rp_model :: string
  rp_input :: int
  rp_output :: int
  rp_cached :: int
  rp_cost_usd :: "rat option"
  rp_tier :: string

datatype llm_error = HTTPError int string | OtherLLMError string

fun Permanent :: "llm_error \<Rightarrow> bool" where
  "Permanent (HTTPError status body) = (status \<ge> 400 \<and> status < 500 \<and> status \<noteq> 429)"
| "Permanent (OtherLLMError msg) = False"

fun llm_error_text :: "llm_error \<Rightarrow> string" where
  "llm_error_text (HTTPError status body) = ''llm: http '' @ int_dec status @ '': '' @ body"
| "llm_error_text (OtherLLMError msg) = msg"

text \<open>The calls that can fail; the calls of the findings loop carry the index of the finding.\<close>

datatype store_call =
    CallBegin | CallSystem | CallNodes | CallRefresh | CallKnown | CallSystemCalls | CallSpend | CallOpenFindings
  | CallExisting nat | CallFinding nat | CallTemplates | CallStale | CallFinalize | CallFinalizeError | CallAttemptError

record run_env =
  re_now :: int
  re_now_budget :: int
  re_now_record :: int
  re_ms :: int
  re_fails :: "store_call \<Rightarrow> bool"
  re_nodes_done :: nat
  re_acquired :: bool
  re_complete :: "string \<Rightarrow> string \<Rightarrow> llm_error + llm_response"
  re_unmarshal :: "string \<Rightarrow> response_body option"
  re_parse_text :: "parse_error \<Rightarrow> string"
  re_sha :: "string \<Rightarrow> string"
  re_ulid :: "nat \<Rightarrow> string"

datatype analyzer_error =
    StoreFailed store_call
  | BudgetFailed string
  | AcquireFailed
  | LLMFailed llm_error
  | ParseFailed parse_error

text \<open>\<open>errors.Is(err, ErrPermanent)\<close>.\<close>

fun is_permanent :: "analyzer_error \<Rightarrow> bool" where
  "is_permanent (LLMFailed e) = Permanent e"
| "is_permanent (ParseFailed e) = True"
| "is_permanent _ = False"

datatype analyzer_metric =
    MBudgetRejected string
  | MLLMCall string int
  | MWindow string
  | MTemplates string int

definition WindowCalled :: string where "WindowCalled = ''called''"
definition WindowGatedOut :: string where "WindowGatedOut = ''gated_out''"
definition WindowBudget :: string where "WindowBudget = ''budget''"
definition TemplatesNearKnown :: string where "TemplatesNearKnown = ''near_known''"
definition TemplatesReturning :: string where "TemplatesReturning = ''returning''"

subsection \<open>Sequencing\<close>

text \<open>A step reads and writes the tables, reports to the metrics, and may return early.\<close>

type_synonym proc_state = "logs_store \<times> analyzer_metric list"
type_synonym 'a proc = "proc_state \<Rightarrow> (analyzer_error + 'a) \<times> proc_state"

definition p_return :: "'a \<Rightarrow> 'a proc" where
  "p_return x st = (Inr x, st)"

definition p_fail :: "analyzer_error \<Rightarrow> 'a proc" where
  "p_fail e st = (Inl e, st)"

definition p_bind :: "'a proc \<Rightarrow> ('a \<Rightarrow> 'b proc) \<Rightarrow> 'b proc" where
  "p_bind m f st = (case m st of (Inl e, st') \<Rightarrow> (Inl e, st') | (Inr x, st') \<Rightarrow> f x st')"

definition p_call :: "run_env \<Rightarrow> store_call \<Rightarrow> (logs_store \<Rightarrow> 'a \<times> logs_store) \<Rightarrow> 'a proc" where
  "p_call env c f st =
     (if re_fails env c then (Inl (StoreFailed c), st)
      else case f (fst st) of (x, s') \<Rightarrow> (Inr x, (s', snd st)))"

text \<open>A call whose failure is only logged.\<close>

definition p_try :: "run_env \<Rightarrow> store_call \<Rightarrow> (logs_store \<Rightarrow> logs_store) \<Rightarrow> unit proc" where
  "p_try env c f st = (if re_fails env c then (Inr (), st) else (Inr (), (f (fst st), snd st)))"

definition p_metric :: "analyzer_metric \<Rightarrow> unit proc" where
  "p_metric m st = (Inr (), (fst st, snd st @ [m]))"

definition p_templates :: "string \<Rightarrow> int \<Rightarrow> unit proc" where
  "p_templates result n = (if n > 0 then p_metric (MTemplates result n) else p_return ())"

definition do_write :: "(logs_store \<Rightarrow> logs_store) \<Rightarrow> logs_store \<Rightarrow> unit \<times> logs_store" where
  "do_write f s = ((), f s)"

definition do_read :: "(logs_store \<Rightarrow> 'a) \<Rightarrow> logs_store \<Rightarrow> 'a \<times> logs_store" where
  "do_read f s = (f s, s)"

subsection \<open>Recording a window\<close>

definition entry_of :: "log_bundle \<Rightarrow> analysis" where
  "entry_of b = \<lparr>aa_system = b_system_id b, aa_start = w_start (b_window b), aa_end = w_end (b_window b), aa_gated = False,
     aa_reasons = [], aa_called = False, aa_input = 0, aa_output = 0, aa_cost = 0, aa_model = [], aa_duration = 0, aa_error = [],
     aa_cached = 0, aa_suppressed = []\<rparr>"

definition record_window :: "analyzer_config \<Rightarrow> run_env \<Rightarrow> log_bundle \<Rightarrow> analysis \<Rightarrow> unit proc" where
  "record_window cfg env b entry =
     p_bind (p_call env CallTemplates (do_write (UpsertTemplates (b_system_id b) (b_templates b) (re_now_record env)))) (\<lambda>_.
     p_bind (p_call env CallStale (MarkStale (b_system_id b) (re_now_record env - ac_stale_after cfg))) (\<lambda>_.
     p_call env CallFinalize (do_write (FinalizeAnalysis entry))))"

subsection \<open>Findings\<close>

definition chooseEvidenceKey ::
  "run_env \<Rightarrow> nat \<Rightarrow> template list \<Rightarrow> string list \<Rightarrow> string \<Rightarrow> (string list \<times> string) proc" where
  "chooseEvidenceKey env j cited modules category =
     (let candidates = EvidenceCandidates cited;
          class = Class (re_sha env) modules
      in case candidates of
           [] \<Rightarrow> p_return ([], class [] category)
         | c # rest \<Rightarrow>
             if rest = [] then p_return (c, class c category)
             else p_bind (p_call env (CallExisting j) (do_read (ExistingClasses (map (\<lambda>c. class c category) candidates)))) (\<lambda>existing.
                    case List.find (\<lambda>c. class c category \<in> existing) candidates of
                      Some k \<Rightarrow> p_return (k, class k category)
                    | None \<Rightarrow> p_return (c, class c category)))"

definition cited_category :: "template list \<Rightarrow> string" where
  "cited_category cited = (if list_ex (\<lambda>t. t_category t = ''security'') cited then ''security'' else [])"

definition cited_modules :: "template list \<Rightarrow> string list" where
  "cited_modules cited = sort (nub_by id [] (map (\<lambda>t. ModuleFamily (t_module_id t)) cited))"

definition cited_nodes :: "template list \<Rightarrow> int list" where
  "cited_nodes cited = fold (\<lambda>t nodes. MergeNodeIDs nodes (t_nodes t)) cited []"

definition prompt_Version :: string where "prompt_Version = ''v5''"

definition finding_for ::
  "log_bundle \<Rightarrow> llm_response \<Rightarrow> parsed_finding \<Rightarrow> template list \<Rightarrow> string \<Rightarrow> string \<Rightarrow> finding" where
  "finding_for b resp pf cited fp class =
     \<lparr>f_id = [], f_system_id = b_system_id b, f_fingerprint = fp, f_severity = pf_severity pf, f_title = pf_title pf,
      f_summary = pf_summary pf, f_suggested_action = pf_suggested_action pf, f_modules = cited_modules cited,
      f_evidence = map t_template cited, f_status = [], f_occurrence_count = 0, f_first_seen = 0, f_last_seen = 0,
      f_reopened_at = None, f_llm_model = rp_model resp, f_prompt_version = prompt_Version, f_nodes = cited_nodes cited,
      f_node_refs = [], f_class_key = class, f_security = (cited_category cited = ''security''), f_doc_ref = [],
      f_visibility = [], f_severity_override = [], f_class_title = [], f_class_summary = [], f_class_suggested_action = []\<rparr>"

definition store_finding ::
  "run_env \<Rightarrow> log_bundle \<Rightarrow> selection \<Rightarrow> llm_response \<Rightarrow> nat \<Rightarrow> parsed_finding \<Rightarrow> unit proc" where
  "store_finding env b sel resp j pf =
     (case ResolveEvidence b sel (pf_evidence pf) of
        Inl _ \<Rightarrow> p_return ()
      | Inr cited \<Rightarrow>
          (let modules = cited_modules cited; category = cited_category cited
           in p_bind (chooseEvidenceKey env j cited modules category) (\<lambda>(evidenceKey, class).
                p_bind (p_call env (CallFinding j) (UpsertFinding (re_ulid env j)
                   (finding_for b resp pf cited (Compute (re_sha env) (b_system_id b) modules evidenceKey category) class)
                   (re_now env))) (\<lambda>_. p_return ()))))"

fun store_findings ::
  "run_env \<Rightarrow> log_bundle \<Rightarrow> selection \<Rightarrow> llm_response \<Rightarrow> nat \<Rightarrow> parsed_finding list \<Rightarrow> unit proc" where
  "store_findings env b sel resp j [] = p_return ()"
| "store_findings env b sel resp j (pf # pfs) =
     p_bind (store_finding env b sel resp j pf) (\<lambda>_. store_findings env b sel resp (Suc j) pfs)"

subsection \<open>Cost\<close>

definition costUSD :: "analyzer_config \<Rightarrow> llm_response \<Rightarrow> int \<Rightarrow> rat" where
  "costUSD cfg resp cached =
     (case rp_cost_usd resp of
        Some c \<Rightarrow> c
      | None \<Rightarrow>
          (let usd = of_int (rp_input resp - cached) / 1000000 * ac_input_per_mtok cfg
                   + of_int cached / 1000000 * ac_cached_input_per_mtok cfg
                   + of_int (rp_output resp) / 1000000 * ac_output_per_mtok cfg
           in if rp_tier resp = ''flex'' then usd / 2 else usd))"

text \<open>\<open>math.Round\<close>: halves away from zero.\<close>

definition go_round :: "rat \<Rightarrow> int" where
  "go_round x = (if x \<ge> 0 then \<lfloor>x + 1 / 2\<rfloor> else - \<lfloor>- x + 1 / 2\<rfloor>)"

definition clamp_cached :: "llm_response \<Rightarrow> int" where
  "clamp_cached resp = (if rp_cached resp > rp_input resp then rp_input resp else rp_cached resp)"

definition cost_micros :: "analyzer_config \<Rightarrow> llm_response \<Rightarrow> int" where
  "cost_micros cfg resp = go_round (costUSD cfg resp (clamp_cached resp) * 1000000)"

subsection \<open>The call\<close>

definition window_selection :: "analyzer_config \<Rightarrow> gate_decision \<Rightarrow> selection" where
  "window_selection cfg decision = \<lparr>sel_novel = gd_novel decision, sel_max_ambient = ac_prompt_ambient cfg\<rparr>"

definition called_entry :: "analyzer_config \<Rightarrow> run_env \<Rightarrow> log_bundle \<Rightarrow> gate_decision \<Rightarrow> analysis" where
  "called_entry cfg env b decision = (entry_of b)\<lparr>aa_reasons := gd_reasons decision, aa_called := True, aa_model := ac_model cfg,
     aa_duration := re_ms env\<rparr>"

definition llm_failed :: "analyzer_config \<Rightarrow> run_env \<Rightarrow> log_bundle \<Rightarrow> gate_decision \<Rightarrow> llm_error \<Rightarrow> unit proc" where
  "llm_failed cfg env b decision e =
     (if Permanent e
      then p_bind (p_metric (MLLMCall ''permanent'' 0)) (\<lambda>_.
           p_bind (p_try env CallFinalizeError (FinalizeAnalysis ((called_entry cfg env b decision)\<lparr>aa_error := llm_error_text e\<rparr>))) (\<lambda>_.
           p_fail (LLMFailed e)))
      else p_bind (p_metric (MLLMCall ''transient'' 0)) (\<lambda>_.
           p_bind (p_try env CallAttemptError (RecordAttemptError (b_system_id b) (w_start (b_window b)) (gd_reasons decision)
                     (re_ms env) (llm_error_text e))) (\<lambda>_.
           p_fail (LLMFailed e))))"

definition parse_failed :: "analyzer_config \<Rightarrow> run_env \<Rightarrow> log_bundle \<Rightarrow> gate_decision \<Rightarrow> llm_response \<Rightarrow> parse_error \<Rightarrow> unit proc" where
  "parse_failed cfg env b decision resp e =
     p_bind (p_metric (MLLMCall ''parse'' 0)) (\<lambda>_.
     p_bind (p_try env CallFinalizeError (FinalizeAnalysis ((called_entry cfg env b decision)\<lparr>aa_input := rp_input resp,
               aa_output := rp_output resp, aa_error := re_parse_text env e\<rparr>))) (\<lambda>_.
     p_fail (ParseFailed e)))"

definition analysed :: "analyzer_config \<Rightarrow> run_env \<Rightarrow> log_bundle \<Rightarrow> gate_decision \<Rightarrow> llm_response \<Rightarrow> parsed_finding list \<Rightarrow> unit proc" where
  "analysed cfg env b decision resp parsed =
     p_bind (store_findings env b (window_selection cfg decision) resp 0 parsed) (\<lambda>_.
     p_bind (p_metric (MLLMCall ''success'' (cost_micros cfg resp))) (\<lambda>_.
     record_window cfg env b ((called_entry cfg env b decision)\<lparr>aa_input := rp_input resp, aa_output := rp_output resp,
       aa_cached := clamp_cached resp, aa_cost := cost_micros cfg resp, aa_model := rp_model resp\<rparr>)))"

definition paid_call :: "analyzer_config \<Rightarrow> run_env \<Rightarrow> log_bundle \<Rightarrow> gate_decision \<Rightarrow> unit proc" where
  "paid_call cfg env b decision =
     p_bind (p_call env CallOpenFindings (do_read (OpenFindings (b_system_id b)))) (\<lambda>open_findings.
     if \<not> re_acquired env then p_fail AcquireFailed
     else p_bind (p_metric (MWindow WindowCalled)) (\<lambda>_.
       case re_complete env (ac_model cfg) (Render b open_findings (window_selection cfg decision)) of
         Inl e \<Rightarrow> llm_failed cfg env b decision e
       | Inr resp \<Rightarrow>
           (case Parse (re_unmarshal env) (rp_content resp) of
              Inl e \<Rightarrow> parse_failed cfg env b decision resp e
            | Inr (parsed, _) \<Rightarrow> analysed cfg env b decision resp parsed)))"

subsection \<open>Process\<close>

definition p_nodes :: "run_env \<Rightarrow> log_bundle \<Rightarrow> unit proc" where
  "p_nodes env b st =
     (if re_fails env CallNodes
      then (Inl (StoreFailed CallNodes), (UpsertNodes_upto (re_nodes_done env) (b_system_id b) (b_nodes b) (re_now env) (fst st), snd st))
      else (Inr (), (UpsertNodes (b_system_id b) (b_nodes b) (re_now env) (fst st), snd st)))"

definition p_budget :: "budget_config \<Rightarrow> run_env \<Rightarrow> log_bundle \<Rightarrow> budget_verdict proc" where
  "p_budget bcfg env b st =
     (case budget_Check
        (\<lambda>sys since. if re_fails env CallSystemCalls then Inl ''system calls'' else Inr (SystemCallsSince sys since (fst st)))
        (\<lambda>since. if re_fails env CallSpend then Inl ''daily spend'' else Inr (DailySpendMicros since (fst st)))
        bcfg (b_system_id b) (re_now_budget env) of
        Inl e \<Rightarrow> (Inl (BudgetFailed e), st)
      | Inr v \<Rightarrow> (Inr v, st))"

definition decide :: "analyzer_config \<Rightarrow> run_env \<Rightarrow> log_bundle \<Rightarrow> (string \<times> int) list \<Rightarrow> budget_verdict \<Rightarrow> unit proc" where
  "decide cfg env b known verdict =
     (if bv_suppressed verdict \<noteq> []
      then p_bind (p_metric (MBudgetRejected (bv_suppressed verdict))) (\<lambda>_.
           p_bind (p_metric (MWindow WindowBudget)) (\<lambda>_.
           record_window cfg env b ((entry_of b)\<lparr>aa_gated := True, aa_suppressed := bv_suppressed verdict, aa_duration := re_ms env\<rparr>)))
      else (let decision = gate_Evaluate b \<lparr>ss_known = known, ss_security_only = bv_security_only verdict\<rparr> (ac_gate cfg)
            in p_bind (p_templates TemplatesNearKnown (gd_near_known decision)) (\<lambda>_.
               p_bind (p_templates TemplatesReturning (gd_returning decision)) (\<lambda>_.
               if \<not> gd_call decision
               then p_bind (p_metric (MWindow WindowGatedOut)) (\<lambda>_.
                    record_window cfg env b ((entry_of b)\<lparr>aa_gated := True, aa_reasons := gd_reasons decision, aa_duration := re_ms env\<rparr>))
               else paid_call cfg env b decision))))"

definition fresh_window :: "analyzer_config \<Rightarrow> budget_config \<Rightarrow> run_env \<Rightarrow> log_bundle \<Rightarrow> unit proc" where
  "fresh_window cfg bcfg env b =
     p_bind (p_call env CallSystem (do_write (UpsertSystem \<lparr>sy_id = b_system_id b, sy_version = b_collector_version b,
               sy_first_seen = re_now env, sy_last_seen = re_now env\<rparr>))) (\<lambda>_.
     p_bind (p_nodes env b) (\<lambda>_.
     p_bind (p_call env CallRefresh (RefreshFindings (b_system_id b) (b_templates b) (re_now env))) (\<lambda>_.
     p_bind (p_call env CallKnown (do_read (KnownTemplates (b_system_id b)))) (\<lambda>known.
     p_bind (p_budget bcfg env b) (\<lambda>verdict.
     decide cfg env b known verdict)))))"

definition Process :: "analyzer_config \<Rightarrow> budget_config \<Rightarrow> run_env \<Rightarrow> log_bundle \<Rightarrow> unit proc" where
  "Process cfg bcfg env b =
     p_bind (p_call env CallBegin (BeginAnalysis (b_system_id b) (w_start (b_window b)) (w_end (b_window b)) (re_now env))) (\<lambda>fresh.
     if \<not> fresh then p_return () else fresh_window cfg bcfg env b)"

end
