(* ===== verification/Analyzer_Props.thy ===== *)
theory Analyzer_Props
  imports Analyzer
begin

text \<open>
  What one run of the analyzer guarantees. A small logic of its steps: \<open>ensures pre m post\<close> says
  that from tables satisfying \<open>pre\<close> the step ends in a result and tables satisfying \<open>post\<close>.
\<close>

named_theorems p_rules "rules of the steps"

subsection \<open>Rules\<close>

definition ensures :: "(logs_store \<Rightarrow> bool) \<Rightarrow> 'a proc \<Rightarrow> (analyzer_error + 'a \<Rightarrow> logs_store \<Rightarrow> bool) \<Rightarrow> bool" where
  "ensures pre m post \<longleftrightarrow> (\<forall>s ms. pre s \<longrightarrow> post (fst (m (s, ms))) (fst (snd (m (s, ms)))))"

definition on_ok :: "('a \<Rightarrow> logs_store \<Rightarrow> bool) \<Rightarrow> (analyzer_error \<Rightarrow> logs_store \<Rightarrow> bool) \<Rightarrow> analyzer_error + 'a \<Rightarrow> logs_store \<Rightarrow> bool" where
  "on_ok q e r s = (case r of Inl x \<Rightarrow> e x s | Inr x \<Rightarrow> q x s)"

lemma on_ok_simps [simp]: "on_ok q e (Inl x) s = e x s" "on_ok q e (Inr y) s = q y s"
  by (simp_all add: on_ok_def)

lemma ensures_bind:
  assumes "ensures pre m (on_ok mid err)" "\<And>x. ensures (mid x) (f x) (on_ok q err)"
  shows "ensures pre (p_bind m f) (on_ok q err)"
  unfolding ensures_def
proof (intro allI impI)
  fix s ms
  assume "pre s"
  then have m: "on_ok mid err (fst (m (s, ms))) (fst (snd (m (s, ms))))" using assms(1) by (simp add: ensures_def)
  obtain r s' ms' where r: "m (s, ms) = (r, s', ms')" by (metis prod_cases3)
  show "on_ok q err (fst (p_bind m f (s, ms))) (fst (snd (p_bind m f (s, ms))))"
  proof (cases r)
    case (Inl e)
    then show ?thesis using m r by (simp add: p_bind_def)
  next
    case (Inr x)
    then show ?thesis using m r assms(2) [of x] by (simp add: p_bind_def ensures_def)
  qed
qed

lemma ensures_return: "(\<And>s. pre s \<Longrightarrow> q x s) \<Longrightarrow> ensures pre (p_return x) (on_ok q err)"
  by (simp add: ensures_def p_return_def)

lemma ensures_fail: "(\<And>s. pre s \<Longrightarrow> err e s) \<Longrightarrow> ensures pre (p_fail e) (on_ok q err)"
  by (simp add: ensures_def p_fail_def)

lemma ensures_metric: "(\<And>s. pre s \<Longrightarrow> q () s) \<Longrightarrow> ensures pre (p_metric m) (on_ok q err)"
  by (simp add: ensures_def p_metric_def)

lemma ensures_templates: "(\<And>s. pre s \<Longrightarrow> q () s) \<Longrightarrow> ensures pre (p_templates r n) (on_ok q err)"
  by (simp add: p_templates_def ensures_metric ensures_return)

lemma ensures_call:
  "(\<And>s. pre s \<Longrightarrow> err (StoreFailed c) s) \<Longrightarrow> (\<And>s. pre s \<Longrightarrow> q (fst (f s)) (snd (f s))) \<Longrightarrow>
   ensures pre (p_call env c f) (on_ok q err)"
  by (auto simp: ensures_def p_call_def split: prod.split) (metis fst_conv snd_conv)

lemma ensures_try:
  "(\<And>s. pre s \<Longrightarrow> re_fails env c \<Longrightarrow> q () s) \<Longrightarrow> (\<And>s. pre s \<Longrightarrow> \<not> re_fails env c \<Longrightarrow> q () (f s)) \<Longrightarrow>
   ensures pre (p_try env c f) (on_ok q err)"
  by (simp add: ensures_def p_try_def)

lemma ensures_weaken: "ensures pre m post \<Longrightarrow> (\<And>s. pre' s \<Longrightarrow> pre s) \<Longrightarrow> (\<And>r s. post r s \<Longrightarrow> post' r s) \<Longrightarrow> ensures pre' m post'"
  by (auto simp: ensures_def)

text \<open>A step keeps a predicate of the tables, whatever its result.\<close>

definition keeps :: "(logs_store \<Rightarrow> bool) \<Rightarrow> 'a proc \<Rightarrow> bool" where
  "keeps P m \<longleftrightarrow> ensures P m (on_ok (\<lambda>_. P) (\<lambda>_. P))"

lemma keeps_bind [p_rules]: "keeps P m \<Longrightarrow> (\<And>x. keeps P (f x)) \<Longrightarrow> keeps P (p_bind m f)"
  unfolding keeps_def by (rule ensures_bind)

lemma keeps_return [p_rules]: "keeps P (p_return x)" "keeps P (p_fail e)" "keeps P (p_metric m)" "keeps P (p_templates r n)"
  by (auto simp: keeps_def ensures_return ensures_fail ensures_metric ensures_templates)

lemma keeps_call [p_rules]: "(\<And>s. P s \<Longrightarrow> P (snd (f s))) \<Longrightarrow> keeps P (p_call env c f)"
  by (simp add: keeps_def ensures_call)

lemma keeps_try [p_rules]: "(\<And>s. P s \<Longrightarrow> P (f s)) \<Longrightarrow> keeps P (p_try env c f)"
  by (simp add: keeps_def ensures_try)

lemma keeps_nodes [p_rules]:
  "(\<And>s n. P s \<Longrightarrow> P (UpsertNodes_upto n (b_system_id b) (b_nodes b) (re_now env) s)) \<Longrightarrow>
   (\<And>s. P s \<Longrightarrow> P (UpsertNodes (b_system_id b) (b_nodes b) (re_now env) s)) \<Longrightarrow> keeps P (p_nodes env b)"
  by (simp add: keeps_def ensures_def p_nodes_def)

lemma keeps_budget [p_rules]: "keeps P (p_budget bcfg env b)"
  by (simp add: keeps_def ensures_def p_budget_def split: sum.split)

lemma ensures_keeps:
  assumes "keeps P m" "\<And>s x. P s \<Longrightarrow> q x s" "\<And>s e. P s \<Longrightarrow> err e s"
  shows "ensures P m (on_ok q err)"
  using assms by (auto simp: keeps_def ensures_def on_ok_def split: sum.splits)

subsection \<open>The findings loop\<close>

lemma keeps_choose:
  "keeps P (chooseEvidenceKey env j cited modules category)"
  unfolding chooseEvidenceKey_def Let_def
  by (auto simp: do_read_def split: list.split option.split intro!: p_rules)

lemma keeps_store_finding:
  assumes "\<And>ulid f now s. P s \<Longrightarrow> P (snd (UpsertFinding ulid f now s))"
  shows "keeps P (store_finding env b sel resp j pf)"
  unfolding store_finding_def Let_def
  by (auto split: sum.split prod.split intro!: p_rules keeps_choose assms)

lemma keeps_store_findings:
  assumes "\<And>ulid f now s. P s \<Longrightarrow> P (snd (UpsertFinding ulid f now s))"
  shows "keeps P (store_findings env b sel resp j pfs)"
  by (induction pfs arbitrary: j) (auto intro!: p_rules keeps_store_finding assms)

subsection \<open>What the operations leave alone\<close>

definition ledger_view :: "logs_store \<Rightarrow> template_row list \<times> analysis_row list" where
  "ledger_view s = (ls_templates s, ls_analyses s)"

lemma ledger_view_simps [frame_simps]:
  "ledger_view (UpsertSystem r s) = ledger_view s"
  "ledger_view (UpsertNodes_upto n sys ns now s) = ledger_view s"
  "ledger_view (UpsertNodes sys ns now s) = ledger_view s"
  "ledger_view (snd (UpsertFinding ulid f now s)) = ledger_view s"
  "ledger_view (snd (MarkStale sys t s)) = ledger_view s"
  by (simp_all add: ledger_view_def UpsertSystem_def UpsertNodes_upto_def UpsertNodes_def UpsertFinding_def MarkStale_def Let_def)

lemma ledger_view_refresh [frame_simps]: "ledger_view (snd (RefreshFindings sys ts now s)) = ledger_view s"
proof -
  have "ledger_view (fold (refresh_one now) hits s) = ledger_view s" for hits
    by (rule fold_view) (simp add: ledger_view_def refresh_one_def Let_def)
  then show ?thesis by (simp add: RefreshFindings_def Let_def)
qed

lemma ls_templates_simps [frame_simps]:
  "ls_templates (snd (BeginAnalysis sys ws we now s)) = ls_templates s"
  "ls_templates (RecordAttemptError sys ws rs ms msg s) = ls_templates s"
  "ls_templates (FinalizeAnalysis a s) = ls_templates s"
  "ls_templates (snd (MarkStale sys t s)) = ls_templates s"
  by (simp_all add: BeginAnalysis_def RecordAttemptError_def FinalizeAnalysis_def MarkStale_def split: option.split)

lemma ls_analyses_simps [frame_simps]:
  "ls_analyses (UpsertTemplates sys ts now s) = ls_analyses s"
  "ls_analyses (snd (MarkStale sys t s)) = ls_analyses s"
  by (simp_all add: UpsertTemplates_def MarkStale_def)

lemma ledger_keeps:
  assumes "\<And>s s'. ledger_view s = ledger_view s' \<Longrightarrow> P s \<Longrightarrow> P s'"
  shows "keeps P (p_call env CallSystem (do_write (UpsertSystem r)))" "keeps P (p_nodes env b)"
    "keeps P (p_call env CallRefresh (RefreshFindings sys ts now))" "keeps P (p_call env CallKnown (do_read g))"
    "keeps P (p_call env CallOpenFindings (do_read h))" "keeps P (store_findings env b sel resp j pfs)"
  by (auto intro!: p_rules keeps_store_findings simp: do_write_def do_read_def elim!: assms [rotated] simp: frame_simps)

subsection \<open>Recording is last\<close>

text \<open>After the window was recorded: the only failures are of the two statements that follow.\<close>

definition late_failure :: "analyzer_error \<Rightarrow> bool" where
  "late_failure e \<longleftrightarrow> e = StoreFailed CallStale \<or> e = StoreFailed CallFinalize"

definition recorded_last :: "log_bundle \<Rightarrow> run_env \<Rightarrow> template_row list \<Rightarrow> analyzer_error + unit \<Rightarrow> logs_store \<Rightarrow> bool" where
  "recorded_last b env rows = on_ok
     (\<lambda>_ s. ls_templates s = upsert_templates (map (template_row_of (b_system_id b) (re_now_record env)) (b_templates b)) rows)
     (\<lambda>e s. late_failure e \<or> ls_templates s = rows)"

lemma record_window_templates:
  "ensures (\<lambda>s. ls_templates s = rows) (record_window cfg env b entry) (recorded_last b env rows)"
  unfolding record_window_def recorded_last_def
  by (rule ensures_bind [where mid = "\<lambda>_ s. ls_templates s
        = upsert_templates (map (template_row_of (b_system_id b) (re_now_record env)) (b_templates b)) rows"]; (rule ensures_bind
      [where mid = "\<lambda>_ s. ls_templates s
        = upsert_templates (map (template_row_of (b_system_id b) (re_now_record env)) (b_templates b)) rows"])?;
      auto intro!: ensures_call simp: late_failure_def do_write_def UpsertTemplates_def frame_simps)

lemma templates_keeps: "keeps (\<lambda>s. ls_templates s = rows) m \<Longrightarrow> ensures (\<lambda>s. ls_templates s = rows) m
    (on_ok (\<lambda>_ s. ls_templates s = rows) (\<lambda>e s. late_failure e \<or> ls_templates s = rows))"
  by (erule ensures_keeps) auto

lemma recorded_after:
  "keeps (\<lambda>s. ls_templates s = rows) m \<Longrightarrow> (\<And>x. ensures (\<lambda>s. ls_templates s = rows) (f x) (recorded_last b env rows)) \<Longrightarrow>
   ensures (\<lambda>s. ls_templates s = rows) (p_bind m f) (recorded_last b env rows)"
  unfolding recorded_last_def by (rule ensures_bind [OF templates_keeps])

lemma recorded_fail: "keeps (\<lambda>s. ls_templates s = rows) m \<Longrightarrow>
    ensures (\<lambda>s. ls_templates s = rows) (p_bind m (\<lambda>_. p_fail e)) (recorded_last b env rows)"
  by (rule recorded_after) (simp_all add: recorded_last_def ensures_fail)

lemma decide_templates:
  "ensures (\<lambda>s. ls_templates s = rows) (decide cfg env b known v) (recorded_last b env rows)"
proof -
  have view: "\<And>s s'. ledger_view s = ledger_view s' \<Longrightarrow> ls_templates s = rows \<Longrightarrow> ls_templates s' = rows"
    by (simp add: ledger_view_def)
  note k = p_rules ledger_keeps [where P = "\<lambda>s. ls_templates s = rows", OF view]
  have llm: "ensures (\<lambda>s. ls_templates s = rows) (llm_failed cfg env b d e) (recorded_last b env rows)" for d e
    unfolding llm_failed_def by (auto simp: frame_simps intro!: recorded_after recorded_fail k)
  have parse: "ensures (\<lambda>s. ls_templates s = rows) (parse_failed cfg env b d resp e) (recorded_last b env rows)" for d resp e
    unfolding parse_failed_def by (auto simp: frame_simps intro!: recorded_after recorded_fail k)
  have ok: "ensures (\<lambda>s. ls_templates s = rows) (analysed cfg env b d resp pfs) (recorded_last b env rows)" for d resp pfs
    unfolding analysed_def by (intro recorded_after k record_window_templates)
  have "ensures (\<lambda>s. ls_templates s = rows) (p_fail AcquireFailed) (recorded_last b env rows)"
    by (simp add: recorded_last_def ensures_fail)
  then have "ensures (\<lambda>s. ls_templates s = rows) (paid_call cfg env b d) (recorded_last b env rows)" for d
    unfolding paid_call_def
    by (intro recorded_after k) (auto simp: llm parse ok split: sum.split prod.split intro!: recorded_after k)
  then show ?thesis unfolding decide_def Let_def
    by (auto intro!: recorded_after k record_window_templates)
qed

subsection \<open>The ledger of windows\<close>

text \<open>
  What the analyzer needs of the ledger: a claim succeeds exactly when the window is not
  complete and leaves it open, and closing completes it. From this alone a completed
  window is never claimed again, and a failed attempt can be.
\<close>

locale claim_ledger =
  fixes claim :: "'k \<Rightarrow> 's \<Rightarrow> bool \<times> 's" and close :: "'k \<Rightarrow> 's \<Rightarrow> 's" and state :: "'k \<Rightarrow> 's \<Rightarrow> bool option"
  assumes claim_result: "fst (claim k s) \<longleftrightarrow> state k s \<noteq> Some True"
    and claim_state: "state k' (snd (claim k s)) = (if k' = k \<and> state k s \<noteq> Some True then Some False else state k' s)"
    and close_state: "state k' (close k s) = (if k' = k then map_option (\<lambda>_. True) (state k s) else state k' s)"
begin

lemma completed_once: "fst (claim k s) \<Longrightarrow> \<not> fst (claim k (close k (snd (claim k s))))"
  by (simp add: claim_result claim_state close_state)

lemma completed_stays: "state k s = Some True \<Longrightarrow> state k (snd (claim k' s)) = Some True \<and> state k (close k' s) = Some True"
  by (auto simp: claim_state close_state)

lemma failed_is_claimable: "fst (claim k s) \<Longrightarrow> fst (claim k (snd (claim k s)))"
  by (simp add: claim_result claim_state)

end

definition window_state :: "string \<times> int \<Rightarrow> logs_store \<Rightarrow> bool option" where
  "window_state k s = map_option an_completed (find_key analysis_pk k (ls_analyses s))"

lemma find_key_snoc: "find_key key k (xs @ [r]) = (case find_key key k xs of Some x \<Rightarrow> Some x | None \<Rightarrow> if key r = k then Some r else None)"
  by (induction xs) auto

lemma window_state_begin: "window_state k' (snd (BeginAnalysis (fst k) (snd k) we now s))
    = (if k' = k \<and> window_state k s \<noteq> Some True then Some False else window_state k' s)"
proof (cases "find_key analysis_pk k (ls_analyses s)")
  case None
  then show ?thesis by (auto simp: BeginAnalysis_def window_state_def find_key_snoc analysis_pk_def split: option.split)
next
  case (Some r)
  let ?f = "\<lambda>r. r\<lparr>an_end := we, an_created := now\<rparr>"
  have "find_key analysis_pk k' (map (\<lambda>r. if analysis_pk r = k then ?f r else r) (ls_analyses s))
      = (if k' = k then map_option ?f (find_key analysis_pk k' (ls_analyses s)) else find_key analysis_pk k' (ls_analyses s))"
    by (rule find_key_update) (simp add: analysis_pk_def)
  then show ?thesis using Some by (auto simp: BeginAnalysis_def window_state_def)
qed

lemma window_state_finalize: "window_state k' (FinalizeAnalysis a s)
    = (if k' = (aa_system a, aa_start a) then map_option (\<lambda>_. True) (window_state k' s) else window_state k' s)"
proof -
  let ?f = "\<lambda>r. r\<lparr>an_gated := aa_gated a, an_reasons := aa_reasons a, an_called := aa_called a, an_input := aa_input a,
      an_output := aa_output a, an_cached := Some (aa_cached a), an_cost := aa_cost a, an_model := aa_model a,
      an_duration := aa_duration a, an_error := aa_error a, an_suppressed := Some (aa_suppressed a), an_completed := True\<rparr>"
  let ?k = "(aa_system a, aa_start a)"
  have "find_key analysis_pk k' (map (\<lambda>r. if analysis_pk r = ?k then ?f r else r) (ls_analyses s))
      = (if k' = ?k then map_option ?f (find_key analysis_pk k' (ls_analyses s)) else find_key analysis_pk k' (ls_analyses s))"
    by (rule find_key_update) (simp add: analysis_pk_def)
  then show ?thesis by (simp add: FinalizeAnalysis_def window_state_def option.map_comp comp_def)
qed

lemma window_state_attempt: "window_state k' (RecordAttemptError sys ws rs ms msg s) = window_state k' s"
proof -
  let ?f = "\<lambda>r. r\<lparr>an_reasons := rs, an_called := True, an_duration := ms, an_error := msg\<rparr>"
  have "find_key analysis_pk k' (map (\<lambda>r. if analysis_pk r = (sys, ws) then ?f r else r) (ls_analyses s))
      = (if k' = (sys, ws) then map_option ?f (find_key analysis_pk k' (ls_analyses s)) else find_key analysis_pk k' (ls_analyses s))"
    by (rule find_key_update) (simp add: analysis_pk_def)
  then show ?thesis by (simp add: RecordAttemptError_def window_state_def option.map_comp comp_def)
qed

interpretation ledger: claim_ledger "\<lambda>k. BeginAnalysis (fst k) (snd k) we now"
    "\<lambda>k. FinalizeAnalysis (e\<lparr>aa_system := fst k, aa_start := snd k\<rparr>)" window_state for we now e
proof unfold_locales
  fix k and s
  show "fst (BeginAnalysis (fst k) (snd k) we now s) \<longleftrightarrow> window_state k s \<noteq> Some True"
    by (auto simp: BeginAnalysis_def window_state_def split: option.split)
qed (simp_all add: window_state_begin window_state_finalize)

subsection \<open>How a window closes\<close>

definition bundle_key :: "log_bundle \<Rightarrow> string \<times> int" where
  "bundle_key b = (b_system_id b, w_start (b_window b))"

text \<open>The rows of the other windows, and the state of this one.\<close>

definition claimed :: "log_bundle \<Rightarrow> analysis_row list \<Rightarrow> logs_store \<Rightarrow> bool" where
  "claimed b rest s \<longleftrightarrow> window_state (bundle_key b) s = Some False
     \<and> filter (\<lambda>r. analysis_pk r \<noteq> bundle_key b) (ls_analyses s) = rest"

definition closes :: "log_bundle \<Rightarrow> run_env \<Rightarrow> analysis_row list \<Rightarrow> analyzer_error + unit \<Rightarrow> logs_store \<Rightarrow> bool" where
  "closes b env rest = on_ok
     (\<lambda>_ s. window_state (bundle_key b) s = Some True \<and> filter (\<lambda>r. analysis_pk r \<noteq> bundle_key b) (ls_analyses s) = rest)
     (\<lambda>e s. window_state (bundle_key b) s = Some (is_permanent e \<and> \<not> re_fails env CallFinalizeError)
        \<and> filter (\<lambda>r. analysis_pk r \<noteq> bundle_key b) (ls_analyses s) = rest)"

lemma filter_other_rows:
  assumes "\<And>r. analysis_pk (f r) = analysis_pk r"
  shows "filter (\<lambda>r. analysis_pk r \<noteq> k) (map (\<lambda>r. if analysis_pk r = k then f r else r) rows) = filter (\<lambda>r. analysis_pk r \<noteq> k) rows"
  using assms by (induction rows) auto

lemma analysis_pk_upd:
  "analysis_pk (r\<lparr>an_reasons := rs, an_called := cd, an_duration := ms, an_error := msg\<rparr>) = analysis_pk r"
  "analysis_pk (r\<lparr>an_end := we, an_created := now\<rparr>) = analysis_pk r"
  "analysis_pk (r\<lparr>an_gated := g, an_reasons := rs, an_called := cd, an_input := i, an_output := out, an_cached := ca, an_cost := co,
     an_model := mo, an_duration := ms, an_error := msg, an_suppressed := su, an_completed := True\<rparr>) = analysis_pk r"
  by (simp_all add: analysis_pk_def)

lemma other_rows [frame_simps]:
  "filter (\<lambda>r. analysis_pk r \<noteq> (sys, ws)) (ls_analyses (snd (BeginAnalysis sys ws we now s)))
     = filter (\<lambda>r. analysis_pk r \<noteq> (sys, ws)) (ls_analyses s)"
  "filter (\<lambda>r. analysis_pk r \<noteq> (sys, ws)) (ls_analyses (RecordAttemptError sys ws rs ms msg s))
     = filter (\<lambda>r. analysis_pk r \<noteq> (sys, ws)) (ls_analyses s)"
  "filter (\<lambda>r. analysis_pk r \<noteq> (aa_system a, aa_start a)) (ls_analyses (FinalizeAnalysis a s))
     = filter (\<lambda>r. analysis_pk r \<noteq> (aa_system a, aa_start a)) (ls_analyses s)"
proof -
  show "filter (\<lambda>r. analysis_pk r \<noteq> (sys, ws)) (ls_analyses (snd (BeginAnalysis sys ws we now s)))
     = filter (\<lambda>r. analysis_pk r \<noteq> (sys, ws)) (ls_analyses s)"
  proof (cases "find_key analysis_pk (sys, ws) (ls_analyses s)")
    case None
    then show ?thesis by (simp add: BeginAnalysis_def) (simp add: analysis_pk_def)
  next
    case (Some r)
    then show ?thesis by (simp add: BeginAnalysis_def filter_other_rows analysis_pk_upd)
  qed
  show "filter (\<lambda>r. analysis_pk r \<noteq> (sys, ws)) (ls_analyses (RecordAttemptError sys ws rs ms msg s))
     = filter (\<lambda>r. analysis_pk r \<noteq> (sys, ws)) (ls_analyses s)"
    unfolding RecordAttemptError_def by (simp add: filter_other_rows analysis_pk_upd)
  show "filter (\<lambda>r. analysis_pk r \<noteq> (aa_system a, aa_start a)) (ls_analyses (FinalizeAnalysis a s))
     = filter (\<lambda>r. analysis_pk r \<noteq> (aa_system a, aa_start a)) (ls_analyses s)"
    unfolding FinalizeAnalysis_def by (simp add: filter_other_rows analysis_pk_upd)
qed

lemma claimed_view: "ledger_view s = ledger_view s' \<Longrightarrow> claimed b rest s \<Longrightarrow> claimed b rest s'"
  by (simp add: ledger_view_def claimed_def window_state_def)

lemma claimed_analyses: "ls_analyses s' = ls_analyses s \<Longrightarrow> claimed b rest s' = claimed b rest s"
  by (simp add: claimed_def window_state_def)

lemma claimed_attempt: "claimed b rest s \<Longrightarrow> claimed b rest (RecordAttemptError (b_system_id b) (w_start (b_window b)) rs ms msg s)"
  by (simp add: claimed_def window_state_attempt frame_simps bundle_key_def)

lemma claimed_finalize:
  assumes "claimed b rest s" "aa_system a = b_system_id b" "aa_start a = w_start (b_window b)"
  shows "window_state (bundle_key b) (FinalizeAnalysis a s) = Some True
    \<and> filter (\<lambda>r. analysis_pk r \<noteq> bundle_key b) (ls_analyses (FinalizeAnalysis a s)) = rest"
proof -
  have "bundle_key b = (aa_system a, aa_start a)" using assms(2,3) by (simp add: bundle_key_def)
  then show ?thesis using assms(1) by (simp add: claimed_def window_state_finalize frame_simps)
qed

lemma closes_after:
  assumes "keeps (claimed b rest) m" "\<And>x. ensures (claimed b rest) (f x) (closes b env rest)"
    "\<And>st e st'. m st = (Inl e, st') \<Longrightarrow> \<not> is_permanent e"
  shows "ensures (claimed b rest) (p_bind m f) (closes b env rest)"
proof -
  have "ensures (claimed b rest) m (on_ok (\<lambda>_. claimed b rest) (\<lambda>e s. window_state (bundle_key b) s
      = Some (is_permanent e \<and> \<not> re_fails env CallFinalizeError) \<and> filter (\<lambda>r. analysis_pk r \<noteq> bundle_key b) (ls_analyses s) = rest))"
    unfolding ensures_def
  proof (intro allI impI)
    fix s ms
    assume "claimed b rest s"
    then have k: "on_ok (\<lambda>_. claimed b rest) (\<lambda>_. claimed b rest) (fst (m (s, ms))) (fst (snd (m (s, ms))))"
      using assms(1) by (simp add: keeps_def ensures_def)
    obtain r s' ms' where r: "m (s, ms) = (r, s', ms')" by (metis prod_cases3)
    show "on_ok (\<lambda>_. claimed b rest) (\<lambda>e s. window_state (bundle_key b) s
        = Some (is_permanent e \<and> \<not> re_fails env CallFinalizeError) \<and> filter (\<lambda>r. analysis_pk r \<noteq> bundle_key b) (ls_analyses s) = rest)
      (fst (m (s, ms))) (fst (snd (m (s, ms))))"
      using k r assms(3) by (cases r) (auto simp: claimed_def)
  qed
  then show ?thesis unfolding closes_def by (rule ensures_bind) (rule assms(2) [unfolded closes_def])
qed

text \<open>The steps that do not fail permanently.\<close>

definition transient :: "'a proc \<Rightarrow> bool" where
  "transient m \<longleftrightarrow> (\<forall>st e st'. m st = (Inl e, st') \<longrightarrow> \<not> is_permanent e)"

lemma transient_bind:
  assumes "transient m" "\<And>x. transient (f x)"
  shows "transient (p_bind m f)"
  unfolding transient_def
proof (intro allI impI)
  fix st e st'
  assume b: "p_bind m f st = (Inl e, st')"
  obtain r st1 where r: "m st = (r, st1)" by (metis surj_pair)
  show "\<not> is_permanent e"
  proof (cases r)
    case (Inl e')
    then have "m st = (Inl e, st')" using b r by (simp add: p_bind_def)
    then show ?thesis using assms(1) unfolding transient_def by blast
  next
    case (Inr x)
    then have "f x st1 = (Inl e, st')" using b r by (simp add: p_bind_def)
    then show ?thesis using assms(2) unfolding transient_def by blast
  qed
qed

lemma transient_steps: "transient (p_return x)" "transient (p_call env c g)" "transient (p_metric a)" "transient (p_templates r n)"
  "transient (p_nodes env b)" "transient (p_budget bcfg env b)" "transient (p_try env c h)"
  by (auto simp: transient_def p_return_def p_call_def p_metric_def p_templates_def p_nodes_def p_budget_def p_try_def
      split: sum.splits prod.splits if_splits)

lemma transient_findings: "transient (store_findings env b sel resp j pfs)"
proof (induction pfs arbitrary: j)
  case (Cons pf pfs)
  have "transient (store_finding env b sel resp j pf)"
    unfolding store_finding_def chooseEvidenceKey_def Let_def
    by (auto split: sum.split prod.split list.split option.split intro!: transient_bind transient_steps)
  then show ?case using Cons by (simp add: transient_bind)
qed (simp add: transient_steps)

lemma transientD: "transient m \<Longrightarrow> m st = (Inl e, st') \<Longrightarrow> \<not> is_permanent e"
  unfolding transient_def by blast

lemma closes_step:
  assumes "transient m" "keeps (claimed b rest) m" "\<And>x. ensures (claimed b rest) (f x) (closes b env rest)"
  shows "ensures (claimed b rest) (p_bind m f) (closes b env rest)"
  using assms(2,3) transientD [OF assms(1)] by (rule closes_after)

lemmas closes_steps = closes_step [OF transient_steps(2)] closes_step [OF transient_steps(3)] closes_step [OF transient_steps(4)]
  closes_step [OF transient_steps(5)] closes_step [OF transient_steps(6)] closes_step [OF transient_findings]
  closes_step [OF transient_steps(7)]

lemma record_window_closes:
  assumes "aa_system entry = b_system_id b" "aa_start entry = w_start (b_window b)"
  shows "ensures (claimed b rest) (record_window cfg env b entry) (closes b env rest)"
  unfolding record_window_def
proof (intro closes_steps)
  show "keeps (claimed b rest) (p_call env CallTemplates (do_write (UpsertTemplates (b_system_id b) (b_templates b) (re_now_record env))))"
    by (rule p_rules) (simp add: do_write_def claimed_analyses [OF ls_analyses_simps(1)])
  show "keeps (claimed b rest) (p_call env CallStale (MarkStale (b_system_id b) (re_now_record env - ac_stale_after cfg)))"
    by (rule p_rules) (simp add: claimed_analyses [OF ls_analyses_simps(2)])
  show "ensures (claimed b rest) (p_call env CallFinalize (do_write (FinalizeAnalysis entry))) (closes b env rest)"
    unfolding closes_def
    by (rule ensures_call) (simp_all add: do_write_def claimed_finalize [OF _ assms] claimed_def)
qed

lemma fail_closes: "\<not> is_permanent e \<Longrightarrow> ensures (claimed b rest) (p_fail e) (closes b env rest)"
  unfolding closes_def by (rule ensures_fail) (simp add: claimed_def)

lemma permanent_closes:
  assumes "is_permanent e" "aa_system a = b_system_id b" "aa_start a = w_start (b_window b)"
  shows "ensures (claimed b rest) (p_bind (p_metric m) (\<lambda>_. p_bind (p_try env CallFinalizeError (FinalizeAnalysis a)) (\<lambda>_. p_fail e)))
    (closes b env rest)"
proof (rule closes_steps(2) [OF keeps_return(3)])
  let ?q = "\<lambda>s. window_state (bundle_key b) s = Some (is_permanent e \<and> \<not> re_fails env CallFinalizeError)
        \<and> filter (\<lambda>r. analysis_pk r \<noteq> bundle_key b) (ls_analyses s) = rest"
  show "ensures (claimed b rest) (p_bind (p_try env CallFinalizeError (FinalizeAnalysis a)) (\<lambda>_. p_fail e)) (closes b env rest)"
    unfolding closes_def
  proof (rule ensures_bind [where mid = "\<lambda>_. ?q"])
    show "ensures (claimed b rest) (p_try env CallFinalizeError (FinalizeAnalysis a))
        (on_ok (\<lambda>_. ?q) (\<lambda>e s. window_state (bundle_key b) s = Some (is_permanent e \<and> \<not> re_fails env CallFinalizeError)
          \<and> filter (\<lambda>r. analysis_pk r \<noteq> bundle_key b) (ls_analyses s) = rest))"
      by (rule ensures_try) (auto simp: claimed_finalize [OF _ assms(2,3)] assms(1) claimed_def)
  qed (rule ensures_fail)
qed

lemma entry_key: "aa_system (entry_of b) = b_system_id b" "aa_start (entry_of b) = w_start (b_window b)"
  "aa_system (called_entry cfg env b d) = b_system_id b" "aa_start (called_entry cfg env b d) = w_start (b_window b)"
  by (simp_all add: entry_of_def called_entry_def)

lemma paid_call_closes: "ensures (claimed b rest) (paid_call cfg env b d) (closes b env rest)"
proof -
  note view = ledger_keeps [where P = "claimed b rest", OF claimed_view]
  have llm: "ensures (claimed b rest) (llm_failed cfg env b d e) (closes b env rest)" for e
  proof (cases "Permanent e")
    case True
    then show ?thesis by (simp add: llm_failed_def permanent_closes entry_key)
  next
    case False
    have "keeps (claimed b rest) (p_try env CallAttemptError (RecordAttemptError (b_system_id b) (w_start (b_window b))
        (gd_reasons d) (re_ms env) (llm_error_text e)))"
      by (rule p_rules) (rule claimed_attempt)
    then show ?thesis using False unfolding llm_failed_def
      by (auto intro!: closes_steps(2,7) keeps_return fail_closes)
  qed
  have parse: "ensures (claimed b rest) (parse_failed cfg env b d resp e) (closes b env rest)" for resp e
    unfolding parse_failed_def by (rule permanent_closes) (simp_all add: entry_key)
  have ok: "ensures (claimed b rest) (analysed cfg env b d resp pfs) (closes b env rest)" for resp pfs
    unfolding analysed_def by (intro closes_steps(6) view closes_steps(2) keeps_return record_window_closes) (simp_all add: entry_key)
  show ?thesis unfolding paid_call_def
    by (intro closes_steps(1) view) (auto simp: llm parse ok split: sum.split prod.split intro!: closes_steps(2) keeps_return fail_closes)
qed

lemma fresh_window_closes: "ensures (claimed b rest) (fresh_window cfg bcfg env b) (closes b env rest)"
proof -
  note view = ledger_keeps [where P = "claimed b rest", OF claimed_view]
  have "ensures (claimed b rest) (decide cfg env b known v) (closes b env rest)" for known v
    unfolding decide_def Let_def
    by (auto intro!: closes_steps(2,3) keeps_return paid_call_closes record_window_closes simp: entry_key)
  then show ?thesis unfolding fresh_window_def by (intro closes_steps(1,4,5) view keeps_budget)
qed

lemma Process_begin:
  "Process cfg bcfg env b (s, ms) =
     (if re_fails env CallBegin then (Inl (StoreFailed CallBegin), (s, ms))
      else if window_state (bundle_key b) s = Some True then (Inr (), (s, ms))
      else fresh_window cfg bcfg env b
             (snd (BeginAnalysis (b_system_id b) (w_start (b_window b)) (w_end (b_window b)) (re_now env) s), ms))"
  by (auto simp: Process_def p_bind_def p_call_def p_return_def BeginAnalysis_def window_state_def bundle_key_def split: option.splits)

lemma fresh_claimed:
  assumes "window_state (bundle_key b) s \<noteq> Some True"
  shows "claimed b (filter (\<lambda>r. analysis_pk r \<noteq> bundle_key b) (ls_analyses s))
     (snd (BeginAnalysis (b_system_id b) (w_start (b_window b)) (w_end (b_window b)) now s))"
  using assms window_state_begin [of "bundle_key b" "bundle_key b"] by (simp add: claimed_def bundle_key_def frame_simps)

subsection \<open>Properties\<close>

text \<open>
  C8: a window is completed exactly when it is finished with. After a run, the window is
  complete if the run succeeded, or was complete before, or failed for good and that could be
  recorded; after any other failure it is not complete and can be claimed again. The ledger
  rows of the other windows are untouched.
\<close>

theorem Process_closes_window:
  "(case Process cfg bcfg env b (s, ms) of (r, s', ms') \<Rightarrow>
     (window_state (bundle_key b) s' = Some True \<longleftrightarrow>
        (case r of Inr _ \<Rightarrow> True
         | Inl e \<Rightarrow> window_state (bundle_key b) s = Some True \<or> (is_permanent e \<and> \<not> re_fails env CallFinalizeError)))
     \<and> filter (\<lambda>r. analysis_pk r \<noteq> bundle_key b) (ls_analyses s') = filter (\<lambda>r. analysis_pk r \<noteq> bundle_key b) (ls_analyses s))"
proof (cases "re_fails env CallBegin \<or> window_state (bundle_key b) s = Some True")
  case True
  then show ?thesis by (auto simp: Process_begin)
next
  case False
  let ?s1 = "snd (BeginAnalysis (b_system_id b) (w_start (b_window b)) (w_end (b_window b)) (re_now env) s)"
  have p: "Process cfg bcfg env b (s, ms) = fresh_window cfg bcfg env b (?s1, ms)" using False by (simp add: Process_begin)
  obtain r s' ms' where r: "fresh_window cfg bcfg env b (?s1, ms) = (r, s', ms')" by (metis prod_cases3)
  have "closes b env (filter (\<lambda>r. analysis_pk r \<noteq> bundle_key b) (ls_analyses s)) r s'"
    using fresh_window_closes [of b "filter (\<lambda>r. analysis_pk r \<noteq> bundle_key b) (ls_analyses s)" cfg bcfg env] fresh_claimed r False
    unfolding ensures_def by (metis fst_conv snd_conv)
  then show ?thesis unfolding p r using False by (cases r) (auto simp: closes_def)
qed

text \<open>
  A completed window is never worked on again, at any later time: the run is a success that
  changes nothing, reports nothing and asks nobody.
\<close>

lemma Process_duplicate_is_noop:
  assumes "window_state (bundle_key b) s = Some True" "\<not> re_fails env CallBegin"
  shows "Process cfg bcfg env b (s, ms) = (Inr (), (s, ms))"
  using assms by (simp add: Process_begin)

text \<open>
  The memory of the gate is written last. A run leaves the known templates alone until it has
  been decided not to pay for the window, or the answer has been parsed and every finding stored;
  so after any failure before that the retry sees the same lines as new. After a success
  the table is exactly the old one with the bundle's templates, unless the window was
  complete already.
\<close>

lemma templates_recorded_last:
  "(case Process cfg bcfg env b (s, ms) of (r, s', ms') \<Rightarrow>
     (case r of
        Inr _ \<Rightarrow> ls_templates s' = (if window_state (bundle_key b) s = Some True then ls_templates s
                   else ls_templates (UpsertTemplates (b_system_id b) (b_templates b) (re_now_record env) s))
      | Inl e \<Rightarrow> if late_failure e then True
                 else ls_templates s' = ls_templates s
                      \<and> KnownTemplates (b_system_id b) s' = KnownTemplates (b_system_id b) s))"
proof (cases "re_fails env CallBegin \<or> window_state (bundle_key b) s = Some True")
  case True
  then show ?thesis by (auto simp: Process_begin late_failure_def)
next
  case False
  let ?s1 = "snd (BeginAnalysis (b_system_id b) (w_start (b_window b)) (w_end (b_window b)) (re_now env) s)"
  have p: "Process cfg bcfg env b (s, ms) = fresh_window cfg bcfg env b (?s1, ms)" using False by (simp add: Process_begin)
  obtain r s' ms' where r: "fresh_window cfg bcfg env b (?s1, ms) = (r, s', ms')" by (metis prod_cases3)
  have view: "\<And>s t. ledger_view s = ledger_view t \<Longrightarrow> ls_templates s = rows \<Longrightarrow> ls_templates t = rows" for rows
    by (simp add: ledger_view_def)
  have "ensures (\<lambda>s. ls_templates s = rows) (fresh_window cfg bcfg env b) (recorded_last b env rows)" for rows
    unfolding fresh_window_def
    by (intro recorded_after keeps_budget ledger_keeps [where P = "\<lambda>s. ls_templates s = rows", OF view] decide_templates)
  then have "recorded_last b env (ls_templates s) r s'"
    using r unfolding ensures_def by (metis fst_conv snd_conv ls_templates_simps(1))
  then show ?thesis unfolding p r using False
    by (cases r) (auto simp: recorded_last_def UpsertTemplates_def KnownTemplates_def)
qed

lemma go_round_nonneg: "0 \<le> x \<Longrightarrow> 0 \<le> go_round x"
  by (simp add: go_round_def)

text \<open>
  The bill is never negative: for prices and token counts that are not, whatever part of the
  input the provider claims to have served from its cache.
\<close>

lemma cost_not_negative:
  assumes "0 \<le> ac_input_per_mtok cfg" "0 \<le> ac_output_per_mtok cfg" "0 \<le> ac_cached_input_per_mtok cfg"
    "0 \<le> rp_input resp" "0 \<le> rp_output resp" "0 \<le> rp_cached resp"
    "(case rp_cost_usd resp of None \<Rightarrow> True | Some c \<Rightarrow> 0 \<le> c)"
  shows "0 \<le> cost_micros cfg resp \<and> 0 \<le> clamp_cached resp \<and> clamp_cached resp \<le> rp_input resp"
proof -
  have c: "0 \<le> clamp_cached resp" "clamp_cached resp \<le> rp_input resp" using assms(4,6) by (simp_all add: clamp_cached_def)
  have "0 \<le> costUSD cfg resp (clamp_cached resp)"
  proof (cases "rp_cost_usd resp")
    case None
    have "(0 :: rat) \<le> of_int (rp_input resp - clamp_cached resp)" "(0 :: rat) \<le> of_int (clamp_cached resp)" "(0 :: rat) \<le> of_int (rp_output resp)"
      using c assms(5) by simp_all
    then have "0 \<le> of_int (rp_input resp - clamp_cached resp) / 1000000 * ac_input_per_mtok cfg
        + of_int (clamp_cached resp) / 1000000 * ac_cached_input_per_mtok cfg
        + of_int (rp_output resp) / 1000000 * ac_output_per_mtok cfg"
      using assms(1-3) by (intro add_nonneg_nonneg mult_nonneg_nonneg divide_nonneg_nonneg) simp_all
    then show ?thesis using None by (simp add: costUSD_def Let_def)
  next
    case (Some x)
    then show ?thesis using assms(7) by (simp add: costUSD_def)
  qed
  then show ?thesis using c by (simp add: cost_micros_def go_round_nonneg)
qed

text \<open>
  The key of a finding is one of the lines it cites, and joins what is stored: if some cited
  line keys a stored class under the finding's modules and category, the class chosen is
  stored, and is that of the first such line; otherwise it is that of the first line.
\<close>

lemma evidence_key_joins_stored_class:
  assumes "EvidenceCandidates cited = c # d # rest" "\<not> re_fails env (CallExisting j)"
  shows "fst (chooseEvidenceKey env j cited modules category (s, ms)) =
     Inr (case filter (\<lambda>k. class_stored s (Class (re_sha env) modules k category)) (c # d # rest) of
            k # _ \<Rightarrow> (k, Class (re_sha env) modules k category)
          | [] \<Rightarrow> (c, Class (re_sha env) modules c category))
   \<and> snd (chooseEvidenceKey env j cited modules category (s, ms)) = (s, ms)"
proof -
  let ?cls = "\<lambda>k. Class (re_sha env) modules k category"
  have e: "k \<in> set (c # d # rest) \<Longrightarrow> ?cls k \<in> ExistingClasses (map ?cls (c # d # rest)) s \<longleftrightarrow> class_stored s (?cls k)" for k
    by (auto simp: ExistingClasses_def class_stored_def list_ex_iff; metis imageI)
  have find: "List.find P xs = (case filter P xs of [] \<Rightarrow> None | k # _ \<Rightarrow> Some k)" for P and xs :: "string list list"
    by (induction xs) auto
  have "List.find (\<lambda>k. ?cls k \<in> ExistingClasses (map ?cls (c # d # rest)) s) (c # d # rest)
      = List.find (\<lambda>k. class_stored s (?cls k)) (c # d # rest)"
    by (rule find_cong [OF refl]) (rule e)
  moreover have "chooseEvidenceKey env j cited modules category (s, ms) =
      (case List.find (\<lambda>k. ?cls k \<in> ExistingClasses (map ?cls (c # d # rest)) s) (c # d # rest) of
         Some k \<Rightarrow> (Inr (k, ?cls k), (s, ms)) | None \<Rightarrow> (Inr (c, ?cls c), (s, ms)))"
    using assms by (simp add: chooseEvidenceKey_def Let_def p_bind_def p_call_def do_read_def p_return_def
        del: List.find.simps split: option.split)
  ultimately show ?thesis unfolding find by (simp only:) (auto split: list.split)
qed

lemma finalize_row:
  assumes "find_key analysis_pk (aa_system a, aa_start a) (ls_analyses s) = Some row"
  shows "find_key analysis_pk (aa_system a, aa_start a) (ls_analyses (FinalizeAnalysis a s)) =
     Some (row\<lparr>an_gated := aa_gated a, an_reasons := aa_reasons a, an_called := aa_called a, an_input := aa_input a,
      an_output := aa_output a, an_cached := Some (aa_cached a), an_cost := aa_cost a, an_model := aa_model a,
      an_duration := aa_duration a, an_error := aa_error a, an_suppressed := Some (aa_suppressed a), an_completed := True\<rparr>)"
proof -
  let ?f = "\<lambda>r. r\<lparr>an_gated := aa_gated a, an_reasons := aa_reasons a, an_called := aa_called a, an_input := aa_input a,
      an_output := aa_output a, an_cached := Some (aa_cached a), an_cost := aa_cost a, an_model := aa_model a,
      an_duration := aa_duration a, an_error := aa_error a, an_suppressed := Some (aa_suppressed a), an_completed := True\<rparr>"
  let ?k = "(aa_system a, aa_start a)"
  have "find_key analysis_pk ?k (map (\<lambda>r. if analysis_pk r = ?k then ?f r else r) (ls_analyses s))
      = (if ?k = ?k then map_option ?f (find_key analysis_pk ?k (ls_analyses s)) else find_key analysis_pk ?k (ls_analyses s))"
    by (rule find_key_update) (rule analysis_pk_upd)
  then show ?thesis using assms by (simp add: FinalizeAnalysis_def)
qed

text \<open>
  An answer that cannot be parsed is not charged. The window is closed as called, with the
  tokens the provider counted but a cost of nothing, whatever the provider billed, so the spend
  cap never sees it.
\<close>

lemma parse_error_costs_nothing:
  assumes "find_key analysis_pk (bundle_key b) (ls_analyses s) = Some row" "\<not> re_fails env CallFinalizeError"
  shows "(case parse_failed cfg env b d resp e (s, ms) of (r, s', ms') \<Rightarrow>
     r = Inl (ParseFailed e)
     \<and> (case find_key analysis_pk (bundle_key b) (ls_analyses s') of
          None \<Rightarrow> False
        | Some row' \<Rightarrow> an_called row' \<and> an_completed row' \<and> an_input row' = rp_input resp \<and> an_output row' = rp_output resp
            \<and> an_cost row' = 0))"
proof -
  let ?a = "(called_entry cfg env b d)\<lparr>aa_input := rp_input resp, aa_output := rp_output resp, aa_error := re_parse_text env e\<rparr>"
  have k: "bundle_key b = (aa_system ?a, aa_start ?a)" by (simp add: bundle_key_def entry_key)
  have "parse_failed cfg env b d resp e (s, ms) = (Inl (ParseFailed e), (FinalizeAnalysis ?a s, ms @ [MLLMCall ''parse'' 0]))"
    using assms(2) by (simp add: parse_failed_def p_bind_def p_metric_def p_try_def p_fail_def)
  then show ?thesis unfolding k by (simp only: prod.case finalize_row [OF assms(1) [unfolded k]] option.case)
      (simp add: called_entry_def entry_of_def)
qed

subsection \<open>Examples\<close>

definition example_env :: run_env where
  "example_env = \<lparr>re_now = 150, re_now_budget = 150, re_now_record = 160, re_ms = 10, re_fails = (\<lambda>_. False), re_nodes_done = 0,
     re_acquired = True, re_complete = (\<lambda>_ _. Inl (OtherLLMError ''timeout'')), re_unmarshal = (\<lambda>_. None),
     re_parse_text = (\<lambda>_. ''bad''), re_sha = id, re_ulid = (\<lambda>_. ''01'')\<rparr>"

definition example_config :: analyzer_config where
  "example_config = \<lparr>ac_gate = \<lparr>gc_min_new = 1, gc_similarity = 1, gc_silence = 0\<rparr>, ac_prompt_ambient = 5, ac_stale_after = 100,
     ac_model = ''m'', ac_input_per_mtok = 2, ac_output_per_mtok = 8, ac_cached_input_per_mtok = 1\<rparr>"

definition open_window :: logs_store where
  "open_window = snd (BeginAnalysis ''s1'' 100 200 150 empty_logs)"

lemma open_window_row: "\<exists>row. find_key analysis_pk (bundle_key version_bundle) (ls_analyses open_window) = Some row"
  by (simp add: open_window_def BeginAnalysis_def empty_logs_def bundle_key_def version_bundle_def analysis_pk_def)

definition example_budget :: budget_config where
  "example_budget = \<lparr>bc_max_concurrency = 2, bc_max_calls_per_system = 10, bc_daily_cap_usd = 5\<rparr>"

lemma version_candidates:
  "EvidenceCandidates [version_template, version_template\<lparr>t_template := ''v <NUM>.<NUM>''\<rparr>]
     = [[''primary:samba/3/v <NUM>''], [''primary:samba/3/v <NUM>.<NUM>'']]"
proof -
  have t: "TrimSpace ''v <NUM>'' = ''v <NUM>''" "TrimSpace ''v <NUM>.<NUM>'' = ''v <NUM>.<NUM>''" by code_simp+
  have d: "int_dec 3 = ''3''" by code_simp
  have l: "(''v <NUM>'' :: string) \<le> ''v <NUM>.<NUM>''" "\<not> (''v <NUM>.<NUM>'' :: string) \<le> ''v <NUM>''" by code_simp+
  show ?thesis
    by (simp add: EvidenceCandidates_def Normalize_def version_template_def disk_template_def canonical_version evidence_text_def
        template_key_def t d l)
qed

lemma evidence_key_joins_stored_class_example:
  "fst (chooseEvidenceKey example_env 0 [version_template, version_template\<lparr>t_template := ''v <NUM>.<NUM>''\<rparr>] [''samba''] []
       (empty_logs\<lparr>ls_classes := [new_class_row (Class id [''samba''] [''primary:samba/3/v <NUM>.<NUM>''] []) False [] 5]\<rparr>, []))
     = Inr ([''primary:samba/3/v <NUM>.<NUM>''], Class id [''samba''] [''primary:samba/3/v <NUM>.<NUM>''] [])"
proof -
  let ?c = "Class id [''samba''] [''primary:samba/3/v <NUM>''] []" and ?d = "Class id [''samba''] [''primary:samba/3/v <NUM>.<NUM>''] []"
  have ne: "?d \<noteq> ?c" by code_simp
  have sha: "re_sha example_env = id" "\<not> re_fails example_env (CallExisting 0)" by (simp_all add: example_env_def)
  show ?thesis
    using evidence_key_joins_stored_class [OF version_candidates sha(2), of "[''samba'']" "[]"
        "empty_logs\<lparr>ls_classes := [new_class_row ?d False [] 5]\<rparr>" "[]"] ne
    by (simp add: sha(1) class_stored_def new_class_row_def)
qed

lemma parse_error_costs_nothing_example:
  "(case parse_failed example_config example_env version_bundle d
       \<lparr>rp_content = ''not json'', rp_model = ''m'', rp_input = 900, rp_output = 40, rp_cached = 0, rp_cost_usd = Some 1, rp_tier = []\<rparr>
       InvalidJSON (open_window, []) of (r, s', ms') \<Rightarrow>
     (case find_key analysis_pk (bundle_key version_bundle) (ls_analyses s') of
        None \<Rightarrow> False | Some row \<Rightarrow> an_called row \<and> an_input row = 900 \<and> an_cost row = 0))"
proof -
  obtain row where r: "find_key analysis_pk (bundle_key version_bundle) (ls_analyses open_window) = Some row"
    using open_window_row by blast
  have f: "\<not> re_fails example_env CallFinalizeError" by (simp add: example_env_def)
  show ?thesis
    using parse_error_costs_nothing [OF r f, where cfg = example_config and d = d and resp = "\<lparr>rp_content = ''not json'', rp_model = ''m'', rp_input = 900,
        rp_output = 40, rp_cached = 0, rp_cost_usd = Some 1, rp_tier = []\<rparr>" and e = InvalidJSON and ms = "[]"]
    by (auto split: prod.splits option.splits)
qed

end
