(* ===== verification/Sizing_Model.thy ===== *)
theory Sizing_Model
  imports Complex_Main GoStrings
begin

text \<open>
  The data of fleet sizing, \<open>internal/model/sizing.go\<close>: what a reporter sends, what the
  sanitizer lets through and the counters of what it drops. A \<open>float64\<close> of the wire is a
  finite rational, a NaN or an infinity. A sanitized measurement is finite and is a rational; a
  sanitized workload is a sum of floats and stays one, since a sum can overflow to an infinity.
  The fixed vocabularies are polymorphic in that type, since the code uses one struct for
  both. A Go map is an association list. Floats are not rounded.
\<close>

subsection \<open>The wire\<close>

text \<open>\<open>Infinite True\<close> is the positive infinity.\<close>

datatype go_float = Finite rat | NaN | Infinite bool

text \<open>
  The order the store compares by; of a NaN, which no operation below yields from what the
  sanitizer lets through, it says that it is the largest.
\<close>

instantiation go_float :: linorder
begin

fun less_eq_go_float :: "go_float \<Rightarrow> go_float \<Rightarrow> bool" where
  "less_eq_go_float (Infinite False) y = True"
| "less_eq_go_float (Finite p) (Finite q) = (p \<le> q)"
| "less_eq_go_float (Finite p) y = (y = Infinite True \<or> y = NaN)"
| "less_eq_go_float (Infinite True) y = (y = Infinite True \<or> y = NaN)"
| "less_eq_go_float NaN y = (y = NaN)"

definition less_go_float :: "go_float \<Rightarrow> go_float \<Rightarrow> bool" where
  "less_go_float x y = (x \<le> y \<and> x \<noteq> y)"

lemma go_float_antisym: "x \<le> y \<Longrightarrow> y \<le> x \<Longrightarrow> x = y" for x y :: go_float
  by (cases "(x, y)" rule: less_eq_go_float.cases; cases y) (auto split: if_splits)

instance
proof
  fix x y z :: go_float
  show "x < y \<longleftrightarrow> x \<le> y \<and> \<not> y \<le> x" using go_float_antisym [of x y] by (auto simp: less_go_float_def)
  show "x \<le> x" by (cases "(x, x)" rule: less_eq_go_float.cases) auto
  show "x \<le> y \<Longrightarrow> y \<le> x \<Longrightarrow> x = y" by (rule go_float_antisym)
  show "x \<le> y \<or> y \<le> x"
    by (cases "(x, y)" rule: less_eq_go_float.cases; cases "(y, x)" rule: less_eq_go_float.cases) auto
  assume "x \<le> y" "y \<le> z"
  then show "x \<le> z"
    by (cases "(x, y)" rule: less_eq_go_float.cases; cases "(y, z)" rule: less_eq_go_float.cases) auto
qed

end

text \<open>
  A sum of two floats. An exact sum of this size or more is rounded to an infinity: it is half
  way from the largest float, \<open>2 ^ 1024 - 2 ^ 971\<close>, to the next power of two.
\<close>

definition float_limit :: rat where "float_limit = 2 ^ 1024 - 2 ^ 970"

fun float_add :: "go_float \<Rightarrow> go_float \<Rightarrow> go_float" where
  "float_add (Finite p) (Finite q) =
     (if p + q \<ge> float_limit then Infinite True else if p + q \<le> - float_limit then Infinite False else Finite (p + q))"
| "float_add (Infinite b) (Finite q) = Infinite b"
| "float_add (Finite p) (Infinite b) = Infinite b"
| "float_add (Infinite b) (Infinite b') = (if b = b' then Infinite b else NaN)"
| "float_add x y = NaN"

definition SizingSchemaVersion :: int where "SizingSchemaVersion = 1"

record sizing_hardware =
  hw_cpu_cores :: int
  hw_mem_total_bytes :: int
  hw_cpu_model :: string
  hw_os_id :: string
  hw_os_version :: string
  hw_kernel_release :: string
  hw_virtualization :: string

record 'v sizing_resources =
  ru_ram_util :: "'v option"
  ru_ram_used :: "'v option"
  ru_cpu_util :: "'v option"
  ru_cpu_cores_used :: "'v option"
  ru_load15 :: "'v option"
  ru_fs_used :: "'v option"
  ru_fs_days :: "'v option"
  ru_disk_io :: "'v option"

record 'v sizing_stress =
  su_iowait :: "'v option"
  su_swap_in :: "'v option"
  su_oom_kills :: "'v option"
  su_reboots :: "'v option"

record sizing_module =
  sm_family :: string
  sm_instances :: int
  sm_facts_ok :: int
  sm_versions :: "string list"
  sm_workload :: "(string \<times> go_float) list"

record sizing_node =
  sn_node_id :: int
  sn_metrics_present :: bool
  sn_sample_coverage :: go_float
  sn_hardware :: sizing_hardware
  sn_resources :: "go_float sizing_resources"
  sn_stress :: "go_float sizing_stress"
  sn_modules :: "sizing_module list"

record sizing_day =
  sd_day :: string
  sd_nodes :: "sizing_node list"
  sd_cluster :: "(string \<times> go_float) list list option"

record sizing_report =
  sr_schema_version :: int
  sr_system_id :: string
  sr_reporter_version :: string
  sr_days :: "sizing_day list"

text \<open>
  \<open>WireInt.UnmarshalJSON\<close>. A JSON value is a number with its rational value, written as an
  integer literal or not, a \<open>null\<close> or anything else. \<open>convert\<close> is \<open>int64(f)\<close> of a float out of
  range, which the language leaves to the implementation. \<open>json.Number\<close> is left empty by \<open>null\<close>,
  which is no number.
\<close>

datatype json_value = JNumber bool rat | JNull | JOther

definition wire_int :: "(rat \<Rightarrow> int) \<Rightarrow> json_value \<Rightarrow> int option" where
  "wire_int convert v =
     (case v of
        JNumber integral q \<Rightarrow>
          Some (if - (2 ^ 63) \<le> q \<and> q < 2 ^ 63 then (if q \<ge> 0 then \<lfloor>q\<rfloor> else - \<lfloor>- q\<rfloor>) else convert q)
      | _ \<Rightarrow> None)"

subsection \<open>Sanitized forms\<close>

record san_module =
  zm_family :: string
  zm_instances :: int
  zm_facts_ok :: int
  zm_versions :: "string list"
  zm_workload :: "(string \<times> go_float) list"

record san_node =
  zn_node_id :: int
  zn_metrics_present :: bool
  zn_sample_coverage :: rat
  zn_hardware :: sizing_hardware
  zn_resources :: "rat sizing_resources"
  zn_stress :: "rat sizing_stress"
  zn_modules :: "san_module list"

record san_day =
  zd_day :: int
  zd_nodes :: "san_node list"
  zd_cluster_workload :: "(string \<times> go_float) list"

subsection \<open>Counters\<close>

record sizing_counters =
  AcceptedNodes :: int
  AcceptedModules :: int
  AcceptedMetrics :: int
  DroppedDay :: int
  DroppedDuplicate :: int
  DroppedNode :: int
  DroppedFamily :: int
  DroppedMetricKey :: int
  DroppedMetricValue :: int
  DroppedResourceValue :: int
  TruncatedDays :: int
  TruncatedNodes :: int
  TruncatedFamilies :: int
  TruncatedMetrics :: int

definition no_counters :: sizing_counters where
  "no_counters = \<lparr>AcceptedNodes = 0, AcceptedModules = 0, AcceptedMetrics = 0, DroppedDay = 0, DroppedDuplicate = 0,
     DroppedNode = 0, DroppedFamily = 0, DroppedMetricKey = 0, DroppedMetricValue = 0, DroppedResourceValue = 0,
     TruncatedDays = 0, TruncatedNodes = 0, TruncatedFamilies = 0, TruncatedMetrics = 0\<rparr>"

definition DroppedTotal :: "sizing_counters \<Rightarrow> int" where
  "DroppedTotal c = DroppedDay c + DroppedDuplicate c + DroppedNode c + DroppedFamily c
     + DroppedMetricKey c + DroppedMetricValue c + DroppedResourceValue c"

definition TruncatedTotal :: "sizing_counters \<Rightarrow> int" where
  "TruncatedTotal c = TruncatedDays c + TruncatedNodes c + TruncatedFamilies c + TruncatedMetrics c"

definition counters_Add :: "sizing_counters \<Rightarrow> sizing_counters \<Rightarrow> sizing_counters" where
  "counters_Add c d =
     \<lparr>AcceptedNodes = AcceptedNodes c + AcceptedNodes d, AcceptedModules = AcceptedModules c + AcceptedModules d,
      AcceptedMetrics = AcceptedMetrics c + AcceptedMetrics d, DroppedDay = DroppedDay c + DroppedDay d,
      DroppedDuplicate = DroppedDuplicate c + DroppedDuplicate d, DroppedNode = DroppedNode c + DroppedNode d,
      DroppedFamily = DroppedFamily c + DroppedFamily d, DroppedMetricKey = DroppedMetricKey c + DroppedMetricKey d,
      DroppedMetricValue = DroppedMetricValue c + DroppedMetricValue d,
      DroppedResourceValue = DroppedResourceValue c + DroppedResourceValue d,
      TruncatedDays = TruncatedDays c + TruncatedDays d, TruncatedNodes = TruncatedNodes c + TruncatedNodes d,
      TruncatedFamilies = TruncatedFamilies c + TruncatedFamilies d,
      TruncatedMetrics = TruncatedMetrics c + TruncatedMetrics d\<rparr>"

end
