(* ===== verification/Sizing_Score.thy ===== *)
theory Sizing_Score
  imports Sizing_Model "HOL-Library.List_Lexorder" "HOL-Library.Char_ord"
begin

text \<open>
  The pressure score, \<open>internal/sizing/score.go\<close>: the penalty terms of one node-day and their
  combination, the verdict over many days and the placement of a cluster. Floats are rationals,
  an absent measurement is \<open>None\<close>, which is not zero.
\<close>

subsection \<open>Constants\<close>

definition PressureVersion :: int where "PressureVersion = 1"

definition AxisMem :: string where "AxisMem = ''mem''"
definition AxisCPU :: string where "AxisCPU = ''cpu''"
definition AxisIO :: string where "AxisIO = ''io''"
definition AxisDisk :: string where "AxisDisk = ''disk''"

definition ReasonRAMHeadroom :: string where "ReasonRAMHeadroom = ''ram_headroom''"
definition ReasonSwapIn :: string where "ReasonSwapIn = ''swap_in''"
definition ReasonOOMKill :: string where "ReasonOOMKill = ''oom_kill''"
definition ReasonCPUUtil :: string where "ReasonCPUUtil = ''cpu_util''"
definition ReasonRunqueue :: string where "ReasonRunqueue = ''runqueue''"
definition ReasonIOWait :: string where "ReasonIOWait = ''iowait''"
definition ReasonFSLevel :: string where "ReasonFSLevel = ''fs_level''"
definition ReasonFSFull :: string where "ReasonFSFull = ''fs_full''"
definition ReasonFSTrend :: string where "ReasonFSTrend = ''fs_trend''"
definition ReasonInsufficientCoverage :: string where "ReasonInsufficientCoverage = ''insufficient_coverage''"
definition ReasonNoMetrics :: string where "ReasonNoMetrics = ''no_metrics''"

definition MinSampleCoverage :: rat where "MinSampleCoverage = 80 / 100"
definition MinCPUCores :: int where "MinCPUCores = 1"

definition RAMUtilKnee :: rat where "RAMUtilKnee = 85 / 100"
definition RAMUtilFull :: rat where "RAMUtilFull = 97 / 100"
definition MemCap :: rat where "MemCap = 60"
definition SwapInKnee :: rat where "SwapInKnee = 1"
definition SwapInFull :: rat where "SwapInFull = 200"
definition OOMBase :: rat where "OOMBase = 40"
definition OOMKillsMax :: rat where "OOMKillsMax = 5"
definition OOMRampCap :: rat where "OOMRampCap = 60"
definition CPUUtilKnee :: rat where "CPUUtilKnee = 80 / 100"
definition CPUUtilFull :: rat where "CPUUtilFull = 95 / 100"
definition LoadPerCoreKnee :: rat where "LoadPerCoreKnee = 1"
definition LoadPerCoreFull :: rat where "LoadPerCoreFull = 4"
definition CPUCap :: rat where "CPUCap = 40"
definition IOWaitKnee :: rat where "IOWaitKnee = 5 / 100"
definition IOWaitFull :: rat where "IOWaitFull = 40 / 100"
definition IOCap :: rat where "IOCap = 40"
definition FSLevelKnee :: rat where "FSLevelKnee = 85 / 100"
definition FSLevelFull :: rat where "FSLevelFull = 97 / 100"
definition FSLevelCap :: rat where "FSLevelCap = 70"
definition FSFull :: rat where "FSFull = 98 / 100"
definition FSTrendHorizon :: rat where "FSTrendHorizon = 90"
definition FSTrendUrgent :: rat where "FSTrendUrgent = 15"
definition FSTrendCap :: rat where "FSTrendCap = 60"
definition CompoundFactor :: rat where "CompoundFactor = 1 / 2"
definition MaxPressure :: rat where "MaxPressure = 100"

lemmas score_constants = MinSampleCoverage_def MinCPUCores_def RAMUtilKnee_def RAMUtilFull_def MemCap_def SwapInKnee_def
  SwapInFull_def OOMBase_def OOMKillsMax_def OOMRampCap_def CPUUtilKnee_def CPUUtilFull_def LoadPerCoreKnee_def
  LoadPerCoreFull_def CPUCap_def IOWaitKnee_def IOWaitFull_def IOCap_def FSLevelKnee_def FSLevelFull_def FSLevelCap_def
  FSFull_def FSTrendHorizon_def FSTrendUrgent_def FSTrendCap_def CompoundFactor_def MaxPressure_def

subsection \<open>One day\<close>

record score =
  sc_version :: int
  sc_pressure :: "rat option"
  sc_mem :: "rat option"
  sc_cpu :: "rat option"
  sc_io :: "rat option"
  sc_disk :: "rat option"
  sc_top_axis :: string
  sc_reasons :: "string list"

definition clamp :: "rat \<Rightarrow> rat \<Rightarrow> rat \<Rightarrow> rat" where
  "clamp x lo hi = min hi (max lo x)"

definition ramp :: "rat \<Rightarrow> rat \<Rightarrow> rat \<Rightarrow> rat \<Rightarrow> rat" where
  "ramp x x0 x1 cap =
     (if x1 \<le> x0 then (if x \<ge> x1 then cap else 0)
      else cap * clamp ((x - x0) / (x1 - x0)) 0 1)"

text \<open>\<open>axis\<close>: the maximum of its terms, from 0, and whether a term was measured at all.\<close>

record axis =
  ax_max :: rat
  ax_measured :: bool

definition newAxis :: axis where
  "newAxis = \<lparr>ax_max = 0, ax_measured = False\<rparr>"

definition axis_consider :: "rat \<Rightarrow> axis \<Rightarrow> axis" where
  "axis_consider p a = \<lparr>ax_max = (if p > ax_max a then p else ax_max a), ax_measured = True\<rparr>"

definition axis_value :: "axis \<Rightarrow> rat option" where
  "axis_value a = (if ax_measured a then Some (ax_max a) else None)"

text \<open>
  One term of an axis: an absent measurement contributes nothing, a measured one its penalty
  and, when positive, its reason.
\<close>

definition penalty_term :: "'v option \<Rightarrow> ('v \<Rightarrow> rat) \<Rightarrow> string \<Rightarrow> axis \<times> string list \<Rightarrow> axis \<times> string list" where
  "penalty_term v penalty code st =
     (case v of
        None \<Rightarrow> st
      | Some x \<Rightarrow> (axis_consider (penalty x) (fst st), if penalty x > 0 then snd st @ [code] else snd st))"

definition oom_penalty :: "rat \<Rightarrow> rat" where
  "oom_penalty v = (if v > 0 then OOMBase + ramp v 1 OOMKillsMax OOMRampCap else 0)"

definition mem_axis :: "san_node \<Rightarrow> axis \<times> string list" where
  "mem_axis n =
     penalty_term (su_oom_kills (zn_stress n)) oom_penalty ReasonOOMKill
     (penalty_term (su_swap_in (zn_stress n)) (\<lambda>v. ramp v SwapInKnee SwapInFull MemCap) ReasonSwapIn
     (penalty_term (ru_ram_util (zn_resources n)) (\<lambda>v. ramp v RAMUtilKnee RAMUtilFull MemCap) ReasonRAMHeadroom (newAxis, [])))"

definition cpu_axis :: "san_node \<Rightarrow> axis \<times> string list" where
  "cpu_axis n =
     penalty_term (ru_load15 (zn_resources n)) (\<lambda>v. ramp v LoadPerCoreKnee LoadPerCoreFull CPUCap) ReasonRunqueue
     (penalty_term (ru_cpu_util (zn_resources n)) (\<lambda>v. ramp v CPUUtilKnee CPUUtilFull CPUCap) ReasonCPUUtil (newAxis, []))"

definition io_axis :: "san_node \<Rightarrow> axis \<times> string list" where
  "io_axis n = penalty_term (su_iowait (zn_stress n)) (\<lambda>v. ramp v IOWaitKnee IOWaitFull IOCap) ReasonIOWait (newAxis, [])"

text \<open>A full file system considers the maximum; a trend counts below the horizon only.\<close>

definition full_only :: "rat option \<Rightarrow> rat option" where
  "full_only v = (case v of None \<Rightarrow> None | Some x \<Rightarrow> if x \<ge> FSFull then Some x else None)"

definition trend_only :: "rat option \<Rightarrow> rat option" where
  "trend_only v = (case v of None \<Rightarrow> None | Some x \<Rightarrow> if x < FSTrendHorizon then Some x else None)"

definition disk_axis :: "san_node \<Rightarrow> axis \<times> string list" where
  "disk_axis n =
     penalty_term (trend_only (ru_fs_days (zn_resources n)))
       (\<lambda>v. ramp (FSTrendHorizon - v) 0 (FSTrendHorizon - FSTrendUrgent) FSTrendCap) ReasonFSTrend
     (penalty_term (full_only (ru_fs_used (zn_resources n))) (\<lambda>_. MaxPressure) ReasonFSFull
     (penalty_term (ru_fs_used (zn_resources n)) (\<lambda>v. ramp v FSLevelKnee FSLevelFull FSLevelCap) ReasonFSLevel (newAxis, [])))"

text \<open>The loop over the axes: sum, worst, its name and how many were measured.\<close>

fun combine_axes :: "(string \<times> rat option) list \<Rightarrow> rat \<times> rat \<times> string \<times> nat \<Rightarrow> rat \<times> rat \<times> string \<times> nat" where
  "combine_axes [] st = st"
| "combine_axes ((name, None) # axes) st = combine_axes axes st"
| "combine_axes ((name, Some v) # axes) (acc, worst, axis, measured) =
     combine_axes axes
       (if v > worst \<or> axis = [] then (acc + v, v, name, Suc measured) else (acc + v, worst, axis, Suc measured))"

definition covered :: "san_node \<Rightarrow> bool" where
  "covered n \<longleftrightarrow> zn_metrics_present n \<and> \<not> zn_sample_coverage n < MinSampleCoverage
     \<and> \<not> hw_cpu_cores (zn_hardware n) < MinCPUCores \<and> \<not> hw_mem_total_bytes (zn_hardware n) \<le> 0"

definition empty_score :: score where
  "empty_score = \<lparr>sc_version = PressureVersion, sc_pressure = None, sc_mem = None, sc_cpu = None, sc_io = None,
     sc_disk = None, sc_top_axis = [], sc_reasons = []\<rparr>"

definition pressure_of :: "rat \<Rightarrow> rat \<Rightarrow> rat" where
  "pressure_of worst acc = clamp (worst + CompoundFactor * (acc - worst)) 0 MaxPressure"

definition Evaluate :: "san_node \<Rightarrow> score" where
  "Evaluate n =
     (if \<not> covered n then empty_score\<lparr>sc_reasons := [ReasonInsufficientCoverage]\<rparr>
      else (let mem = mem_axis n; cpu = cpu_axis n; io = io_axis n; disk = disk_axis n;
                s = empty_score\<lparr>sc_mem := axis_value (fst mem), sc_cpu := axis_value (fst cpu),
                      sc_io := axis_value (fst io), sc_disk := axis_value (fst disk)\<rparr>
            in case combine_axes [(AxisMem, sc_mem s), (AxisCPU, sc_cpu s), (AxisIO, sc_io s), (AxisDisk, sc_disk s)]
                      (0, 0, [], 0) of
                 (acc, worst, axis, measured) \<Rightarrow>
                   if measured = 0 then s\<lparr>sc_reasons := [ReasonNoMetrics]\<rparr>
                   else s\<lparr>sc_top_axis := axis, sc_pressure := Some (pressure_of worst acc),
                          sc_reasons := sort (snd mem @ snd cpu @ snd io @ snd disk)\<rparr>))"

subsection \<open>Many days\<close>

definition VerdictOK :: string where "VerdictOK = ''ok''"
definition VerdictAtRisk :: string where "VerdictAtRisk = ''at_risk''"
definition VerdictUndersized :: string where "VerdictUndersized = ''undersized''"
definition VerdictInsufficientData :: string where "VerdictInsufficientData = ''insufficient_data''"

definition VerdictWindowDays :: int where "VerdictWindowDays = 28"
definition MinDaysPresent :: int where "MinDaysPresent = 14"
definition UndersizedPressure :: rat where "UndersizedPressure = 50"
definition UndersizedDays :: int where "UndersizedDays = 7"
definition AtRiskPressure :: rat where "AtRiskPressure = 25"
definition AtRiskDays :: int where "AtRiskDays = 14"
definition HysteresisBadDays :: int where "HysteresisBadDays = 3"
definition PlacementSpread :: rat where "PlacementSpread = 50 / 100"

record day_score =
  ds_day :: int
  ds_pressure :: "rat option"
  ds_top_axis :: string

record verdict =
  vd_state :: string
  vd_top_axis :: string
  vd_days_present :: int
  vd_bad_days :: int
  vd_risk_days :: int
  vd_window_days :: int

text \<open>A Go map of counters: \<open>m[k]++\<close>.\<close>

fun count_up :: "string \<Rightarrow> (string \<times> int) list \<Rightarrow> (string \<times> int) list" where
  "count_up k [] = [(k, 1)]"
| "count_up k ((k', n) # m) = (if k' = k then (k, n + 1) # m else (k', n) # count_up k m)"

fun best_axis :: "(string \<times> int) list \<Rightarrow> string \<times> int \<Rightarrow> string \<times> int" where
  "best_axis [] best = best"
| "best_axis ((name, n) # m) best = best_axis m (if n > snd best then (name, n) else best)"

definition dominantAxis :: "(string \<times> int) list \<Rightarrow> string" where
  "dominantAxis counts = fst (best_axis (sort_key fst counts) ([], 0))"

text \<open>The loop over the days: present, at risk, bad, and the top axis of each bad day.\<close>

fun tally :: "day_score list \<Rightarrow> int \<times> int \<times> int \<times> (string \<times> int) list \<Rightarrow> int \<times> int \<times> int \<times> (string \<times> int) list" where
  "tally [] st = st"
| "tally (d # ds) (present, risk, bad, axes) =
     (case ds_pressure d of
        None \<Rightarrow> tally ds (present, risk, bad, axes)
      | Some p \<Rightarrow> tally ds (present + 1, if p \<ge> AtRiskPressure then risk + 1 else risk,
                    if p \<ge> UndersizedPressure then bad + 1 else bad,
                    if p \<ge> UndersizedPressure then count_up (ds_top_axis d) axes else axes))"

definition EvaluateVerdict :: "day_score list \<Rightarrow> string \<Rightarrow> int \<Rightarrow> verdict" where
  "EvaluateVerdict days previous minDaysPresent =
     (case tally days (0, 0, 0, []) of
        (present, risk, bad, axes) \<Rightarrow>
          let v = \<lparr>vd_state = VerdictInsufficientData, vd_top_axis = [], vd_days_present = present, vd_bad_days = bad,
                   vd_risk_days = risk, vd_window_days = VerdictWindowDays\<rparr>
          in if present < minDaysPresent then v
             else if bad \<ge> UndersizedDays \<or> previous = VerdictUndersized \<and> bad > HysteresisBadDays
             then v\<lparr>vd_state := VerdictUndersized, vd_top_axis := dominantAxis axes\<rparr>
             else if risk \<ge> AtRiskDays
             then v\<lparr>vd_state := VerdictAtRisk, vd_top_axis := dominantAxis axes\<rparr>
             else v\<lparr>vd_state := VerdictOK\<rparr>)"

definition ClusterPlacement :: "rat list \<Rightarrow> rat \<times> string" where
  "ClusterPlacement ramUtil =
     (case ramUtil of
        lo # hi # rest \<Rightarrow>
          let spread = fold max (hi # rest) lo - fold min (hi # rest) lo
          in (spread, if spread \<ge> PlacementSpread then ''rebalance'' else ''balanced'')
      | _ \<Rightarrow> (0, []))"

subsection \<open>Thresholds\<close>

definition BasisPhysical :: string where "BasisPhysical = ''physical''"
definition BasisConvention :: string where "BasisConvention = ''convention''"
definition BasisGuess :: string where "BasisGuess = ''guess''"

record threshold =
  th_name :: string
  th_value :: rat
  th_basis :: string
  th_note :: string

definition Thresholds :: "threshold list" where
  "Thresholds = map (\<lambda>(n, v, b, t). \<lparr>th_name = n, th_value = v, th_basis = b, th_note = t\<rparr>)
    [(''ram_util knee'', RAMUtilKnee, BasisGuess, ''calibrate to fleet p90''),
     (''ram_util full'', RAMUtilFull, BasisPhysical, ''a node at 97% has no headroom left''),
     (''swap_in knee (pps)'', SwapInKnee, BasisGuess, ''one page read back per second''),
     (''swap_in full (pps)'', SwapInFull, BasisGuess, ''calibrate to fleet p99''),
     (''oom step'', OOMBase, BasisGuess, ''a kill is proof, not a gradient''),
     (''cpu_util knee'', CPUUtilKnee, BasisGuess, ''calibrate to fleet p90''),
     (''cpu_util full'', CPUUtilFull, BasisGuess, ''calibrate to fleet p99''),
     (''load15/core knee'', LoadPerCoreKnee, BasisPhysical, ''one runnable task per core is a saturated run queue''),
     (''load15/core full'', LoadPerCoreFull, BasisGuess, ''calibrate to fleet p99''),
     (''iowait duration knee'', IOWaitKnee, BasisConvention, ''72 min/day, above a nightly backup''),
     (''iowait duration full'', IOWaitFull, BasisGuess, ''calibrate to fleet p99''),
     (''fs used knee'', FSLevelKnee, BasisConvention, ''same constant as ns8-metrics DiskSpaceLow''),
     (''fs used full'', FSLevelFull, BasisPhysical, []),
     (''fs full'', FSFull, BasisPhysical, ''about to stop working''),
     (''days-to-full horizon'', FSTrendHorizon, BasisGuess, []),
     (''days-to-full urgent'', FSTrendUrgent, BasisGuess, []),
     (''mem axis cap'', MemCap, BasisGuess, []),
     (''cpu axis cap'', CPUCap, BasisGuess, []),
     (''io axis cap'', IOCap, BasisGuess, []),
     (''disk axis cap'', FSLevelCap, BasisGuess, []),
     (''compounding factor'', CompoundFactor, BasisGuess, ''worst axis at full weight, the rest at half''),
     (''coverage floor'', MinSampleCoverage, BasisConvention, ''below this, no pressure is computed''),
     (''placement spread'', PlacementSpread, BasisGuess, ''rebalance rather than buy hardware'')]"

subsection \<open>The terms\<close>

lemma clamp_bounds: "lo \<le> hi \<Longrightarrow> lo \<le> clamp x lo hi \<and> clamp x lo hi \<le> hi"
  by (simp add: clamp_def)

lemma clamp_mono: "x \<le> y \<Longrightarrow> clamp x lo hi \<le> clamp y lo hi"
  by (simp add: clamp_def min.coboundedI2 le_max_iff_disj min_def max_def)

lemma ramp_bounds:
  assumes "0 \<le> cap"
  shows "0 \<le> ramp x x0 x1 cap \<and> ramp x x0 x1 cap \<le> cap"
proof -
  have "0 \<le> cap * clamp ((x - x0) / (x1 - x0)) 0 1" "cap * clamp ((x - x0) / (x1 - x0)) 0 1 \<le> cap * 1"
    using clamp_bounds [of 0 1 "(x - x0) / (x1 - x0)"] assms by (simp_all add: mult_left_le)
  then show ?thesis using assms by (simp add: ramp_def)
qed

lemma ramp_mono:
  assumes "0 \<le> cap" "x \<le> y"
  shows "ramp x x0 x1 cap \<le> ramp y x0 x1 cap"
proof (cases "x1 \<le> x0")
  case True
  then show ?thesis using assms by (simp add: ramp_def)
next
  case False
  then have "(x - x0) / (x1 - x0) \<le> (y - x0) / (x1 - x0)" using assms(2) by (simp add: divide_right_mono)
  from clamp_mono [OF this, of 0 1] assms(1) False show ?thesis by (simp add: ramp_def mult_left_mono)
qed

lemma oom_penalty_bounds: "0 \<le> oom_penalty v \<and> oom_penalty v \<le> 100"
  using ramp_bounds [of OOMRampCap v 1 OOMKillsMax] by (auto simp: oom_penalty_def OOMBase_def OOMRampCap_def)

lemma oom_penalty_mono: "v \<le> w \<Longrightarrow> oom_penalty v \<le> oom_penalty w"
  using ramp_mono [of OOMRampCap v w 1 OOMKillsMax] ramp_bounds [of OOMRampCap w 1 OOMKillsMax]
  by (auto simp: oom_penalty_def OOMBase_def OOMRampCap_def)


end
