(* ===== verification/Sizing_Score_Props.thy ===== *)
theory Sizing_Score_Props
  imports Sizing_Score
begin

text \<open>
  What the pressure score and the verdict promise: bounds and meaning of a score, monotonicity
  in every measurement, and the verdict as a count with hysteresis.
\<close>

subsection \<open>The axes\<close>

definition axis_ok :: "rat \<Rightarrow> axis \<times> string list \<Rightarrow> bool" where
  "axis_ok cap st \<longleftrightarrow> 0 \<le> ax_max (fst st) \<and> ax_max (fst st) \<le> cap \<and> (ax_measured (fst st) \<or> ax_max (fst st) = 0)
     \<and> (ax_max (fst st) = 0 \<longleftrightarrow> snd st = [])"

lemma axis_ok_new: "0 \<le> cap \<Longrightarrow> axis_ok cap (newAxis, [])"
  by (simp add: axis_ok_def newAxis_def)

lemma axis_ok_term:
  assumes "axis_ok cap st" "\<And>v. 0 \<le> f v \<and> f v \<le> cap"
  shows "axis_ok cap (penalty_term v f code st)"
proof (cases v)
  case None
  then show ?thesis using assms(1) by (simp add: penalty_term_def)
next
  case (Some x)
  then show ?thesis using assms(1) assms(2) [of x] unfolding axis_ok_def penalty_term_def axis_consider_def
    by auto
qed

lemma ramp_within: "0 \<le> cap \<Longrightarrow> cap \<le> c \<Longrightarrow> 0 \<le> ramp x x0 x1 cap \<and> ramp x x0 x1 cap \<le> c"
  using ramp_bounds [of cap x x0 x1] by linarith

lemma mem_axis_ok: "axis_ok 100 (mem_axis n)"
  unfolding mem_axis_def by (intro axis_ok_term axis_ok_new oom_penalty_bounds ramp_within) (simp_all add: MemCap_def)

lemma cpu_axis_ok: "axis_ok 40 (cpu_axis n)"
  unfolding cpu_axis_def by (intro axis_ok_term axis_ok_new ramp_within) (simp_all add: CPUCap_def)

lemma io_axis_ok: "axis_ok 40 (io_axis n)"
  unfolding io_axis_def by (intro axis_ok_term axis_ok_new ramp_within) (simp_all add: IOCap_def)

lemma disk_axis_ok: "axis_ok 100 (disk_axis n)"
  unfolding disk_axis_def MaxPressure_def
  by (intro axis_ok_term axis_ok_new ramp_within) (simp_all add: FSLevelCap_def FSTrendCap_def)

fun axis_val :: "rat option \<Rightarrow> rat" where
  "axis_val None = 0"
| "axis_val (Some v) = v"

lemma axis_val_value: "axis_ok cap st \<Longrightarrow> axis_val (axis_value (fst st)) = ax_max (fst st)"
  by (auto simp: axis_ok_def axis_value_def)

lemma axis_value_bounds: "axis_ok cap st \<Longrightarrow> axis_value (fst st) = Some v \<Longrightarrow> 0 \<le> v \<and> v \<le> cap"
  by (auto simp: axis_ok_def axis_value_def split: if_splits)

lemma combine_axes_spec:
  assumes "list_all (\<lambda>(name, v). name \<noteq> [] \<and> 0 \<le> axis_val v) axes" "0 \<le> worst" "axis = [] \<Longrightarrow> worst = 0"
  shows "\<exists>axis'. combine_axes axes (acc, worst, axis, k) =
    (acc + sum_list (map (\<lambda>a. axis_val (snd a)) axes), fold max (map (\<lambda>a. axis_val (snd a)) axes) worst, axis',
     k + length (filter (\<lambda>a. snd a \<noteq> None) axes))"
  using assms
proof (induction axes arbitrary: acc worst axis k)
  case Nil
  then show ?case by simp
next
  case (Cons a axes)
  obtain name v where a: "a = (name, v)" by (cases a)
  show ?case
  proof (cases v)
    case None
    with Cons.IH [of worst axis acc k] Cons.prems a show ?thesis by (simp add: max_absorb2)
  next
    case (Some x)
    have x: "0 \<le> x" "name \<noteq> []" using Cons.prems a Some by auto
    have "(if x > worst \<or> axis = [] then x else worst) = max x worst" using x Cons.prems(3) by (auto simp: max_def)
    with Cons.IH [of "max x worst" "if x > worst \<or> axis = [] then name else axis" "acc + x" "Suc k"] Cons.prems a Some x
    show ?thesis by (auto simp: algebra_simps split: if_splits)
  qed
qed


text \<open>The combination as a function of the four axes, an unmeasured one counting nothing.\<close>

definition axes_of :: "san_node \<Rightarrow> rat list" where
  "axes_of n = [ax_max (fst (mem_axis n)), ax_max (fst (cpu_axis n)), ax_max (fst (io_axis n)), ax_max (fst (disk_axis n))]"

definition combined :: "rat list \<Rightarrow> rat" where
  "combined vs = min 100 ((fold max vs 0 + sum_list vs) / 2)"

definition any_measured :: "san_node \<Rightarrow> bool" where
  "any_measured n \<longleftrightarrow> ax_measured (fst (mem_axis n)) \<or> ax_measured (fst (cpu_axis n))
     \<or> ax_measured (fst (io_axis n)) \<or> ax_measured (fst (disk_axis n))"

lemmas axes_ok = mem_axis_ok cpu_axis_ok io_axis_ok disk_axis_ok

lemma Evaluate_covered:
  assumes "covered n"
  shows "sc_pressure (Evaluate n) = (if any_measured n then Some (combined (axes_of n)) else None)
    \<and> sc_reasons (Evaluate n) = (if any_measured n
         then sort (snd (mem_axis n) @ snd (cpu_axis n) @ snd (io_axis n) @ snd (disk_axis n)) else [ReasonNoMetrics])
    \<and> [sc_mem (Evaluate n), sc_cpu (Evaluate n), sc_io (Evaluate n), sc_disk (Evaluate n)]
      = map axis_value [fst (mem_axis n), fst (cpu_axis n), fst (io_axis n), fst (disk_axis n)]"
proof -
  let ?axes = "[(AxisMem, axis_value (fst (mem_axis n))), (AxisCPU, axis_value (fst (cpu_axis n))),
    (AxisIO, axis_value (fst (io_axis n))), (AxisDisk, axis_value (fst (disk_axis n)))]"
  have vals: "map (\<lambda>a. axis_val (snd a)) ?axes = axes_of n"
    using axes_ok [THEN axis_val_value] by (simp add: axes_of_def)
  have "list_all (\<lambda>(name, v). name \<noteq> [] \<and> 0 \<le> axis_val v) ?axes"
    using axes_ok [of n, THEN axis_val_value] axes_ok [of n]
    by (simp add: axis_ok_def AxisMem_def AxisCPU_def AxisIO_def AxisDisk_def)
  from combine_axes_spec [OF this, of 0 "[]" 0 0] obtain axis where
    c: "combine_axes ?axes (0, 0, [], 0) = (sum_list (axes_of n), fold max (axes_of n) 0, axis, length (filter (\<lambda>a. snd a \<noteq> None) ?axes))"
    unfolding vals by auto
  have m: "length (filter (\<lambda>a. snd a \<noteq> None) ?axes) = 0 \<longleftrightarrow> \<not> any_measured n"
    by (simp add: any_measured_def axis_value_def)
  have nonneg: "0 \<le> fold max (axes_of n) 0" "0 \<le> sum_list (axes_of n)"
    using axes_ok [of n] by (simp_all add: axes_of_def axis_ok_def le_max_iff_disj)
  have p: "pressure_of (fold max (axes_of n) 0) (sum_list (axes_of n)) = combined (axes_of n)"
    using nonneg by (simp add: pressure_of_def combined_def clamp_def CompoundFactor_def MaxPressure_def field_simps)
  show ?thesis using assms c m p by (simp add: Evaluate_def Let_def empty_score_def)
qed

lemma sort_Nil_iff: "sort xs = [] \<longleftrightarrow> xs = []"
  by (metis set_empty set_sort)

lemma combined_mono: "list_all2 (\<le>) vs ws \<Longrightarrow> combined vs \<le> combined ws"
proof -
  assume le: "list_all2 (\<le>) vs ws"
  have "fold max vs a + b \<le> fold max ws c + d" if "a \<le> c" "b \<le> d" for a b c d
    using le that by (induction vs ws arbitrary: a c rule: list_all2_induct) (simp_all, metis max.mono)
  moreover have "sum_list vs \<le> sum_list ws" using le by (induction rule: list_all2_induct) (simp_all add: add_mono)
  ultimately have "fold max vs 0 + sum_list vs \<le> fold max ws 0 + sum_list ws" by simp
  then show ?thesis by (simp add: combined_def min_def divide_right_mono)
qed

lemma combined_bounds:
  assumes "list_all (\<lambda>v. 0 \<le> v \<and> v \<le> 100) [a, b, c, d]"
  shows "0 \<le> combined [a, b, c, d]" "combined [a, b, c, d] \<le> 100" "combined [a, b, c, d] = 0 \<longleftrightarrow> a = 0 \<and> b = 0 \<and> c = 0 \<and> d = 0"
    "list_all (\<lambda>v. v \<le> combined [a, b, c, d]) [a, b, c, d]"
proof -
  let ?m = "max d (max c (max b (max a 0)))"
  have m: "0 \<le> ?m" "a \<le> ?m" "b \<le> ?m" "c \<le> ?m" "d \<le> ?m" "?m \<le> 100"
    using assms by (simp_all add: le_max_iff_disj)
  have s: "?m \<le> a + b + c + d" using assms by (intro max.boundedI) simp_all
  have v: "combined [a, b, c, d] = min 100 ((?m + (a + b + c + d)) / 2)" by (simp add: combined_def algebra_simps)
  have h: "?m \<le> (?m + (a + b + c + d)) / 2" using s by simp
  show "0 \<le> combined [a, b, c, d]" "combined [a, b, c, d] \<le> 100" using m(1) h by (simp_all add: v)
  have up: "?m \<le> combined [a, b, c, d]" using m(6) h by (simp add: v)
  show "list_all (\<lambda>v. v \<le> combined [a, b, c, d]) [a, b, c, d]" using m(2-5) [THEN order_trans, OF up] by simp
  show "combined [a, b, c, d] = 0 \<longleftrightarrow> a = 0 \<and> b = 0 \<and> c = 0 \<and> d = 0"
  proof
    assume "combined [a, b, c, d] = 0"
    with m(2-5) [THEN order_trans, OF up] have "a \<le> 0" "b \<le> 0" "c \<le> 0" "d \<le> 0" by linarith+
    then show "a = 0 \<and> b = 0 \<and> c = 0 \<and> d = 0" using assms by auto
  qed (simp add: combined_def)
qed

subsection \<open>Meaning\<close>

text \<open>
  The penalties of a node-day, written down as a table: the axis, the reason and, where the
  measurement was made, the penalty it costs. A penalty rises linearly from 0 at the knee to the
  cap at the second threshold. The trend of the disk counts below its horizon only, and a file
  system that is full costs the maximum beside its level.
\<close>

definition slope :: "rat \<Rightarrow> rat \<Rightarrow> rat \<Rightarrow> rat \<Rightarrow> rat" where
  "slope knee full cap v = (if v \<le> knee then 0 else if full \<le> v then cap else cap * (v - knee) / (full - knee))"

definition penalties :: "san_node \<Rightarrow> (string \<times> string \<times> rat option) list" where
  "penalties n =
     (let r = zn_resources n; t = zn_stress n
      in [(''mem'', ''ram_headroom'', map_option (slope (85/100) (97/100) 60) (ru_ram_util r)),
          (''mem'', ''swap_in'', map_option (slope 1 200 60) (su_swap_in t)),
          (''mem'', ''oom_kill'', map_option (\<lambda>v. if v > 0 then 40 + slope 1 5 60 v else 0) (su_oom_kills t)),
          (''cpu'', ''cpu_util'', map_option (slope (80/100) (95/100) 40) (ru_cpu_util r)),
          (''cpu'', ''runqueue'', map_option (slope 1 4 40) (ru_load15 r)),
          (''io'', ''iowait'', map_option (slope (5/100) (40/100) 40) (su_iowait t)),
          (''disk'', ''fs_level'', map_option (slope (85/100) (97/100) 70) (ru_fs_used r)),
          (''disk'', ''fs_full'', case ru_fs_used r of Some v \<Rightarrow> if 98/100 \<le> v then Some 100 else None | None \<Rightarrow> None),
          (''disk'', ''fs_trend'', case ru_fs_days r of Some v \<Rightarrow> if v < 90 then Some (slope 0 75 60 (90 - v)) else None | None \<Rightarrow> None)])"

definition worst_penalty :: "string \<Rightarrow> san_node \<Rightarrow> rat option" where
  "worst_penalty axis n =
     (case List.map_filter (\<lambda>(a, _, p). if a = axis then p else None) (penalties n) of
        [] \<Rightarrow> None
      | p # ps \<Rightarrow> Some (fold max ps p))"

definition positive_reasons :: "san_node \<Rightarrow> string list" where
  "positive_reasons n = List.map_filter (\<lambda>(_, code, p). case p of Some v \<Rightarrow> if v > 0 then Some code else None | None \<Rightarrow> None) (penalties n)"

lemma ramp_slope: "x0 < x1 \<Longrightarrow> ramp v x0 x1 cap = slope x0 x1 cap v"
  by (auto simp: ramp_def slope_def clamp_def field_simps min_def max_def)

lemma slope_nonneg: "0 \<le> cap \<Longrightarrow> x0 < x1 \<Longrightarrow> 0 \<le> slope x0 x1 cap v"
  using ramp_bounds [of cap v x0 x1] by (simp add: ramp_slope)

lemma penalty_term_value:
  "axis_value (fst (penalty_term v f code st)) = (case v of None \<Rightarrow> axis_value (fst st) | Some x \<Rightarrow> Some (max (ax_max (fst st)) (f x)))"
  "ax_max (fst (penalty_term v f code st)) = (case v of None \<Rightarrow> ax_max (fst st) | Some x \<Rightarrow> max (ax_max (fst st)) (f x))"
  "snd (penalty_term v f code st) = snd st @ (case v of None \<Rightarrow> [] | Some x \<Rightarrow> if f x > 0 then [code] else [])"
  by (auto simp: penalty_term_def axis_value_def axis_consider_def split: option.splits)

lemma new_axis_value: "axis_value newAxis = None" "ax_max newAxis = 0"
  by (simp_all add: axis_value_def newAxis_def)

lemmas axis_terms = mem_axis_def cpu_axis_def io_axis_def disk_axis_def

lemma ramps:
  "ramp v RAMUtilKnee RAMUtilFull MemCap = slope (85/100) (97/100) 60 v"
  "ramp v SwapInKnee SwapInFull MemCap = slope 1 200 60 v"
  "oom_penalty v = (if v > 0 then 40 + slope 1 5 60 v else 0)"
  "ramp v CPUUtilKnee CPUUtilFull CPUCap = slope (80/100) (95/100) 40 v"
  "ramp v LoadPerCoreKnee LoadPerCoreFull CPUCap = slope 1 4 40 v"
  "ramp v IOWaitKnee IOWaitFull IOCap = slope (5/100) (40/100) 40 v"
  "ramp v FSLevelKnee FSLevelFull FSLevelCap = slope (85/100) (97/100) 70 v"
  "ramp (FSTrendHorizon - v) 0 (FSTrendHorizon - FSTrendUrgent) FSTrendCap = slope 0 75 60 (90 - v)"
  by (simp_all add: score_constants oom_penalty_def ramp_slope)

definition worst_of :: "rat option list \<Rightarrow> rat option" where
  "worst_of ps = (case List.map_filter id ps of [] \<Rightarrow> None | q # qs \<Rightarrow> Some (fold max qs q))"

lemma worst_of_terms:
  assumes "\<And>x. 0 \<le> f x" "\<And>x. 0 \<le> g x" "\<And>x. 0 \<le> h x"
  shows "axis_value (fst (penalty_term a f c1 (newAxis, []))) = worst_of [map_option f a]"
    "axis_value (fst (penalty_term b g c2 (penalty_term a f c1 (newAxis, [])))) = worst_of [map_option f a, map_option g b]"
    "axis_value (fst (penalty_term c h c3 (penalty_term b g c2 (penalty_term a f c1 (newAxis, [])))))
       = worst_of [map_option f a, map_option g b, map_option h c]"
  unfolding penalty_term_value worst_of_def
  using assms by (cases a; cases b; cases c; simp add: new_axis_value map_filter_def max.absorb2 max.commute)+

lemma oom_nonneg: "0 \<le> (if (0::rat) < v then 40 + slope 1 5 60 v else 0)"
  using slope_nonneg [of 60 1 5 v] by simp

lemma worst_penalty_of: "worst_penalty axis n = worst_of (map (\<lambda>t. snd (snd t)) (filter (\<lambda>t. fst t = axis) (penalties n)))"
proof -
  have "List.map_filter (\<lambda>(a, _, p). if a = axis then p else None) ts
      = List.map_filter id (map (\<lambda>t. snd (snd t)) (filter (\<lambda>t. fst t = axis) ts))" for ts :: "(string \<times> string \<times> rat option) list"
    by (induction ts) (auto simp: map_filter_def)
  then show ?thesis by (simp add: worst_penalty_def worst_of_def)
qed

lemma worst_penalty_axes:
  "worst_penalty ''mem'' n = axis_value (fst (mem_axis n))"
  "worst_penalty ''cpu'' n = axis_value (fst (cpu_axis n))"
  "worst_penalty ''io'' n = axis_value (fst (io_axis n))"
proof -
  show "worst_penalty ''mem'' n = axis_value (fst (mem_axis n))"
    unfolding axis_terms ramps
    by (subst worst_of_terms(3)) (simp_all add: worst_penalty_of penalties_def Let_def slope_nonneg oom_nonneg)
  show "worst_penalty ''cpu'' n = axis_value (fst (cpu_axis n))"
    unfolding axis_terms ramps
    by (subst worst_of_terms(2) [where h = "\<lambda>_. 0"]) (simp_all add: worst_penalty_of penalties_def Let_def slope_nonneg oom_nonneg)
  show "worst_penalty ''io'' n = axis_value (fst (io_axis n))"
    unfolding axis_terms ramps
    by (subst worst_of_terms(1) [where g = "\<lambda>_. 0" and h = "\<lambda>_. 0"]) (simp_all add: worst_penalty_of penalties_def Let_def slope_nonneg oom_nonneg)
qed

lemma worst_penalty_disk: "worst_penalty ''disk'' n = axis_value (fst (disk_axis n))"
proof -
  have full: "(case ru_fs_used (zn_resources n) of Some v \<Rightarrow> if 98/100 \<le> v then Some 100 else None | None \<Rightarrow> None)
      = map_option (\<lambda>_. MaxPressure) (full_only (ru_fs_used (zn_resources n)))"
    by (simp add: full_only_def FSFull_def MaxPressure_def split: option.splits)
  have trend: "(case ru_fs_days (zn_resources n) of Some v \<Rightarrow> if v < 90 then Some (slope 0 75 60 (90 - v)) else None | None \<Rightarrow> None)
      = map_option (\<lambda>v. slope 0 75 60 (90 - v)) (trend_only (ru_fs_days (zn_resources n)))"
    by (simp add: trend_only_def FSTrendHorizon_def split: option.splits)
  have m: "0 \<le> MaxPressure" by (simp add: MaxPressure_def)
  show ?thesis
    unfolding axis_terms ramps worst_penalty_of penalties_def Let_def full trend
    by (subst worst_of_terms(3)) (simp_all add: slope_nonneg m)
qed

lemma reasons_axes: "positive_reasons n = snd (mem_axis n) @ snd (cpu_axis n) @ snd (io_axis n) @ snd (disk_axis n)"
proof -
  define pos where "pos = (\<lambda>(_ :: string, code :: string, p). case p of Some v \<Rightarrow> if v > (0::rat) then [code] else [] | None \<Rightarrow> [])"
  have m: "List.map_filter (\<lambda>(_, code, p). case p of Some v \<Rightarrow> if v > 0 then Some code else None | None \<Rightarrow> None) ts
      = concat (map pos ts)" for ts :: "(string \<times> string \<times> rat option) list"
    by (induction ts) (auto simp: map_filter_def pos_def split: option.splits)
  have p1: "pos (a, code, map_option f v) = (case v of None \<Rightarrow> [] | Some x \<Rightarrow> if f x > 0 then [code] else [])" for a code f and v :: "rat option"
    by (simp add: pos_def split: option.splits)
  have p2: "pos (a, code, case v of Some v \<Rightarrow> if P v then Some (f v) else None | None \<Rightarrow> None)
      = (case (case v of None \<Rightarrow> None | Some x \<Rightarrow> if P x then Some x else None) of None \<Rightarrow> [] | Some x \<Rightarrow> if f x > 0 then [code] else [])"
    for a code f P and v :: "rat option" by (cases v) (simp_all add: pos_def)
  have "positive_reasons n = concat (map pos (penalties n))" unfolding positive_reasons_def by (rule m)
  then show ?thesis
    unfolding axis_terms penalty_term_value ramps full_only_def trend_only_def penalties_def Let_def list.map concat.simps p1 p2
    unfolding FSFull_def FSTrendHorizon_def MaxPressure_def ReasonRAMHeadroom_def ReasonSwapIn_def ReasonOOMKill_def ReasonCPUUtil_def
      ReasonRunqueue_def ReasonIOWait_def ReasonFSLevel_def ReasonFSFull_def ReasonFSTrend_def
    by (simp add: newAxis_def)
qed

lemma fold_max_up: "m \<le> fold max xs (m :: 'a :: linorder)"
  by (induction xs arbitrary: m) (auto intro: order_trans [OF max.cobounded2])

lemma fold_max_in: "fold max xs m = m \<or> fold max xs (m :: 'a :: linorder) \<in> set xs"
  by (induction xs arbitrary: m) (auto, metis max_def)

lemma find_max:
  assumes "0 \<le> w" "fold max (map (\<lambda>a. axis_val (snd a)) axes) w \<noteq> w"
  shows "find (\<lambda>a. snd a = Some (fold max (map (\<lambda>a. axis_val (snd a)) axes) w)) axes \<noteq> None"
proof -
  let ?m = "fold max (map (\<lambda>a. axis_val (snd a)) axes) w"
  have "0 < ?m" using assms fold_max_up [of w "map (\<lambda>a. axis_val (snd a)) axes"] by linarith
  moreover obtain a where "a \<in> set axes" "?m = axis_val (snd a)"
    using fold_max_in [of "map (\<lambda>a. axis_val (snd a)) axes" w] assms(2) by auto
  ultimately have "a \<in> set axes" "snd a = Some ?m" by (cases "snd a"; simp)+
  then show ?thesis unfolding find_None_iff by blast
qed

text \<open>Which axis the loop names: the first one, in its order, that has the largest value.\<close>

lemma combine_axes_top:
  assumes "list_all (\<lambda>(name, v). name \<noteq> [] \<and> 0 \<le> axis_val v) axes" "0 \<le> worst" "axis = [] \<Longrightarrow> worst = 0"
  shows "fst (snd (snd (combine_axes axes (acc, worst, axis, k)))) =
    (let m = fold max (map (\<lambda>a. axis_val (snd a)) axes) worst
     in if axis \<noteq> [] \<and> m = worst then axis
        else case find (\<lambda>a. snd a = Some m) axes of None \<Rightarrow> axis | Some a \<Rightarrow> fst a)"
  using assms
proof (induction axes arbitrary: acc worst axis k)
  case Nil
  then show ?case by simp
next
  case (Cons a axes)
  obtain name v where a: "a = (name, v)" by (cases a)
  show ?case
  proof (cases v)
    case None
    then show ?thesis using Cons.IH [of worst axis acc k] Cons.prems a by (simp add: max_absorb2 Let_def)
  next
    case (Some x)
    have x: "0 \<le> x" "name \<noteq> []" using Cons.prems a Some by auto
    show ?thesis
    proof (cases "x > worst \<or> axis = []")
      case True
      then have "max x worst = x" using x Cons.prems(3) by auto
      then show ?thesis using Cons.IH [of x name "acc + x" "Suc k"] Cons.prems a Some x True
          fold_max_up [of x "map (\<lambda>a. axis_val (snd a)) axes"] find_max [of x axes]
        by (auto simp: Let_def split: option.splits)
    next
      case False
      then have "max x worst = worst" by auto
      then show ?thesis using Cons.IH [of worst axis "acc + x" "Suc k"] Cons.prems a Some x False
          fold_max_up [of worst "map (\<lambda>a. axis_val (snd a)) axes"]
        by (auto simp: Let_def)
    qed
  qed
qed

definition axis_table :: "san_node \<Rightarrow> (string \<times> rat option) list" where
  "axis_table n = map (\<lambda>a. (a, worst_penalty a n)) [''mem'', ''cpu'', ''io'', ''disk'']"

lemma axis_table_axes:
  "axis_table n = [(AxisMem, axis_value (fst (mem_axis n))), (AxisCPU, axis_value (fst (cpu_axis n))),
    (AxisIO, axis_value (fst (io_axis n))), (AxisDisk, axis_value (fst (disk_axis n)))]"
  by (simp add: axis_table_def worst_penalty_axes worst_penalty_disk AxisMem_def AxisCPU_def AxisIO_def AxisDisk_def)

lemma axis_table_vals: "map (\<lambda>a. axis_val (snd a)) (axis_table n) = axes_of n"
  using axes_ok [THEN axis_val_value] by (simp add: axis_table_axes axes_of_def)

lemma axis_table_ok: "list_all (\<lambda>(name, v). name \<noteq> [] \<and> 0 \<le> axis_val v) (axis_table n)"
  using axes_ok [of n, THEN axis_val_value] axes_ok [of n]
  by (simp add: axis_table_axes axis_ok_def AxisMem_def AxisCPU_def AxisIO_def AxisDisk_def)

lemma any_measured_table: "any_measured n \<longleftrightarrow> \<not> list_all (\<lambda>a. snd a = None) (axis_table n)"
  by (auto simp: any_measured_def axis_table_axes axis_value_def)

lemma penalties_measured: "list_all (\<lambda>t. snd (snd t) = None) (penalties n) \<longleftrightarrow> list_all (\<lambda>a. snd a = None) (axis_table n)"
proof -
  have none: "worst_of ps = None \<longleftrightarrow> list_all (\<lambda>p. p = None) ps" for ps
    by (induction ps) (auto simp: worst_of_def map_filter_def split: list.splits)
  have "list_all (\<lambda>t. fst t \<in> {''mem'', ''cpu'', ''io'', ''disk''}) (penalties n)" by (simp add: penalties_def Let_def)
  then show ?thesis by (auto simp: axis_table_def worst_penalty_of none list_all_iff)
qed

lemma table_max: "fold max (axes_of n) 0 = Max (set (axes_of n))"
  using axes_ok [of n] by (simp add: axes_of_def axis_ok_def max.absorb1 max.commute max.left_commute)

lemma Evaluate_top:
  assumes "covered n" "any_measured n"
  shows "map_option fst (find (\<lambda>a. snd a = Some (Max (set (axes_of n)))) (axis_table n)) = Some (sc_top_axis (Evaluate n))"
proof -
  let ?m = "fold max (axes_of n) 0"
  let ?c = "combine_axes (axis_table n) (0, 0, [], 0)"
  have top: "fst (snd (snd ?c)) = (case find (\<lambda>a. snd a = Some ?m) (axis_table n) of None \<Rightarrow> [] | Some a \<Rightarrow> fst a)"
    using combine_axes_top [OF axis_table_ok, of 0 "[]" n 0 0] by (simp add: axis_table_vals Let_def)
  have f: "find (\<lambda>a. snd a = Some ?m) (axis_table n) \<noteq> None"
  proof (cases "?m = 0")
    case True
    obtain a x where a: "a \<in> set (axis_table n)" "snd a = Some x"
      using assms(2) by (auto simp: any_measured_table list_all_iff)
    then have "x \<in> set (axes_of n)" by (metis axis_table_vals axis_val.simps(2) image_eqI set_map)
    then have "x \<le> 0" using True by (simp add: table_max [of n] axes_of_def) linarith
    moreover have "0 \<le> x" using a axis_table_ok [of n] by (auto simp: list_all_iff)
    ultimately have "snd a = Some ?m" using a(2) True by simp
    then show ?thesis using a(1) unfolding find_None_iff by blast
  next
    case False
    then show ?thesis using find_max [of 0 "axis_table n"] by (simp add: axis_table_vals)
  qed
  have "filter (\<lambda>a. snd a \<noteq> None) (axis_table n) \<noteq> []"
    using assms(2) by (auto simp: any_measured_table list_all_iff filter_empty_conv simp del: not_None_eq)
  moreover have "snd (snd (snd ?c)) = length (filter (\<lambda>a. snd a \<noteq> None) (axis_table n))"
    using combine_axes_spec [OF axis_table_ok, of 0 "[]" n 0 0] by auto
  ultimately have m: "snd (snd (snd ?c)) \<noteq> 0" by simp
  obtain acc worst name k where c: "?c = (acc, worst, name, k)" by (cases ?c) auto
  have "sc_top_axis (Evaluate n) = name"
    using assms(1) m c unfolding axis_table_axes by (simp add: Evaluate_def Let_def empty_score_def)
  then show ?thesis using top f c unfolding table_max by auto
qed

text \<open>
  C35: what a pressure means. A node-day without one says why: too little coverage, or not one
  measurement that costs a penalty. Otherwise each axis is the worst of its penalties in the
  table above, the pressure is the worst axis plus half of all the others, capped at 100, the
  top axis is the first one with the worst value, and the reasons are those of the positive
  penalties, each once and sorted. So the pressure stands above every axis, and it is 0 exactly
  when no reason is given.
\<close>

theorem pressure_meaning:
  "case sc_pressure (Evaluate n) of
     None \<Rightarrow> sc_reasons (Evaluate n) = (if covered n then [ReasonNoMetrics] else [ReasonInsufficientCoverage])
       \<and> (if covered n then list_all (\<lambda>t. snd (snd t) = None) (penalties n) else True)
   | Some p \<Rightarrow> covered n
       \<and> [sc_mem (Evaluate n), sc_cpu (Evaluate n), sc_io (Evaluate n), sc_disk (Evaluate n)] = map snd (axis_table n)
       \<and> (let vs = map (\<lambda>a. axis_val (snd a)) (axis_table n); worst = Max (set vs)
          in p = min 100 (worst + (sum_list vs - worst) / 2)
             \<and> map_option fst (find (\<lambda>a. snd a = Some worst) (axis_table n)) = Some (sc_top_axis (Evaluate n))
             \<and> list_all (\<lambda>v. 0 \<le> v \<and> v \<le> p) vs)
       \<and> sc_reasons (Evaluate n) = sort (positive_reasons n) \<and> (p = 0) = (sc_reasons (Evaluate n) = [])"
proof (cases "covered n")
  case False
  then show ?thesis by (simp add: Evaluate_def empty_score_def)
next
  case True
  note e = Evaluate_covered [OF True] and ok = axes_ok [of n]
  show ?thesis
  proof (cases "any_measured n")
    case False
    then show ?thesis using e True by (simp add: penalties_measured any_measured_table)
  next
    case measured: True
    let ?p = "combined (axes_of n)"
    have b: "list_all (\<lambda>v. 0 \<le> v \<and> v \<le> 100) (axes_of n)" using ok by (simp add: axes_of_def axis_ok_def)
    note c = combined_bounds [OF b [unfolded axes_of_def], folded axes_of_def]
    have r: "?p = 0 \<longleftrightarrow> sc_reasons (Evaluate n) = []"
      using e measured ok c(3) by (simp add: axis_ok_def sort_Nil_iff)
    have between: "list_all (\<lambda>v. 0 \<le> v \<and> v \<le> ?p) (axes_of n)" using b c(4) by (simp add: axes_of_def)
    have p: "?p = min 100 (Max (set (axes_of n)) + (sum_list (axes_of n) - Max (set (axes_of n))) / 2)"
      unfolding combined_def table_max by (simp add: field_simps)
    have axes: "[sc_mem (Evaluate n), sc_cpu (Evaluate n), sc_io (Evaluate n), sc_disk (Evaluate n)] = map snd (axis_table n)"
      using e by (simp add: axis_table_axes)
    have "sc_pressure (Evaluate n) = Some ?p" using e measured by simp
    moreover have "sc_reasons (Evaluate n) = sort (positive_reasons n)" using e measured by (simp add: reasons_axes)
    ultimately show ?thesis
      using True axes p r between Evaluate_top [OF True measured] unfolding axis_table_vals Let_def by simp
  qed
qed

subsection \<open>Monotonicity\<close>

definition at_most :: "rat option \<Rightarrow> rat option \<Rightarrow> bool" where
  "at_most v w = (case v of None \<Rightarrow> True | Some x \<Rightarrow> (case w of None \<Rightarrow> False | Some y \<Rightarrow> x \<le> y))"

definition at_least :: "rat option \<Rightarrow> rat option \<Rightarrow> bool" where
  "at_least v w = (case v of None \<Rightarrow> True | Some x \<Rightarrow> (case w of None \<Rightarrow> False | Some y \<Rightarrow> y \<le> x))"

text \<open>Every scored measurement of \<open>n\<close> was made of \<open>m\<close> too, where it is as bad or worse.\<close>

definition as_loaded :: "san_node \<Rightarrow> san_node \<Rightarrow> bool" where
  "as_loaded n m \<longleftrightarrow>
     at_most (ru_ram_util (zn_resources n)) (ru_ram_util (zn_resources m))
     \<and> at_most (su_swap_in (zn_stress n)) (su_swap_in (zn_stress m))
     \<and> at_most (su_oom_kills (zn_stress n)) (su_oom_kills (zn_stress m))
     \<and> at_most (ru_cpu_util (zn_resources n)) (ru_cpu_util (zn_resources m))
     \<and> at_most (ru_load15 (zn_resources n)) (ru_load15 (zn_resources m))
     \<and> at_most (su_iowait (zn_stress n)) (su_iowait (zn_stress m))
     \<and> at_most (ru_fs_used (zn_resources n)) (ru_fs_used (zn_resources m))
     \<and> at_least (ru_fs_days (zn_resources n)) (ru_fs_days (zn_resources m))"

definition axis_le :: "axis \<times> string list \<Rightarrow> axis \<times> string list \<Rightarrow> bool" where
  "axis_le st st' \<longleftrightarrow> ax_max (fst st) \<le> ax_max (fst st') \<and> (ax_measured (fst st) \<longrightarrow> ax_measured (fst st'))"

lemma axis_le_new: "axis_le (newAxis, []) (newAxis, [])"
  by (simp add: axis_le_def)

lemma axis_le_term:
  assumes "axis_le st st'" "at_most v w" "\<And>x y. x \<le> y \<Longrightarrow> f x \<le> f y"
  shows "axis_le (penalty_term v f code st) (penalty_term w f code st')"
  using assms by (fastforce simp: axis_le_def penalty_term_def axis_consider_def at_most_def split: option.splits)

lemma axis_le_term_down:
  assumes "axis_le st st'" "at_least v w" "\<And>x y. y \<le> x \<Longrightarrow> f x \<le> f y"
  shows "axis_le (penalty_term v f code st) (penalty_term w f code st')"
  using assms by (fastforce simp: axis_le_def penalty_term_def axis_consider_def at_least_def split: option.splits)

lemma at_most_full: "at_most v w \<Longrightarrow> at_most (full_only v) (full_only w)"
  by (auto simp: at_most_def full_only_def split: option.splits)

lemma at_least_trend: "at_least v w \<Longrightarrow> at_least (trend_only v) (trend_only w)"
  by (auto simp: at_least_def trend_only_def split: option.splits)

lemma axes_le:
  assumes "as_loaded n m"
  shows "axis_le (mem_axis n) (mem_axis m)" "axis_le (cpu_axis n) (cpu_axis m)" "axis_le (io_axis n) (io_axis m)"
    "axis_le (disk_axis n) (disk_axis m)"
proof -
  note l = assms [unfolded as_loaded_def]
  show "axis_le (mem_axis n) (mem_axis m)" unfolding mem_axis_def
    by (intro axis_le_term axis_le_new oom_penalty_mono ramp_mono) (use l in \<open>simp_all add: MemCap_def\<close>)
  show "axis_le (cpu_axis n) (cpu_axis m)" unfolding cpu_axis_def
    by (intro axis_le_term axis_le_new ramp_mono) (use l in \<open>simp_all add: CPUCap_def\<close>)
  show "axis_le (io_axis n) (io_axis m)" unfolding io_axis_def
    by (intro axis_le_term axis_le_new ramp_mono) (use l in \<open>simp_all add: IOCap_def\<close>)
  show "axis_le (disk_axis n) (disk_axis m)" unfolding disk_axis_def
    by (intro axis_le_term_down axis_le_term axis_le_new ramp_mono at_most_full at_least_trend)
      (use l in \<open>simp_all add: FSLevelCap_def FSTrendCap_def\<close>)
qed

text \<open>
  C24: a worse node never scores better. Of two node-days with enough coverage, when everything
  scored of the first was measured of the second and is as bad there or worse, the second has a
  pressure whenever the first has one, and it is at least as high. A further measurement never
  lowers a score either.
\<close>

theorem pressure_monotone:
  assumes "covered n" "covered m" "as_loaded n m" "sc_pressure (Evaluate n) = Some p"
  shows "\<exists>q. sc_pressure (Evaluate m) = Some q \<and> p \<le> q"
proof -
  note le = axes_le [OF assms(3), unfolded axis_le_def]
  have n: "any_measured n" "p = combined (axes_of n)"
    using Evaluate_covered [OF assms(1)] assms(4) by (auto split: if_splits)
  have "any_measured m" using n(1) le by (auto simp: any_measured_def)
  moreover have "list_all2 (\<le>) (axes_of n) (axes_of m)" using le by (simp add: axes_of_def)
  ultimately show ?thesis using Evaluate_covered [OF assms(2)] combined_mono n(2) by simp
qed

definition busy_node :: san_node where
  "busy_node = \<lparr>zn_node_id = 1, zn_metrics_present = True, zn_sample_coverage = 1,
     zn_hardware = \<lparr>hw_cpu_cores = 4, hw_mem_total_bytes = 8589934592, hw_cpu_model = [], hw_os_id = [], hw_os_version = [],
       hw_kernel_release = [], hw_virtualization = []\<rparr>,
     zn_resources = \<lparr>ru_ram_util = Some (91 / 100), ru_ram_used = None, ru_cpu_util = Some (1 / 2), ru_cpu_cores_used = None,
       ru_load15 = None, ru_fs_used = None, ru_fs_days = Some 120, ru_disk_io = None\<rparr>,
     zn_stress = \<lparr>su_iowait = None, su_swap_in = None, su_oom_kills = None, su_reboots = None\<rparr>, zn_modules = []\<rparr>"

definition full_node :: san_node where
  "full_node = busy_node\<lparr>zn_resources := (zn_resources busy_node)\<lparr>ru_fs_days := Some 30, ru_fs_used := Some (99 / 100)\<rparr>\<rparr>"

theorem pressure_monotone_witness:
  "sc_pressure (Evaluate busy_node) = Some 30 \<and> (\<exists>q. sc_pressure (Evaluate full_node) = Some q \<and> 30 \<le> q)"
proof -
  have p: "sc_pressure (Evaluate busy_node) = Some 30"
    by (simp add: busy_node_def Evaluate_def covered_def score_constants mem_axis_def cpu_axis_def io_axis_def disk_axis_def
      penalty_term_def axis_consider_def newAxis_def axis_value_def ramp_def clamp_def trend_only_def full_only_def
      empty_score_def pressure_of_def AxisMem_def AxisCPU_def AxisIO_def AxisDisk_def)
  have "covered busy_node" "covered full_node" "as_loaded busy_node full_node"
    by (simp_all add: full_node_def busy_node_def covered_def score_constants as_loaded_def at_most_def at_least_def)
  from pressure_monotone [OF this p] p show ?thesis by simp
qed

subsection \<open>The verdict\<close>

definition scored_at :: "rat \<Rightarrow> day_score list \<Rightarrow> day_score list" where
  "scored_at p days = filter (\<lambda>d. case ds_pressure d of None \<Rightarrow> False | Some q \<Rightarrow> p \<le> q) days"

definition scored :: "day_score list \<Rightarrow> day_score list" where
  "scored days = filter (\<lambda>d. ds_pressure d \<noteq> None) days"

definition bad_axes :: "day_score list \<Rightarrow> string list" where
  "bad_axes days = map ds_top_axis (scored_at UndersizedPressure days)"

text \<open>The first name, in order, among those that occur most often; empty for no name at all.\<close>

definition most_frequent :: "string list \<Rightarrow> string" where
  "most_frequent xs =
     (if xs = [] then [] else Min {a \<in> set xs. \<forall>b\<in>set xs. count_list xs b \<le> count_list xs a})"

definition counts_ok :: "(string \<times> int) list \<Rightarrow> string list \<Rightarrow> bool" where
  "counts_ok m xs \<longleftrightarrow> distinct (map fst m) \<and> set m = (\<lambda>a. (a, int (count_list xs a))) ` set xs"

lemma counts_ok_distinct: "counts_ok m xs \<Longrightarrow> fst ` set m = set xs"
  by (force simp: counts_ok_def)

lemma set_count_up:
  "distinct (map fst m) \<Longrightarrow>
   distinct (map fst (count_up k m))
   \<and> set (count_up k m) = (if k \<in> fst ` set m then (\<lambda>(a, n). (a, if a = k then n + 1 else n)) ` set m else insert (k, 1) (set m))"
  by (induction k m rule: count_up.induct) (auto simp: image_iff split: if_splits, force+)

lemma counts_ok_up:
  assumes "counts_ok m xs"
  shows "counts_ok (count_up k m) (xs @ [k])"
proof -
  have d: "distinct (map fst m)" and s: "set m = (\<lambda>a. (a, int (count_list xs a))) ` set xs"
    using assms by (auto simp: counts_ok_def)
  note u = set_count_up [OF d, of k]
  have "set (count_up k m) = (\<lambda>a. (a, int (count_list (xs @ [k]) a))) ` set (xs @ [k])"
  proof (cases "k \<in> set xs")
    case True
    then have "k \<in> fst ` set m" using counts_ok_distinct [OF assms] by simp
    with u have "set (count_up k m) = (\<lambda>(a, n). (a, if a = k then n + 1 else n)) ` (\<lambda>a. (a, int (count_list xs a))) ` set xs"
      by (simp add: s)
    then show ?thesis using True by (auto simp: image_image)
  next
    case False
    then have "k \<notin> fst ` set m" using counts_ok_distinct [OF assms] by simp
    with u have "set (count_up k m) = insert (k, 1) ((\<lambda>a. (a, int (count_list xs a))) ` set xs)" by (simp add: s)
    moreover have "(\<lambda>a. (a, int (count_list xs a))) ` set xs = (\<lambda>a. (a, int (count_list (xs @ [k]) a))) ` set xs"
      using False by (intro image_cong) auto
    moreover have "count_list xs k = 0" using False by (simp add: count_list_0_iff)
    ultimately show ?thesis by simp
  qed
  with u show ?thesis by (simp add: counts_ok_def)
qed

text \<open>Over names in ascending order the strict comparison keeps the first of the best.\<close>

lemma best_axis_spec:
  assumes "sorted_wrt (<) (map fst m)" "list_all (\<lambda>x. 0 < snd x) m" "m \<noteq> []"
  shows "best_axis m ([], 0) \<in> set m
    \<and> (\<forall>x\<in>set m. snd x \<le> snd (best_axis m ([], 0)) \<and> (snd x = snd (best_axis m ([], 0)) \<longrightarrow> fst (best_axis m ([], 0)) \<le> fst x))"
proof -
  have gen: "best_axis m best \<in> insert best (set m)
      \<and> (\<forall>x\<in>insert best (set m). snd x \<le> snd (best_axis m best)
           \<and> (snd x = snd (best_axis m best) \<longrightarrow> fst (best_axis m best) \<le> fst x))"
    if "sorted_wrt (<) (map fst m)" "list_all (\<lambda>x. fst best < fst x) m" for m :: "(string \<times> int) list" and best
    using that
  proof (induction m arbitrary: best)
    case Nil
    then show ?case by simp
  next
    case (Cons x m)
    obtain a n where x: "x = (a, n)" by (cases x)
    let ?b = "if n > snd best then (a, n) else best"
    have "list_all (\<lambda>y. fst ?b < fst y) m" "sorted_wrt (<) (map fst m)"
      using Cons.prems x by (auto simp: list_all_iff)
    from Cons.IH [OF this(2,1)] Cons.prems x show ?case by (auto simp: list_all_iff split: if_splits)
  qed
  obtain x m' where m: "m = x # m'" using assms(3) by (cases m) auto
  have "best_axis m ([], 0) = best_axis m' x" using assms(2) m by (cases x) simp
  moreover have "list_all (\<lambda>y. fst x < fst y) m'" "sorted_wrt (<) (map fst m')" using assms(1) m by (auto simp: list_all_iff)
  ultimately show ?thesis using gen [of m' x] m by simp
qed

lemma dominantAxis_spec:
  assumes "counts_ok m xs"
  shows "dominantAxis m = most_frequent xs"
proof (cases "xs = []")
  case True
  then show ?thesis using assms by (simp add: counts_ok_def dominantAxis_def most_frequent_def)
next
  case False
  let ?m = "sort_key fst m"
  have set: "set ?m = (\<lambda>a. (a, int (count_list xs a))) ` set xs" using assms by (simp add: counts_ok_def)
  have "distinct (map fst m)" using assms by (simp add: counts_ok_def)
  then have "distinct (map fst ?m)" by (simp add: distinct_map)
  then have sorted: "sorted_wrt (<) (map fst ?m)" by (simp add: strict_sorted_iff)
  have pos: "list_all (\<lambda>x. 0 < snd x) ?m"
    by (simp only: list_all_iff set) (auto simp: count_list_0_iff intro: gr0I)
  have "?m \<noteq> []" using set False by (metis empty_set image_is_empty set_empty)
  note b = best_axis_spec [OF sorted pos this]
  let ?a = "fst (best_axis ?m ([], 0))"
  have a: "?a \<in> set xs" "snd (best_axis ?m ([], 0)) = int (count_list xs ?a)" using b set by auto
  have all: "(c, int (count_list xs c)) \<in> set ?m" if "c \<in> set xs" for c unfolding set using that by (rule imageI)
  have le: "count_list xs c \<le> count_list xs ?a" if "c \<in> set xs" for c
    using b [THEN conjunct2, rule_format, OF all [OF that]] a(2) by simp
  have least: "?a \<le> c" if "c \<in> set xs" "count_list xs c = count_list xs ?a" for c
    using b [THEN conjunct2, rule_format, OF all [OF that(1)]] a(2) that(2) by simp
  have "Min {c \<in> set xs. \<forall>b\<in>set xs. count_list xs b \<le> count_list xs c} = ?a"
    by (rule Min_eqI) (use a(1) le least in \<open>auto intro: least antisym\<close>)
  then show ?thesis using False by (simp add: dominantAxis_def most_frequent_def)
qed

lemma tally_spec:
  assumes "counts_ok m xs"
  shows "\<exists>m'. tally days (present, risk, bad, m) =
     (present + int (length (scored days)), risk + int (length (scored_at AtRiskPressure days)),
      bad + int (length (scored_at UndersizedPressure days)), m') \<and> counts_ok m' (xs @ bad_axes days)"
  using assms
proof (induction days arbitrary: present risk bad m xs)
  case Nil
  then show ?case by (simp add: scored_def scored_at_def bad_axes_def)
next
  case (Cons d days)
  show ?case
  proof (cases "ds_pressure d")
    case None
    with Cons.IH [OF Cons.prems] show ?thesis by (simp add: scored_def scored_at_def bad_axes_def)
  next
    case (Some p)
    show ?thesis
    proof (cases "p \<ge> UndersizedPressure")
      case True
      then have "p \<ge> AtRiskPressure" by (simp add: UndersizedPressure_def AtRiskPressure_def)
      with True Cons.IH [OF counts_ok_up [OF Cons.prems, of "ds_top_axis d"], of "present + 1" "risk + 1" "bad + 1"] Some
      show ?thesis
        by (auto simp: scored_def scored_at_def bad_axes_def algebra_simps)
    next
      case False
      with Cons.IH [OF Cons.prems, of "present + 1" "if p \<ge> AtRiskPressure then risk + 1 else risk" bad] Some show ?thesis
        by (auto simp: scored_def scored_at_def bad_axes_def algebra_simps)
    qed
  qed
qed

text \<open>
  C25: the verdict is a count with hysteresis. It depends on how many days were scored, were at
  risk and were bad, on the floor and on the previous verdict: too few days give no verdict,
  seven bad days make a node undersized, an undersized node stays so until at most three are
  left, fourteen days at risk make it at risk. An undersized or endangered node names the axis
  that led most of its bad days, the first in order on a tie. Neither the order of the days nor
  that of a map decides anything.
\<close>

theorem verdict_spec:
  "EvaluateVerdict days previous min_days =
     (let present = length (scored days); risk = length (scored_at AtRiskPressure days);
          bad = length (scored_at UndersizedPressure days);
          state = (if int present < min_days then VerdictInsufficientData
                   else if 7 \<le> bad \<or> previous = VerdictUndersized \<and> 3 < bad then VerdictUndersized
                   else if 14 \<le> risk then VerdictAtRisk else VerdictOK)
      in \<lparr>vd_state = state,
          vd_top_axis = (if state \<in> {VerdictUndersized, VerdictAtRisk} then most_frequent (bad_axes days) else []),
          vd_days_present = int present, vd_bad_days = int bad, vd_risk_days = int risk, vd_window_days = 28\<rparr>)"
proof -
  obtain m where t: "tally days (0, 0, 0, []) = (int (length (scored days)), int (length (scored_at AtRiskPressure days)),
      int (length (scored_at UndersizedPressure days)), m)" and m: "counts_ok m (bad_axes days)"
    using tally_spec [of "[]" "[]" days 0 0 0] by (auto simp: counts_ok_def)
  show ?thesis unfolding EvaluateVerdict_def t
    by (simp add: Let_def dominantAxis_spec [OF m] UndersizedDays_def HysteresisBadDays_def AtRiskDays_def VerdictWindowDays_def
      VerdictOK_def VerdictAtRisk_def VerdictUndersized_def VerdictInsufficientData_def)
qed

end
