(* ===== verification/Sizing_Sanitize.thy ===== *)
theory Sizing_Sanitize
  imports Sizing_Model Model_Bundle Threat_Sanitize GoTime
begin

text \<open>
  The ingest sanitizer of fleet sizing, \<open>internal/sizing/sanitize.go\<close>. The counters are threaded
  through as the code threads its pointer. A map is an association list without repeated keys,
  in the order its keys arrived; the code never looks at that order.
\<close>

definition DefaultMaxNodes :: int where "DefaultMaxNodes = 16"
definition MaxFamiliesPerNode :: nat where "MaxFamiliesPerNode = 64"
definition MaxMetricsPerFamily :: nat where "MaxMetricsPerFamily = 32"
definition MaxDaysPerReport :: nat where "MaxDaysPerReport = 15"
definition MaxMetricKeyLen :: nat where "MaxMetricKeyLen = 40"
definition MaxFamilyLen :: nat where "MaxFamilyLen = 64"
definition MaxTextLen :: nat where "MaxTextLen = 128"
definition MaxVersions :: nat where "MaxVersions = 8"
definition MaxDayAge :: int where "MaxDayAge = 15"
definition MinDayAge :: int where "MinDayAge = 1"

subsection \<open>Values\<close>

fun validValue :: "go_float \<Rightarrow> bool" where
  "validValue (Finite q) = (q \<ge> 0)"
| "validValue _ = False"

fun float_val :: "go_float \<Rightarrow> rat" where
  "float_val (Finite q) = q"
| "float_val _ = 0"

definition fraction_of :: "go_float option \<Rightarrow> sizing_counters \<Rightarrow> rat option \<times> sizing_counters" where
  "fraction_of v c =
     (case v of
        None \<Rightarrow> (None, c)
      | Some x \<Rightarrow> if \<not> validValue x then (None, c\<lparr>DroppedResourceValue := DroppedResourceValue c + 1\<rparr>)
                  else (Some (min (float_val x) 1), c))"

definition quantity :: "go_float option \<Rightarrow> sizing_counters \<Rightarrow> rat option \<times> sizing_counters" where
  "quantity v c =
     (case v of
        None \<Rightarrow> (None, c)
      | Some x \<Rightarrow> if \<not> validValue x then (None, c\<lparr>DroppedResourceValue := DroppedResourceValue c + 1\<rparr>)
                  else (Some (float_val x), c))"

definition coverage :: "go_float \<Rightarrow> rat" where
  "coverage v = (if \<not> validValue v then 0 else min (float_val v) 1)"

definition nonNegInt :: "int \<Rightarrow> int" where
  "nonNegInt v = (if v < 0 then 0 else v)"

subsection \<open>Workloads\<close>

text \<open>\<open>^[a-z][a-z0-9_]{0,39}$\<close>, byte by byte: no rune outside ASCII passes.\<close>

definition validMetricKey :: "string \<Rightarrow> bool" where
  "validMetricKey k =
     (if k = [] \<or> length k > MaxMetricKeyLen then False
      else is_lower (hd k) \<and> list_all (\<lambda>c. is_lower c \<or> is_digit c \<or> c = CHR ''_'') (tl k))"

text \<open>\<open>dst[key] += v\<close>; a key that is absent reads 0.\<close>

fun add_metric :: "string \<Rightarrow> go_float \<Rightarrow> (string \<times> go_float) list \<Rightarrow> (string \<times> go_float) list" where
  "add_metric k v [] = [(k, float_add (Finite 0) v)]"
| "add_metric k v ((k', v') # m) = (if k' = k then (k, float_add v' v) # m else (k', v') # add_metric k v m)"

fun mergeWorkload :: "(string \<times> go_float) list \<Rightarrow> (string \<times> go_float) list \<times> sizing_counters \<Rightarrow> (string \<times> go_float) list \<times> sizing_counters" where
  "mergeWorkload [] st = st"
| "mergeWorkload ((k, v) # src) (dst, c) =
     (let key = TrimSpace k
      in if \<not> validMetricKey key then mergeWorkload src (dst, c\<lparr>DroppedMetricKey := DroppedMetricKey c + 1\<rparr>)
         else if \<not> validValue v then mergeWorkload src (dst, c\<lparr>DroppedMetricValue := DroppedMetricValue c + 1\<rparr>)
         else mergeWorkload src (add_metric key v dst, c))"

definition truncateMetrics :: "(string \<times> go_float) list \<Rightarrow> (string \<times> go_float) list" where
  "truncateMetrics m = take MaxMetricsPerFamily (sort_key fst m)"

text \<open>The cap and the count both workloads end with.\<close>

definition bound_metrics :: "(string \<times> go_float) list \<Rightarrow> sizing_counters \<Rightarrow> (string \<times> go_float) list \<times> sizing_counters" where
  "bound_metrics m c =
     (let c1 = (if length m > MaxMetricsPerFamily
                then c\<lparr>TruncatedMetrics := TruncatedMetrics c + int (length m - MaxMetricsPerFamily)\<rparr> else c);
          m1 = (if length m > MaxMetricsPerFamily then truncateMetrics m else m)
      in (m1, c1\<lparr>AcceptedMetrics := AcceptedMetrics c1 + int (length m1)\<rparr>))"

definition sanitizeClusterWorkload ::
  "(string \<times> go_float) list list \<Rightarrow> sizing_counters \<Rightarrow> (string \<times> go_float) list \<times> sizing_counters" where
  "sanitizeClusterWorkload domains c =
     (if domains = [] then ([], c) else case fold mergeWorkload domains ([], c) of (out, c1) \<Rightarrow> bound_metrics out c1)"

subsection \<open>Families and versions\<close>

text \<open>
  \<open>strings.ToLower\<close> as far as ASCII can tell: see \<open>lower_rune\<close>. What it leaves outside ASCII is
  refused below whatever it is.
\<close>

definition ToLower :: "string \<Rightarrow> string" where
  "ToLower s = encode (map lower_rune (runes s))"

definition family_byte :: "char \<Rightarrow> bool" where
  "family_byte c \<longleftrightarrow> is_lower c \<or> is_digit c \<or> c = CHR ''-'' \<or> c = CHR ''_'' \<or> c = CHR ''.''"

definition cleanFamily :: "string \<Rightarrow> string" where
  "cleanFamily s0 =
     (let s = ToLower (CleanText s0 MaxFamilyLen)
      in if s = [] then []
         else let family = ModuleFamily s in if list_all family_byte family then family else [])"

fun appendVersions :: "string list \<Rightarrow> string list \<Rightarrow> string list" where
  "appendVersions dst [] = dst"
| "appendVersions dst (v0 # src) =
     (let v = CleanText v0 MaxTextLen
      in if v = [] \<or> length dst \<ge> MaxVersions then appendVersions dst src
         else if v \<in> set dst then appendVersions dst src
         else appendVersions (dst @ [v]) src)"

subsection \<open>A node\<close>

definition sanitizeHardware :: "sizing_hardware \<Rightarrow> sizing_hardware" where
  "sanitizeHardware h =
     \<lparr>hw_cpu_cores = nonNegInt (hw_cpu_cores h), hw_mem_total_bytes = nonNegInt (hw_mem_total_bytes h),
      hw_cpu_model = CleanText (hw_cpu_model h) MaxTextLen, hw_os_id = CleanText (hw_os_id h) MaxTextLen,
      hw_os_version = CleanText (hw_os_version h) MaxTextLen, hw_kernel_release = CleanText (hw_kernel_release h) MaxTextLen,
      hw_virtualization = CleanText (hw_virtualization h) MaxTextLen\<rparr>"

definition sanitizeResources ::
  "go_float sizing_resources \<Rightarrow> sizing_counters \<Rightarrow> rat sizing_resources \<times> sizing_counters" where
  "sanitizeResources r c =
     (case fraction_of (ru_ram_util r) c of (ram_util, c1) \<Rightarrow>
      case quantity (ru_ram_used r) c1 of (ram_used, c2) \<Rightarrow>
      case fraction_of (ru_cpu_util r) c2 of (cpu_util, c3) \<Rightarrow>
      case quantity (ru_cpu_cores_used r) c3 of (cores_used, c4) \<Rightarrow>
      case quantity (ru_load15 r) c4 of (load15, c5) \<Rightarrow>
      case fraction_of (ru_fs_used r) c5 of (fs_used, c6) \<Rightarrow>
      case quantity (ru_fs_days r) c6 of (fs_days, c7) \<Rightarrow>
      case fraction_of (ru_disk_io r) c7 of (disk_io, c8) \<Rightarrow>
        (\<lparr>ru_ram_util = ram_util, ru_ram_used = ram_used, ru_cpu_util = cpu_util, ru_cpu_cores_used = cores_used,
          ru_load15 = load15, ru_fs_used = fs_used, ru_fs_days = fs_days, ru_disk_io = disk_io\<rparr>, c8))"

definition sanitizeStress ::
  "go_float sizing_stress \<Rightarrow> sizing_counters \<Rightarrow> rat sizing_stress \<times> sizing_counters" where
  "sanitizeStress s c =
     (case fraction_of (su_iowait s) c of (iowait, c1) \<Rightarrow>
      case quantity (su_swap_in s) c1 of (swap_in, c2) \<Rightarrow>
      case quantity (su_oom_kills s) c2 of (oom_kills, c3) \<Rightarrow>
      case quantity (su_reboots s) c3 of (reboots, c4) \<Rightarrow>
        (\<lparr>su_iowait = iowait, su_swap_in = swap_in, su_oom_kills = oom_kills, su_reboots = reboots\<rparr>, c4))"

text \<open>One family entry, folded into what the node has of that family. Go's \<open>int\<close> sums wrap.\<close>

definition fresh_module :: "string \<Rightarrow> san_module" where
  "fresh_module family = \<lparr>zm_family = family, zm_instances = 0, zm_facts_ok = 0, zm_versions = [], zm_workload = []\<rparr>"

definition fold_module :: "sizing_module \<Rightarrow> san_module list \<times> sizing_counters \<Rightarrow> san_module list \<times> sizing_counters" where
  "fold_module m st =
     (let family = cleanFamily (sm_family m); mods = fst st; c = snd st
      in if family = [] then (mods, c\<lparr>DroppedFamily := DroppedFamily c + 1\<rparr>)
         else let seen = find_key zm_family family mods;
                  old = (case seen of None \<Rightarrow> fresh_module family | Some z \<Rightarrow> z);
                  c1 = (if seen = None then c\<lparr>AcceptedModules := AcceptedModules c + 1\<rparr> else c)
              in case mergeWorkload (sm_workload m) (zm_workload old, c1) of
                   (w, c2) \<Rightarrow>
                     (upsert zm_family (\<lambda>_ z. z)
                        \<lparr>zm_family = family, zm_instances = wrap64 (zm_instances old + nonNegInt (sm_instances m)),
                         zm_facts_ok = wrap64 (zm_facts_ok old + nonNegInt (sm_facts_ok m)),
                         zm_versions = appendVersions (zm_versions old) (sm_versions m), zm_workload = w\<rparr> mods, c2))"

fun finish_modules :: "san_module list \<Rightarrow> sizing_counters \<Rightarrow> san_module list \<times> sizing_counters" where
  "finish_modules [] c = ([], c)"
| "finish_modules (z # zs) c =
     (case bound_metrics (zm_workload z) c of (w, c1) \<Rightarrow>
      case finish_modules zs c1 of (out, c2) \<Rightarrow>
        (z\<lparr>zm_facts_ok := (if zm_facts_ok z > zm_instances z then zm_instances z else zm_facts_ok z),
            zm_workload := w, zm_versions := sort (zm_versions z)\<rparr> # out, c2))"

definition sanitizeNode :: "sizing_node \<Rightarrow> sizing_counters \<Rightarrow> san_node \<times> sizing_counters" where
  "sanitizeNode n c =
     (case sanitizeResources (sn_resources n) c of (resources, c1) \<Rightarrow>
      case sanitizeStress (sn_stress n) c1 of (stress, c2) \<Rightarrow>
        let families = take MaxFamiliesPerNode (sn_modules n);
            c3 = (if length (sn_modules n) > MaxFamiliesPerNode
                  then c2\<lparr>TruncatedFamilies := TruncatedFamilies c2 + int (length (sn_modules n) - MaxFamiliesPerNode)\<rparr> else c2)
        in case fold fold_module families ([], c3) of (folded, c4) \<Rightarrow>
           case finish_modules (sort_key zm_family folded) c4 of (modules, c5) \<Rightarrow>
             (\<lparr>zn_node_id = sn_node_id n, zn_metrics_present = sn_metrics_present n,
               zn_sample_coverage = coverage (sn_sample_coverage n), zn_hardware = sanitizeHardware (sn_hardware n),
               zn_resources = resources, zn_stress = stress, zn_modules = modules\<rparr>, c5))"

subsection \<open>A report\<close>

text \<open>\<open>time.Parse("2006-01-02", ...)\<close> in UTC, as a day index; \<open>DayString\<close> is the way back.\<close>

definition parseDay :: "string \<Rightarrow> int option" where
  "parseDay s =
     Option.bind (fixed_num 4 (TrimSpace s)) (\<lambda>(y, s1).
     Option.bind (literal (CHR ''-'') s1) (\<lambda>s2.
     Option.bind (in_range 1 12 (fixed_num 2 s2)) (\<lambda>(mo, s3).
     Option.bind (literal (CHR ''-'') s3) (\<lambda>s4.
     Option.bind (fixed_num 2 s4) (\<lambda>(d, s5).
       if s5 \<noteq> [] \<or> d < 1 \<or> daysIn mo y < d then None else Some (days_from_civil y mo d))))))"

definition sizing_DayString :: "int \<Rightarrow> string" where
  "sizing_DayString day = format_date day"

fun sanitize_nodes :: "sizing_node list \<Rightarrow> int list \<Rightarrow> sizing_counters \<Rightarrow> san_node list \<times> sizing_counters" where
  "sanitize_nodes [] seen c = ([], c)"
| "sanitize_nodes (n # ns) seen c =
     (if sn_node_id n < 1 then sanitize_nodes ns seen (c\<lparr>DroppedNode := DroppedNode c + 1\<rparr>)
      else if sn_node_id n \<in> set seen then sanitize_nodes ns seen (c\<lparr>DroppedDuplicate := DroppedDuplicate c + 1\<rparr>)
      else case sanitizeNode n c of (z, c1) \<Rightarrow>
           case sanitize_nodes ns (sn_node_id n # seen) (c1\<lparr>AcceptedNodes := AcceptedNodes c1 + 1\<rparr>) of (zs, c2) \<Rightarrow>
             (z # zs, c2))"

definition sanitize_day :: "nat \<Rightarrow> int \<Rightarrow> sizing_day \<Rightarrow> sizing_counters \<Rightarrow> san_day \<times> sizing_counters" where
  "sanitize_day maxNodes day d c =
     (let c1 = (if length (sd_nodes d) > maxNodes
                then c\<lparr>TruncatedNodes := TruncatedNodes c + int (length (sd_nodes d) - maxNodes)\<rparr> else c)
      in case sanitize_nodes (take maxNodes (sd_nodes d)) [] c1 of (nodes, c2) \<Rightarrow>
         case (case sd_cluster d of None \<Rightarrow> ([], c2) | Some domains \<Rightarrow> sanitizeClusterWorkload domains c2) of (w, c3) \<Rightarrow>
           (\<lparr>zd_day = day, zd_nodes = sort_key zn_node_id nodes, zd_cluster_workload = w\<rparr>, c3))"

definition day_refused :: "int \<Rightarrow> sizing_day \<Rightarrow> bool" where
  "day_refused today d =
     (case parseDay (sd_day d) of None \<Rightarrow> True | Some day \<Rightarrow> day > today - MinDayAge \<or> day < today - MaxDayAge)"

definition day_index :: "sizing_day \<Rightarrow> int" where
  "day_index d = (case parseDay (sd_day d) of None \<Rightarrow> 0 | Some day \<Rightarrow> day)"

fun sanitize_days :: "nat \<Rightarrow> int \<Rightarrow> sizing_day list \<Rightarrow> int list \<Rightarrow> sizing_counters \<Rightarrow> san_day list \<times> sizing_counters" where
  "sanitize_days maxNodes today [] seen c = ([], c)"
| "sanitize_days maxNodes today (d # ds) seen c =
     (if day_refused today d then sanitize_days maxNodes today ds seen (c\<lparr>DroppedDay := DroppedDay c + 1\<rparr>)
      else if day_index d \<in> set seen then sanitize_days maxNodes today ds seen (c\<lparr>DroppedDuplicate := DroppedDuplicate c + 1\<rparr>)
      else case sanitize_day maxNodes (day_index d) d c of (z, c1) \<Rightarrow>
           case sanitize_days maxNodes today ds (day_index d # seen) c1 of (zs, c2) \<Rightarrow> (z # zs, c2))"

definition max_nodes :: "int \<Rightarrow> nat" where
  "max_nodes opt = nat (if opt \<le> 0 then DefaultMaxNodes else opt)"

definition sizing_Sanitize :: "sizing_report \<Rightarrow> int \<Rightarrow> int \<Rightarrow> san_day list \<times> sizing_counters" where
  "sizing_Sanitize r opt now =
     (let c = (if length (sr_days r) > MaxDaysPerReport
               then no_counters\<lparr>TruncatedDays := int (length (sr_days r) - MaxDaysPerReport)\<rparr> else no_counters)
      in case sanitize_days (max_nodes opt) (go_div now dayMillis) (take MaxDaysPerReport (sr_days r)) [] c of
           (days, c1) \<Rightarrow> (sort_key zd_day days, c1))"

definition CleanReporterVersion :: "string \<Rightarrow> string" where
  "CleanReporterVersion s = CleanText s MaxTextLen"

end
