(* ===== verification/Sizing_Store.thy ===== *)
theory Sizing_Store
  imports Sizing_Score GoTime Prelude "HOL-Library.Product_Lexorder"
begin

text \<open>
  The store of fleet sizing, \<open>internal/store/sizing/store.go\<close>. A table is a list of rows, a
  transaction one step. An \<open>INSERT\<close> without a conflict clause fails on a repeated primary key and
  its transaction with it: the result is then \<open>None\<close> and nothing is written. A nullable measurement
  is an option; the columns of the derived score are one field of the type of the score.
\<close>

subsection \<open>Rows\<close>

record node_day_row =
  nd_system :: string
  nd_node :: int
  nd_day :: int
  nd_metrics_present :: bool
  nd_coverage :: rat
  nd_hardware :: sizing_hardware
  nd_resources :: "rat sizing_resources"
  nd_stress :: "rat sizing_stress"
  nd_modules :: "san_module list"
  nd_score :: score

definition ScoreInput :: "node_day_row \<Rightarrow> san_node" where
  "ScoreInput r = \<lparr>zn_node_id = nd_node r, zn_metrics_present = nd_metrics_present r, zn_sample_coverage = nd_coverage r,
     zn_hardware = nd_hardware r, zn_resources = nd_resources r, zn_stress = nd_stress r, zn_modules = []\<rparr>"

definition SetScore :: "score \<Rightarrow> node_day_row \<Rightarrow> node_day_row" where
  "SetScore sc r = r\<lparr>nd_score := sc\<rparr>"

record day_rows =
  dy_day :: int
  dy_nodes :: "node_day_row list"
  dy_cluster_workload :: "(string \<times> go_float) list"

record daily_row =
  da_system :: string
  da_node :: int
  da_day :: int
  da_received_at :: int
  da_reporter :: string
  da_metrics_present :: bool
  da_coverage :: rat
  da_hardware :: sizing_hardware
  da_resources :: "rat sizing_resources"
  da_stress :: "rat sizing_stress"
  da_score :: score

record module_row =
  mo_system :: string
  mo_node :: int
  mo_day :: int
  mo_family :: string
  mo_instances :: int
  mo_facts_ok :: int
  mo_versions :: "string list"

record metric_row =
  me_system :: string
  me_node :: int
  me_day :: int
  me_family :: string
  me_metric :: string
  me_value :: go_float

record cluster_row =
  cd_system :: string
  cd_day :: int
  cd_metric :: string
  cd_value :: go_float

record dimension_row =
  dn_system :: string
  dn_node :: int
  dn_first_seen :: int
  dn_last_seen :: int
  dn_cpu_cores :: int
  dn_mem_total :: int
  dn_hw_changed_at :: "int option"

record sizing_ingest_row =
  in_day :: int
  in_system :: string
  in_reports :: int
  in_last_report_at :: int
  in_reporter :: string
  in_counters :: sizing_counters

record monthly_row =
  mr_system :: string
  mr_node :: int
  mr_month :: string
  mr_days_present :: int
  mr_days_scored :: int
  mr_bad_days :: int
  mr_pressure_avg :: "rat option"
  mr_pressure_max :: "rat option"
  mr_ram_util_max :: "rat option"
  mr_ram_used_max :: "rat option"
  mr_cpu_util_max :: "rat option"
  mr_cpu_cores_used_max :: "rat option"
  mr_fs_max :: "rat option"
  mr_oom_total :: "rat option"
  mr_cpu_cores :: int
  mr_mem_total :: int

record verdict_row =
  ve_system :: string
  ve_node :: int
  ve_verdict :: string
  ve_top_axis :: string
  ve_days_present :: int
  ve_bad_days :: int
  ve_risk_days :: int
  ve_window_days :: int
  ve_cluster_nodes :: int
  ve_spread :: "rat option"
  ve_placement :: string
  ve_updated_at :: int

record cohort_row =
  co_kind :: string
  co_key :: string
  co_nodes :: int
  co_distinct_systems :: int
  co_censored_nodes :: int
  co_ram_used_p50 :: rat
  co_ram_used_p75 :: rat
  co_ram_used_p90 :: rat
  co_cores_used_p50 :: rat
  co_cores_used_p75 :: rat
  co_cores_used_p90 :: rat
  co_installed_ram_p50 :: rat
  co_installed_ram_p90 :: rat
  co_installed_cores_p50 :: rat
  co_installed_cores_p90 :: rat
  co_window_days :: int
  co_min_distinct_systems :: int
  co_min_nodes :: int
  co_pressure_version :: int
  co_updated_at :: int

record sizing_store =
  ss_daily :: "daily_row list"
  ss_modules :: "module_row list"
  ss_metrics :: "metric_row list"
  ss_cluster :: "cluster_row list"
  ss_nodes :: "dimension_row list"
  ss_ingest :: "sizing_ingest_row list"
  ss_monthly :: "monthly_row list"
  ss_verdicts :: "verdict_row list"
  ss_cohorts :: "cohort_row list"

definition empty_sizing :: sizing_store where
  "empty_sizing = \<lparr>ss_daily = [], ss_modules = [], ss_metrics = [], ss_cluster = [], ss_nodes = [], ss_ingest = [],
     ss_monthly = [], ss_verdicts = [], ss_cohorts = []\<rparr>"

definition daily_pk :: "daily_row \<Rightarrow> string \<times> int \<times> int" where
  "daily_pk r = (da_system r, da_node r, da_day r)"

definition module_pk :: "module_row \<Rightarrow> string \<times> int \<times> int \<times> string" where
  "module_pk r = (mo_system r, mo_node r, mo_day r, mo_family r)"

definition metric_pk :: "metric_row \<Rightarrow> string \<times> int \<times> int \<times> string \<times> string" where
  "metric_pk r = (me_system r, me_node r, me_day r, me_family r, me_metric r)"

definition cluster_pk :: "cluster_row \<Rightarrow> string \<times> int \<times> string" where
  "cluster_pk r = (cd_system r, cd_day r, cd_metric r)"

definition dimension_pk :: "dimension_row \<Rightarrow> string \<times> int" where
  "dimension_pk r = (dn_system r, dn_node r)"

definition ingest_pk :: "sizing_ingest_row \<Rightarrow> int \<times> string" where
  "ingest_pk r = (in_day r, in_system r)"

definition monthly_pk :: "monthly_row \<Rightarrow> string \<times> int \<times> string" where
  "monthly_pk r = (mr_system r, mr_node r, mr_month r)"

definition verdict_pk :: "verdict_row \<Rightarrow> string \<times> int" where
  "verdict_pk r = (ve_system r, ve_node r)"

definition cohort_pk :: "cohort_row \<Rightarrow> string \<times> string" where
  "cohort_pk r = (co_kind r, co_key r)"

lemmas sizing_pks = daily_pk_def module_pk_def metric_pk_def cluster_pk_def dimension_pk_def ingest_pk_def monthly_pk_def
  verdict_pk_def cohort_pk_def

subsection \<open>Ingest\<close>

fun insert_all :: "('r \<Rightarrow> 'k) \<Rightarrow> 'r list \<Rightarrow> 'r list \<Rightarrow> 'r list option" where
  "insert_all key [] rows = Some rows"
| "insert_all key (r # rs) rows =
     (case find_key key (key r) rows of Some _ \<Rightarrow> None | None \<Rightarrow> insert_all key rs (rows @ [r]))"

definition daily_of :: "string \<Rightarrow> string \<Rightarrow> int \<Rightarrow> int \<Rightarrow> node_day_row \<Rightarrow> daily_row" where
  "daily_of systemID reporter day now n =
     \<lparr>da_system = systemID, da_node = nd_node n, da_day = day, da_received_at = now, da_reporter = reporter,
      da_metrics_present = nd_metrics_present n, da_coverage = nd_coverage n, da_hardware = nd_hardware n,
      da_resources = nd_resources n, da_stress = nd_stress n, da_score = nd_score n\<rparr>"

definition modules_of :: "string \<Rightarrow> int \<Rightarrow> node_day_row \<Rightarrow> module_row list" where
  "modules_of systemID day n = map (\<lambda>m.
     \<lparr>mo_system = systemID, mo_node = nd_node n, mo_day = day, mo_family = zm_family m, mo_instances = zm_instances m,
      mo_facts_ok = zm_facts_ok m, mo_versions = zm_versions m\<rparr>) (nd_modules n)"

definition metrics_of :: "string \<Rightarrow> int \<Rightarrow> node_day_row \<Rightarrow> metric_row list" where
  "metrics_of systemID day n = concat (map (\<lambda>m. map (\<lambda>(k, v).
     \<lparr>me_system = systemID, me_node = nd_node n, me_day = day, me_family = zm_family m, me_metric = k, me_value = v\<rparr>)
     (zm_workload m)) (nd_modules n))"

definition upsertSizingNodeDay ::
  "string \<Rightarrow> string \<Rightarrow> int \<Rightarrow> node_day_row \<Rightarrow> int \<Rightarrow> sizing_store \<Rightarrow> sizing_store option" where
  "upsertSizingNodeDay systemID reporter day n now s =
     Option.bind (insert_all module_pk (modules_of systemID day n)
        (filter (\<lambda>r. \<not> (mo_system r = systemID \<and> mo_node r = nd_node n \<and> mo_day r = day)) (ss_modules s))) (\<lambda>modules.
     Option.bind (insert_all metric_pk (metrics_of systemID day n)
        (filter (\<lambda>r. \<not> (me_system r = systemID \<and> me_node r = nd_node n \<and> me_day r = day)) (ss_metrics s))) (\<lambda>metrics.
       Some (s\<lparr>ss_daily := upsert daily_pk (\<lambda>_ new. new) (daily_of systemID reporter day now n) (ss_daily s),
               ss_modules := modules, ss_metrics := metrics\<rparr>)))"

definition hw_changed :: "dimension_row option \<Rightarrow> sizing_hardware \<Rightarrow> bool" where
  "hw_changed old hw =
     (case old of
        None \<Rightarrow> False
      | Some r \<Rightarrow> \<not> (hw_cpu_cores hw = 0 \<and> hw_mem_total_bytes hw = 0)
                  \<and> (dn_cpu_cores r \<noteq> hw_cpu_cores hw \<or> dn_mem_total r \<noteq> hw_mem_total_bytes hw))"

definition upsertSizingNodeDimension :: "string \<Rightarrow> node_day_row \<Rightarrow> int \<Rightarrow> sizing_store \<Rightarrow> sizing_store" where
  "upsertSizingNodeDimension systemID n now s =
     (let changed = hw_changed (find_key dimension_pk (systemID, nd_node n) (ss_nodes s)) (nd_hardware n)
      in s\<lparr>ss_nodes := upsert dimension_pk
           (\<lambda>old new. old\<lparr>dn_last_seen := dn_last_seen new, dn_cpu_cores := dn_cpu_cores new, dn_mem_total := dn_mem_total new,
              dn_hw_changed_at := (if changed then dn_hw_changed_at new else dn_hw_changed_at old)\<rparr>)
           \<lparr>dn_system = systemID, dn_node = nd_node n, dn_first_seen = now, dn_last_seen = now,
            dn_cpu_cores = hw_cpu_cores (nd_hardware n), dn_mem_total = hw_mem_total_bytes (nd_hardware n),
            dn_hw_changed_at = (if changed then Some now else None)\<rparr> (ss_nodes s)\<rparr>)"

definition replaceSizingClusterDay :: "string \<Rightarrow> int \<Rightarrow> (string \<times> go_float) list \<Rightarrow> sizing_store \<Rightarrow> sizing_store option" where
  "replaceSizingClusterDay systemID day workload s =
     Option.bind (insert_all cluster_pk
        (map (\<lambda>(k, v). \<lparr>cd_system = systemID, cd_day = day, cd_metric = k, cd_value = v\<rparr>) workload)
        (filter (\<lambda>r. \<not> (cd_system r = systemID \<and> cd_day r = day)) (ss_cluster s)))
       (\<lambda>rows. Some (s\<lparr>ss_cluster := rows\<rparr>))"

fun upsert_nodes :: "string \<Rightarrow> string \<Rightarrow> int \<Rightarrow> node_day_row list \<Rightarrow> int \<Rightarrow> sizing_store \<Rightarrow> sizing_store option" where
  "upsert_nodes systemID reporter day [] now s = Some s"
| "upsert_nodes systemID reporter day (n # ns) now s =
     Option.bind (upsertSizingNodeDay systemID reporter day n now s) (\<lambda>s1.
       upsert_nodes systemID reporter day ns now (upsertSizingNodeDimension systemID n now s1))"

fun upsert_days :: "string \<Rightarrow> string \<Rightarrow> day_rows list \<Rightarrow> int \<Rightarrow> sizing_store \<Rightarrow> sizing_store option" where
  "upsert_days systemID reporter [] now s = Some s"
| "upsert_days systemID reporter (d # ds) now s =
     Option.bind (upsert_nodes systemID reporter (dy_day d) (dy_nodes d) now s) (\<lambda>s1.
     Option.bind (replaceSizingClusterDay systemID (dy_day d) (dy_cluster_workload d) s1) (\<lambda>s2.
       upsert_days systemID reporter ds now s2))"

definition UpsertSizingDays ::
  "string \<Rightarrow> string \<Rightarrow> day_rows list \<Rightarrow> int \<Rightarrow> sizing_store \<Rightarrow> (int \<times> sizing_store) option" where
  "UpsertSizingDays systemID reporter days now s =
     (if days = [] then Some (0, s)
      else Option.bind (upsert_days systemID reporter days now s) (\<lambda>s'.
        Some (int (sum_list (map (\<lambda>d. length (dy_nodes d)) days)), s')))"

definition RecordSizingIngest :: "int \<Rightarrow> string \<Rightarrow> string \<Rightarrow> sizing_counters \<Rightarrow> int \<Rightarrow> sizing_store \<Rightarrow> sizing_store" where
  "RecordSizingIngest day0 systemID reporter c now s =
     (let day = (if day0 = 0 then go_div now dayMillis else day0)
      in s\<lparr>ss_ingest := upsert ingest_pk
           (\<lambda>old new. old\<lparr>in_reports := in_reports old + 1, in_last_report_at := in_last_report_at new,
              in_reporter := in_reporter new, in_counters := counters_Add (in_counters old) (in_counters new)\<rparr>)
           \<lparr>in_day = day, in_system = systemID, in_reports = 1, in_last_report_at = now, in_reporter = reporter,
            in_counters = c\<rparr> (ss_ingest s)\<rparr>)"

subsection \<open>The pass: scores and the window\<close>

definition row_of_daily :: "daily_row \<Rightarrow> node_day_row" where
  "row_of_daily r =
     \<lparr>nd_system = da_system r, nd_node = da_node r, nd_day = da_day r, nd_metrics_present = da_metrics_present r,
      nd_coverage = da_coverage r,
      nd_hardware = \<lparr>hw_cpu_cores = hw_cpu_cores (da_hardware r), hw_mem_total_bytes = hw_mem_total_bytes (da_hardware r),
        hw_cpu_model = [], hw_os_id = [], hw_os_version = [], hw_kernel_release = [], hw_virtualization = []\<rparr>,
      nd_resources = da_resources r, nd_stress = da_stress r, nd_modules = [],
      nd_score = \<lparr>sc_version = 0, sc_pressure = None, sc_mem = None, sc_cpu = None, sc_io = None, sc_disk = None,
        sc_top_axis = [], sc_reasons = []\<rparr>\<rparr>"

definition StaleSizingScores :: "int \<Rightarrow> nat \<Rightarrow> sizing_store \<Rightarrow> node_day_row list" where
  "StaleSizingScores version limit s =
     map row_of_daily (take limit (sort_key (\<lambda>r. (- da_day r, da_system r, da_node r))
       (filter (\<lambda>r. sc_version (da_score r) \<noteq> version) (ss_daily s))))"

definition update_score :: "node_day_row \<Rightarrow> daily_row list \<Rightarrow> daily_row list" where
  "update_score n rows = map (\<lambda>r. if daily_pk r = (nd_system n, nd_node n, nd_day n) then r\<lparr>da_score := nd_score n\<rparr> else r) rows"

definition UpdateSizingScores :: "node_day_row list \<Rightarrow> sizing_store \<Rightarrow> sizing_store" where
  "UpdateSizingScores rows s = s\<lparr>ss_daily := fold update_score rows (ss_daily s)\<rparr>"

record window_row =
  wr_system :: string
  wr_node :: int
  wr_day :: int
  wr_coverage :: rat
  wr_cpu_cores :: int
  wr_mem_total :: int
  wr_hw_changed_at :: int
  wr_pressure :: "rat option"
  wr_top_axis :: string
  wr_ram_util :: "rat option"
  wr_ram_used :: "rat option"
  wr_cores_used :: "rat option"
  wr_swap_in :: "rat option"
  wr_oom_kills :: "rat option"

definition window_row_of :: "sizing_store \<Rightarrow> daily_row \<Rightarrow> window_row" where
  "window_row_of s d =
     \<lparr>wr_system = da_system d, wr_node = da_node d, wr_day = da_day d, wr_coverage = da_coverage d,
      wr_cpu_cores = hw_cpu_cores (da_hardware d), wr_mem_total = hw_mem_total_bytes (da_hardware d),
      wr_hw_changed_at = (case find_key dimension_pk (da_system d, da_node d) (ss_nodes s) of
          None \<Rightarrow> 0 | Some n \<Rightarrow> (case dn_hw_changed_at n of None \<Rightarrow> 0 | Some t \<Rightarrow> t)),
      wr_pressure = sc_pressure (da_score d), wr_top_axis = sc_top_axis (da_score d),
      wr_ram_util = ru_ram_util (da_resources d), wr_ram_used = ru_ram_used (da_resources d),
      wr_cores_used = ru_cpu_cores_used (da_resources d), wr_swap_in = su_swap_in (da_stress d),
      wr_oom_kills = su_oom_kills (da_stress d)\<rparr>"

definition SizingWindow :: "int \<Rightarrow> int \<Rightarrow> sizing_store \<Rightarrow> window_row list" where
  "SizingWindow fromDay toDay s =
     map (window_row_of s) (sort_key daily_pk (filter (\<lambda>d. da_day d \<ge> fromDay \<and> da_day d \<le> toDay) (ss_daily s)))"

text \<open>\<open>GROUP BY key ORDER BY key\<close>: the keys of the rows in order, each with its rows.\<close>

definition group_rows :: "('r \<Rightarrow> 'k::linorder) \<Rightarrow> 'r list \<Rightarrow> ('k \<times> 'r list) list" where
  "group_rows key rows = map (\<lambda>k. (k, filter (\<lambda>r. key r = k) rows)) (sort (nub_by id [] (map key rows)))"

definition max_of :: "'a::linorder list \<Rightarrow> 'a" where
  "max_of xs = fold max (tl xs) (hd xs)"

record family_row =
  fa_system :: string
  fa_node :: int
  fa_family :: string
  fa_instances :: int
  fa_facts_ok :: int

definition SizingWindowFamilies :: "int \<Rightarrow> int \<Rightarrow> sizing_store \<Rightarrow> family_row list" where
  "SizingWindowFamilies fromDay toDay s =
     map (\<lambda>((sys, node, family), rs).
        \<lparr>fa_system = sys, fa_node = node, fa_family = family, fa_instances = max_of (map mo_instances rs),
         fa_facts_ok = max_of (map mo_facts_ok rs)\<rparr>)
       (group_rows (\<lambda>r. (mo_system r, mo_node r, mo_family r))
         (filter (\<lambda>r. mo_day r \<ge> fromDay \<and> mo_day r \<le> toDay) (ss_modules s)))"

record family_metric_row =
  fm_system :: string
  fm_node :: int
  fm_family :: string
  fm_metric :: string
  fm_value :: go_float

definition SizingWindowMetrics :: "int \<Rightarrow> int \<Rightarrow> sizing_store \<Rightarrow> family_metric_row list" where
  "SizingWindowMetrics fromDay toDay s =
     map (\<lambda>((sys, node, family, name), rs).
        \<lparr>fm_system = sys, fm_node = node, fm_family = family, fm_metric = name, fm_value = max_of (map me_value rs)\<rparr>)
       (group_rows (\<lambda>r. (me_system r, me_node r, me_family r, me_metric r))
         (filter (\<lambda>r. me_day r \<ge> fromDay \<and> me_day r \<le> toDay) (ss_metrics s)))"

subsection \<open>The pass: verdicts and cohorts\<close>

definition SizingNodeKey :: "string \<Rightarrow> int \<Rightarrow> string" where
  "SizingNodeKey systemID nodeID = systemID @ ''/'' @ int_dec nodeID"

text \<open>A later row overwrites an earlier one of the same key.\<close>

definition SizingVerdictStates :: "sizing_store \<Rightarrow> string \<Rightarrow> string" where
  "SizingVerdictStates s k =
     (case find_key (\<lambda>r. SizingNodeKey (ve_system r) (ve_node r)) k (rev (ss_verdicts s)) of None \<Rightarrow> [] | Some r \<Rightarrow> ve_verdict r)"

definition UpsertSizingVerdicts :: "verdict_row list \<Rightarrow> sizing_store \<Rightarrow> sizing_store" where
  "UpsertSizingVerdicts rows s = s\<lparr>ss_verdicts := fold (upsert verdict_pk (\<lambda>_ new. new)) rows (ss_verdicts s)\<rparr>"

definition UpsertSizingCohorts :: "cohort_row list \<Rightarrow> sizing_store \<Rightarrow> sizing_store" where
  "UpsertSizingCohorts rows s = s\<lparr>ss_cohorts := fold (upsert cohort_pk (\<lambda>_ new. new)) rows (ss_cohorts s)\<rparr>"

definition DeleteStaleSizingCohorts :: "int \<Rightarrow> sizing_store \<Rightarrow> int \<times> sizing_store" where
  "DeleteStaleSizingCohorts before s =
     (int (length (filter (\<lambda>r. co_updated_at r < before) (ss_cohorts s))),
      s\<lparr>ss_cohorts := filter (\<lambda>r. \<not> co_updated_at r < before) (ss_cohorts s)\<rparr>)"

subsection \<open>History\<close>

definition MonthlyBadDayPressure :: rat where "MonthlyBadDayPressure = 50"

text \<open>SQL aggregates of a nullable column: \<open>NULL\<close> is skipped, of nothing the result is \<open>NULL\<close>.\<close>

definition known :: "'a option list \<Rightarrow> 'a list" where
  "known vs = List.map_filter id vs"

definition sql_max :: "rat option list \<Rightarrow> rat option" where
  "sql_max vs = (if known vs = [] then None else Some (max_of (known vs)))"

definition sql_sum :: "rat option list \<Rightarrow> rat option" where
  "sql_sum vs = (if known vs = [] then None else Some (sum_list (known vs)))"

definition sql_avg :: "rat option list \<Rightarrow> rat option" where
  "sql_avg vs = (if known vs = [] then None else Some (sum_list (known vs) / of_nat (length (known vs))))"

record month_range =
  mg_label :: string
  mg_from :: int
  mg_to :: int

definition next_month :: "int \<times> int \<Rightarrow> int \<times> int" where
  "next_month ym = (if snd ym = 12 then (fst ym + 1, 1) else (fst ym, snd ym + 1))"

definition month_start :: "int \<times> int \<Rightarrow> int" where
  "month_start ym = days_from_civil (fst ym) (snd ym) 1"

text \<open>
  The loop over the months. A step moves the start of the month forward, so \<open>months\<close> steps
  with \<open>months\<close> the days left are more than enough.
\<close>

fun months_from :: "nat \<Rightarrow> int \<times> int \<Rightarrow> int \<Rightarrow> month_range list" where
  "months_from 0 ym end_day = []"
| "months_from (Suc fuel) ym end_day =
     (if month_start ym > end_day then []
      else \<lparr>mg_label = pad 4 (fst ym) @ ''-'' @ pad 2 (snd ym), mg_from = month_start ym,
            mg_to = month_start (next_month ym) - 1\<rparr> # months_from fuel (next_month ym) end_day)"

definition monthRanges :: "int \<Rightarrow> int \<Rightarrow> month_range list" where
  "monthRanges fromDay toDay =
     (if toDay < fromDay then []
      else case civil_from_days fromDay of (y, m, _) \<Rightarrow>
        months_from (Suc (nat (toDay - month_start (y, m) + 1))) (y, m) toDay)"

definition monthly_of :: "string \<Rightarrow> (string \<times> int) \<times> daily_row list \<Rightarrow> monthly_row" where
  "monthly_of month g =
     (let rs = snd g; pressures = map (\<lambda>r. sc_pressure (da_score r)) rs
      in \<lparr>mr_system = fst (fst g), mr_node = snd (fst g), mr_month = month, mr_days_present = int (length rs),
          mr_days_scored = int (length (known pressures)),
          mr_bad_days = int (length (filter (\<lambda>p. p \<ge> MonthlyBadDayPressure) (known pressures))),
          mr_pressure_avg = sql_avg pressures, mr_pressure_max = sql_max pressures,
          mr_ram_util_max = sql_max (map (\<lambda>r. ru_ram_util (da_resources r)) rs),
          mr_ram_used_max = sql_max (map (\<lambda>r. ru_ram_used (da_resources r)) rs),
          mr_cpu_util_max = sql_max (map (\<lambda>r. ru_cpu_util (da_resources r)) rs),
          mr_cpu_cores_used_max = sql_max (map (\<lambda>r. ru_cpu_cores_used (da_resources r)) rs),
          mr_fs_max = sql_max (map (\<lambda>r. ru_fs_used (da_resources r)) rs),
          mr_oom_total = sql_sum (map (\<lambda>r. su_oom_kills (da_stress r)) rs),
          mr_cpu_cores = max_of (map (\<lambda>r. hw_cpu_cores (da_hardware r)) rs),
          mr_mem_total = max_of (map (\<lambda>r. hw_mem_total_bytes (da_hardware r)) rs)\<rparr>)"

definition readSizingMonthly :: "month_range \<Rightarrow> sizing_store \<Rightarrow> monthly_row list" where
  "readSizingMonthly m s =
     map (monthly_of (mg_label m)) (group_rows (\<lambda>r. (da_system r, da_node r))
       (filter (\<lambda>r. da_day r \<ge> mg_from m \<and> da_day r \<le> mg_to m) (ss_daily s)))"

definition writeSizingMonthly :: "monthly_row list \<Rightarrow> sizing_store \<Rightarrow> sizing_store" where
  "writeSizingMonthly rows s = s\<lparr>ss_monthly := fold (upsert monthly_pk (\<lambda>_ new. new)) rows (ss_monthly s)\<rparr>"

text \<open>One transaction per month; \<open>k\<close> months are done before one fails.\<close>

definition rollup_months :: "month_range list \<Rightarrow> sizing_store \<Rightarrow> sizing_store" where
  "rollup_months ms s = fold (\<lambda>m s. writeSizingMonthly (readSizingMonthly m s) s) ms s"

definition RollupSizingMonthly :: "int \<Rightarrow> int \<Rightarrow> sizing_store \<Rightarrow> sizing_store" where
  "RollupSizingMonthly fromDay toDay s = rollup_months (monthRanges fromDay toDay) s"

definition PruneSizingDaily :: "int \<Rightarrow> sizing_store \<Rightarrow> int \<times> sizing_store" where
  "PruneSizingDaily olderThanDay s =
     (int (length (filter (\<lambda>r. da_day r < olderThanDay) (ss_daily s)) + length (filter (\<lambda>r. mo_day r < olderThanDay) (ss_modules s))
        + length (filter (\<lambda>r. me_day r < olderThanDay) (ss_metrics s)) + length (filter (\<lambda>r. cd_day r < olderThanDay) (ss_cluster s))
        + length (filter (\<lambda>r. in_day r < olderThanDay) (ss_ingest s))),
      s\<lparr>ss_daily := filter (\<lambda>r. \<not> da_day r < olderThanDay) (ss_daily s),
        ss_modules := filter (\<lambda>r. \<not> mo_day r < olderThanDay) (ss_modules s),
        ss_metrics := filter (\<lambda>r. \<not> me_day r < olderThanDay) (ss_metrics s),
        ss_cluster := filter (\<lambda>r. \<not> cd_day r < olderThanDay) (ss_cluster s),
        ss_ingest := filter (\<lambda>r. \<not> in_day r < olderThanDay) (ss_ingest s)\<rparr>)"

end
