(* ===== verification/Sizing_Api.thy ===== *)
theory Sizing_Api
  imports Httpx Sizing_Sanitize Sizing_Store
begin

text \<open>
  The client API of fleet sizing, \<open>internal/api/sizing\<close>. What the size-capped decompressor and the
  JSON decoder make of a body is an argument, \<open>decode gzipped body\<close>, as is the declared length of
  the body. Each of the two calls of the store may fail.
\<close>

definition maxSizingReportSize :: int where "maxSizingReportSize = 8 * 1024 * 1024"

subsection \<open>Scoring on the way in\<close>

definition fresh_row :: "san_node \<Rightarrow> node_day_row" where
  "fresh_row n =
     \<lparr>nd_system = [], nd_node = zn_node_id n, nd_day = 0, nd_metrics_present = zn_metrics_present n,
      nd_coverage = zn_sample_coverage n, nd_hardware = zn_hardware n, nd_resources = zn_resources n,
      nd_stress = zn_stress n, nd_modules = zn_modules n,
      nd_score = \<lparr>sc_version = 0, sc_pressure = None, sc_mem = None, sc_cpu = None, sc_io = None, sc_disk = None,
        sc_top_axis = [], sc_reasons = []\<rparr>\<rparr>"

definition score_day :: "san_day \<Rightarrow> day_rows" where
  "score_day d =
     \<lparr>dy_day = zd_day d, dy_nodes = map (\<lambda>n. SetScore (Evaluate n) (fresh_row n)) (zd_nodes d),
      dy_cluster_workload = zd_cluster_workload d\<rparr>"

definition scoreSizingDays :: "san_day list \<Rightarrow> day_rows list" where
  "scoreSizingDays days = map score_day days"

subsection \<open>Reports\<close>

text \<open>An answer: an error status, or 202 with the stored days, the stored nodes and the counters.\<close>

datatype sizing_answer = SizingRefused nat | SizingAccepted int int sizing_counters

definition counter_day :: "day_rows list \<Rightarrow> int" where
  "counter_day days = (if days = [] then 0 else dy_day (last days))"

definition accept_report ::
  "int \<Rightarrow> bool \<Rightarrow> bool \<Rightarrow> string \<Rightarrow> sizing_report \<Rightarrow> int \<Rightarrow> sizing_store \<Rightarrow> sizing_answer \<times> sizing_store" where
  "accept_report cap upsert_fails record_fails sys report now s =
     (case sizing_Sanitize report cap now of (sanitized, counters) \<Rightarrow>
        let reporter = CleanReporterVersion (sr_reporter_version report); days = scoreSizingDays sanitized
        in if upsert_fails then (SizingRefused 503, s)
           else case UpsertSizingDays sys reporter days now s of
                  None \<Rightarrow> (SizingRefused 503, s)
                | Some (stored, s1) \<Rightarrow>
                    (SizingAccepted (int (length days)) stored counters,
                     if record_fails then s1 else RecordSizingIngest (counter_day days) sys reporter counters now s1))"

definition handleReports ::
  "(bool \<Rightarrow> string \<Rightarrow> sizing_report decoded) \<Rightarrow> trusted_proxies \<Rightarrow> int \<Rightarrow> bool \<Rightarrow> bool \<Rightarrow> http_request \<Rightarrow> int \<Rightarrow> int
     \<Rightarrow> sizing_store \<Rightarrow> sizing_answer \<times> sizing_store" where
  "handleReports decode trusted cap upsert_fails record_fails r content_length now s =
     (if hr_method r \<noteq> ''POST'' then (SizingRefused 405, s)
      else case SystemID r trusted of
        Inl _ \<Rightarrow> (SizingRefused 401, s)
      | Inr sys \<Rightarrow>
          if content_length > maxSizingReportSize then (SizingRefused 413, s)
          else case decode (hr_content_encoding r = ''gzip'') (hr_body r) of
            BodyBadGzip \<Rightarrow> (SizingRefused 400, s)
          | BodyTooBig \<Rightarrow> (SizingRefused 413, s)
          | BodyBadJson \<Rightarrow> (SizingRefused 400, s)
          | Decoded report \<Rightarrow>
              if sr_schema_version report \<noteq> SizingSchemaVersion then (SizingRefused 400, s)
              else if sr_system_id report \<noteq> [] \<and> sr_system_id report \<noteq> sys then (SizingRefused 403, s)
              else accept_report cap upsert_fails record_fails sys report now s)"

end
