(* ===== verification/Sizing_Sanitize_Props.thy ===== *)
theory Sizing_Sanitize_Props
  imports Sizing_Sanitize
begin

text \<open>
  What the sanitizer of fleet sizing lets through, and that its counters account for the rest.
\<close>

subsection \<open>Valid rows\<close>

text \<open>What a sum of valid values can be: not negative, below the limit or overflown.\<close>

fun stored_value :: "go_float \<Rightarrow> bool" where
  "stored_value (Finite q) = (0 \<le> q \<and> q < float_limit)"
| "stored_value (Infinite b) = b"
| "stored_value NaN = False"

definition valid_metrics :: "(string \<times> go_float) list \<Rightarrow> bool" where
  "valid_metrics m \<longleftrightarrow> distinct (map fst m) \<and> length m \<le> MaxMetricsPerFamily
     \<and> list_all (\<lambda>(k, v). validMetricKey k \<and> stored_value v) m"

lemma valid_metrics_Nil: "valid_metrics []"
  by (simp add: valid_metrics_def)

definition valid_module :: "san_module \<Rightarrow> bool" where
  "valid_module z \<longleftrightarrow> zm_family z \<noteq> [] \<and> list_all family_byte (zm_family z) \<and> zm_facts_ok z \<le> zm_instances z
     \<and> int64 (zm_instances z)
     \<and> sorted (zm_versions z) \<and> distinct (zm_versions z) \<and> length (zm_versions z) \<le> MaxVersions
     \<and> valid_metrics (zm_workload z)"

definition nonneg_opt :: "rat option \<Rightarrow> bool" where
  "nonneg_opt v = (case v of None \<Rightarrow> True | Some x \<Rightarrow> 0 \<le> x)"

definition unit_opt :: "rat option \<Rightarrow> bool" where
  "unit_opt v = (case v of None \<Rightarrow> True | Some x \<Rightarrow> 0 \<le> x \<and> x \<le> 1)"

definition valid_resources :: "rat sizing_resources \<Rightarrow> bool" where
  "valid_resources r \<longleftrightarrow> unit_opt (ru_ram_util r) \<and> nonneg_opt (ru_ram_used r) \<and> unit_opt (ru_cpu_util r)
     \<and> nonneg_opt (ru_cpu_cores_used r) \<and> nonneg_opt (ru_load15 r) \<and> unit_opt (ru_fs_used r)
     \<and> nonneg_opt (ru_fs_days r) \<and> unit_opt (ru_disk_io r)"

definition valid_stress :: "rat sizing_stress \<Rightarrow> bool" where
  "valid_stress s \<longleftrightarrow> unit_opt (su_iowait s) \<and> nonneg_opt (su_swap_in s) \<and> nonneg_opt (su_oom_kills s)
     \<and> nonneg_opt (su_reboots s)"

definition valid_node :: "san_node \<Rightarrow> bool" where
  "valid_node n \<longleftrightarrow> 1 \<le> zn_node_id n \<and> 0 \<le> zn_sample_coverage n \<and> zn_sample_coverage n \<le> 1
     \<and> 0 \<le> hw_cpu_cores (zn_hardware n) \<and> 0 \<le> hw_mem_total_bytes (zn_hardware n)
     \<and> valid_resources (zn_resources n) \<and> valid_stress (zn_stress n)
     \<and> sorted_wrt (<) (map zm_family (zn_modules n)) \<and> length (zn_modules n) \<le> MaxFamiliesPerNode
     \<and> list_all valid_module (zn_modules n)"

definition valid_day :: "nat \<Rightarrow> int \<Rightarrow> san_day \<Rightarrow> bool" where
  "valid_day maxNodes today d \<longleftrightarrow> today - MaxDayAge \<le> zd_day d \<and> zd_day d \<le> today - MinDayAge
     \<and> sorted_wrt (<) (map zn_node_id (zd_nodes d)) \<and> length (zd_nodes d) \<le> maxNodes
     \<and> list_all valid_node (zd_nodes d) \<and> valid_metrics (zd_cluster_workload d)"

subsection \<open>Counters apart\<close>

text \<open>The counters of days and nodes, which nothing below a node touches.\<close>

definition day_counters :: "sizing_counters \<Rightarrow> int list" where
  "day_counters c = [AcceptedNodes c, DroppedDay c, DroppedDuplicate c, DroppedNode c, TruncatedDays c, TruncatedNodes c]"

lemma fraction_of_props:
  "unit_opt (fst (fraction_of v c))" "AcceptedModules (snd (fraction_of v c)) = AcceptedModules c"
  "AcceptedMetrics (snd (fraction_of v c)) = AcceptedMetrics c" "day_counters (snd (fraction_of v c)) = day_counters c"
  by (cases v; simp add: fraction_of_def unit_opt_def day_counters_def; cases "the v"; simp add: min_def)+

lemma quantity_props:
  "nonneg_opt (fst (quantity v c))" "AcceptedModules (snd (quantity v c)) = AcceptedModules c"
  "AcceptedMetrics (snd (quantity v c)) = AcceptedMetrics c" "day_counters (snd (quantity v c)) = day_counters c"
  by (cases v; simp add: quantity_def nonneg_opt_def day_counters_def; cases "the v"; simp)+

lemma sanitizeResources_props:
  "valid_resources (fst (sanitizeResources r c))"
  "AcceptedModules (snd (sanitizeResources r c)) = AcceptedModules c"
  "AcceptedMetrics (snd (sanitizeResources r c)) = AcceptedMetrics c"
  "day_counters (snd (sanitizeResources r c)) = day_counters c"
  by (simp_all add: sanitizeResources_def split_beta valid_resources_def fraction_of_props quantity_props)

lemma sanitizeStress_props:
  "valid_stress (fst (sanitizeStress s c))"
  "AcceptedModules (snd (sanitizeStress s c)) = AcceptedModules c"
  "AcceptedMetrics (snd (sanitizeStress s c)) = AcceptedMetrics c"
  "day_counters (snd (sanitizeStress s c)) = day_counters c"
  by (simp_all add: sanitizeStress_def split_beta valid_stress_def fraction_of_props quantity_props)

subsection \<open>Workloads\<close>

definition metrics_ok :: "(string \<times> go_float) list \<Rightarrow> bool" where
  "metrics_ok m \<longleftrightarrow> distinct (map fst m) \<and> list_all (\<lambda>(k, v). validMetricKey k \<and> stored_value v) m"

lemma add_metric_keys: "fst ` set (add_metric k v m) = insert k (fst ` set m)"
  by (induction k v m rule: add_metric.induct) auto

lemma float_add_stored: "stored_value x \<Longrightarrow> validValue v \<Longrightarrow> stored_value (float_add x v)"
proof -
  have "0 < float_limit" by (simp add: float_limit_def)
  then show "stored_value x \<Longrightarrow> validValue v \<Longrightarrow> stored_value (float_add x v)"
    by (cases x; cases v) (auto simp: not_le)
qed

lemma add_metric_ok: "metrics_ok m \<Longrightarrow> validMetricKey k \<Longrightarrow> validValue v \<Longrightarrow> metrics_ok (add_metric k v m)"
proof (induction k v m rule: add_metric.induct)
  case (1 k v)
  have "stored_value (Finite 0)" by (simp add: float_limit_def)
  then show ?case using 1 by (simp add: metrics_ok_def float_add_stored del: stored_value.simps)
next
  case (2 k v k' v' m)
  then show ?case using add_metric_keys [of k v m] by (auto simp: metrics_ok_def float_add_stored)
qed

lemma mergeWorkload_props:
  "metrics_ok (fst st) \<Longrightarrow> metrics_ok (fst (mergeWorkload src st))"
  "AcceptedModules (snd (mergeWorkload src st)) = AcceptedModules (snd st)"
  "AcceptedMetrics (snd (mergeWorkload src st)) = AcceptedMetrics (snd st)"
  "day_counters (snd (mergeWorkload src st)) = day_counters (snd st)"
  by (induction src st rule: mergeWorkload.induct)
    (simp_all add: Let_def day_counters_def add_metric_ok)

lemma bound_metrics_props:
  assumes "metrics_ok m"
  shows "valid_metrics (fst (bound_metrics m c))"
    "AcceptedModules (snd (bound_metrics m c)) = AcceptedModules c"
    "AcceptedMetrics (snd (bound_metrics m c)) = AcceptedMetrics c + int (length (fst (bound_metrics m c)))"
    "day_counters (snd (bound_metrics m c)) = day_counters c"
proof -
  have "metrics_ok (truncateMetrics m)"
    using assms set_take_subset [of MaxMetricsPerFamily "sort_key fst m"]
    by (auto simp: metrics_ok_def truncateMetrics_def list_all_iff distinct_map inj_on_def)
  then show "valid_metrics (fst (bound_metrics m c))"
    using assms by (simp add: bound_metrics_def Let_def valid_metrics_def metrics_ok_def) (simp add: truncateMetrics_def)
qed (simp_all add: bound_metrics_def Let_def day_counters_def)

lemma fold_merge_props:
  "metrics_ok (fst st) \<Longrightarrow> metrics_ok (fst (fold mergeWorkload domains st))"
  "AcceptedModules (snd (fold mergeWorkload domains st)) = AcceptedModules (snd st)"
  "AcceptedMetrics (snd (fold mergeWorkload domains st)) = AcceptedMetrics (snd st)"
  "day_counters (snd (fold mergeWorkload domains st)) = day_counters (snd st)"
  by (induction domains arbitrary: st)
    (simp_all add: mergeWorkload_props)

lemma sanitizeClusterWorkload_props:
  "valid_metrics (fst (sanitizeClusterWorkload ds c))"
  "AcceptedModules (snd (sanitizeClusterWorkload ds c)) = AcceptedModules c"
  "AcceptedMetrics (snd (sanitizeClusterWorkload ds c)) = AcceptedMetrics c + int (length (fst (sanitizeClusterWorkload ds c)))"
  "day_counters (snd (sanitizeClusterWorkload ds c)) = day_counters c"
proof -
  have ok: "metrics_ok (fst (fold mergeWorkload ds ([], c)))" by (rule fold_merge_props(1)) (simp add: metrics_ok_def)
  note b = bound_metrics_props [OF ok] and f = fold_merge_props(2-) [where domains = ds and st = "([], c)"]
  show "valid_metrics (fst (sanitizeClusterWorkload ds c))"
    "AcceptedModules (snd (sanitizeClusterWorkload ds c)) = AcceptedModules c"
    "AcceptedMetrics (snd (sanitizeClusterWorkload ds c)) = AcceptedMetrics c + int (length (fst (sanitizeClusterWorkload ds c)))"
    "day_counters (snd (sanitizeClusterWorkload ds c)) = day_counters c"
    using b f by (auto simp: sanitizeClusterWorkload_def split_beta valid_metrics_def)
qed

subsection \<open>Modules\<close>

text \<open>What holds of the families of a node while they are folded.\<close>

definition module_ok :: "san_module \<Rightarrow> bool" where
  "module_ok z \<longleftrightarrow> zm_family z \<noteq> [] \<and> list_all family_byte (zm_family z) \<and> distinct (zm_versions z)
     \<and> length (zm_versions z) \<le> MaxVersions \<and> int64 (zm_instances z) \<and> metrics_ok (zm_workload z)"

lemma appendVersions_props:
  "distinct dst \<Longrightarrow> length dst \<le> MaxVersions \<Longrightarrow>
   distinct (appendVersions dst src) \<and> length (appendVersions dst src) \<le> MaxVersions"
  by (induction dst src rule: appendVersions.induct) (auto simp: Let_def)

lemma cleanFamily_bytes: "list_all family_byte (cleanFamily s)"
  by (simp add: cleanFamily_def Let_def)

lemma length_upsert_last:
  "length (upsert key (\<lambda>_ z. z) new rs) = length rs + (if find_key key (key new) rs = None then 1 else 0)"
  by (induction rs) auto

lemma set_upsert_last: "set (upsert key (\<lambda>_ z. z) new rs) \<subseteq> insert new (set rs)"
  by (induction rs) auto

lemma fold_module_props:
  assumes "keys_unique zm_family (fst st)" "list_all module_ok (fst st)"
  shows "keys_unique zm_family (fst (fold_module m st))" "list_all module_ok (fst (fold_module m st))"
    "AcceptedModules (snd (fold_module m st)) - int (length (fst (fold_module m st))) = AcceptedModules (snd st) - int (length (fst st))"
    "AcceptedMetrics (snd (fold_module m st)) = AcceptedMetrics (snd st)"
    "day_counters (snd (fold_module m st)) = day_counters (snd st)"
    "length (fst (fold_module m st)) \<le> Suc (length (fst st))"
proof -
  obtain mods c where st: "st = (mods, c)" by (cases st)
  define family where "family = cleanFamily (sm_family m)"
  have goal: "keys_unique zm_family (fst (fold_module m st)) \<and> list_all module_ok (fst (fold_module m st))
    \<and> AcceptedModules (snd (fold_module m st)) - int (length (fst (fold_module m st))) = AcceptedModules (snd st) - int (length (fst st))
    \<and> AcceptedMetrics (snd (fold_module m st)) = AcceptedMetrics (snd st)
    \<and> day_counters (snd (fold_module m st)) = day_counters (snd st)
    \<and> length (fst (fold_module m st)) \<le> Suc (length (fst st))"
  proof (cases "family = []")
    case True
    then show ?thesis using assms st by (simp add: fold_module_def Let_def family_def [symmetric] day_counters_def)
  next
    case False
    define seen where "seen = find_key zm_family family mods"
    define old where "old = (case seen of None \<Rightarrow> fresh_module family | Some z \<Rightarrow> z)"
    define c1 where "c1 = (if seen = None then c\<lparr>AcceptedModules := AcceptedModules c + 1\<rparr> else c)"
    define wc where "wc = mergeWorkload (sm_workload m) (zm_workload old, c1)"
    define new where "new = \<lparr>zm_family = family, zm_instances = wrap64 (zm_instances old + nonNegInt (sm_instances m)),
      zm_facts_ok = wrap64 (zm_facts_ok old + nonNegInt (sm_facts_ok m)),
      zm_versions = appendVersions (zm_versions old) (sm_versions m), zm_workload = fst wc\<rparr>"
    have r: "fold_module m st = (upsert zm_family (\<lambda>_ z. z) new mods, snd wc)"
      using False st by (simp add: fold_module_def Let_def family_def [symmetric] seen_def old_def c1_def wc_def new_def split_beta)
    have "distinct (zm_versions old) \<and> length (zm_versions old) \<le> MaxVersions \<and> metrics_ok (zm_workload old)"
    proof (cases seen)
      case None
      then show ?thesis by (simp add: old_def fresh_module_def metrics_ok_def)
    next
      case (Some z)
      then have "z \<in> set mods" using find_key_SomeD by (metis seen_def)
      then show ?thesis using Some assms(2) st by (simp add: old_def list_all_iff module_ok_def)
    qed
    then have "module_ok new"
      using False appendVersions_props mergeWorkload_props(1) [of "(zm_workload old, c1)"] cleanFamily_bytes
      by (simp add: module_ok_def new_def wc_def family_def)
    then have "list_all module_ok (upsert zm_family (\<lambda>_ z. z) new mods)"
      using set_upsert_last [of zm_family new mods] assms(2) st by (auto simp: list_all_iff)
    moreover have "keys_unique zm_family (upsert zm_family (\<lambda>_ z. z) new mods)"
      using assms(1) st by (intro keys_unique_upsert) auto
    moreover have "day_counters c1 = day_counters c" by (simp add: c1_def day_counters_def)
    then have "AcceptedModules (snd wc) = AcceptedModules c + (if seen = None then 1 else 0)"
      "AcceptedMetrics (snd wc) = AcceptedMetrics c" "day_counters (snd wc) = day_counters c"
      by (simp_all add: wc_def mergeWorkload_props) (simp_all add: c1_def)
    moreover have "zm_family new = family" by (simp add: new_def)
    ultimately show ?thesis
      unfolding r by (simp add: st length_upsert_last seen_def)
  qed
  then show "keys_unique zm_family (fst (fold_module m st))" "list_all module_ok (fst (fold_module m st))"
    "AcceptedModules (snd (fold_module m st)) - int (length (fst (fold_module m st))) = AcceptedModules (snd st) - int (length (fst st))"
    "AcceptedMetrics (snd (fold_module m st)) = AcceptedMetrics (snd st)"
    "day_counters (snd (fold_module m st)) = day_counters (snd st)"
    "length (fst (fold_module m st)) \<le> Suc (length (fst st))" by blast+
qed

lemma fold_modules_props:
  assumes "keys_unique zm_family (fst st)" "list_all module_ok (fst st)"
  shows "keys_unique zm_family (fst (fold fold_module ms st)) \<and> list_all module_ok (fst (fold fold_module ms st))
    \<and> AcceptedModules (snd (fold fold_module ms st)) - int (length (fst (fold fold_module ms st)))
        = AcceptedModules (snd st) - int (length (fst st))
    \<and> AcceptedMetrics (snd (fold fold_module ms st)) = AcceptedMetrics (snd st)
    \<and> day_counters (snd (fold fold_module ms st)) = day_counters (snd st)
    \<and> length (fst (fold fold_module ms st)) \<le> length (fst st) + length ms"
  using assms
proof (induction ms arbitrary: st)
  case (Cons m ms)
  note p = fold_module_props [OF Cons.prems, of m]
  from Cons.IH [OF p(1,2)] p(3-) show ?case by simp
qed simp

lemma finish_modules_props:
  assumes "list_all module_ok zs"
  shows "map zm_family (fst (finish_modules zs c)) = map zm_family zs \<and> list_all valid_module (fst (finish_modules zs c))
    \<and> AcceptedModules (snd (finish_modules zs c)) = AcceptedModules c
    \<and> AcceptedMetrics (snd (finish_modules zs c)) = AcceptedMetrics c
        + int (sum_list (map (\<lambda>z. length (zm_workload z)) (fst (finish_modules zs c))))
    \<and> day_counters (snd (finish_modules zs c)) = day_counters c"
  using assms
proof (induction zs arbitrary: c)
  case (Cons z zs)
  have z: "module_ok z" and m: "metrics_ok (zm_workload z)" using Cons.prems by (simp_all add: module_ok_def)
  note b = bound_metrics_props [OF m, of c] and IH = Cons.IH [of "snd (bound_metrics (zm_workload z) c)"]
  show ?case using Cons.prems z b IH by (simp add: split_beta valid_module_def module_ok_def)
qed simp

lemma sanitizeNode_props:
  "zn_node_id (fst (sanitizeNode n c)) = sn_node_id n"
  "1 \<le> sn_node_id n \<Longrightarrow> valid_node (fst (sanitizeNode n c))"
  "AcceptedModules (snd (sanitizeNode n c)) = AcceptedModules c + int (length (zn_modules (fst (sanitizeNode n c))))"
  "AcceptedMetrics (snd (sanitizeNode n c)) = AcceptedMetrics c
     + int (sum_list (map (\<lambda>z. length (zm_workload z)) (zn_modules (fst (sanitizeNode n c)))))"
  "day_counters (snd (sanitizeNode n c)) = day_counters c"
proof -
  define c2 where "c2 = snd (sanitizeStress (sn_stress n) (snd (sanitizeResources (sn_resources n) c)))"
  define c3 where "c3 = (if length (sn_modules n) > MaxFamiliesPerNode
    then c2\<lparr>TruncatedFamilies := TruncatedFamilies c2 + int (length (sn_modules n) - MaxFamiliesPerNode)\<rparr> else c2)"
  define folded where "folded = fold fold_module (take MaxFamiliesPerNode (sn_modules n)) ([], c3)"
  define fin where "fin = finish_modules (sort_key zm_family (fst folded)) (snd folded)"
  have r: "sanitizeNode n c =
    (\<lparr>zn_node_id = sn_node_id n, zn_metrics_present = sn_metrics_present n, zn_sample_coverage = coverage (sn_sample_coverage n),
      zn_hardware = sanitizeHardware (sn_hardware n), zn_resources = fst (sanitizeResources (sn_resources n) c),
      zn_stress = fst (sanitizeStress (sn_stress n) (snd (sanitizeResources (sn_resources n) c))), zn_modules = fst fin\<rparr>, snd fin)"
    by (simp add: sanitizeNode_def split_beta Let_def c2_def c3_def folded_def fin_def)
  have c3: "AcceptedModules c3 = AcceptedModules c" "AcceptedMetrics c3 = AcceptedMetrics c" "day_counters c3 = day_counters c"
  proof -
    have "AcceptedModules c3 = AcceptedModules c2" "AcceptedMetrics c3 = AcceptedMetrics c2" "day_counters c3 = day_counters c2"
      by (simp_all add: c3_def day_counters_def)
    then show "AcceptedModules c3 = AcceptedModules c" "AcceptedMetrics c3 = AcceptedMetrics c" "day_counters c3 = day_counters c"
      by (simp_all add: c2_def sanitizeStress_props sanitizeResources_props)
  qed
  have f: "keys_unique zm_family (fst folded) \<and> list_all module_ok (fst folded)
    \<and> AcceptedModules (snd folded) - int (length (fst folded)) = AcceptedModules c3 \<and> AcceptedMetrics (snd folded) = AcceptedMetrics c3
    \<and> day_counters (snd folded) = day_counters c3 \<and> length (fst folded) \<le> length (take MaxFamiliesPerNode (sn_modules n))"
    unfolding folded_def using fold_modules_props [of "([], c3)" "take MaxFamiliesPerNode (sn_modules n)"]
    by (simp add: keys_unique_def)
  then have "list_all module_ok (sort_key zm_family (fst folded))" by (simp add: list_all_iff)
  note fin = finish_modules_props [OF this, of "snd folded", folded fin_def]
  have len: "length (fst fin) = length (fst folded)"
    using fin by (metis length_map length_sort)
  have "distinct (map zm_family (fst folded))" using f by (simp add: keys_unique_def)
  then have "distinct (map zm_family (sort_key zm_family (fst folded)))" by (simp add: distinct_map)
  then have sorted: "sorted_wrt (<) (map zm_family (fst fin))" using fin by (simp add: strict_sorted_iff)
  have cov: "0 \<le> coverage v \<and> coverage v \<le> 1" for v by (cases v) (simp_all add: coverage_def)
  show "zn_node_id (fst (sanitizeNode n c)) = sn_node_id n"
    "AcceptedModules (snd (sanitizeNode n c)) = AcceptedModules c + int (length (zn_modules (fst (sanitizeNode n c))))"
    "AcceptedMetrics (snd (sanitizeNode n c)) = AcceptedMetrics c
       + int (sum_list (map (\<lambda>z. length (zm_workload z)) (zn_modules (fst (sanitizeNode n c)))))"
    "day_counters (snd (sanitizeNode n c)) = day_counters c"
    using f fin len c3 by (simp_all add: r)
  show "valid_node (fst (sanitizeNode n c))" if "1 \<le> sn_node_id n"
    using that f fin len sorted cov
    by (simp add: r valid_node_def sanitizeResources_props sanitizeStress_props sanitizeHardware_def nonNegInt_def)
qed

subsection \<open>Nodes and days\<close>

definition node_modules :: "san_node list \<Rightarrow> nat" where
  "node_modules ns = sum_list (map (\<lambda>n. length (zn_modules n)) ns)"

definition node_metrics :: "san_node list \<Rightarrow> nat" where
  "node_metrics ns = sum_list (map (\<lambda>n. sum_list (map (\<lambda>z. length (zm_workload z)) (zn_modules n))) ns)"

text \<open>Every node of a day is accepted, refused for its id or a repetition of one before.\<close>

definition node_balance :: "sizing_counters \<Rightarrow> int" where
  "node_balance c = AcceptedNodes c + DroppedNode c + DroppedDuplicate c"

lemma day_countersD:
  assumes "day_counters c = day_counters d"
  shows "AcceptedNodes c = AcceptedNodes d" "DroppedDay c = DroppedDay d" "DroppedDuplicate c = DroppedDuplicate d"
    "DroppedNode c = DroppedNode d" "TruncatedDays c = TruncatedDays d" "TruncatedNodes c = TruncatedNodes d"
  using assms by (simp_all add: day_counters_def)

lemma sanitize_nodes_props:
  "list_all valid_node (fst (sanitize_nodes ns seen c))
   \<and> distinct (map zn_node_id (fst (sanitize_nodes ns seen c)))
   \<and> set (map zn_node_id (fst (sanitize_nodes ns seen c))) \<inter> set seen = {}
   \<and> length (fst (sanitize_nodes ns seen c)) \<le> length ns
   \<and> AcceptedNodes (snd (sanitize_nodes ns seen c)) = AcceptedNodes c + int (length (fst (sanitize_nodes ns seen c)))
   \<and> AcceptedModules (snd (sanitize_nodes ns seen c)) = AcceptedModules c + int (node_modules (fst (sanitize_nodes ns seen c)))
   \<and> AcceptedMetrics (snd (sanitize_nodes ns seen c)) = AcceptedMetrics c + int (node_metrics (fst (sanitize_nodes ns seen c)))
   \<and> node_balance (snd (sanitize_nodes ns seen c)) = node_balance c + int (length ns)
   \<and> DroppedDay (snd (sanitize_nodes ns seen c)) = DroppedDay c \<and> TruncatedDays (snd (sanitize_nodes ns seen c)) = TruncatedDays c
   \<and> TruncatedNodes (snd (sanitize_nodes ns seen c)) = TruncatedNodes c"
proof (induction ns arbitrary: seen c)
  case Nil
  then show ?case by (simp add: node_modules_def node_metrics_def)
next
  case (Cons n ns)
  consider "sn_node_id n < 1" | "1 \<le> sn_node_id n" "sn_node_id n \<in> set seen" | "1 \<le> sn_node_id n" "sn_node_id n \<notin> set seen" by linarith
  then show ?case
  proof cases
    case 1
    with Cons.IH [of seen "c\<lparr>DroppedNode := DroppedNode c + 1\<rparr>"] show ?thesis by (auto simp: node_balance_def)
  next
    case 2
    with Cons.IH [of seen "c\<lparr>DroppedDuplicate := DroppedDuplicate c + 1\<rparr>"] show ?thesis by (auto simp: node_balance_def)
  next
    case 3
    define z where "z = sanitizeNode n c"
    note p = sanitizeNode_props [of n c, folded z_def] and d = day_countersD [OF sanitizeNode_props(5) [of n c], folded z_def]
    have r: "sanitize_nodes (n # ns) seen c =
      (fst z # fst (sanitize_nodes ns (sn_node_id n # seen) ((snd z)\<lparr>AcceptedNodes := AcceptedNodes (snd z) + 1\<rparr>)),
       snd (sanitize_nodes ns (sn_node_id n # seen) ((snd z)\<lparr>AcceptedNodes := AcceptedNodes (snd z) + 1\<rparr>)))"
      using 3 by (simp add: z_def split_beta)
    show ?thesis unfolding r
      using Cons.IH [of "sn_node_id n # seen" "(snd z)\<lparr>AcceptedNodes := AcceptedNodes (snd z) + 1\<rparr>"] p(1,2,3,4) d 3
      by (auto simp: node_balance_def node_modules_def node_metrics_def)
  qed
qed

definition day_metrics :: "san_day \<Rightarrow> nat" where
  "day_metrics d = node_metrics (zd_nodes d) + length (zd_cluster_workload d)"

lemma sum_list_sort: "sum_list (map f (sort_key k xs)) = sum_list (map f xs)" for f :: "'a \<Rightarrow> nat"
  by (metis mset_map mset_sort sum_mset_sum_list)

lemma sanitize_day_props:
  assumes "today - MaxDayAge \<le> day" "day \<le> today - MinDayAge"
  shows "valid_day maxNodes today (fst (sanitize_day maxNodes day d c)) \<and> zd_day (fst (sanitize_day maxNodes day d c)) = day
   \<and> AcceptedNodes (snd (sanitize_day maxNodes day d c)) = AcceptedNodes c + int (length (zd_nodes (fst (sanitize_day maxNodes day d c))))
   \<and> AcceptedModules (snd (sanitize_day maxNodes day d c)) = AcceptedModules c + int (node_modules (zd_nodes (fst (sanitize_day maxNodes day d c))))
   \<and> AcceptedMetrics (snd (sanitize_day maxNodes day d c)) = AcceptedMetrics c + int (day_metrics (fst (sanitize_day maxNodes day d c)))
   \<and> node_balance (snd (sanitize_day maxNodes day d c)) + TruncatedNodes (snd (sanitize_day maxNodes day d c))
       = node_balance c + TruncatedNodes c + int (length (sd_nodes d))
   \<and> DroppedDay (snd (sanitize_day maxNodes day d c)) = DroppedDay c
   \<and> TruncatedDays (snd (sanitize_day maxNodes day d c)) = TruncatedDays c"
proof -
  define c1 where "c1 = (if length (sd_nodes d) > maxNodes
    then c\<lparr>TruncatedNodes := TruncatedNodes c + int (length (sd_nodes d) - maxNodes)\<rparr> else c)"
  define ns where "ns = sanitize_nodes (take maxNodes (sd_nodes d)) [] c1"
  define w where "w = (case sd_cluster d of None \<Rightarrow> ([], snd ns) | Some domains \<Rightarrow> sanitizeClusterWorkload domains (snd ns))"
  have r: "sanitize_day maxNodes day d c =
      (\<lparr>zd_day = day, zd_nodes = sort_key zn_node_id (fst ns), zd_cluster_workload = fst w\<rparr>, snd w)"
    by (simp only: sanitize_day_def Let_def split_beta c1_def [symmetric] ns_def [symmetric] w_def [symmetric])
  have c1: "node_balance c1 = node_balance c" "TruncatedNodes c1 + int (length (take maxNodes (sd_nodes d))) = TruncatedNodes c + int (length (sd_nodes d))"
    "AcceptedNodes c1 = AcceptedNodes c" "AcceptedModules c1 = AcceptedModules c" "AcceptedMetrics c1 = AcceptedMetrics c"
    "DroppedDay c1 = DroppedDay c" "TruncatedDays c1 = TruncatedDays c"
    by (simp_all add: c1_def node_balance_def)
  note n = sanitize_nodes_props [of "take maxNodes (sd_nodes d)" "[]" c1, folded ns_def]
  have w: "valid_metrics (fst w)" "AcceptedModules (snd w) = AcceptedModules (snd ns)"
    "AcceptedMetrics (snd w) = AcceptedMetrics (snd ns) + int (length (fst w))" "day_counters (snd w) = day_counters (snd ns)"
    by (simp_all add: w_def sanitizeClusterWorkload_props valid_metrics_Nil split: option.split)
  note d = day_countersD [OF w(4)]
  have "distinct (map zn_node_id (sort_key zn_node_id (fst ns)))" using n by (simp add: distinct_map)
  then have "sorted_wrt (<) (map zn_node_id (sort_key zn_node_id (fst ns)))" by (simp add: strict_sorted_iff)
  moreover have "list_all valid_node (sort_key zn_node_id (fst ns))" using n by (simp add: list_all_iff)
  moreover have "length (fst ns) \<le> maxNodes" using n by auto
  ultimately have "valid_day maxNodes today (fst (sanitize_day maxNodes day d c))"
    using assms w(1) by (simp add: r valid_day_def)
  moreover have "node_balance (snd w) + TruncatedNodes (snd w) = node_balance c + TruncatedNodes c + int (length (sd_nodes d))"
    using n c1(1,2) d by (simp add: node_balance_def)
  ultimately show ?thesis
    using n w(2,3) d c1(3-) by (simp add: r day_metrics_def node_modules_def node_metrics_def sum_list_sort)
qed

text \<open>The days of a report that count: in range, the first of each.\<close>

fun kept_days :: "int \<Rightarrow> sizing_day list \<Rightarrow> int list \<Rightarrow> sizing_day list" where
  "kept_days today [] seen = []"
| "kept_days today (d # ds) seen =
     (if day_refused today d \<or> day_index d \<in> set seen then kept_days today ds seen
      else d # kept_days today ds (day_index d # seen))"

lemma sanitize_days_props:
  "list_all (valid_day maxNodes today) (fst (sanitize_days maxNodes today ds seen c))
   \<and> map zd_day (fst (sanitize_days maxNodes today ds seen c)) = map day_index (kept_days today ds seen)
   \<and> distinct (map day_index (kept_days today ds seen)) \<and> day_index ` set (kept_days today ds seen) \<inter> set seen = {}
   \<and> length (kept_days today ds seen) \<le> length ds
   \<and> AcceptedNodes (snd (sanitize_days maxNodes today ds seen c))
       = AcceptedNodes c + int (sum_list (map (\<lambda>d. length (zd_nodes d)) (fst (sanitize_days maxNodes today ds seen c))))
   \<and> AcceptedModules (snd (sanitize_days maxNodes today ds seen c))
       = AcceptedModules c + int (sum_list (map (\<lambda>d. node_modules (zd_nodes d)) (fst (sanitize_days maxNodes today ds seen c))))
   \<and> AcceptedMetrics (snd (sanitize_days maxNodes today ds seen c))
       = AcceptedMetrics c + int (sum_list (map day_metrics (fst (sanitize_days maxNodes today ds seen c))))
   \<and> node_balance (snd (sanitize_days maxNodes today ds seen c)) + TruncatedNodes (snd (sanitize_days maxNodes today ds seen c))
       + DroppedDay (snd (sanitize_days maxNodes today ds seen c)) + int (length (kept_days today ds seen))
       = node_balance c + TruncatedNodes c + DroppedDay c + int (length ds)
         + int (sum_list (map (\<lambda>d. length (sd_nodes d)) (kept_days today ds seen)))
   \<and> TruncatedDays (snd (sanitize_days maxNodes today ds seen c)) = TruncatedDays c"
proof (induction ds arbitrary: seen c)
  case Nil
  then show ?case by simp
next
  case (Cons d ds)
  consider "day_refused today d" | "\<not> day_refused today d" "day_index d \<in> set seen" | "\<not> day_refused today d" "day_index d \<notin> set seen" by blast
  then show ?case
  proof cases
    case 1
    with Cons.IH [of seen "c\<lparr>DroppedDay := DroppedDay c + 1\<rparr>"] show ?thesis by (simp add: node_balance_def)
  next
    case 2
    with Cons.IH [of seen "c\<lparr>DroppedDuplicate := DroppedDuplicate c + 1\<rparr>"] show ?thesis by (simp add: node_balance_def)
  next
    case 3
    define z where "z = sanitize_day maxNodes (day_index d) d c"
    have "today - MaxDayAge \<le> day_index d \<and> day_index d \<le> today - MinDayAge"
      using 3(1) by (auto simp: day_refused_def day_index_def split: option.splits)
    then have z: "valid_day maxNodes today (fst z)" "zd_day (fst z) = day_index d"
      "AcceptedNodes (snd z) = AcceptedNodes c + int (length (zd_nodes (fst z)))"
      "AcceptedModules (snd z) = AcceptedModules c + int (node_modules (zd_nodes (fst z)))"
      "AcceptedMetrics (snd z) = AcceptedMetrics c + int (day_metrics (fst z))"
      "node_balance (snd z) + TruncatedNodes (snd z) = node_balance c + TruncatedNodes c + int (length (sd_nodes d))"
      "DroppedDay (snd z) = DroppedDay c" "TruncatedDays (snd z) = TruncatedDays c"
      using sanitize_day_props [of today "day_index d" maxNodes d c, folded z_def] by auto
    have r: "sanitize_days maxNodes today (d # ds) seen c =
      (fst z # fst (sanitize_days maxNodes today ds (day_index d # seen) (snd z)), snd (sanitize_days maxNodes today ds (day_index d # seen) (snd z)))"
      "kept_days today (d # ds) seen = d # kept_days today ds (day_index d # seen)"
      using 3 by (simp_all add: z_def split_beta)
    show ?thesis unfolding r using Cons.IH [of "day_index d # seen" "snd z"] z 3(2) by auto
  qed
qed

subsection \<open>Reports\<close>

lemma sanitized_days:
  "length (fst (sizing_Sanitize r opt now)) \<le> MaxDaysPerReport
   \<and> sorted_wrt (<) (map zd_day (fst (sizing_Sanitize r opt now)))
   \<and> list_all (valid_day (max_nodes opt) (go_div now dayMillis)) (fst (sizing_Sanitize r opt now))"
proof -
  define c where "c = (if length (sr_days r) > MaxDaysPerReport
    then no_counters\<lparr>TruncatedDays := int (length (sr_days r) - MaxDaysPerReport)\<rparr> else no_counters)"
  define days where "days = fst (sanitize_days (max_nodes opt) (go_div now dayMillis) (take MaxDaysPerReport (sr_days r)) [] c)"
  have r: "fst (sizing_Sanitize r opt now) = sort_key zd_day days"
    by (simp add: sizing_Sanitize_def Let_def split_beta c_def days_def)
  note p = sanitize_days_props [of "max_nodes opt" "go_div now dayMillis" "take MaxDaysPerReport (sr_days r)" "[]" c, folded days_def]
  have "distinct (map zd_day days)" using p by simp
  then have "distinct (map zd_day (sort_key zd_day days))" by (simp add: distinct_map)
  then have "sorted_wrt (<) (map zd_day (sort_key zd_day days))" by (simp add: strict_sorted_iff)
  moreover have "length days \<le> MaxDaysPerReport" using p by (metis length_map length_take min.bounded_iff)
  moreover have "list_all (valid_day (max_nodes opt) (go_div now dayMillis)) (sort_key zd_day days)" using p by (simp add: list_all_iff)
  ultimately show ?thesis by (simp add: r)
qed

lemma sanitized_balance:
  "(case sizing_Sanitize r opt now of (days, c) \<Rightarrow>
      AcceptedNodes c = int (sum_list (map (\<lambda>d. length (zd_nodes d)) days))
      \<and> AcceptedModules c = int (sum_list (map (\<lambda>d. node_modules (zd_nodes d)) days))
      \<and> AcceptedMetrics c = int (sum_list (map day_metrics days))
      \<and> int (length (sr_days r))
          + int (sum_list (map (\<lambda>d. length (sd_nodes d)) (kept_days (go_div now dayMillis) (take MaxDaysPerReport (sr_days r)) [])))
        = int (length days) + AcceptedNodes c
          + DroppedDay c + DroppedNode c + DroppedDuplicate c + TruncatedDays c + TruncatedNodes c)"
proof -
  define c where "c = (if length (sr_days r) > MaxDaysPerReport
    then no_counters\<lparr>TruncatedDays := int (length (sr_days r) - MaxDaysPerReport)\<rparr> else no_counters)"
  define res where "res = sanitize_days (max_nodes opt) (go_div now dayMillis) (take MaxDaysPerReport (sr_days r)) [] c"
  have r: "sizing_Sanitize r opt now = (sort_key zd_day (fst res), snd res)"
    by (simp add: sizing_Sanitize_def Let_def split_beta c_def res_def)
  have c: "AcceptedNodes c = 0" "AcceptedModules c = 0" "AcceptedMetrics c = 0" "node_balance c = 0" "TruncatedNodes c = 0"
    "DroppedDay c = 0" "TruncatedDays c = int (length (sr_days r)) - int (length (take MaxDaysPerReport (sr_days r)))"
    by (simp_all add: c_def no_counters_def node_balance_def)
  note p = sanitize_days_props [of "max_nodes opt" "go_div now dayMillis" "take MaxDaysPerReport (sr_days r)" "[]" c, folded res_def]
  have "length (fst res) = length (kept_days (go_div now dayMillis) (take MaxDaysPerReport (sr_days r)) [])"
    using p by (metis length_map)
  then show ?thesis using p c by (simp add: r sum_list_sort node_balance_def)
qed

lemma sanitized_accounts:
  "AcceptedNodes (snd (sizing_Sanitize r opt now)) = int (sum_list (map (\<lambda>d. length (zd_nodes d)) (fst (sizing_Sanitize r opt now))))"
  using sanitized_balance [of r now opt] by (simp add: split_beta)

text \<open>
  Sums are not kept in range. Two user domains, or two entries of one family, with a metric
  near the largest float are stored as an infinity, which the sanitizer refuses on the wire;
  and the instances of one family listed twice can add up to a negative number.
\<close>

lemma workload_overflows:
  "sanitizeClusterWorkload [[(''users'', Finite (10 ^ 308))], [(''users'', Finite (10 ^ 308))]] no_counters
     = ([(''users'', Infinite True)], no_counters\<lparr>AcceptedMetrics := 1\<rparr>)"
proof -
  have "TrimSpace ''users'' = ''users''" "validMetricKey ''users''" by code_simp+
  moreover have "float_add (Finite (10 ^ 308)) (Finite (10 ^ 308)) = Infinite True"
    "float_add (Finite 0) (Finite (10 ^ 308)) = Finite (10 ^ 308)" by (simp_all add: float_limit_def)
  ultimately show ?thesis
    by (simp add: sanitizeClusterWorkload_def Let_def bound_metrics_def MaxMetricsPerFamily_def no_counters_def
        del: float_add.simps power_eq_0_iff)
qed

lemma instances_wrap:
  "map zm_instances (fst (fold fold_module
     (replicate 2 \<lparr>sm_family = ''mail'', sm_instances = 2 ^ 63 - 1, sm_facts_ok = 0, sm_versions = [], sm_workload = []\<rparr>)
     ([], no_counters))) = [-2]"
  by code_simp


text \<open>
  Every day and node of a report is accounted for. The accepted counters count exactly the
  nodes, modules and metrics that will be stored; and the days that were sent, with the nodes of
  the days that count, are the stored days and nodes plus one refusal, repetition or truncation
  for each that is not stored.
\<close>

lemma sizing_Sanitize_accounting:
  "(case sizing_Sanitize r opt now of (days, c) \<Rightarrow>
      AcceptedNodes c = int (sum_list (map (\<lambda>d. length (zd_nodes d)) days))
      \<and> AcceptedModules c = int (sum_list (map (\<lambda>d. node_modules (zd_nodes d)) days))
      \<and> AcceptedMetrics c = int (sum_list (map day_metrics days))
      \<and> int (length (sr_days r))
          + int (sum_list (map (\<lambda>d. length (sd_nodes d)) (kept_days (go_div now dayMillis) (take MaxDaysPerReport (sr_days r)) [])))
        = int (length days) + AcceptedNodes c
          + DroppedDay c + DroppedNode c + DroppedDuplicate c + TruncatedDays c + TruncatedNodes c)"
  by (rule sanitized_balance)

end
