(* ===== verification/Sizing_Cohort.thy ===== *)
theory Sizing_Cohort
  imports Sizing_Model Prelude
begin

text \<open>
  Cohort keying, censoring and percentiles, \<open>internal/sizing/cohort.go\<close>. A node's workloads are
  an association list from family to its metrics, both without repeated keys; a metric that is
  absent reads 0, as in a Go map.
\<close>

definition CohortFamily :: string where "CohortFamily = ''family''"
definition CohortFamilySolo :: string where "CohortFamilySolo = ''family_solo''"

definition platformFamilies :: "string list" where
  "platformFamilies = [''loki'', ''ldapproxy'', ''metrics'', ''crowdsec'', ''traefik'', ''openldap'', ''samba'', ''nethvoice-proxy'']"

definition metric :: "string \<Rightarrow> (string \<times> go_float) list \<Rightarrow> go_float" where
  "metric k m = (case map_of m k of None \<Rightarrow> Finite 0 | Some v \<Rightarrow> v)"

definition IsPlatform :: "string \<Rightarrow> (string \<times> go_float) list \<Rightarrow> bool" where
  "IsPlatform family workload =
     (if family \<notin> set platformFamilies then False
      else if family = ''samba'' \<and> (metric ''shared_folders_count'' workload > Finite 0 \<or> metric ''shared_folders'' workload > Finite 0) then False
      else True)"

definition BusinessFamilies :: "(string \<times> (string \<times> go_float) list) list \<Rightarrow> string list" where
  "BusinessFamilies workloads = sort (map fst (filter (\<lambda>(family, w). \<not> IsPlatform family w) workloads))"

definition IsSolo :: "string \<Rightarrow> string list \<Rightarrow> bool" where
  "IsSolo family business \<longleftrightarrow> business = [family]"

definition CensorRAMUtil :: rat where "CensorRAMUtil = 90 / 100"

definition Censored :: "rat option \<Rightarrow> rat option \<Rightarrow> rat option \<Rightarrow> bool" where
  "Censored ramUtilP95 swapInPPS oomKills =
     (if (case ramUtilP95 of None \<Rightarrow> False | Some v \<Rightarrow> v \<ge> CensorRAMUtil) then True
      else if (case swapInPPS of None \<Rightarrow> False | Some v \<Rightarrow> v > 0) then True
      else (case oomKills of None \<Rightarrow> False | Some v \<Rightarrow> v > 0))"

definition NodeReduceQuantile :: rat where "NodeReduceQuantile = 90 / 100"

definition Quantile :: "rat list \<Rightarrow> rat \<Rightarrow> rat \<times> bool" where
  "Quantile values q0 =
     (if values = [] then (0, False)
      else let sorted = sort values
           in if length sorted = 1 then (sorted ! 0, True)
              else let q = min 1 (max 0 q0); pos = q * of_nat (length sorted - 1);
                       lo = nat \<lfloor>pos\<rfloor>; hi = nat \<lceil>pos\<rceil>
                   in if lo = hi then (sorted ! lo, True)
                      else let frac = pos - of_nat lo in (sorted ! lo * (1 - frac) + sorted ! hi * frac, True))"

definition ReduceNode :: "rat list \<Rightarrow> rat \<times> bool" where
  "ReduceNode daily = Quantile daily NodeReduceQuantile"

text \<open>A percentile lies between the smallest and the largest value.\<close>

lemma Quantile_between:
  assumes "values \<noteq> []" "\<And>v. v \<in> set values \<Longrightarrow> lo \<le> v \<and> v \<le> hi"
  shows "snd (Quantile values q) \<and> lo \<le> fst (Quantile values q) \<and> fst (Quantile values q) \<le> hi"
proof (cases "length values = 1")
  case True
  then have "sort values ! 0 \<in> set values" by (metis length_sort lessI nth_mem One_nat_def set_sort)
  then show ?thesis using assms True by (simp add: Quantile_def)
next
  case False
  let ?s = "sort values" and ?q = "min 1 (max 0 q)"
  let ?pos = "?q * of_nat (length ?s - 1)"
  have at: "lo \<le> ?s ! i \<and> ?s ! i \<le> hi" if "i < length values" for i
    using that assms(2) [of "?s ! i"] by (metis length_sort nth_mem set_sort)
  have q: "0 \<le> ?q" "?q \<le> 1" by simp_all
  then have "?pos \<le> 1 * of_nat (length ?s - 1)" by (intro mult_right_mono) simp_all
  then have pos: "0 \<le> ?pos" "?pos \<le> of_nat (length values - 1)" using q by simp_all
  have i: "nat \<lfloor>?pos\<rfloor> < length values" "nat \<lceil>?pos\<rceil> < length values"
  proof -
    have "\<lceil>?pos\<rceil> \<le> int (length values - 1)" using pos(2) by (simp add: ceiling_le_iff)
    moreover have "\<lfloor>?pos\<rfloor> \<le> \<lceil>?pos\<rceil>" by (rule floor_le_ceiling)
    moreover have "0 < length values" using assms(1) by simp
    ultimately show "nat \<lfloor>?pos\<rfloor> < length values" "nat \<lceil>?pos\<rceil> < length values" by linarith+
  qed
  have f: "0 \<le> ?pos - of_nat (nat \<lfloor>?pos\<rfloor>)" "?pos - of_nat (nat \<lfloor>?pos\<rfloor>) \<le> 1"
    using pos(1) by (simp_all add: of_nat_nat) linarith+
  have mix: "lo \<le> a * (1 - t) + b * t \<and> a * (1 - t) + b * t \<le> hi" if "lo \<le> a \<and> a \<le> hi" "lo \<le> b \<and> b \<le> hi" "0 \<le> t" "t \<le> 1"
    for a b t :: rat
  proof -
    have "lo * (1 - t) \<le> a * (1 - t)" "a * (1 - t) \<le> hi * (1 - t)" "lo * t \<le> b * t" "b * t \<le> hi * t"
      using that by (simp_all add: mult_right_mono)
    then show ?thesis by (simp add: algebra_simps)
  qed
  have unfolded: "Quantile values q = (if nat \<lfloor>?pos\<rfloor> = nat \<lceil>?pos\<rceil> then (?s ! nat \<lfloor>?pos\<rfloor>, True)
      else (?s ! nat \<lfloor>?pos\<rfloor> * (1 - (?pos - of_nat (nat \<lfloor>?pos\<rfloor>)))
        + ?s ! nat \<lceil>?pos\<rceil> * (?pos - of_nat (nat \<lfloor>?pos\<rfloor>)), True))"
    using False assms(1) unfolding Quantile_def Let_def length_sort by (simp only: if_False)
  show ?thesis unfolding unfolded using at [OF i(1)] mix [OF at [OF i(1)] at [OF i(2)] f]
    by (simp only: fst_conv snd_conv simp_thms split: if_split)
qed

end
