(* ===== verification/Sizing_Pass.thy ===== *)
theory Sizing_Pass
  imports Sizing_Store Sizing_Cohort
begin

text \<open>
  The cohort pass of fleet sizing, \<open>internal/baseline/pass.go\<close>. A map of the pass is a list keyed by
  what the code keys it by, in order of first appearance; where the code sorts before it reads a
  map, so does the model. \<open>fails\<close> says which calls of the store fail; \<open>months_done\<close> how far a
  failing rollup came.
\<close>

record pass_config =
  pc_window_days :: int
  pc_min_distinct_systems :: int
  pc_min_nodes :: int
  pc_min_days_present :: int
  pc_retention :: int
  pc_recompute_batch :: int

definition DefaultRecomputeBatch :: int where "DefaultRecomputeBatch = 5000"
definition MonthlyRollupDays :: int where "MonthlyRollupDays = 45"

definition pass_New :: "pass_config \<Rightarrow> pass_config" where
  "pass_New cfg = cfg\<lparr>pc_recompute_batch := (if pc_recompute_batch cfg \<le> 0 then DefaultRecomputeBatch else pc_recompute_batch cfg),
     pc_window_days := (if pc_window_days cfg \<le> 0 then VerdictWindowDays else pc_window_days cfg),
     pc_min_days_present := (if pc_min_days_present cfg \<le> 0 then MinDaysPresent else pc_min_days_present cfg)\<rparr>"

datatype pass_call = PcStale | PcUpdate | PcWindow | PcStates | PcVerdicts | PcFamilies | PcMetrics | PcCohorts | PcExpire
  | PcRollup | PcPrune

subsection \<open>Scores\<close>

definition rescored :: "node_day_row \<Rightarrow> node_day_row" where
  "rescored row = SetScore (Evaluate (ScoreInput row)) row"

definition pass_recompute :: "pass_config \<Rightarrow> (pass_call \<Rightarrow> bool) \<Rightarrow> sizing_store \<Rightarrow> pass_call + sizing_store" where
  "pass_recompute cfg fails s =
     (if fails PcStale then Inl PcStale
      else let stale = StaleSizingScores PressureVersion (nat (pc_recompute_batch cfg)) s
           in if stale = [] then Inr s
              else if fails PcUpdate then Inl PcUpdate
              else Inr (UpdateSizingScores (map rescored stale) s))"

subsection \<open>Nodes\<close>

record pass_node =
  pn_system :: string
  pn_node :: int
  pn_days :: "day_score list"
  pn_ram_used :: "rat list"
  pn_cores_used :: "rat list"
  pn_ram_util :: "rat list"
  pn_latest_ram_util :: "rat option"
  pn_latest_day :: int
  pn_max_swap_in :: rat
  pn_max_oom :: rat
  pn_installed_ram :: rat
  pn_installed_cores :: rat
  pn_hardware_changed :: bool
  pn_workloads :: "(string \<times> (string \<times> go_float) list) list"

definition pass_key :: "pass_node \<Rightarrow> string" where
  "pass_key n = SizingNodeKey (pn_system n) (pn_node n)"

definition new_pass_node :: "string \<Rightarrow> int \<Rightarrow> pass_node" where
  "new_pass_node systemID nodeID =
     \<lparr>pn_system = systemID, pn_node = nodeID, pn_days = [], pn_ram_used = [], pn_cores_used = [], pn_ram_util = [],
      pn_latest_ram_util = None, pn_latest_day = 0, pn_max_swap_in = 0, pn_max_oom = 0, pn_installed_ram = 0,
      pn_installed_cores = 0, pn_hardware_changed = False, pn_workloads = []\<rparr>"

definition opt_list :: "'a option \<Rightarrow> 'a list" where
  "opt_list v = (case v of None \<Rightarrow> [] | Some x \<Rightarrow> [x])"

definition raise_to :: "rat option \<Rightarrow> rat \<Rightarrow> rat" where
  "raise_to v m = (case v of None \<Rightarrow> m | Some x \<Rightarrow> if x > m then x else m)"

definition fold_row :: "int \<Rightarrow> int \<Rightarrow> window_row \<Rightarrow> pass_node \<Rightarrow> pass_node" where
  "fold_row fromMillis now row n =
     (let usable = \<not> (wr_coverage row < MinSampleCoverage \<or> wr_pressure row = None)
      in n\<lparr>pn_days := pn_days n @ [\<lparr>ds_day = wr_day row, ds_pressure = wr_pressure row, ds_top_axis = wr_top_axis row\<rparr>],
           pn_hardware_changed := (if wr_hw_changed_at row \<ge> fromMillis \<and> wr_hw_changed_at row \<le> now then True else pn_hardware_changed n),
           pn_installed_cores := raise_to (Some (of_int (wr_cpu_cores row))) (pn_installed_cores n),
           pn_installed_ram := raise_to (Some (of_int (wr_mem_total row))) (pn_installed_ram n),
           pn_max_swap_in := raise_to (wr_swap_in row) (pn_max_swap_in n),
           pn_max_oom := raise_to (wr_oom_kills row) (pn_max_oom n),
           pn_latest_day := (if wr_day row \<ge> pn_latest_day n then wr_day row else pn_latest_day n),
           pn_latest_ram_util := (if wr_day row \<ge> pn_latest_day n then wr_ram_util row else pn_latest_ram_util n),
           pn_ram_used := pn_ram_used n @ (if usable then opt_list (wr_ram_used row) else []),
           pn_cores_used := pn_cores_used n @ (if usable then opt_list (wr_cores_used row) else []),
           pn_ram_util := pn_ram_util n @ (if usable then opt_list (wr_ram_util row) else [])\<rparr>)"

definition fold_window_row :: "int \<Rightarrow> int \<Rightarrow> window_row \<Rightarrow> pass_node list \<Rightarrow> pass_node list" where
  "fold_window_row fromMillis now row nodes =
     (let old = (case find_key pass_key (SizingNodeKey (wr_system row) (wr_node row)) nodes of
                   None \<Rightarrow> new_pass_node (wr_system row) (wr_node row) | Some n \<Rightarrow> n)
      in upsert pass_key (\<lambda>_ new. new) (fold_row fromMillis now row old) nodes)"

definition foldNodes :: "window_row list \<Rightarrow> int \<Rightarrow> int \<Rightarrow> pass_node list" where
  "foldNodes window fromDay now = fold (fold_window_row (fromDay * dayMillis) now) window []"

definition attach_family :: "family_row \<Rightarrow> pass_node list \<Rightarrow> pass_node list" where
  "attach_family f nodes = map (\<lambda>n. if pass_key n = SizingNodeKey (fa_system f) (fa_node f)
     then n\<lparr>pn_workloads := upsert fst (\<lambda>old _. old) (fa_family f, []) (pn_workloads n)\<rparr> else n) nodes"

definition attach_metric :: "family_metric_row \<Rightarrow> pass_node list \<Rightarrow> pass_node list" where
  "attach_metric m nodes = map (\<lambda>n. if pass_key n = SizingNodeKey (fm_system m) (fm_node m)
     then n\<lparr>pn_workloads := upsert fst (\<lambda>old _. (fst old, upsert fst (\<lambda>_ new. new) (fm_metric m, fm_value m) (snd old)))
              (fm_family m, [(fm_metric m, fm_value m)]) (pn_workloads n)\<rparr> else n) nodes"

definition attachFamilies :: "family_row list \<Rightarrow> family_metric_row list \<Rightarrow> pass_node list \<Rightarrow> pass_node list" where
  "attachFamilies families metrics nodes = fold attach_metric metrics (fold attach_family families nodes)"

subsection \<open>Verdicts\<close>

definition cluster_util :: "string \<Rightarrow> pass_node list \<Rightarrow> rat list" where
  "cluster_util systemID nodes = concat (map (\<lambda>n. if pn_system n = systemID then opt_list (pn_latest_ram_util n) else []) nodes)"

definition verdict_of :: "pass_node list \<Rightarrow> (string \<Rightarrow> string) \<Rightarrow> int \<Rightarrow> int \<Rightarrow> int \<Rightarrow> pass_node \<Rightarrow> verdict_row" where
  "verdict_of nodes previous windowDays minDaysPresent now n =
     (let v = EvaluateVerdict (pn_days n) (previous (pass_key n)) minDaysPresent;
          util = cluster_util (pn_system n) nodes; p = ClusterPlacement util
      in \<lparr>ve_system = pn_system n, ve_node = pn_node n, ve_verdict = vd_state v, ve_top_axis = vd_top_axis v,
          ve_days_present = vd_days_present v, ve_bad_days = vd_bad_days v, ve_risk_days = vd_risk_days v,
          ve_window_days = windowDays, ve_cluster_nodes = int (length util),
          ve_spread = (if snd p \<noteq> [] then Some (fst p) else None), ve_placement = snd p, ve_updated_at = now\<rparr>)"

definition buildVerdicts :: "pass_node list \<Rightarrow> (string \<Rightarrow> string) \<Rightarrow> int \<Rightarrow> int \<Rightarrow> int \<Rightarrow> verdict_row list" where
  "buildVerdicts nodes previous windowDays minDaysPresent now =
     sort_key verdict_pk (map (verdict_of nodes previous windowDays minDaysPresent now) nodes)"

subsection \<open>Cohorts\<close>

record cohort =
  ch_key :: "string \<times> string"
  ch_nodes :: int
  ch_systems :: "string list"
  ch_censored :: int
  ch_ram_used :: "rat list"
  ch_cores_used :: "rat list"
  ch_installed_ram :: "rat list"
  ch_installed_cores :: "rat list"

definition new_cohort :: "string \<times> string \<Rightarrow> cohort" where
  "new_cohort k = \<lparr>ch_key = k, ch_nodes = 0, ch_systems = [], ch_censored = 0, ch_ram_used = [], ch_cores_used = [],
     ch_installed_ram = [], ch_installed_cores = []\<rparr>"

text \<open>\<open>add\<close>: what one node contributes to one cohort.\<close>

definition reduced :: "rat list \<Rightarrow> rat" where
  "reduced daily = fst (ReduceNode daily)"

definition pass_censored :: "pass_node \<Rightarrow> bool" where
  "pass_censored n = Censored (Some (reduced (pn_ram_util n))) (Some (pn_max_swap_in n)) (Some (pn_max_oom n))"

definition cohort_add :: "pass_node \<Rightarrow> cohort \<Rightarrow> cohort" where
  "cohort_add n c =
     (let c1 = c\<lparr>ch_nodes := ch_nodes c + 1,
               ch_systems := (if pn_system n \<in> set (ch_systems c) then ch_systems c else ch_systems c @ [pn_system n])\<rparr>
      in if pass_censored n then c1\<lparr>ch_censored := ch_censored c1 + 1\<rparr>
         else c1\<lparr>ch_ram_used := ch_ram_used c1 @ [reduced (pn_ram_used n)],
                 ch_cores_used := ch_cores_used c1 @ [reduced (pn_cores_used n)],
                 ch_installed_ram := ch_installed_ram c1 @ [pn_installed_ram n],
                 ch_installed_cores := ch_installed_cores c1 @ [pn_installed_cores n]\<rparr>)"

definition add_to :: "pass_node \<Rightarrow> string \<times> string \<Rightarrow> cohort list \<Rightarrow> cohort list" where
  "add_to n k cohorts =
     (let old = (case find_key ch_key k cohorts of None \<Rightarrow> new_cohort k | Some c \<Rightarrow> c)
      in upsert ch_key (\<lambda>_ new. new) (cohort_add n old) cohorts)"

definition cohort_keys :: "pass_node \<Rightarrow> (string \<times> string) list" where
  "cohort_keys n = concat (map (\<lambda>family.
     (CohortFamily, family) # (if IsSolo family (BusinessFamilies (pn_workloads n)) then [(CohortFamilySolo, family)] else []))
     (sort (map fst (pn_workloads n))))"

definition counts_for_cohorts :: "pass_node \<Rightarrow> bool" where
  "counts_for_cohorts n \<longleftrightarrow> \<not> pn_hardware_changed n \<and> pn_ram_used n \<noteq> []"

definition build_cohorts :: "pass_node list \<Rightarrow> cohort list" where
  "build_cohorts nodes =
     fold (\<lambda>n. fold (add_to n) (cohort_keys n)) (filter counts_for_cohorts (sort_key pass_key nodes)) []"

definition cohort_row_of :: "pass_config \<Rightarrow> int \<Rightarrow> cohort \<Rightarrow> cohort_row" where
  "cohort_row_of cfg now c =
     (let q = (\<lambda>vs p. fst (Quantile vs p))
      in \<lparr>co_kind = fst (ch_key c), co_key = snd (ch_key c), co_nodes = ch_nodes c,
          co_distinct_systems = int (length (ch_systems c)), co_censored_nodes = ch_censored c,
          co_ram_used_p50 = q (ch_ram_used c) (50 / 100), co_ram_used_p75 = q (ch_ram_used c) (75 / 100),
          co_ram_used_p90 = q (ch_ram_used c) (90 / 100), co_cores_used_p50 = q (ch_cores_used c) (50 / 100),
          co_cores_used_p75 = q (ch_cores_used c) (75 / 100), co_cores_used_p90 = q (ch_cores_used c) (90 / 100),
          co_installed_ram_p50 = q (ch_installed_ram c) (50 / 100), co_installed_ram_p90 = q (ch_installed_ram c) (90 / 100),
          co_installed_cores_p50 = q (ch_installed_cores c) (50 / 100), co_installed_cores_p90 = q (ch_installed_cores c) (90 / 100),
          co_window_days = pc_window_days cfg, co_min_distinct_systems = pc_min_distinct_systems cfg,
          co_min_nodes = pc_min_nodes cfg, co_pressure_version = PressureVersion, co_updated_at = now\<rparr>)"

definition publishCohorts :: "pass_config \<Rightarrow> int \<Rightarrow> cohort list \<Rightarrow> cohort_row list" where
  "publishCohorts cfg now cohorts =
     sort_key cohort_pk (map (cohort_row_of cfg now)
       (filter (\<lambda>c. \<not> (int (length (ch_systems c)) < pc_min_distinct_systems cfg \<or> ch_nodes c < pc_min_nodes cfg)) cohorts))"

definition pass_build :: "pass_config \<Rightarrow> int \<Rightarrow> pass_node list \<Rightarrow> cohort_row list" where
  "pass_build cfg now nodes = publishCohorts cfg now (build_cohorts nodes)"

subsection \<open>The pass\<close>

text \<open>Each step returns the state it leaves behind, in an error too.\<close>

definition pass_step :: "(pass_call \<Rightarrow> bool) \<Rightarrow> pass_call \<Rightarrow> (sizing_store \<Rightarrow> sizing_store)
     \<Rightarrow> (sizing_store \<Rightarrow> pass_call option \<times> sizing_store) \<Rightarrow> sizing_store \<Rightarrow> pass_call option \<times> sizing_store" where
  "pass_step fails c write k s = (if fails c then (Some c, s) else k (write s))"

definition pass_read :: "(pass_call \<Rightarrow> bool) \<Rightarrow> pass_call \<Rightarrow> (sizing_store \<Rightarrow> 'a)
     \<Rightarrow> ('a \<Rightarrow> sizing_store \<Rightarrow> pass_call option \<times> sizing_store) \<Rightarrow> sizing_store \<Rightarrow> pass_call option \<times> sizing_store" where
  "pass_read fails c read k s = (if fails c then (Some c, s) else k (read s) s)"

text \<open>The monthly history and the pruning it protects: logged, never fatal.\<close>

definition housekeeping :: "pass_config \<Rightarrow> (pass_call \<Rightarrow> bool) \<Rightarrow> nat \<Rightarrow> int \<Rightarrow> sizing_store \<Rightarrow> sizing_store" where
  "housekeeping cfg fails months_done today s =
     (if fails PcRollup then rollup_months (take months_done (monthRanges (today - MonthlyRollupDays) today)) s
      else let s1 = RollupSizingMonthly (today - MonthlyRollupDays) today s
           in if pc_retention cfg > 0
              then if fails PcPrune then s1 else snd (PruneSizingDaily (today - go_div (pc_retention cfg) dayMillis) s1)
              else s1)"

definition pass_Run :: "pass_config \<Rightarrow> (pass_call \<Rightarrow> bool) \<Rightarrow> nat \<Rightarrow> int \<Rightarrow> sizing_store \<Rightarrow> pass_call option \<times> sizing_store" where
  "pass_Run cfg fails months_done now s0 =
     (let today = go_div now dayMillis; fromDay = today - pc_window_days cfg
      in case pass_recompute cfg fails s0 of
           Inl e \<Rightarrow> (Some e, s0)
         | Inr s1 \<Rightarrow>
             pass_read fails PcWindow (SizingWindow fromDay today) (\<lambda>window.
             pass_read fails PcStates SizingVerdictStates (\<lambda>previous.
               let nodes = foldNodes window fromDay now
               in pass_step fails PcVerdicts
                    (UpsertSizingVerdicts (buildVerdicts nodes previous (pc_window_days cfg) (pc_min_days_present cfg) now))
                 (pass_read fails PcFamilies (SizingWindowFamilies fromDay today) (\<lambda>families.
                  pass_read fails PcMetrics (SizingWindowMetrics fromDay today) (\<lambda>metrics.
                  pass_step fails PcCohorts (UpsertSizingCohorts (pass_build cfg now (attachFamilies families metrics nodes)))
                 (pass_step fails PcExpire (\<lambda>s. snd (DeleteStaleSizingCohorts now s))
                 (\<lambda>s. (None, housekeeping cfg fails months_done today s)))))))) s1)"

end
