(* ===== verification/Sizing_Cohort_Props.thy ===== *)
theory Sizing_Cohort_Props
  imports Sizing_Pass "HOL-Library.Multiset"
begin

text \<open>
  What the cohort pass publishes: the cohorts of the loops over maps are the groups of the nodes
  that carry a family, each reported only from enough systems and enough nodes.
\<close>

subsection \<open>Grouping\<close>

lemma ch_key_add: "ch_key (cohort_add n c) = ch_key c"
  by (simp add: cohort_add_def Let_def)

definition cohort_at :: "string \<times> string \<Rightarrow> cohort list \<Rightarrow> cohort" where
  "cohort_at k cs = (case find_key ch_key k cs of None \<Rightarrow> new_cohort k | Some c \<Rightarrow> c)"

lemma ch_key_at: "ch_key (cohort_at k cs) = k"
  by (auto simp: cohort_at_def new_cohort_def dest: find_key_SomeD split: option.split)

lemma find_add_to:
  "find_key ch_key k' (add_to n k cs) = (if k' = k then Some (cohort_add n (cohort_at k cs)) else find_key ch_key k' cs)"
proof -
  have "find_key ch_key k' (upsert ch_key (\<lambda>_ new. new) (cohort_add n (cohort_at k cs)) cs)
    = (if k' = ch_key (cohort_add n (cohort_at k cs))
       then Some (case find_key ch_key k' cs of None \<Rightarrow> cohort_add n (cohort_at k cs) | Some _ \<Rightarrow> cohort_add n (cohort_at k cs))
       else find_key ch_key k' cs)" by (rule find_key_upsert) simp
  then show ?thesis by (simp add: add_to_def Let_def cohort_at_def [symmetric] ch_key_add ch_key_at split: option.split)
qed

lemma keys_unique_add_to: "keys_unique ch_key cs \<Longrightarrow> keys_unique ch_key (add_to n k cs)"
  unfolding add_to_def Let_def by (rule keys_unique_upsert) simp_all

lemma find_fold_add_to:
  "distinct ks \<Longrightarrow> find_key ch_key k (fold (add_to n) ks cs) =
     (if k \<in> set ks then Some (cohort_add n (cohort_at k cs)) else find_key ch_key k cs)"
proof (induction ks arbitrary: cs)
  case (Cons k' ks)
  then have "find_key ch_key k (fold (add_to n) ks (add_to n k' cs)) =
     (if k \<in> set ks then Some (cohort_add n (cohort_at k (add_to n k' cs))) else find_key ch_key k (add_to n k' cs))" by simp
  moreover have "k \<noteq> k' \<Longrightarrow> cohort_at k (add_to n k' cs) = cohort_at k cs" by (simp add: cohort_at_def find_add_to)
  ultimately show ?case using Cons.prems by (cases "k = k'") (simp_all add: find_add_to)
qed simp

lemma keys_unique_fold_add_to: "keys_unique ch_key cs \<Longrightarrow> keys_unique ch_key (fold (add_to n) ks cs)"
  by (induction ks arbitrary: cs) (simp_all add: keys_unique_add_to)

definition add_node :: "pass_node \<Rightarrow> cohort list \<Rightarrow> cohort list" where
  "add_node n = fold (add_to n) (cohort_keys n)"

lemma cohort_keys_distinct: "distinct (map fst (pn_workloads n)) \<Longrightarrow> distinct (cohort_keys n)"
proof -
  assume d: "distinct (map fst (pn_workloads n))"
  have gen: "distinct (concat (map (\<lambda>family. (CohortFamily, family) # (if P family then [(CohortFamilySolo, family)] else [])) fs))"
    if "distinct fs" for P fs
    using that by (induction fs) (auto simp: CohortFamily_def CohortFamilySolo_def)
  show ?thesis unfolding cohort_keys_def by (rule gen) (simp add: d)
qed

lemma find_add_nodes:
  assumes "list_all (\<lambda>n. distinct (map fst (pn_workloads n))) ns"
  shows "find_key ch_key k (fold add_node ns cs) =
    (if filter (\<lambda>n. k \<in> set (cohort_keys n)) ns = [] then find_key ch_key k cs
     else Some (fold cohort_add (filter (\<lambda>n. k \<in> set (cohort_keys n)) ns) (cohort_at k cs)))"
  using assms
proof (induction ns arbitrary: cs)
  case (Cons n ns)
  then have IH: "find_key ch_key k (fold add_node ns (add_node n cs)) =
    (if filter (\<lambda>n. k \<in> set (cohort_keys n)) ns = [] then find_key ch_key k (add_node n cs)
     else Some (fold cohort_add (filter (\<lambda>n. k \<in> set (cohort_keys n)) ns) (cohort_at k (add_node n cs))))" by simp
  have f: "find_key ch_key k (add_node n cs) =
     (if k \<in> set (cohort_keys n) then Some (cohort_add n (cohort_at k cs)) else find_key ch_key k cs)"
    unfolding add_node_def using Cons.prems by (intro find_fold_add_to cohort_keys_distinct) simp
  then have "cohort_at k (add_node n cs) = (if k \<in> set (cohort_keys n) then cohort_add n (cohort_at k cs) else cohort_at k cs)"
    by (simp add: cohort_at_def)
  then show ?case using IH f by simp
qed simp

text \<open>The nodes of a cohort, in the order the pass visits them.\<close>

definition members :: "string \<times> string \<Rightarrow> pass_node list \<Rightarrow> pass_node list" where
  "members k nodes = filter (\<lambda>n. counts_for_cohorts n \<and> k \<in> set (cohort_keys n)) (sort_key pass_key nodes)"

lemma build_cohorts_members:
  assumes "list_all (\<lambda>n. distinct (map fst (pn_workloads n))) nodes"
  shows "find_key ch_key k (build_cohorts nodes) =
    (if members k nodes = [] then None else Some (fold cohort_add (members k nodes) (new_cohort k)))"
    "keys_unique ch_key (build_cohorts nodes)"
proof -
  have b: "build_cohorts nodes = fold add_node (filter counts_for_cohorts (sort_key pass_key nodes)) []"
    by (simp add: build_cohorts_def add_node_def [abs_def])
  have m: "filter (\<lambda>n. k \<in> set (cohort_keys n)) (filter counts_for_cohorts (sort_key pass_key nodes)) = members k nodes"
    by (simp add: members_def conj_commute)
  have "list_all (\<lambda>n. distinct (map fst (pn_workloads n))) (filter counts_for_cohorts (sort_key pass_key nodes))"
    using assms by (simp add: list_all_iff)
  from find_add_nodes [OF this, of k "[]"] show "find_key ch_key k (build_cohorts nodes) =
    (if members k nodes = [] then None else Some (fold cohort_add (members k nodes) (new_cohort k)))"
    unfolding b m by (simp add: cohort_at_def)
  have "keys_unique ch_key cs \<Longrightarrow> keys_unique ch_key (fold add_node ns cs)" for ns cs
    by (induction ns arbitrary: cs) (simp_all add: add_node_def keys_unique_fold_add_to)
  then show "keys_unique ch_key (build_cohorts nodes)" unfolding b by (simp add: keys_unique_def)
qed

lemma nub_by_seen: "set a = set b \<Longrightarrow> nub_by f a xs = nub_by f b xs"
proof (induction xs arbitrary: a b)
  case (Cons x xs)
  have "nub_by f (f x # a) xs = nub_by f (f x # b) xs" by (rule Cons.IH) (simp add: Cons.prems)
  then show ?case using Cons.IH [OF Cons.prems] Cons.prems by simp
qed simp

text \<open>What the accumulator of a cohort holds.\<close>

lemma fold_cohort_add:
  "fold cohort_add ns c = c\<lparr>ch_nodes := ch_nodes c + int (length ns),
     ch_systems := ch_systems c @ nub_by id (ch_systems c) (map pn_system ns),
     ch_censored := ch_censored c + int (length (filter pass_censored ns)),
     ch_ram_used := ch_ram_used c @ map (\<lambda>n. reduced (pn_ram_used n)) (filter (\<lambda>n. \<not> pass_censored n) ns),
     ch_cores_used := ch_cores_used c @ map (\<lambda>n. reduced (pn_cores_used n)) (filter (\<lambda>n. \<not> pass_censored n) ns),
     ch_installed_ram := ch_installed_ram c @ map pn_installed_ram (filter (\<lambda>n. \<not> pass_censored n) ns),
     ch_installed_cores := ch_installed_cores c @ map pn_installed_cores (filter (\<lambda>n. \<not> pass_censored n) ns)\<rparr>"
proof (induction ns arbitrary: c)
  case (Cons n ns)
  have nub: "nub_by (\<lambda>a. a) (xs @ [x]) ys = nub_by (\<lambda>a. a) (x # xs) ys" for xs x and ys :: "string list"
    by (rule nub_by_seen) auto
  show ?case unfolding fold_simps(2) comp_apply Cons.IH
    by (simp add: cohort_add_def Let_def id_def nub ac_simps)
qed simp

subsection \<open>The nodes of a pass\<close>

definition workloads_unique :: "pass_node list \<Rightarrow> bool" where
  "workloads_unique nodes \<longleftrightarrow> list_all (\<lambda>n. distinct (map fst (pn_workloads n))) nodes"

lemma upsert_mem: "r \<in> set (upsert key (\<lambda>_ new. new) x rs) \<Longrightarrow> r = x \<or> r \<in> set rs"
  by (induction rs) (auto split: if_splits)

lemma workloads_unique_window: "workloads_unique nodes \<Longrightarrow> workloads_unique (fold_window_row fromMillis now row nodes)"
proof -
  assume u: "workloads_unique nodes"
  define old where "old = (case find_key pass_key (SizingNodeKey (wr_system row) (wr_node row)) nodes of
      None \<Rightarrow> new_pass_node (wr_system row) (wr_node row) | Some n \<Rightarrow> n)"
  have "distinct (map fst (pn_workloads old))"
    using u by (auto simp: old_def workloads_unique_def new_pass_node_def list_all_iff dest: find_key_SomeD split: option.split)
  then have "distinct (map fst (pn_workloads (fold_row fromMillis now row old)))" by (simp add: fold_row_def Let_def)
  then show ?thesis using u
    unfolding fold_window_row_def old_def [symmetric] Let_def workloads_unique_def list_all_iff by (blast dest: upsert_mem)
qed

lemma workloads_unique_foldNodes: "workloads_unique (foldNodes window fromDay now)"
proof -
  have "workloads_unique nodes \<Longrightarrow> workloads_unique (fold (fold_window_row f now) window nodes)" for f nodes
    by (induction window arbitrary: nodes) (simp_all add: workloads_unique_window)
  then show ?thesis by (simp add: foldNodes_def workloads_unique_def)
qed

lemma workloads_unique_attach:
  "workloads_unique nodes \<Longrightarrow> workloads_unique (attach_family f nodes)"
  "workloads_unique nodes \<Longrightarrow> workloads_unique (attach_metric m nodes)"
proof -
  have fst_keys: "distinct (map fst (upsert fst merge new w))"
    if "distinct (map fst w)" "\<And>a b. fst a = fst b \<Longrightarrow> fst (merge a b) = fst b" for merge new and w :: "(string \<times> 'a) list"
    using keys_unique_upsert [of fst merge w new] that by (simp add: keys_unique_def)
  show "workloads_unique nodes \<Longrightarrow> workloads_unique (attach_family f nodes)"
    "workloads_unique nodes \<Longrightarrow> workloads_unique (attach_metric m nodes)"
    by (auto simp: workloads_unique_def attach_family_def attach_metric_def list_all_iff intro!: fst_keys)
qed

lemma workloads_unique_attachFamilies: "workloads_unique nodes \<Longrightarrow> workloads_unique (attachFamilies fs ms nodes)"
proof -
  assume u: "workloads_unique nodes"
  have "workloads_unique ns \<Longrightarrow> workloads_unique (fold attach_family fs ns)" for ns
    by (induction fs arbitrary: ns) (simp_all add: workloads_unique_attach)
  moreover have "workloads_unique ns \<Longrightarrow> workloads_unique (fold attach_metric ms ns)" for ns
    by (induction ms arbitrary: ns) (simp_all add: workloads_unique_attach)
  ultimately show ?thesis using u by (simp add: attachFamilies_def)
qed

text \<open>The nodes a pass at \<open>now\<close> reads from the store.\<close>

definition pass_nodes :: "pass_config \<Rightarrow> int \<Rightarrow> sizing_store \<Rightarrow> pass_node list" where
  "pass_nodes cfg now s =
     (let today = go_div now dayMillis; fromDay = today - pc_window_days cfg
      in attachFamilies (SizingWindowFamilies fromDay today s) (SizingWindowMetrics fromDay today s)
           (foldNodes (SizingWindow fromDay today s) fromDay now))"

subsection \<open>What is published\<close>

lemma find_key_mset:
  assumes "mset rs = mset rs'" "keys_unique key rs"
  shows "find_key key k rs = find_key key k rs'"
proof -
  have u: "keys_unique key rs'" using assms unfolding keys_unique_def by (metis mset_map mset_eq_imp_distinct_iff)
  have set: "set rs = set rs'" using assms(1) by (metis set_mset_mset)
  show ?thesis
  proof (cases "find_key key k rs")
    case None
    then show ?thesis using set by (simp add: find_key_None) (metis find_key_None)
  next
    case (Some r)
    then have "r \<in> set rs'" "key r = k" using find_key_SomeD set by metis+
    then show ?thesis using Some find_key_mem [OF u] by metis
  qed
qed

lemma find_key_map: "find_key key k (map f rs) = map_option f (find_key (\<lambda>r. key (f r)) k rs)"
  by (induction rs) auto

text \<open>The baseline of a cohort, given its members.\<close>

definition baseline_of :: "pass_config \<Rightarrow> int \<Rightarrow> string \<times> string \<Rightarrow> pass_node list \<Rightarrow> cohort_row" where
  "baseline_of cfg now k ms =
     (let free = filter (\<lambda>n. \<not> pass_censored n) ms; q = (\<lambda>f p. fst (Quantile (map f free) p));
          ram = (\<lambda>n. reduced (pn_ram_used n)); cores = (\<lambda>n. reduced (pn_cores_used n))
      in \<lparr>co_kind = fst k, co_key = snd k, co_nodes = int (length ms), co_distinct_systems = int (card (pn_system ` set ms)),
          co_censored_nodes = int (length (filter pass_censored ms)),
          co_ram_used_p50 = q ram (50 / 100), co_ram_used_p75 = q ram (75 / 100), co_ram_used_p90 = q ram (90 / 100),
          co_cores_used_p50 = q cores (50 / 100), co_cores_used_p75 = q cores (75 / 100), co_cores_used_p90 = q cores (90 / 100),
          co_installed_ram_p50 = q pn_installed_ram (50 / 100), co_installed_ram_p90 = q pn_installed_ram (90 / 100),
          co_installed_cores_p50 = q pn_installed_cores (50 / 100), co_installed_cores_p90 = q pn_installed_cores (90 / 100),
          co_window_days = pc_window_days cfg, co_min_distinct_systems = pc_min_distinct_systems cfg,
          co_min_nodes = pc_min_nodes cfg, co_pressure_version = PressureVersion, co_updated_at = now\<rparr>)"

lemma distinct_systems_count: "length (nub_by id [] xs) = card (set xs)"
  using distinct_nub_by [of id "[]" xs] set_nub_by [of id "[]" xs] distinct_card [of "nub_by id [] xs"] by simp

lemma cohort_row_members: "cohort_row_of cfg now (fold cohort_add ms (new_cohort k)) = baseline_of cfg now k ms"
  by (simp add: fold_cohort_add cohort_row_of_def baseline_of_def new_cohort_def Let_def distinct_systems_count)


subsection \<open>A successful pass\<close>

lemma rollup_months_frame:
  "ss_daily (rollup_months ms s) = ss_daily s" "ss_modules (rollup_months ms s) = ss_modules s"
  "ss_metrics (rollup_months ms s) = ss_metrics s" "ss_nodes (rollup_months ms s) = ss_nodes s"
  "ss_verdicts (rollup_months ms s) = ss_verdicts s" "ss_cohorts (rollup_months ms s) = ss_cohorts s"
  by (induction ms arbitrary: s) (simp_all add: rollup_months_def writeSizingMonthly_def)

lemma housekeeping_frame:
  "ss_nodes (housekeeping cfg fails k today s) = ss_nodes s"
  "ss_verdicts (housekeeping cfg fails k today s) = ss_verdicts s" "ss_cohorts (housekeeping cfg fails k today s) = ss_cohorts s"
  by (simp_all add: housekeeping_def Let_def RollupSizingMonthly_def PruneSizingDaily_def rollup_months_frame)

lemma window_reads_frame:
  "SizingWindowFamilies a b (UpsertSizingVerdicts v s) = SizingWindowFamilies a b s"
  "SizingWindowMetrics a b (UpsertSizingVerdicts v s) = SizingWindowMetrics a b s"
  by (simp_all add: SizingWindowFamilies_def SizingWindowMetrics_def UpsertSizingVerdicts_def)

lemma pass_Run_None:
  assumes "pass_Run cfg fails k now s = (None, s')"
  obtains s1 vs where "pass_recompute cfg fails s = Inr s1"
    "s' = housekeeping cfg fails k (go_div now dayMillis)
       (snd (DeleteStaleSizingCohorts now (UpsertSizingCohorts (pass_build cfg now (pass_nodes cfg now s1)) (UpsertSizingVerdicts vs s1))))"
  using assms
  by (auto simp: pass_Run_def Let_def pass_read_def pass_step_def window_reads_frame pass_nodes_def split: sum.splits if_splits)

lemma fold_upsert_mem:
  "r \<in> set (fold (upsert key (\<lambda>_ new. new)) rows rs) \<Longrightarrow> r \<in> set rows \<or> r \<in> set rs"
  by (induction rows arbitrary: rs) (auto dest: upsert_mem)

lemma upsert_self_mem: "x \<in> set (upsert key (\<lambda>_ new. new) x rs)"
  by (induction rs) auto

lemma upsert_other_mem: "r \<in> set rs \<Longrightarrow> key r \<noteq> key x \<Longrightarrow> r \<in> set (upsert key (\<lambda>_ new. new) x rs)"
  by (induction rs) auto

lemma fold_upsert_rows:
  "distinct (map key rows) \<Longrightarrow> r \<in> set rows \<or> r \<in> set rs \<and> key r \<notin> key ` set rows \<Longrightarrow>
   r \<in> set (fold (upsert key (\<lambda>_ new. new)) rows rs)"
proof (induction rows arbitrary: rs)
  case (Cons x rows)
  have "r \<in> set rows \<or> r \<in> set (upsert key (\<lambda>_ new. new) x rs) \<and> key r \<notin> key ` set rows"
    using Cons.prems by (auto simp: upsert_self_mem upsert_other_mem)
  then show ?case using Cons.IH Cons.prems(1) by simp
qed simp

lemma distinct_map_sort: "distinct (map f (sort_key g xs)) = distinct (map f xs)"
  by (metis mset_map mset_sort mset_eq_imp_distinct_iff)

lemma pass_build_rows:
  "distinct (map cohort_pk (pass_build cfg now (pass_nodes cfg now s)))"
  "r \<in> set (pass_build cfg now nodes) \<Longrightarrow> co_updated_at r = now \<and> pc_min_distinct_systems cfg \<le> co_distinct_systems r
     \<and> pc_min_nodes cfg \<le> co_nodes r"
proof -
  have key: "cohort_pk (cohort_row_of cfg now c) = ch_key c" for c by (simp add: cohort_pk_def cohort_row_of_def Let_def)
  have "list_all (\<lambda>n. distinct (map fst (pn_workloads n))) (pass_nodes cfg now s)"
    using workloads_unique_attachFamilies [OF workloads_unique_foldNodes] by (simp add: pass_nodes_def Let_def workloads_unique_def)
  note b = build_cohorts_members(2) [OF this]
  have "distinct (map cohort_pk (map (cohort_row_of cfg now) (filter P (build_cohorts (pass_nodes cfg now s)))))" for P
    using keys_unique_filter [OF b, of P] by (simp add: keys_unique_def comp_def key)
  then show "distinct (map cohort_pk (pass_build cfg now (pass_nodes cfg now s)))"
    unfolding pass_build_def publishCohorts_def distinct_map_sort by blast
  show "r \<in> set (pass_build cfg now nodes) \<Longrightarrow> co_updated_at r = now \<and> pc_min_distinct_systems cfg \<le> co_distinct_systems r
     \<and> pc_min_nodes cfg \<le> co_nodes r"
    by (auto simp: pass_build_def publishCohorts_def cohort_row_of_def Let_def)
qed

text \<open>
  C17: after a successful pass the published baselines are this pass's and no others. When
  everything published before is older than the pass, the table holds exactly what the pass
  built from the scores it just brought up to date; a baseline that has lost its evidence is
  gone, and each one that is left stands on enough systems and enough nodes, whatever
  housekeeping did afterwards.
\<close>

theorem pass_publishes_its_own:
  assumes "pass_Run cfg fails k now s = (None, s')" "\<forall>r\<in>set (ss_cohorts s). co_updated_at r < now"
  shows "\<exists>s1. pass_recompute cfg fails s = Inr s1 \<and> set (ss_cohorts s') = set (pass_build cfg now (pass_nodes cfg now s1))
    \<and> (\<forall>r\<in>set (ss_cohorts s'). pc_min_distinct_systems cfg \<le> co_distinct_systems r \<and> pc_min_nodes cfg \<le> co_nodes r)"
proof -
  obtain s1 vs where s1: "pass_recompute cfg fails s = Inr s1" and s': "s' = housekeeping cfg fails k (go_div now dayMillis)
       (snd (DeleteStaleSizingCohorts now (UpsertSizingCohorts (pass_build cfg now (pass_nodes cfg now s1)) (UpsertSizingVerdicts vs s1))))"
    by (rule pass_Run_None [OF assms(1)])
  let ?rows = "pass_build cfg now (pass_nodes cfg now s1)"
  have old: "ss_cohorts s1 = ss_cohorts s"
    using s1 by (auto simp: pass_recompute_def Let_def UpdateSizingScores_def split: if_splits)
  have "ss_cohorts s' = filter (\<lambda>r. \<not> co_updated_at r < now) (fold (upsert cohort_pk (\<lambda>_ new. new)) ?rows (ss_cohorts s))"
    unfolding s' housekeeping_frame
    by (simp add: DeleteStaleSizingCohorts_def UpsertSizingCohorts_def UpsertSizingVerdicts_def old)
  then have "set (ss_cohorts s') = set ?rows"
    using assms(2) pass_build_rows fold_upsert_rows [of cohort_pk ?rows _ "ss_cohorts s"] fold_upsert_mem [of _ cohort_pk ?rows "ss_cohorts s"]
    by fastforce
  then show ?thesis using s1 pass_build_rows(2) by blast
qed

lemma pass_Run_undisturbed: "\<exists>s'. pass_Run cfg (\<lambda>_. False) k now s = (None, s')"
  by (simp add: pass_Run_def Let_def pass_read_def pass_step_def pass_recompute_def)

definition demo_pass :: pass_config where
  "demo_pass = \<lparr>pc_window_days = 28, pc_min_distinct_systems = 2, pc_min_nodes = 3, pc_min_days_present = 14,
     pc_retention = 100 * dayMillis, pc_recompute_batch = 5000\<rparr>"

text \<open>A store whose one baseline has no evidence left.\<close>

definition stale_baseline_store :: sizing_store where
  "stale_baseline_store = empty_sizing\<lparr>ss_cohorts := [baseline_of demo_pass 1771000000000 (CohortFamily, ''mail'') []]\<rparr>"

theorem pass_publishes_its_own_witness:
  "\<exists>s1. pass_recompute demo_pass (\<lambda>_. False) stale_baseline_store = Inr s1
    \<and> set (ss_cohorts (snd (pass_Run demo_pass (\<lambda>_. False) 0 1772323200000 stale_baseline_store)))
        = set (pass_build demo_pass 1772323200000 (pass_nodes demo_pass 1772323200000 s1))
    \<and> list_all (\<lambda>r. pc_min_distinct_systems demo_pass \<le> co_distinct_systems r \<and> pc_min_nodes demo_pass \<le> co_nodes r)
         (ss_cohorts (snd (pass_Run demo_pass (\<lambda>_. False) 0 1772323200000 stale_baseline_store)))"
proof -
  obtain s' where s': "pass_Run demo_pass (\<lambda>_. False) 0 1772323200000 stale_baseline_store = (None, s')"
    using pass_Run_undisturbed by blast
  have "\<forall>r\<in>set (ss_cohorts stale_baseline_store). co_updated_at r < 1772323200000"
    by (simp add: stale_baseline_store_def baseline_of_def Let_def)
  from pass_publishes_its_own [OF s' this] s' show ?thesis by (simp add: list_all_iff)
qed

end
