(* ===== verification/GoCalendar.thy ===== *)
theory GoCalendar
  imports GoTime
begin

text \<open>
  The calendar of \<open>GoTime\<close>: the two conversions are inverse to each other, and the months
  follow one another without gap or overlap.
\<close>

subsection \<open>Years\<close>

definition year_start :: "int \<Rightarrow> int" where
  "year_start y = 365 * y + y div 4 - y div 100 + y div 400 - 719468"

lemma year_start_era:
  "y div 400 * 146097 + (y mod 400 * 365 + y mod 400 div 4 - y mod 400 div 100) - 719468 = year_start y"
proof -
  have y: "y = 400 * (y div 400) + y mod 400" by simp
  have "y div 4 = (y mod 400 + 4 * (100 * (y div 400))) div 4" by simp
  also have "\<dots> = 100 * (y div 400) + y mod 400 div 4" by (rule div_mult_self2) simp
  finally have "y div 4 = 100 * (y div 400) + y mod 400 div 4" .
  moreover have "y div 100 = (y mod 400 + 100 * (4 * (y div 400))) div 100" by simp
  then have "y div 100 = 4 * (y div 400) + y mod 400 div 100" by (simp only: div_mult_self2)
  ultimately show ?thesis using y unfolding year_start_def by linarith
qed

lemma days_from_civil_year:
  "days_from_civil y m d = year_start (if m \<le> 2 then y - 1 else y) + (153 * ((m + 9) mod 12) + 2) div 5 + d - 1"
  unfolding days_from_civil_def Let_def year_start_era [symmetric] by simp

text \<open>A day of the 400-year cycle: its century, its four years, its year and the day of that year.\<close>

lemma day_of_era:
  fixes doe :: int
  assumes "0 \<le> doe" "doe < 146097"
  obtains c q r doy where "doe = 36524 * c + 1461 * q + 365 * r + doy" "0 \<le> c" "c \<le> 3" "0 \<le> q" "q \<le> 24" "0 \<le> r" "r \<le> 3"
    "0 \<le> doy" "doy \<le> 365" "doy = 365 \<longrightarrow> r = 3 \<and> (q \<noteq> 24 \<or> c = 3)"
proof -
  define c where "c = min 3 (doe div 36524)"
  define R where "R = doe - 36524 * c"
  define q where "q = R div 1461"
  define S where "S = R - 1461 * q"
  define r where "r = min 3 (S div 365)"
  have c: "0 \<le> c" "c \<le> 3" "0 \<le> R" "R \<le> 36523 \<or> c = 3 \<and> R \<le> 36524"
    using assms unfolding R_def c_def by (cases "doe div 36524 \<le> 3"; simp add: min_def; linarith)+
  have q: "0 \<le> q" "q \<le> 24" "0 \<le> S" "S \<le> 1460" "R = 1461 * q + S"
    using c unfolding S_def q_def by linarith+
  have r: "0 \<le> r" "r \<le> 3" "0 \<le> S - 365 * r" "S - 365 * r \<le> 364 \<or> r = 3 \<and> S - 365 * r \<le> 365"
    using q unfolding r_def by (cases "S div 365 \<le> 3"; simp add: min_def; linarith)+
  show thesis
    by (rule that [of c q r "S - 365 * r"]) (use c q r R_def in linarith)+
qed

lemma year_length: "year_start (y + 1) = year_start y + 365 + (if is_leap (y + 1) then 1 else 0)"
proof -
  have step: "(y + 1) div k = y div k + (if (y + 1) mod k = 0 then 1 else 0)" if "0 < k" for k
  proof -
    have y: "y = k * (y div k) + y mod k" "0 \<le> y mod k" "y mod k < k" using that by simp_all
    show ?thesis
    proof (cases "y mod k + 1 = k")
      case True
      then have y1: "y + 1 = k * (y div k + 1) + 0" using y(1) distrib_left [of k "y div k" 1] by linarith
      show ?thesis using int_div_pos_eq [OF y1] int_mod_pos_eq [OF y1] that by simp
    next
      case False
      have y1: "y + 1 = k * (y div k) + (y mod k + 1)" using y(1) by simp
      show ?thesis using int_div_pos_eq [OF y1] int_mod_pos_eq [OF y1] y False by simp
    qed
  qed
  have "(y + 1) mod 100 = 0 \<Longrightarrow> (y + 1) mod 4 = 0" "(y + 1) mod 400 = 0 \<Longrightarrow> (y + 1) mod 100 = 0" by presburger+
  then have leap: "(if is_leap (y + 1) then 1 else 0) = (if (y + 1) mod 4 = 0 then 1 else 0)
      - (if (y + 1) mod 100 = 0 then 1 else 0) + (if (y + 1) mod 400 = 0 then 1 else (0::int))"
    unfolding is_leap_def by presburger
  have gen: "365 * (y + 1) + (a4 + i4) - (a100 + i100) + (a400 + i400) - 719468
      = 365 * y + a4 - a100 + a400 - 719468 + 365 + (i4 - i100 + i400)" for a4 a100 a400 i4 i100 i400 :: int by simp
  show ?thesis unfolding year_start_def leap gen [symmetric] using step [of 4] step [of 100] step [of 400] by (simp only:)
qed

definition month_of :: "int \<Rightarrow> int" where
  "month_of mp = (if mp < 10 then mp + 3 else mp - 9)"

lemma civil_of_era:
  fixes c q r doy :: int
  assumes "n + 719468 = 146097 * era + doe" "doe = 36524 * c + 1461 * q + 365 * r + doy" "0 \<le> doe" "doe < 146097"
    "0 \<le> c" "c \<le> 3" "0 \<le> q" "q \<le> 24" "0 \<le> r" "r \<le> 3" "0 \<le> doy" "doy \<le> 365" "doy = 365 \<longrightarrow> r = 3 \<and> (q \<noteq> 24 \<or> c = 3)"
  shows "(doe - doe div 1460 + doe div 36524 - doe div 146096) div 365 = 100 * c + 4 * q + r"
    "year_start (400 * era + 100 * c + 4 * q + r) + doy = n"
proof -
  have "doe div 36524 - doe div 146096 = c"
  proof (cases "doe = 146096")
    case False
    have "36524 * c \<le> doe \<and> doe < 36524 * c + 36524 \<and> doe div 146096 = 0"
    proof (cases "doy = 365")
      case True
      with assms(13) have r: "r = 3" "q \<le> 23 \<or> c = 3" using assms(8) by auto
      have doe: "doe = 36524 * c + 1461 * q + 1460" "doe \<noteq> 146096" using True r(1) assms(2) False by simp_all
      then have "q \<le> 23" using r(2) assms(4,6,8) by linarith
      then have "36524 * c \<le> doe" "doe < 36524 * c + 36524" "doe < 146096" using doe(1) assms(6,7) by simp_all
      then show ?thesis using assms(3) by simp
    next
      case False
      then have "doy \<le> 364" using assms(12) by simp
      then have "36524 * c \<le> doe" "doe < 36524 * c + 36524" "doe < 146096" using assms(2-11) by linarith+
      then show ?thesis using assms(3) by simp
    qed
    then show ?thesis by linarith
  qed (use assms in simp)
  moreover have "doe div 1460 = 25 * c + q + (24 * c + q + 365 * r + doy) div 1460"
    using assms(2) by linarith
  moreover define e where "e = (24 * c + q + 365 * r + doy) div 1460"
  ultimately have g: "doe - doe div 1460 + doe div 36524 - doe div 146096 = 36500 * c + 1460 * q + 365 * r + (doy - e)"
    using assms(2) by linarith
  have "0 \<le> doy - e \<and> doy - e \<le> 364" using assms unfolding e_def by linarith
  then show "(doe - doe div 1460 + doe div 36524 - doe div 146096) div 365 = 100 * c + 4 * q + r"
    unfolding g by linarith
  have "(400 * era + 100 * c + 4 * q + r) div 4 = 100 * era + 25 * c + q" using assms by linarith
  moreover have "(400 * era + 100 * c + 4 * q + r) div 100 = 4 * era + c" using assms by linarith
  moreover have "(400 * era + 100 * c + 4 * q + r) div 400 = era" using assms by linarith
  ultimately show "year_start (400 * era + 100 * c + 4 * q + r) + doy = n"
    using assms(1,2) by (simp add: year_start_def)
qed

subsection \<open>Both ways\<close>

lemma civil_from_days_split:
  obtains y doy where "n = year_start y + doy" "0 \<le> doy" "n < year_start (y + 1)"
    "civil_from_days n = (y + (if month_of ((5 * doy + 2) div 153) \<le> 2 then 1 else 0), month_of ((5 * doy + 2) div 153),
       doy - (153 * ((5 * doy + 2) div 153) + 2) div 5 + 1)"
proof -
  define era where "era = (n + 719468) div 146097"
  define doe where "doe = (n + 719468) mod 146097"
  have n: "n + 719468 = 146097 * era + doe" by (simp add: era_def doe_def)
  have doe: "0 \<le> doe" "doe < 146097" by (simp_all add: doe_def)
  obtain c q r doy where p: "doe = 36524 * c + 1461 * q + 365 * r + doy" "0 \<le> c" "c \<le> 3" "0 \<le> q" "q \<le> 24" "0 \<le> r" "r \<le> 3"
    "0 \<le> doy" "doy \<le> 365" "doy = 365 \<longrightarrow> r = 3 \<and> (q \<noteq> 24 \<or> c = 3)" by (rule day_of_era [OF doe])
  note e = civil_of_era [OF n p(1) doe p(2-10)]
  define y where "y = 400 * era + 100 * c + 4 * q + r"
  define yoe where "yoe = 100 * c + 4 * q + r"
  have ydiv: "yoe div 4 = 25 * c + q" "yoe div 100 = c" using p(2-7) unfolding yoe_def by linarith+
  have doy: "doe - (365 * yoe + yoe div 4 - yoe div 100) = doy" unfolding ydiv p(1) by (simp add: yoe_def)
  have yoe: "(doe - doe div 1460 + doe div 36524 - doe div 146096) div 365 = yoe" using e(1) by (simp only: yoe_def)
  have c: "civil_from_days n = (y + (if month_of ((5 * doy + 2) div 153) \<le> 2 then 1 else 0), month_of ((5 * doy + 2) div 153),
       doy - (153 * ((5 * doy + 2) div 153) + 2) div 5 + 1)"
    unfolding civil_from_days_def Let_def era_def [symmetric] doe_def [symmetric] yoe doy month_of_def [symmetric]
    by (simp add: y_def yoe_def)
  have "n < year_start (y + 1)"
  proof (cases "doy = 365")
    case True
    then have r: "r = 3" "q \<noteq> 24 \<or> c = 3" using p(10) by simp_all
    have "(y + 1) mod 4 = 0" unfolding y_def r(1) by simp
    moreover have "(y + 1) mod 100 \<noteq> 0 \<or> (y + 1) mod 400 = 0"
    proof (cases "q = 24")
      case False
      then have "4 * q + 4 < 100" "0 < 4 * q + 4" using p(4,5) by linarith+
      moreover have "y + 1 = 100 * (4 * era + c) + (4 * q + 4)" unfolding y_def r(1) by simp
      ultimately have "(y + 1) mod 100 = 4 * q + 4" by (intro int_mod_pos_eq [where q = "4 * era + c"]) simp_all
      then show ?thesis using p(4) by simp
    next
      case q: True
      then have "y + 1 = 400 * (era + 1)" using r(2) unfolding y_def r(1) by simp
      then show ?thesis by simp
    qed
    ultimately have "is_leap (y + 1)" by (simp add: is_leap_def)
    then show ?thesis using year_length [of y] e(2) True by (simp add: y_def)
  next
    case False
    then show ?thesis using year_length [of y] e(2) p(9) by (simp add: y_def split: if_splits)
  qed
  then show thesis using that [of y doy] e(2) p(8) c by (simp add: y_def)
qed

text \<open>The month of a day of the year and the day of that month.\<close>

lemma month_day:
  assumes "0 \<le> doy" "doy \<le> 365"
  defines "mp \<equiv> (5 * doy + 2) div 153"
  shows "0 \<le> mp" "mp \<le> 11" "1 \<le> month_of mp" "month_of mp \<le> 12" "(month_of mp + 9) mod 12 = mp"
    "(month_of mp \<le> 2) = (10 \<le> mp)" "(153 * mp + 2) div 5 \<le> doy" "doy < (153 * mp + 155) div 5"
proof -
  show mp: "0 \<le> mp" "mp \<le> 11" using assms(1,2) unfolding mp_def by linarith+
  show "1 \<le> month_of mp" "month_of mp \<le> 12" "(month_of mp \<le> 2) = (10 \<le> mp)" using mp by (auto simp: month_of_def)
  show "(month_of mp + 9) mod 12 = mp" using mp by (cases "mp < 10") (simp_all add: month_of_def)
  show "(153 * mp + 2) div 5 \<le> doy" "doy < (153 * mp + 155) div 5" unfolding mp_def by linarith+
qed

definition month_first :: "int \<Rightarrow> int \<Rightarrow> int" where
  "month_first y m = days_from_civil y m 1"

theorem civil_roundtrip:
  assumes "civil_from_days n = (y, m, d)"
  shows "days_from_civil y m d = n" "1 \<le> m" "m \<le> 12" "1 \<le> d" "month_first y m = n - (d - 1)"
proof -
  obtain y' doy where s: "n = year_start y' + doy" "0 \<le> doy" "n < year_start (y' + 1)"
    and c: "civil_from_days n = (y' + (if month_of ((5 * doy + 2) div 153) \<le> 2 then 1 else 0), month_of ((5 * doy + 2) div 153),
       doy - (153 * ((5 * doy + 2) div 153) + 2) div 5 + 1)" by (rule civil_from_days_split)
  have "doy \<le> 365" using s year_length [of y'] by (simp split: if_splits)
  note md = month_day [OF s(2) this]
  define mp where "mp = (5 * doy + 2) div 153"
  define start where "start = (153 * mp + 2) div 5"
  note md = md [folded mp_def, folded start_def]
  have eq: "y = y' + (if m \<le> 2 then 1 else 0)" "m = month_of mp" "d = doy - start + 1"
    using c assms unfolding mp_def [symmetric] start_def [symmetric] by simp_all
  show "1 \<le> m" "m \<le> 12" "1 \<le> d" using md(3,4,7) eq(2,3) by simp_all
  have year: "(if m \<le> 2 then y - 1 else y) = y'" using eq(1) by simp
  have "(153 * ((m + 9) mod 12) + 2) div 5 = start" unfolding eq(2) md(5) start_def by (rule refl)
  then show "days_from_civil y m d = n" "month_first y m = n - (d - 1)"
    unfolding month_first_def days_from_civil_year year using eq(3) s(1) by simp_all
qed

subsection \<open>Months\<close>

lemma month_cases:
  assumes "1 \<le> m" "m \<le> (12::int)"
  shows "m \<in> {1, 2, 3, 4, 5, 6, 7, 8, 9, 10, 11, 12}"
  using assms by simp presburger

lemma month_first_next:
  assumes "1 \<le> m" "m \<le> 12"
  shows "month_first (if m = 12 then y + 1 else y) (if m = 12 then 1 else m + 1) = month_first y m + daysIn m y"
  using month_cases [OF assms] year_length [of "y - 1"]
  by (auto simp: month_first_def days_from_civil_year daysIn_def)

text \<open>Months counted from year 0: their first days are ordered as they are.\<close>

definition nth_month :: "int \<Rightarrow> int" where
  "nth_month i = month_first (i div 12) (i mod 12 + 1)"

lemma nth_month_step: "nth_month (i + 1) = nth_month i + daysIn (i mod 12 + 1) (i div 12)"
proof -
  have m: "1 \<le> i mod 12 + 1" "i mod 12 + 1 \<le> 12" by simp_all
  have "(i + 1) div 12 = (if i mod 12 + 1 = 12 then i div 12 + 1 else i div 12)
    \<and> (i + 1) mod 12 = (if i mod 12 + 1 = 12 then 0 else i mod 12 + 1)"
  proof (cases "i mod 12 = 11")
    case True
    then have e: "i + 1 = 12 * (i div 12 + 1) + 0" using mult_div_mod_eq [of 12 i] by simp
    show ?thesis using int_div_pos_eq [OF e] int_mod_pos_eq [OF e] True by simp
  next
    case False
    have e: "i + 1 = 12 * (i div 12) + (i mod 12 + 1)" by simp
    show ?thesis using int_div_pos_eq [OF e] int_mod_pos_eq [OF e] False m by simp
  qed
  then have "(i + 1) div 12 = (if i mod 12 + 1 = 12 then i div 12 + 1 else i div 12)"
    "(i + 1) mod 12 + 1 = (if i mod 12 + 1 = 12 then 1 else i mod 12 + 1 + 1)" by simp_all
  then show ?thesis using month_first_next [OF m, of "i div 12"] unfolding nth_month_def by (simp only:)
qed

lemma daysIn_bounds: "28 \<le> daysIn m y" "daysIn m y \<le> 31"
  by (simp_all add: daysIn_def)

lemma nth_month_far: "nth_month i + 28 * int k \<le> nth_month (i + int k) \<and> nth_month (i + int k) \<le> nth_month i + 31 * int k"
proof (induction k)
  case (Suc k)
  have "nth_month (i + int (Suc k)) = nth_month (i + int k) + daysIn ((i + int k) mod 12 + 1) ((i + int k) div 12)"
    using nth_month_step [of "i + int k"] by (simp add: ac_simps)
  then show ?case using Suc daysIn_bounds [of "(i + int k) mod 12 + 1" "(i + int k) div 12"] by simp
qed simp

lemma nth_month_mono: "i < j \<Longrightarrow> nth_month i + 28 \<le> nth_month j"
proof -
  assume "i < j"
  then have "nth_month (i + 1) + 28 * int (nat (j - i - 1)) \<le> nth_month (i + 1 + int (nat (j - i - 1)))"
    using nth_month_far by blast
  then show ?thesis using \<open>i < j\<close> nth_month_step [of i] daysIn_bounds(1) [of "i mod 12 + 1" "i div 12"] by simp
qed

text \<open>The month a day belongs to.\<close>

definition month_index :: "int \<Rightarrow> int" where
  "month_index n = (case civil_from_days n of (y, m, _) \<Rightarrow> 12 * y + (m - 1))"

lemma month_index_first:
  assumes "civil_from_days n = (y, m, d)"
  shows "nth_month (month_index n) = month_first y m" "nth_month (month_index n) = n - (d - 1)"
proof -
  note r = civil_roundtrip [OF assms]
  have "month_index n div 12 = y" "month_index n mod 12 = m - 1" using r(2,3) by (simp_all add: month_index_def assms)
  then show "nth_month (month_index n) = month_first y m" by (simp add: nth_month_def)
  then show "nth_month (month_index n) = n - (d - 1)" using r(5) by simp
qed

lemma civil_day_bound: "n < nth_month (month_index n + 1)"
proof -
  obtain y doy where s: "n = year_start y + doy" "0 \<le> doy" "n < year_start (y + 1)"
    and c: "civil_from_days n = (y + (if month_of ((5 * doy + 2) div 153) \<le> 2 then 1 else 0), month_of ((5 * doy + 2) div 153),
       doy - (153 * ((5 * doy + 2) div 153) + 2) div 5 + 1)" by (rule civil_from_days_split)
  have "doy \<le> 365" using s year_length [of y] by (simp split: if_splits)
  note md = month_day [OF s(2) this]
  define mp where "mp = (5 * doy + 2) div 153"
  note md = md [folded mp_def]
  define m where "m = month_of mp"
  have i: "month_index n = 12 * (y + (if m \<le> 2 then 1 else 0)) + (m - 1)"
    by (simp add: month_index_def c mp_def m_def)
  show ?thesis
  proof (cases "mp = 11")
    case True
    then have "m = 2" by (simp add: m_def month_of_def)
    then have "nth_month (month_index n + 1) = month_first (y + 1) 3" unfolding i by (simp add: nth_month_def)
    then show ?thesis using s(3) by (simp add: month_first_def days_from_civil_year)
  next
    case False
    show ?thesis
    proof (cases "mp = 9")
      case True
      then have m: "m = 12" by (simp add: m_def month_of_def)
      have "month_index n + 1 = 12 * (y + 1)" unfolding i m by simp
      then have "nth_month (month_index n + 1) = month_first (y + 1) 1" by (simp add: nth_month_def add.commute)
      then show ?thesis using s(1) md(8) True by (simp add: month_first_def days_from_civil_year)
    next
      case nine: False
      have "m \<noteq> 12" "1 \<le> m" "m \<le> 12" using nine md(1,2,3,4) by (auto simp: m_def month_of_def)
      then have "nth_month (month_index n + 1) = month_first (y + (if m \<le> 2 then 1 else 0)) (m + 1)"
        unfolding i by (simp add: nth_month_def)
      moreover have "(m + 1 \<le> 2) = (m \<le> 2)" "(m + 10) mod 12 = mp + 1"
      proof -
        have mp: "mp \<le> 8 \<or> mp = 10" using False nine md(1,2) by linarith
        then show "(m + 1 \<le> 2) = (m \<le> 2)" using md(1) by (auto simp: m_def month_of_def)
        show "(m + 10) mod 12 = mp + 1" using mp
        proof
          assume "mp \<le> 8"
          then have "m + 10 = 12 * 1 + (mp + 1)" by (simp add: m_def month_of_def)
          from int_mod_pos_eq [OF this] show ?thesis using \<open>mp \<le> 8\<close> md(1) by simp
        qed (simp add: m_def month_of_def)
      qed
      ultimately show ?thesis using s(1) md(8) by (simp add: month_first_def days_from_civil_year algebra_simps)
    qed
  qed
qed

lemma month_index_unique:
  assumes "nth_month i \<le> n" "n < nth_month (i + 1)"
  shows "month_index n = i"
proof -
  obtain y m d where c: "civil_from_days n = (y, m, d)" by (cases "civil_from_days n") auto
  have le: "nth_month (month_index n) \<le> n" using month_index_first(2) [OF c] civil_roundtrip(4) [OF c] by simp
  show ?thesis
  proof (rule linorder_cases [of "month_index n" i])
    assume "month_index n < i"
    then have "nth_month (month_index n + 1) \<le> nth_month i"
      using nth_month_mono [of "month_index n + 1" i] by (cases "month_index n + 1 = i") auto
    then show ?thesis using civil_day_bound [of n] assms(1) by simp
  next
    assume "i < month_index n"
    then have "nth_month (i + 1) \<le> nth_month (month_index n)"
      using nth_month_mono [of "i + 1" "month_index n"] by (cases "i + 1 = month_index n") auto
    then show ?thesis using le assms(2) by simp
  qed
qed

end
