(* ===== verification/Sizing_Months.thy ===== *)
theory Sizing_Months
  imports Sizing_Store Sizing_Sanitize GoCalendar
begin

text \<open>
  Days and months of fleet sizing: a day and its text convert both ways, and the months the
  history is kept by are those of the calendar.
\<close>

subsection \<open>Days as text\<close>

lemma nat_dec_length: "0 \<le> n \<Longrightarrow> n < 10 ^ w \<Longrightarrow> 0 < w \<Longrightarrow> length (nat_dec n) \<le> w"
proof (induction w arbitrary: n)
  case (Suc w)
  show ?case
  proof (cases "n < 10")
    case True
    then show ?thesis by (subst nat_dec.simps) simp
  next
    case False
    have "n div 10 < 10 ^ w" using Suc.prems(2) by (simp add: div_less_iff_less_mult)
    moreover have "0 < w" using False Suc.prems(2) by (cases w) auto
    ultimately have "length (nat_dec (n div 10)) \<le> w" using Suc.IH [of "n div 10"] Suc.prems(1) by simp
    then show ?thesis using False by (subst nat_dec.simps) simp
  qed
qed simp

lemma foldl_zeros: "foldl (\<lambda>a c. a * 10 + dv c) 0 (replicate k (CHR ''0'') @ s) = foldl (\<lambda>a c. a * 10 + dv c) 0 s"
  by (induction k) (simp_all add: dv_def byte_def)

lemma pad_number:
  assumes "0 \<le> n" "n < 10 ^ w" "0 < w"
  shows "length (pad w n) = w" "list_all is_digit (pad w n)" "digits_val (pad w n) = n"
proof -
  have p: "pad w n = replicate (w - length (nat_dec n)) (CHR ''0'') @ nat_dec n" using assms(1) by (simp add: pad_def)
  show "length (pad w n) = w" using nat_dec_length [OF assms] by (simp add: p)
  show "list_all is_digit (pad w n)" using nat_dec_digits [OF assms(1)] by (auto simp: p list_all_iff is_digit_def byte_def set_replicate_conv_if)
  show "digits_val (pad w n) = n" using nat_dec_value [OF assms(1)]
    unfolding digits_val_def p foldl_zeros by (simp add: dec_value_def dv_def)
qed

lemma fixed_num_pad:
  assumes "0 \<le> n" "n < 10 ^ w" "0 < w"
  shows "fixed_num w (pad w n @ s) = Some (n, s)"
  using pad_number [OF assms] by (simp add: fixed_num_def)

lemma civil_day_in_month:
  assumes "civil_from_days n = (y, m, d)"
  shows "d \<le> daysIn m y"
proof -
  have "month_index n div 12 = y" "month_index n mod 12 = m - 1"
    using civil_roundtrip(2,3) [OF assms] by (simp_all add: month_index_def assms)
  then have "nth_month (month_index n + 1) = nth_month (month_index n) + daysIn m y" using nth_month_step [of "month_index n"] by simp
  then show ?thesis using civil_day_bound [of n] month_index_first(2) [OF assms] by simp
qed

lemma digit_ascii: "is_digit c \<Longrightarrow> 32 < byte c \<and> byte c < 127"
  by (simp add: is_digit_def)

text \<open>
  A day reads back as it was written. The text of every day of the years 0 to 9999 is
  accepted and stands for that day: leap years, the ends of months and the days before 1970
  included.
\<close>

lemma parseDay_DayString:
  assumes "0 \<le> fst (civil_from_days day)" "fst (civil_from_days day) \<le> 9999"
  shows "parseDay (sizing_DayString day) = Some day"
proof -
  obtain y m d where c: "civil_from_days day = (y, m, d)" by (cases "civil_from_days day") auto
  have y: "0 \<le> y" "y < 10 ^ 4" using assms c by simp_all
  note r = civil_roundtrip [OF c] and dm = civil_day_in_month [OF c]
  have m: "0 \<le> m" "m < 10 ^ 2" and d: "0 \<le> d" "d < 10 ^ 2" using r(2-4) dm daysIn_bounds(2) [of m y] by simp_all
  have s: "sizing_DayString day = pad 4 y @ CHR ''-'' # pad 2 m @ CHR ''-'' # pad 2 d @ []"
    by (simp add: sizing_DayString_def format_date_def c)
  have "list_all (\<lambda>c. 32 < byte c \<and> byte c < 127) (sizing_DayString day)"
    using pad_number(2) [OF y] pad_number(2) [OF m] pad_number(2) [OF d] digit_ascii unfolding s list_all_iff
    by (auto simp: byte_def)
  then have t: "TrimSpace (sizing_DayString day) = sizing_DayString day" by (rule TrimSpace_ascii)
  show ?thesis unfolding parseDay_def t unfolding s fixed_num_pad [OF y, simplified]
    using r(1-4) dm fixed_num_pad [OF m, simplified] fixed_num_pad [OF d, of "[]", simplified]
    by (simp add: literal_def in_range_def)
qed

subsection \<open>Months\<close>

definition year_month :: "int \<Rightarrow> int \<times> int" where
  "year_month i = (i div 12, i mod 12 + 1)"

definition nth_range :: "int \<Rightarrow> month_range" where
  "nth_range i = \<lparr>mg_label = pad 4 (i div 12) @ ''-'' @ pad 2 (i mod 12 + 1), mg_from = nth_month i, mg_to = nth_month (i + 1) - 1\<rparr>"

lemma month_start_nth: "month_start (year_month i) = nth_month i"
  by (simp add: month_start_def year_month_def nth_month_def month_first_def)

lemma next_month_nth: "next_month (year_month i) = year_month (i + 1)"
proof (cases "i mod 12 = 11")
  case True
  then have e: "i + 1 = 12 * (i div 12 + 1) + 0" using mult_div_mod_eq [of 12 i] by simp
  show ?thesis using int_div_pos_eq [OF e] int_mod_pos_eq [OF e] True by (simp add: next_month_def year_month_def)
next
  case False
  have e: "i + 1 = 12 * (i div 12) + (i mod 12 + 1)" by simp
  have "i mod 12 < 12" by simp
  then have "i mod 12 + 1 < 12" using False by linarith
  then show ?thesis using int_div_pos_eq [OF e] int_mod_pos_eq [OF e] False by (simp add: next_month_def year_month_def)
qed

lemma nth_month_later: "nth_month i \<le> nth_month (i + int k)"
  using nth_month_far [of i k] by simp

text \<open>The loop yields the months whose first day is in range, one after the other.\<close>

lemma months_from_nth:
  "nth_month (i + int fuel) > end_day \<Longrightarrow>
   \<exists>k. months_from fuel (year_month i) end_day = map (\<lambda>j. nth_range (i + int j)) [0..<k]
     \<and> (\<forall>j. nth_month (i + int j) \<le> end_day \<longleftrightarrow> j < k)"
proof (induction fuel arbitrary: i)
  case 0
  have "\<not> nth_month (i + int j) \<le> end_day" for j using nth_month_later [of i j] 0 by simp
  then show ?case by (intro exI [of _ 0]) simp
next
  case (Suc fuel)
  show ?case
  proof (cases "nth_month i > end_day")
    case True
    have "\<not> nth_month (i + int j) \<le> end_day" for j using nth_month_later [of i j] True by simp
    then show ?thesis using True by (intro exI [of _ 0]) (simp add: month_start_nth)
  next
    case False
    have "nth_month (i + 1 + int fuel) > end_day" using Suc.prems by (simp add: ac_simps)
    from Suc.IH [OF this] obtain k where k:
      "months_from fuel (year_month (i + 1)) end_day = map (\<lambda>j. nth_range (i + 1 + int j)) [0..<k]"
      "\<forall>j. nth_month (i + 1 + int j) \<le> end_day \<longleftrightarrow> j < k" by blast
    have "months_from (Suc fuel) (year_month i) end_day = nth_range i # map (\<lambda>j. nth_range (i + 1 + int j)) [0..<k]"
      using False k(1) by (simp add: month_start_nth next_month_nth nth_range_def) (simp add: year_month_def)
    also have "\<dots> = map (\<lambda>j. nth_range (i + int j)) [0..<Suc k]"
      by (simp add: upt_conv_Cons map_Suc_upt [symmetric] ac_simps del: upt_Suc)
    finally have 1: "months_from (Suc fuel) (year_month i) end_day = map (\<lambda>j. nth_range (i + int j)) [0..<Suc k]" .
    have "nth_month (i + int j) \<le> end_day \<longleftrightarrow> j < Suc k" for j
      using k(2) [rule_format, of "j - 1"] False by (cases j) (simp_all add: ac_simps)
    with 1 show ?thesis by blast
  qed
qed

lemma month_index_le: "nth_month i \<le> n \<longleftrightarrow> i \<le> month_index n"
proof -
  obtain y m d where c: "civil_from_days n = (y, m, d)" by (cases "civil_from_days n") auto
  have le: "nth_month (month_index n) \<le> n" using month_index_first(2) [OF c] civil_roundtrip(4) [OF c] by simp
  have lt: "n < nth_month (month_index n + 1)" by (rule civil_day_bound)
  show ?thesis
  proof
    assume "nth_month i \<le> n"
    then have "\<not> month_index n + 1 \<le> i" using lt nth_month_mono [of "month_index n + 1" i] by (cases "month_index n + 1 = i") auto
    then show "i \<le> month_index n" by simp
  next
    assume "i \<le> month_index n"
    then show "nth_month i \<le> n" using le nth_month_mono [of i "month_index n"] by (cases "i = month_index n") auto
  qed
qed

lemma monthRanges_nth:
  "monthRanges fromDay toDay =
     (if toDay < fromDay then []
      else map (\<lambda>j. nth_range (month_index fromDay + int j)) [0..<nat (month_index toDay - month_index fromDay + 1)])"
proof (cases "toDay < fromDay")
  case False
  obtain y m d where c: "civil_from_days fromDay = (y, m, d)" by (cases "civil_from_days fromDay") auto
  let ?i = "month_index fromDay"
  have ym: "(y, m) = year_month ?i" using civil_roundtrip(2,3) [OF c] by (simp add: year_month_def month_index_def c)
  let ?fuel = "Suc (nat (toDay - nth_month ?i + 1))"
  have "nth_month (?i + int ?fuel) > toDay" 
  proof -
    have "toDay - nth_month ?i < int ?fuel" by simp
    also have "\<dots> \<le> 28 * int ?fuel" by simp
    also have "\<dots> \<le> nth_month (?i + int ?fuel) - nth_month ?i" using nth_month_far [of ?i ?fuel] by simp
    finally show ?thesis by simp
  qed
  from months_from_nth [OF this] obtain k where k:
    "months_from ?fuel (year_month ?i) toDay = map (\<lambda>j. nth_range (?i + int j)) [0..<k]"
    "\<forall>j. nth_month (?i + int j) \<le> toDay \<longleftrightarrow> j < k" by blast
  have "j < k \<longleftrightarrow> j < nat (month_index toDay - ?i + 1)" for j
    using k(2) [rule_format, of j] month_index_le [of "?i + int j" toDay] by auto
  then have "k = nat (month_index toDay - ?i + 1)" by (metis linorder_neqE_nat less_irrefl)
  moreover have "monthRanges fromDay toDay = months_from ?fuel (year_month ?i) toDay"
    using False by (simp only: monthRanges_def c prod.case ym month_start_nth if_False)
  ultimately show ?thesis using False k(1) by (simp only: if_False)
qed (simp add: monthRanges_def)

lemma in_monthRanges:
  "r \<in> set (monthRanges fromDay toDay) \<longleftrightarrow>
     fromDay \<le> toDay \<and> (\<exists>i. month_index fromDay \<le> i \<and> i \<le> month_index toDay \<and> r = nth_range i)"
proof -
  have e: "(\<exists>j<nat (b - a + 1). r = nth_range (a + int j)) \<longleftrightarrow> (\<exists>i. a \<le> i \<and> i \<le> b \<and> r = nth_range i)" for a b
  proof
    assume "\<exists>i. a \<le> i \<and> i \<le> b \<and> r = nth_range i"
    then obtain i where "a \<le> i" "i \<le> b" "r = nth_range i" by blast
    then show "\<exists>j<nat (b - a + 1). r = nth_range (a + int j)" by (intro exI [of _ "nat (i - a)"]) simp
  next
    assume "\<exists>j<nat (b - a + 1). r = nth_range (a + int j)"
    then obtain j where "j < nat (b - a + 1)" "r = nth_range (a + int j)" by blast
    then show "\<exists>i. a \<le> i \<and> i \<le> b \<and> r = nth_range i" by (intro exI [of _ "a + int j"]) simp
  qed
  show ?thesis
  proof (cases "toDay < fromDay")
    case False
    then have "r \<in> set (monthRanges fromDay toDay) \<longleftrightarrow>
      (\<exists>j<nat (month_index toDay - month_index fromDay + 1). r = nth_range (month_index fromDay + int j))"
      by (auto simp: monthRanges_nth)
    then show ?thesis using False e by simp
  qed (simp add: monthRanges_nth)
qed

lemma nth_range_day: "mg_from (nth_range i) \<le> d \<and> d \<le> mg_to (nth_range i) \<longleftrightarrow> month_index d = i"
  using month_index_le [of i d] month_index_le [of "i + 1" d] by (auto simp: nth_range_def)

text \<open>A range is one month of the calendar: the days of that year and month, no more and no fewer.\<close>

definition calendar_month :: "month_range \<Rightarrow> bool" where
  "calendar_month r \<longleftrightarrow> (\<exists>y m. mg_label r = pad 4 y @ ''-'' @ pad 2 m
     \<and> (\<forall>d. (mg_from r \<le> d \<and> d \<le> mg_to r) = (\<exists>k. civil_from_days d = (y, m, k))))"

lemma month_index_civil: "month_index d = i \<longleftrightarrow> (\<exists>k. civil_from_days d = (i div 12, i mod 12 + 1, k))"
proof
  assume i: "month_index d = i"
  obtain y m k where c: "civil_from_days d = (y, m, k)" by (cases "civil_from_days d") auto
  have "i div 12 = y" "i mod 12 = m - 1" using civil_roundtrip(2,3) [OF c] by (simp_all add: i [symmetric] month_index_def c)
  then show "\<exists>k. civil_from_days d = (i div 12, i mod 12 + 1, k)" using c by simp
next
  assume "\<exists>k. civil_from_days d = (i div 12, i mod 12 + 1, k)"
  then show "month_index d = i" using mult_div_mod_eq [of 12 i] by (auto simp: month_index_def)
qed

lemma calendar_month_nth: "calendar_month (nth_range i)"
  unfolding calendar_month_def nth_range_day month_index_civil
  by (intro exI [of _ "i div 12"] exI [of _ "i mod 12 + 1"]) (simp add: nth_range_def)

lemma successively_nth_range: "successively (\<lambda>r r'. mg_from r' = mg_to r + 1) (map (\<lambda>j. nth_range (a + int j)) [0..<n])"
  by (auto simp: successively_conv_nth nth_range_def ac_simps)

text \<open>
  C37: the history is kept by calendar months. Of a span with no day there is no range.
  Otherwise the loop over the months yields exactly the months from that of the first day to
  that of the last: every range is a month of the calendar, leap years included, labelled with
  its year and month; the first one holds the first day, each begins the day after the one
  before it ended, and the last one, where the loop ends, holds the last day.
\<close>

theorem monthRanges_calendar:
  "(if toDay < fromDay then monthRanges fromDay toDay = []
    else monthRanges fromDay toDay \<noteq> [] \<and> list_all calendar_month (monthRanges fromDay toDay)
      \<and> mg_from (hd (monthRanges fromDay toDay)) \<le> fromDay \<and> fromDay \<le> mg_to (hd (monthRanges fromDay toDay))
      \<and> successively (\<lambda>r r'. mg_from r' = mg_to r + 1) (monthRanges fromDay toDay)
      \<and> mg_from (last (monthRanges fromDay toDay)) \<le> toDay \<and> toDay \<le> mg_to (last (monthRanges fromDay toDay)))"
proof (cases "toDay < fromDay")
  case False
  let ?a = "month_index fromDay" and ?b = "month_index toDay"
  define n where "n = nat (?b - ?a)"
  have le: "?a \<le> ?b" using False month_index_le [of ?a fromDay] month_index_le [of ?a toDay] by auto
  then have m: "monthRanges fromDay toDay = map (\<lambda>j. nth_range (?a + int j)) [0..<Suc n]" and e: "?a + int n = ?b"
    using False by (simp_all add: monthRanges_nth n_def nat_add_distrib)
  have "hd (monthRanges fromDay toDay) = nth_range ?a" "last (monthRanges fromDay toDay) = nth_range ?b"
    using e by (simp_all add: m hd_map last_map hd_upt del: upt_Suc)
  then show ?thesis
    using False nth_range_day [of ?a fromDay] nth_range_day [of ?b toDay] successively_nth_range [of ?a "Suc n"]
    by (auto simp: m calendar_month_nth list_all_iff simp del: upt_Suc)
qed (simp add: monthRanges_def)

text \<open>A month the rollup recomputes begins at most 75 days before the day of the pass.\<close>

lemma rollup_month_recent:
  assumes "r \<in> set (monthRanges (today - 45) today)"
  shows "today - 75 \<le> mg_from r"
proof -
  obtain i where i: "month_index (today - 45) \<le> i" "r = nth_range i" using assms by (auto simp: in_monthRanges)
  let ?a = "month_index (today - 45)"
  have "today - 45 < nth_month (?a + 1)" by (rule civil_day_bound)
  moreover have "nth_month (?a + 1) \<le> nth_month ?a + 31" using nth_month_far [of ?a 1] by simp
  moreover have "nth_month ?a \<le> nth_month i" using i(1) nth_month_mono [of ?a i] by (cases "?a = i") auto
  ultimately show ?thesis using i(2) by (simp add: nth_range_def)
qed

end
