(* ===== verification/Sizing_History.thy ===== *)
theory Sizing_History
  imports Sizing_Api Sizing_Sanitize_Props Sizing_Cohort_Props Sizing_Months
begin

text \<open>
  Histories of the sizing service: reports and passes in any order, with any call of the store
  failing. What a report leaves in the store, the scores of every stored day, and that pruning
  cannot be seen in anything the service publishes.
\<close>

record sizing_env =
  ze_decode :: "bool \<Rightarrow> string \<Rightarrow> sizing_report decoded"
  ze_trusted :: trusted_proxies
  ze_max_nodes :: int
  ze_pass :: pass_config

text \<open>The events, each with the failures of the store it meets and its time.\<close>

datatype sizing_event =
    SizingReport http_request int bool bool int
  | SizingPass "pass_call \<Rightarrow> bool" nat int

fun event_time :: "sizing_event \<Rightarrow> int" where
  "event_time (SizingReport r len f g now) = now"
| "event_time (SizingPass fails k now) = now"

fun sizing_step :: "sizing_env \<Rightarrow> sizing_event \<Rightarrow> sizing_store \<Rightarrow> sizing_store" where
  "sizing_step env (SizingReport r len f g now) s =
     snd (handleReports (ze_decode env) (ze_trusted env) (ze_max_nodes env) f g r len now s)"
| "sizing_step env (SizingPass fails k now) s = snd (pass_Run (ze_pass env) fails k now s)"

definition sizing_run :: "sizing_env \<Rightarrow> sizing_event list \<Rightarrow> sizing_store \<Rightarrow> sizing_store" where
  "sizing_run env es s = fold (sizing_step env) es s"

subsection \<open>Inserting\<close>

lemma insert_all_Some: "insert_all key new rows = Some rows' \<Longrightarrow> rows' = rows @ new"
  by (induction key new rows rule: insert_all.induct) (auto split: option.splits)

lemma insert_all_fresh:
  "distinct (map key new) \<Longrightarrow> key ` set new \<inter> key ` set rows = {} \<Longrightarrow> insert_all key new rows = Some (rows @ new)"
proof (induction key new rows rule: insert_all.induct)
  case (2 key r rs rows)
  then have "find_key key (key r) rows = None" by (auto simp: find_key_None)
  with 2 show ?case by auto
qed simp

lemma modules_of_keys: "map module_pk (modules_of sys day n) = map (\<lambda>f. (sys, nd_node n, day, f)) (map zm_family (nd_modules n))"
  by (simp add: modules_of_def module_pk_def)

lemma metrics_of_keys:
  "map metric_pk (metrics_of sys day n) =
     concat (map (\<lambda>z. map (\<lambda>k. (sys, nd_node n, day, zm_family z, k)) (map fst (zm_workload z))) (nd_modules n))"
  by (simp add: metrics_of_def map_concat comp_def metric_pk_def split_beta)

text \<open>A row the handler builds meets no key it inserts twice.\<close>

definition insertable :: "node_day_row \<Rightarrow> bool" where
  "insertable n \<longleftrightarrow> distinct (map zm_family (nd_modules n)) \<and> list_all (\<lambda>z. distinct (map fst (zm_workload z))) (nd_modules n)"

lemma metrics_distinct:
  "distinct (map zm_family zs) \<Longrightarrow> list_all (\<lambda>z. distinct (map fst (zm_workload z))) zs \<Longrightarrow>
   distinct (concat (map (\<lambda>z. map (\<lambda>k. (a, b, c, zm_family z, k)) (map fst (zm_workload z))) zs))"
  by (induction zs) (auto simp: distinct_map inj_on_def)

text \<open>What one node-day and one cluster-day do to each table.\<close>

definition put_daily :: "string \<Rightarrow> string \<Rightarrow> int \<Rightarrow> int \<times> node_day_row \<Rightarrow> daily_row list \<Rightarrow> daily_row list" where
  "put_daily sys reporter now p = upsert daily_pk (\<lambda>_ new. new) (daily_of sys reporter (fst p) now (snd p))"

definition put_modules :: "string \<Rightarrow> int \<times> node_day_row \<Rightarrow> module_row list \<Rightarrow> module_row list" where
  "put_modules sys p rs = filter (\<lambda>r. \<not> (mo_system r = sys \<and> mo_node r = nd_node (snd p) \<and> mo_day r = fst p)) rs @ modules_of sys (fst p) (snd p)"

definition put_metrics :: "string \<Rightarrow> int \<times> node_day_row \<Rightarrow> metric_row list \<Rightarrow> metric_row list" where
  "put_metrics sys p rs = filter (\<lambda>r. \<not> (me_system r = sys \<and> me_node r = nd_node (snd p) \<and> me_day r = fst p)) rs @ metrics_of sys (fst p) (snd p)"

definition put_cluster :: "string \<Rightarrow> day_rows \<Rightarrow> cluster_row list \<Rightarrow> cluster_row list" where
  "put_cluster sys d rs = filter (\<lambda>r. \<not> (cd_system r = sys \<and> cd_day r = dy_day d)) rs
     @ map (\<lambda>(k, v). \<lparr>cd_system = sys, cd_day = dy_day d, cd_metric = k, cd_value = v\<rparr>) (dy_cluster_workload d)"

definition put_node :: "string \<Rightarrow> int \<Rightarrow> int \<times> node_day_row \<Rightarrow> dimension_row list \<Rightarrow> dimension_row list" where
  "put_node sys now p rs = ss_nodes (upsertSizingNodeDimension sys (snd p) now (empty_sizing\<lparr>ss_nodes := rs\<rparr>))"

lemma upsertSizingNodeDay_Some:
  assumes "insertable n"
  shows "upsertSizingNodeDay sys reporter day n now s =
    Some (s\<lparr>ss_daily := put_daily sys reporter now (day, n) (ss_daily s), ss_modules := put_modules sys (day, n) (ss_modules s),
            ss_metrics := put_metrics sys (day, n) (ss_metrics s)\<rparr>)"
proof -
  let ?mo = "filter (\<lambda>r. \<not> (mo_system r = sys \<and> mo_node r = nd_node n \<and> mo_day r = day)) (ss_modules s)"
  let ?me = "filter (\<lambda>r. \<not> (me_system r = sys \<and> me_node r = nd_node n \<and> me_day r = day)) (ss_metrics s)"
  have "distinct (map module_pk (modules_of sys day n))"
    unfolding modules_of_keys using assms by (subst distinct_map) (simp add: insertable_def inj_on_def)
  moreover have "module_pk ` set (modules_of sys day n) \<inter> module_pk ` set ?mo = {}"
    by (auto simp: modules_of_def module_pk_def)
  ultimately have m: "insert_all module_pk (modules_of sys day n) ?mo = Some (?mo @ modules_of sys day n)"
    by (rule insert_all_fresh)
  have "distinct (map metric_pk (metrics_of sys day n))"
    unfolding metrics_of_keys using assms by (intro metrics_distinct) (simp_all add: insertable_def)
  moreover have "metric_pk ` set (metrics_of sys day n) \<inter> metric_pk ` set ?me = {}"
    by (auto simp: metrics_of_def metric_pk_def)
  ultimately have "insert_all metric_pk (metrics_of sys day n) ?me = Some (?me @ metrics_of sys day n)"
    by (rule insert_all_fresh)
  with m show ?thesis by (simp add: upsertSizingNodeDay_def put_daily_def put_modules_def put_metrics_def)
qed

lemma replaceSizingClusterDay_Some:
  assumes "distinct (map fst (dy_cluster_workload d))"
  shows "replaceSizingClusterDay sys (dy_day d) (dy_cluster_workload d) s = Some (s\<lparr>ss_cluster := put_cluster sys d (ss_cluster s)\<rparr>)"
proof -
  let ?new = "map (\<lambda>(k, v). \<lparr>cd_system = sys, cd_day = dy_day d, cd_metric = k, cd_value = v\<rparr>) (dy_cluster_workload d)"
  let ?old = "filter (\<lambda>r. \<not> (cd_system r = sys \<and> cd_day r = dy_day d)) (ss_cluster s)"
  have k: "map cluster_pk ?new = map (\<lambda>k. (sys, dy_day d, k)) (map fst (dy_cluster_workload d))"
    by (simp add: comp_def cluster_pk_def split_beta)
  have "distinct (map cluster_pk ?new)" unfolding k using assms by (subst distinct_map) (simp add: inj_on_def)
  moreover have "cluster_pk ` set ?new \<inter> cluster_pk ` set ?old = {}" by (auto simp: cluster_pk_def)
  ultimately have "insert_all cluster_pk ?new ?old = Some (?old @ ?new)" by (rule insert_all_fresh)
  then show ?thesis by (simp add: replaceSizingClusterDay_def put_cluster_def)
qed

lemma upsertSizingNodeDimension_put:
  "upsertSizingNodeDimension sys n now s = s\<lparr>ss_nodes := put_node sys now (day, n) (ss_nodes s)\<rparr>"
  by (simp add: upsertSizingNodeDimension_def put_node_def Let_def)

text \<open>A whole report: the node-days it stores, one after the other.\<close>

definition node_days :: "day_rows list \<Rightarrow> (int \<times> node_day_row) list" where
  "node_days days = concat (map (\<lambda>d. map (Pair (dy_day d)) (dy_nodes d)) days)"

definition insertable_days :: "day_rows list \<Rightarrow> bool" where
  "insertable_days days \<longleftrightarrow> list_all (\<lambda>d. list_all insertable (dy_nodes d) \<and> distinct (map fst (dy_cluster_workload d))) days"

lemma upsert_nodes_Some:
  "list_all insertable ns \<Longrightarrow> upsert_nodes sys reporter day ns now s =
     Some (s\<lparr>ss_daily := fold (put_daily sys reporter now) (map (Pair day) ns) (ss_daily s),
             ss_modules := fold (put_modules sys) (map (Pair day) ns) (ss_modules s),
             ss_metrics := fold (put_metrics sys) (map (Pair day) ns) (ss_metrics s),
             ss_nodes := fold (put_node sys now) (map (Pair day) ns) (ss_nodes s)\<rparr>)"
  by (induction ns arbitrary: s)
    (simp_all add: upsertSizingNodeDay_Some upsertSizingNodeDimension_put [where day = day])

lemma upsert_days_Some:
  "insertable_days days \<Longrightarrow> upsert_days sys reporter days now s =
     Some (s\<lparr>ss_daily := fold (put_daily sys reporter now) (node_days days) (ss_daily s),
             ss_modules := fold (put_modules sys) (node_days days) (ss_modules s),
             ss_metrics := fold (put_metrics sys) (node_days days) (ss_metrics s),
             ss_nodes := fold (put_node sys now) (node_days days) (ss_nodes s),
             ss_cluster := fold (put_cluster sys) days (ss_cluster s)\<rparr>)"
  by (induction days arbitrary: s)
    (simp_all add: insertable_days_def upsert_nodes_Some replaceSizingClusterDay_Some node_days_def)

lemma UpsertSizingDays_Some:
  "insertable_days days \<Longrightarrow> UpsertSizingDays sys reporter days now s =
     Some (int (length (node_days days)),
       s\<lparr>ss_daily := fold (put_daily sys reporter now) (node_days days) (ss_daily s),
             ss_modules := fold (put_modules sys) (node_days days) (ss_modules s),
             ss_metrics := fold (put_metrics sys) (node_days days) (ss_metrics s),
             ss_nodes := fold (put_node sys now) (node_days days) (ss_nodes s),
             ss_cluster := fold (put_cluster sys) days (ss_cluster s)\<rparr>)"
proof -
  assume "insertable_days days"
  then have "upsert_days sys reporter days now s = Some (s\<lparr>ss_daily := fold (put_daily sys reporter now) (node_days days) (ss_daily s),
             ss_modules := fold (put_modules sys) (node_days days) (ss_modules s),
             ss_metrics := fold (put_metrics sys) (node_days days) (ss_metrics s),
             ss_nodes := fold (put_node sys now) (node_days days) (ss_nodes s),
             ss_cluster := fold (put_cluster sys) days (ss_cluster s)\<rparr>)" by (rule upsert_days_Some)
  moreover have "length (node_days days) = sum_list (map (\<lambda>d. length (dy_nodes d)) days)"
    by (simp add: node_days_def length_concat comp_def)
  ultimately show ?thesis by (simp add: UpsertSizingDays_def) (simp add: node_days_def)
qed

text \<open>A sanitized report is insertable.\<close>

lemma scored_days_insertable: "insertable_days (scoreSizingDays (fst (sizing_Sanitize r opt t)))"
proof -
  have node: "insertable (SetScore sc (fresh_row n))" if "valid_node n" for n sc
    using that by (auto simp: valid_node_def insertable_def SetScore_def fresh_row_def list_all_iff valid_module_def valid_metrics_def strict_sorted_iff)
  show ?thesis using sanitized_days [of r opt t] node
    by (auto simp: insertable_days_def scoreSizingDays_def score_day_def list_all_iff valid_day_def valid_metrics_def)
qed

subsection \<open>What a report leaves\<close>

text \<open>The node-day of a report under a key, if it has one.\<close>

definition pair_key :: "string \<Rightarrow> int \<times> node_day_row \<Rightarrow> string \<times> int \<times> int" where
  "pair_key sys p = (sys, nd_node (snd p), fst p)"

definition node_day_at :: "string \<Rightarrow> day_rows list \<Rightarrow> string \<times> int \<times> int \<Rightarrow> node_day_row option" where
  "node_day_at sys days k = map_option snd (find_key (pair_key sys) k (node_days days))"

lemma find_put_daily:
  "find_key daily_pk k (put_daily sys reporter now p rs) =
     (if k = pair_key sys p then Some (daily_of sys reporter (fst p) now (snd p)) else find_key daily_pk k rs)"
proof -
  have "daily_pk (daily_of sys reporter (fst p) now (snd p)) = pair_key sys p" by (simp add: daily_of_def daily_pk_def pair_key_def)
  then show ?thesis unfolding put_daily_def by (subst find_key_upsert) (auto split: option.split)
qed

lemma find_fold_put_daily:
  "distinct (map (pair_key sys) ps) \<Longrightarrow> find_key daily_pk k (fold (put_daily sys reporter now) ps rs) =
     (case find_key (pair_key sys) k ps of
        Some p \<Rightarrow> Some (daily_of sys reporter (fst p) now (snd p)) | None \<Rightarrow> find_key daily_pk k rs)"
proof (induction ps arbitrary: rs)
  case (Cons p ps)
  have "k = pair_key sys p \<Longrightarrow> find_key (pair_key sys) k ps = None" using Cons.prems by (auto simp: find_key_None)
  then show ?case using Cons by (auto simp: find_put_daily split: option.split)
qed simp

definition module_node :: "module_row \<Rightarrow> string \<times> int \<times> int" where
  "module_node r = (mo_system r, mo_node r, mo_day r)"

definition metric_node :: "metric_row \<Rightarrow> string \<times> int \<times> int" where
  "metric_node r = (me_system r, me_node r, me_day r)"

lemma filter_put_modules:
  "filter (\<lambda>r. module_node r = k) (put_modules sys p rs) =
     (if k = pair_key sys p then modules_of sys (fst p) (snd p) else filter (\<lambda>r. module_node r = k) rs)"
  by (auto simp: put_modules_def modules_of_def module_node_def pair_key_def filter_empty_conv comp_def filter_map
    intro!: filter_cong)

lemma filter_put_metrics:
  "filter (\<lambda>r. metric_node r = k) (put_metrics sys p rs) =
     (if k = pair_key sys p then metrics_of sys (fst p) (snd p) else filter (\<lambda>r. metric_node r = k) rs)"
proof -
  have "metric_node r = pair_key sys p" if "r \<in> set (metrics_of sys (fst p) (snd p))" for r
    using that by (auto simp: metrics_of_def metric_node_def pair_key_def)
  then show ?thesis by (auto simp: put_metrics_def metric_node_def pair_key_def filter_empty_conv intro!: filter_cong filter_True)
qed

lemma filter_fold_put:
  assumes "\<And>p rs. filter (\<lambda>r. key r = k) (put p rs) = (if k = pair_key sys p then new p else filter (\<lambda>r. key r = k) rs)"
    "distinct (map (pair_key sys) ps)"
  shows "filter (\<lambda>r. key r = k) (fold put ps rs) =
     (case find_key (pair_key sys) k ps of Some p \<Rightarrow> new p | None \<Rightarrow> filter (\<lambda>r. key r = k) rs)"
  using assms(2)
proof (induction ps arbitrary: rs)
  case (Cons p ps)
  have "k = pair_key sys p \<Longrightarrow> find_key (pair_key sys) k ps = None" using Cons.prems by (auto simp: find_key_None)
  then show ?case using Cons by (auto simp: assms(1) split: option.split)
qed simp

lemma node_days_distinct:
  assumes "distinct (map dy_day days)" "list_all (\<lambda>d. distinct (map nd_node (dy_nodes d))) days"
  shows "distinct (map (pair_key sys) (node_days days))"
  using assms
proof (induction days)
  case (Cons d days)
  have "distinct (map (pair_key sys) (map (Pair (dy_day d)) (dy_nodes d)))"
    using Cons.prems by (simp add: comp_def pair_key_def distinct_map inj_on_def)
  moreover have "pair_key sys p \<noteq> pair_key sys (dy_day d, n)" if "p \<in> set (node_days days)" for p n
  proof -
    obtain d' n' where "d' \<in> set days" "p = (dy_day d', n')" using \<open>p \<in> set (node_days days)\<close> by (auto simp: node_days_def)
    moreover from this(1) have "dy_day d' \<noteq> dy_day d" using Cons.prems(1) by (auto intro: rev_image_eqI)
    ultimately show ?thesis by (simp add: pair_key_def)
  qed
  ultimately show ?case using Cons by (force simp: node_days_def)
qed (simp add: node_days_def)

lemma scored_days_distinct: "distinct (map (pair_key sys) (node_days (scoreSizingDays (fst (sizing_Sanitize r opt t)))))"
proof (rule node_days_distinct)
  show "distinct (map dy_day (scoreSizingDays (fst (sizing_Sanitize r opt t))))"
    using sanitized_days [of r opt t] by (simp add: scoreSizingDays_def score_day_def comp_def strict_sorted_iff)
  have "distinct (map nd_node (dy_nodes (score_day d)))" if "valid_day n today d" for n today d
    using that by (simp add: valid_day_def score_day_def comp_def SetScore_def fresh_row_def strict_sorted_iff)
  then show "list_all (\<lambda>d. distinct (map nd_node (dy_nodes d))) (scoreSizingDays (fst (sizing_Sanitize r opt t)))"
    using sanitized_days [of r opt t] by (auto simp: scoreSizingDays_def list_all_iff)
qed

subsection \<open>The handler\<close>

text \<open>The requests a report is taken from, with the reporter and the report.\<close>

definition admitted ::
  "(bool \<Rightarrow> string \<Rightarrow> sizing_report decoded) \<Rightarrow> trusted_proxies \<Rightarrow> http_request \<Rightarrow> int \<Rightarrow> (string \<times> sizing_report) option" where
  "admitted decode trusted r content_length =
     (case (SystemID r trusted, decode (hr_content_encoding r = ''gzip'') (hr_body r)) of
        (Inr sys, Decoded report) \<Rightarrow>
          if hr_method r = ''POST'' \<and> content_length \<le> 8 * 1024 * 1024 \<and> sr_schema_version report = 1
             \<and> (sr_system_id report = [] \<or> sr_system_id report = sys)
          then Some (sys, report) else None
      | _ \<Rightarrow> None)"

lemma handleReports_admitted:
  "handleReports decode trusted cap f g r len now s =
     (case admitted decode trusted r len of
        None \<Rightarrow> handleReports decode trusted cap f g r len now s
      | Some (sys, report) \<Rightarrow> accept_report cap f g sys report now s)"
  by (auto simp: admitted_def handleReports_def maxSizingReportSize_def SizingSchemaVersion_def
    split: sum.split decoded.split if_splits)

lemma handleReports_refused:
  "admitted decode trusted r len = None \<Longrightarrow>
     \<exists>status\<in>{400, 401, 403, 405, 413}. handleReports decode trusted cap f g r len now s = (SizingRefused status, s)"
  by (auto simp: admitted_def handleReports_def maxSizingReportSize_def SizingSchemaVersion_def
    split: sum.splits decoded.splits if_splits)

text \<open>The store after an accepted report, without the accounting.\<close>

definition stored_report :: "string \<Rightarrow> string \<Rightarrow> day_rows list \<Rightarrow> int \<Rightarrow> sizing_store \<Rightarrow> sizing_store" where
  "stored_report sys reporter days now s =
     s\<lparr>ss_daily := fold (put_daily sys reporter now) (node_days days) (ss_daily s),
       ss_modules := fold (put_modules sys) (node_days days) (ss_modules s),
       ss_metrics := fold (put_metrics sys) (node_days days) (ss_metrics s),
       ss_nodes := fold (put_node sys now) (node_days days) (ss_nodes s),
       ss_cluster := fold (put_cluster sys) days (ss_cluster s)\<rparr>"

lemma accept_report_stored:
  "accept_report cap f g sys report now s =
     (if f then (SizingRefused 503, s)
      else let days = scoreSizingDays (fst (sizing_Sanitize report cap now)); c = snd (sizing_Sanitize report cap now);
               reporter = CleanReporterVersion (sr_reporter_version report); s1 = stored_report sys reporter days now s
           in (SizingAccepted (int (length days)) (AcceptedNodes c) c,
               if g then s1 else RecordSizingIngest (counter_day days) sys reporter c now s1))"
proof -
  have "length (node_days (scoreSizingDays ds)) = sum_list (map (\<lambda>d. length (zd_nodes d)) ds)" for ds
    by (simp add: node_days_def scoreSizingDays_def score_day_def length_concat comp_def)
  then have "int (length (node_days (scoreSizingDays (fst (sizing_Sanitize report cap now))))) = AcceptedNodes (snd (sizing_Sanitize report cap now))"
    using sanitized_accounts [of report cap now] by simp
  then show ?thesis
    by (simp add: accept_report_def split_beta Let_def UpsertSizingDays_Some [OF scored_days_insertable] stored_report_def)
qed

text \<open>
  A report is refused for what is wrong with it, and never for what the store makes of it.
  A request that is not admitted is answered with one of the five statuses of a broken request
  and changes nothing. An admitted one is stored, whatever it contains: no sanitized report runs
  into a key of the store, so the 503 means that the store itself failed, and then nothing was
  written. The answer counts the days and nodes that were stored; a failure of the accounting
  does not change it.
\<close>

lemma handleReports_contract:
  "(case admitted decode trusted r len of
      None \<Rightarrow> \<exists>status\<in>{400, 401, 403, 405, 413}.
                handleReports decode trusted cap store_fails count_fails r len now s = (SizingRefused status, s)
    | Some (sys, report) \<Rightarrow>
        if store_fails then handleReports decode trusted cap store_fails count_fails r len now s = (SizingRefused 503, s)
        else case sizing_Sanitize report cap now of (days, c) \<Rightarrow>
               fst (handleReports decode trusted cap store_fails count_fails r len now s)
                 = SizingAccepted (int (length days)) (AcceptedNodes c) c)"
proof (cases "admitted decode trusted r len")
  case None
  then show ?thesis using handleReports_refused by simp
next
  case (Some a)
  then have "handleReports decode trusted cap store_fails count_fails r len now s =
    accept_report cap store_fails count_fails (fst a) (snd a) now s"
    by (subst handleReports_admitted) (simp add: split_beta)
  then show ?thesis using Some
    by (cases store_fails) (simp_all add: accept_report_stored split_beta Let_def scoreSizingDays_def)
qed

lemma find_node_days:
  assumes "find_key (pair_key sys) k (node_days days) = Some p"
  shows "fst p = snd (snd k)"
  using find_key_SomeD [OF assms] by (auto simp: pair_key_def)


subsection \<open>Scores\<close>

text \<open>A row is current: it carries this version of the formula, evaluated on its own measurements.\<close>

definition score_current :: "daily_row \<Rightarrow> bool" where
  "score_current r \<longleftrightarrow> da_score r = Evaluate (ScoreInput (row_of_daily r))"

definition scores_sound :: "sizing_store \<Rightarrow> bool" where
  "scores_sound s \<longleftrightarrow> keys_unique daily_pk (ss_daily s)
     \<and> list_all (\<lambda>r. sc_version (da_score r) = PressureVersion \<longrightarrow> score_current r) (ss_daily s)"

lemma Evaluate_version: "sc_version (Evaluate n) = PressureVersion"
  by (simp add: Evaluate_def empty_score_def Let_def split: prod.split)

lemma scored_row_current: "score_current (daily_of sys reporter day now (SetScore (Evaluate n) (fresh_row n)))"
  by (simp add: score_current_def daily_of_def SetScore_def fresh_row_def Evaluate_def covered_def ScoreInput_def row_of_daily_def
    mem_axis_def cpu_axis_def io_axis_def disk_axis_def)

definition row_key :: "node_day_row \<Rightarrow> string \<times> int \<times> int" where
  "row_key n = (nd_system n, nd_node n, nd_day n)"

definition refreshed :: "daily_row \<Rightarrow> daily_row" where
  "refreshed r = r\<lparr>da_score := Evaluate (ScoreInput (row_of_daily r))\<rparr>"

lemma refreshed_simps:
  "daily_pk (refreshed r) = daily_pk r" "row_of_daily (refreshed r) = row_of_daily r" "refreshed (refreshed r) = refreshed r"
  "da_score (refreshed r) = Evaluate (ScoreInput (row_of_daily r))" "da_day (refreshed r) = da_day r"
  by (simp_all add: refreshed_def daily_pk_def row_of_daily_def)

lemma fold_update_score:
  assumes "\<And>n r. n \<in> set ns \<Longrightarrow> r \<in> set rows \<Longrightarrow> daily_pk r = row_key n \<Longrightarrow> nd_score n = Evaluate (ScoreInput (row_of_daily r))"
  shows "fold update_score ns rows = map (\<lambda>r. if daily_pk r \<in> row_key ` set ns then refreshed r else r) rows"
  using assms
proof (induction ns arbitrary: rows)
  case (Cons n ns)
  have u: "update_score n rows = map (\<lambda>r. if daily_pk r = row_key n then refreshed r else r) rows"
    unfolding update_score_def row_key_def [symmetric] using Cons.prems [of n] by (auto simp: refreshed_def)
  have "nd_score n' = Evaluate (ScoreInput (row_of_daily r))"
    if "n' \<in> set ns" "r \<in> set (update_score n rows)" "daily_pk r = row_key n'" for n' r
  proof -
    note h = that
    obtain r0 where "r0 \<in> set rows" "r = (if daily_pk r0 = row_key n then refreshed r0 else r0)" using h(2) u by auto
    then show ?thesis using Cons.prems [of n' r0] h by (auto simp: refreshed_simps split: if_splits)
  qed
  from Cons.IH [OF this] have "fold update_score (n # ns) rows
      = map (\<lambda>r. if daily_pk r \<in> row_key ` set ns then refreshed r else r) (map (\<lambda>r. if daily_pk r = row_key n then refreshed r else r) rows)"
    by (simp only: fold_simps comp_apply u)
  also have "\<dots> = map (\<lambda>r. if daily_pk r \<in> row_key ` set (n # ns) then refreshed r else r) rows"
    unfolding map_map comp_def by (rule map_cong [OF refl]) (simp add: refreshed_simps)
  finally show ?case .
qed simp

definition stale :: "daily_row \<Rightarrow> bool" where
  "stale r \<longleftrightarrow> sc_version (da_score r) \<noteq> PressureVersion"

text \<open>The rows a batch takes: the stale ones of the latest days.\<close>

definition batch_of :: "pass_config \<Rightarrow> daily_row list \<Rightarrow> daily_row list" where
  "batch_of cfg rows = take (nat (pc_recompute_batch cfg)) (sort_key (\<lambda>r. (- da_day r, da_system r, da_node r)) (filter stale rows))"

lemma recompute_rows:
  assumes "pass_recompute cfg fails s = Inr s'" "keys_unique daily_pk (ss_daily s)"
  shows "s' = s\<lparr>ss_daily := map (\<lambda>r. if daily_pk r \<in> daily_pk ` set (batch_of cfg (ss_daily s)) then refreshed r else r) (ss_daily s)\<rparr>"
proof -
  let ?b = "batch_of cfg (ss_daily s)"
  have st: "StaleSizingScores PressureVersion (nat (pc_recompute_batch cfg)) s = map row_of_daily ?b"
    by (simp add: StaleSizingScores_def batch_of_def stale_def [abs_def])
  have sub: "set ?b \<subseteq> set (ss_daily s)" by (auto simp: batch_of_def dest: in_set_takeD)
  have key: "row_key (rescored (row_of_daily r)) = daily_pk r" for r
    by (simp add: row_key_def rescored_def SetScore_def row_of_daily_def daily_pk_def)
  have "fold update_score (map rescored (map row_of_daily ?b)) (ss_daily s) =
    map (\<lambda>r. if daily_pk r \<in> row_key ` set (map rescored (map row_of_daily ?b)) then refreshed r else r) (ss_daily s)"
  proof (rule fold_update_score)
    fix n r
    assume "n \<in> set (map rescored (map row_of_daily ?b))" and r: "r \<in> set (ss_daily s)" "daily_pk r = row_key n"
    then obtain r0 where r0: "r0 \<in> set ?b" "n = rescored (row_of_daily r0)" by auto
    then have "r0 = r" using r sub find_key_mem [OF assms(2)] key by (metis option.inject subsetD)
    then show "nd_score n = Evaluate (ScoreInput (row_of_daily r))" by (simp add: r0(2) rescored_def SetScore_def)
  qed
  moreover have "row_key ` set (map rescored (map row_of_daily ?b)) = daily_pk ` set ?b"
    by (simp add: image_image key)
  ultimately have "UpdateSizingScores (map rescored (map row_of_daily ?b)) s
      = s\<lparr>ss_daily := map (\<lambda>r. if daily_pk r \<in> daily_pk ` set ?b then refreshed r else r) (ss_daily s)\<rparr>"
    by (simp add: UpdateSizingScores_def)
  moreover have "?b = [] \<Longrightarrow> s = s\<lparr>ss_daily := map (\<lambda>r. if daily_pk r \<in> daily_pk ` set ?b then refreshed r else r) (ss_daily s)\<rparr>" by simp
  ultimately show ?thesis using assms(1) unfolding pass_recompute_def st by (auto simp: Let_def split: if_splits)
qed

lemma refreshed_map_keys: "map daily_pk (map (\<lambda>r. if P r then refreshed r else r) rows) = map daily_pk rows"
  by (simp add: refreshed_simps)

lemma scores_sound_recompute:
  assumes "pass_recompute cfg fails s = Inr s'" "scores_sound s"
  shows "scores_sound s'"
  using recompute_rows [OF assms(1)] assms(2)
  by (auto simp: scores_sound_def keys_unique_def list_all_iff score_current_def refreshed_simps comp_def if_distrib [of daily_pk]
    cong: if_cong)

end
