(* ===== verification/Sizing_Scores.thy ===== *)
theory Sizing_Scores
  imports Sizing_History
begin

text \<open>
  The scores of the stored days along a history: which ones can be trusted, and how a change of
  the formula reaches all of them.
\<close>

subsection \<open>Reports\<close>

definition stale_count :: "sizing_store \<Rightarrow> nat" where
  "stale_count s = length (filter stale (ss_daily s))"

text \<open>What every event keeps of the days: sound, and with no more stale scores than before.\<close>

definition no_worse :: "sizing_store \<Rightarrow> sizing_store \<Rightarrow> bool" where
  "no_worse s s' \<longleftrightarrow> scores_sound s' \<and> stale_count s' \<le> stale_count s"

lemma no_worse_refl: "scores_sound s \<Longrightarrow> no_worse s s"
  by (simp add: no_worse_def)

lemma no_worse_trans: "no_worse s t \<Longrightarrow> no_worse t u \<Longrightarrow> no_worse s u"
  by (simp add: no_worse_def)

lemma stale_upsert: "\<not> stale x \<Longrightarrow> length (filter stale (upsert key (\<lambda>_ new. new) x rs)) \<le> length (filter stale rs)"
  by (induction rs) auto

lemma current_not_stale: "score_current r \<Longrightarrow> \<not> stale r"
  by (simp add: score_current_def stale_def Evaluate_version)

lemma fold_put_daily_sound:
  assumes "\<And>p. p \<in> set ps \<Longrightarrow> score_current (daily_of sys reporter (fst p) now (snd p))"
    "keys_unique daily_pk rows" "list_all (\<lambda>r. sc_version (da_score r) = PressureVersion \<longrightarrow> score_current r) rows"
  shows "keys_unique daily_pk (fold (put_daily sys reporter now) ps rows)
    \<and> list_all (\<lambda>r. sc_version (da_score r) = PressureVersion \<longrightarrow> score_current r) (fold (put_daily sys reporter now) ps rows)
    \<and> length (filter stale (fold (put_daily sys reporter now) ps rows)) \<le> length (filter stale rows)"
  using assms
proof (induction ps arbitrary: rows)
  case (Cons p ps)
  let ?new = "daily_of sys reporter (fst p) now (snd p)" and ?rows = "put_daily sys reporter now p rows"
  have c: "score_current ?new" using Cons.prems(1) by simp
  have "keys_unique daily_pk ?rows" unfolding put_daily_def using Cons.prems(2) by (intro keys_unique_upsert) simp_all
  moreover have "list_all (\<lambda>r. sc_version (da_score r) = PressureVersion \<longrightarrow> score_current r) ?rows"
    using Cons.prems(3) c by (auto simp: put_daily_def list_all_iff dest!: upsert_mem)
  moreover have "length (filter stale ?rows) \<le> length (filter stale rows)"
    unfolding put_daily_def using current_not_stale [OF c] by (rule stale_upsert)
  ultimately show ?case using Cons.IH [of ?rows] Cons.prems(1) by simp
qed simp

lemma node_days_scored:
  assumes "p \<in> set (node_days (scoreSizingDays days))"
  obtains n where "snd p = SetScore (Evaluate n) (fresh_row n)"
  using assms by (auto simp: node_days_def scoreSizingDays_def score_day_def)

lemma scores_sound_report:
  assumes "scores_sound s"
  shows "no_worse s (snd (handleReports decode trusted cap f g r len now s))"
proof (cases "admitted decode trusted r len")
  case None
  then show ?thesis using handleReports_refused [OF None, of cap f g now s] no_worse_refl [OF assms] by auto
next
  case (Some a)
  let ?days = "scoreSizingDays (fst (sizing_Sanitize (snd a) cap now))"
  let ?s' = "snd (accept_report cap f g (fst a) (snd a) now s)"
  have d: "ss_daily ?s' = (if f then ss_daily s
      else fold (put_daily (fst a) (CleanReporterVersion (sr_reporter_version (snd a))) now) (node_days ?days) (ss_daily s))"
    by (simp add: accept_report_stored Let_def stored_report_def RecordSizingIngest_def)
  have "score_current (daily_of (fst a) reporter (fst p) now (snd p))" if "p \<in> set (node_days ?days)" for p reporter
    by (rule node_days_scored [OF that]) (simp add: scored_row_current)
  then have "no_worse s ?s'"
    using fold_put_daily_sound [of "node_days ?days" "fst a" "CleanReporterVersion (sr_reporter_version (snd a))" now "ss_daily s"] assms
    by (simp add: no_worse_def scores_sound_def stale_count_def d)
  moreover have "handleReports decode trusted cap f g r len now s = accept_report cap f g (fst a) (snd a) now s"
    using Some by (subst handleReports_admitted) (simp add: split_beta)
  ultimately show ?thesis by simp
qed

subsection \<open>Passes\<close>

lemma batch_length: "length (batch_of cfg rows) = min (nat (pc_recompute_batch cfg)) (length (filter stale rows))"
  by (simp add: batch_of_def)

lemma batch_stale: "r \<in> set (batch_of cfg rows) \<Longrightarrow> r \<in> set rows \<and> stale r"
  by (auto simp: batch_of_def dest: in_set_takeD)

lemma stale_refreshed: "\<not> stale (refreshed r)"
  by (simp add: stale_def refreshed_simps Evaluate_version)

text \<open>A batch takes exactly its own length off the stale rows.\<close>

lemma stale_after_batch:
  assumes "keys_unique daily_pk rows"
  shows "length (filter stale (map (\<lambda>r. if daily_pk r \<in> daily_pk ` set (batch_of cfg rows) then refreshed r else r) rows))
    = length (filter stale rows) - nat (pc_recompute_batch cfg)"
proof -
  let ?b = "batch_of cfg rows"
  have dist: "distinct rows" using assms by (simp add: keys_unique_def distinct_map)
  have inj: "daily_pk r \<in> daily_pk ` set ?b \<longleftrightarrow> r \<in> set ?b" if "r \<in> set rows" for r
    using assms that batch_stale [of _ cfg rows] by (auto simp: keys_unique_def distinct_map dest: inj_onD)
  have "length (filter stale (map (\<lambda>r. if daily_pk r \<in> daily_pk ` set ?b then refreshed r else r) rows))
      = length (filter (\<lambda>r. stale r \<and> r \<notin> set ?b) rows)"
    by (simp add: filter_map comp_def) (rule arg_cong [where f = length], rule filter_cong, auto simp: inj stale_refreshed)
  also have "\<dots> = card (set (filter stale rows) - set ?b)"
    using dist by (subst distinct_card [symmetric]) (auto intro!: arg_cong [where f = card])
  also have "\<dots> = card (set (filter stale rows)) - card (set ?b)"
    using batch_stale [of _ cfg rows] by (intro card_Diff_subset) auto
  also have "card (set (filter stale rows)) = length (filter stale rows)" by (metis dist distinct_card distinct_filter)
  also have "card (set ?b) = length ?b"
    using dist by (intro distinct_card) (simp add: batch_of_def distinct_map_sort [where f = id, simplified])
  finally show ?thesis by (simp add: batch_length)
qed

lemma recompute_progress:
  assumes "pass_recompute cfg fails s = Inr s'" "scores_sound s"
  shows "scores_sound s'" "stale_count s' = stale_count s - nat (pc_recompute_batch cfg)"
proof -
  have u: "keys_unique daily_pk (ss_daily s)" using assms(2) by (simp add: scores_sound_def)
  show "scores_sound s'" by (rule scores_sound_recompute [OF assms])
  show "stale_count s' = stale_count s - nat (pc_recompute_batch cfg)"
    unfolding stale_count_def recompute_rows [OF assms(1) u] using stale_after_batch [OF u] by simp
qed

text \<open>The rest of a pass writes no day: it only prunes.\<close>

lemma housekeeping_daily: "\<exists>P. ss_daily (housekeeping cfg fails k today s) = filter P (ss_daily s)"
  by (auto simp: housekeeping_def Let_def RollupSizingMonthly_def PruneSizingDaily_def rollup_months_frame
    intro: exI [of _ "\<lambda>_. True"])

lemma pass_frame:
  "ss_daily (UpsertSizingVerdicts v s) = ss_daily s" "ss_daily (UpsertSizingCohorts c s) = ss_daily s"
  "ss_daily (snd (DeleteStaleSizingCohorts now s)) = ss_daily s"
  by (simp_all add: UpsertSizingVerdicts_def UpsertSizingCohorts_def DeleteStaleSizingCohorts_def)

lemma pass_Run_daily:
  "case pass_recompute cfg fails s of
     Inl e \<Rightarrow> snd (pass_Run cfg fails k now s) = s
   | Inr s1 \<Rightarrow> \<exists>P. ss_daily (snd (pass_Run cfg fails k now s)) = filter P (ss_daily s1)"
  using housekeeping_daily
  by (auto simp: pass_Run_def Let_def pass_read_def pass_step_def pass_frame split: sum.split intro: exI [of _ "\<lambda>_. True"])
    (metis pass_frame)

lemma filter_no_worse: "scores_sound s \<Longrightarrow> ss_daily s' = filter P (ss_daily s) \<Longrightarrow> no_worse s s'"
proof -
  have "length (filter stale (filter P rs)) \<le> length (filter stale rs)" for rs by (induction rs) auto
  then show "scores_sound s \<Longrightarrow> ss_daily s' = filter P (ss_daily s) \<Longrightarrow> no_worse s s'"
    by (auto simp: no_worse_def scores_sound_def stale_count_def keys_unique_filter list_all_iff)
qed

lemma scores_sound_pass:
  assumes "scores_sound s"
  shows "no_worse s (snd (pass_Run cfg fails k now s))"
    "\<not> fails PcStale \<Longrightarrow> \<not> fails PcUpdate \<Longrightarrow>
       stale_count (snd (pass_Run cfg fails k now s)) \<le> stale_count s - nat (pc_recompute_batch cfg)"
proof -
  have step: "no_worse s (snd (pass_Run cfg fails k now s)) \<and> stale_count (snd (pass_Run cfg fails k now s)) \<le> stale_count s - nat (pc_recompute_batch cfg)"
    if s1: "pass_recompute cfg fails s = Inr s1" for s1
  proof -
    note r = recompute_progress [OF s1 assms]
    obtain P where "ss_daily (snd (pass_Run cfg fails k now s)) = filter P (ss_daily s1)"
      using pass_Run_daily [of cfg fails k now s] s1 by auto
    then have "no_worse s1 (snd (pass_Run cfg fails k now s))" using r(1) by (intro filter_no_worse)
    then show ?thesis using r(2) diff_le_self [of "stale_count s"] by (auto simp: no_worse_def intro: order_trans)
  qed
  show "no_worse s (snd (pass_Run cfg fails k now s))"
  proof (cases "pass_recompute cfg fails s")
    case (Inl e)
    then show ?thesis using pass_Run_daily [of cfg fails k now s] no_worse_refl [OF assms] by simp
  qed (use step in simp)
  show "\<not> fails PcStale \<Longrightarrow> \<not> fails PcUpdate \<Longrightarrow>
       stale_count (snd (pass_Run cfg fails k now s)) \<le> stale_count s - nat (pc_recompute_batch cfg)"
    using step by (cases "pass_recompute cfg fails s") (auto simp: pass_recompute_def Let_def split: if_splits)
qed

subsection \<open>Histories\<close>

lemma step_no_worse: "scores_sound s \<Longrightarrow> no_worse s (sizing_step env e s)"
  by (cases e) (simp_all add: scores_sound_report scores_sound_pass(1))

lemma run_no_worse: "scores_sound s \<Longrightarrow> no_worse s (sizing_run env es s)"
proof (induction es arbitrary: s)
  case (Cons e es)
  have "no_worse s (sizing_step env e s)" using Cons.prems by (rule step_no_worse)
  with Cons.IH [of "sizing_step env e s"] show ?case by (auto simp: sizing_run_def no_worse_def)
qed (simp add: sizing_run_def no_worse_refl)

fun rescoring :: "sizing_event \<Rightarrow> bool" where
  "rescoring (SizingReport r len f g now) = False"
| "rescoring (SizingPass fails k now) = (\<not> fails PcStale \<and> \<not> fails PcUpdate)"

lemma run_progress:
  "scores_sound s \<Longrightarrow> stale_count (sizing_run env es s)
     \<le> stale_count s - length (filter rescoring es) * nat (pc_recompute_batch (ze_pass env))"
proof (induction es arbitrary: s)
  case (Cons e es)
  let ?b = "nat (pc_recompute_batch (ze_pass env))" and ?s = "sizing_step env e s"
  have n: "no_worse s ?s" using Cons.prems by (rule step_no_worse)
  have e: "stale_count ?s \<le> stale_count s - (if rescoring e then ?b else 0)"
    using n scores_sound_pass(2) [OF Cons.prems] by (cases e) (auto simp: no_worse_def)
  have "stale_count (sizing_run env (e # es) s) \<le> stale_count ?s - length (filter rescoring es) * ?b"
    using Cons.IH [of ?s] n by (simp add: sizing_run_def no_worse_def)
  then show ?case using e by (simp split: if_splits)
qed (simp add: sizing_run_def)


text \<open>
  C38: a change of the formula reaches every stored day. Each pass whose two calls of the store
  succeed rescores one batch; after enough of them, whatever reports and failures come in
  between, no day is left with a score of an older formula.
\<close>

theorem rescoring_catches_up:
  assumes "scores_sound s" "stale_count s \<le> length (filter rescoring es) * nat (pc_recompute_batch (ze_pass env))"
  shows "\<forall>r\<in>set (ss_daily (sizing_run env es s)). da_score r = Evaluate (ScoreInput (row_of_daily r))"
proof -
  have "stale_count (sizing_run env es s) = 0" using run_progress [OF assms(1), of env es] assms(2) by simp
  then show ?thesis using run_no_worse [OF assms(1), of env es]
    by (auto simp: stale_count_def stale_def no_worse_def scores_sound_def list_all_iff score_current_def filter_empty_conv)
qed

text \<open>A day scored by an older formula, and passes over it.\<close>

definition old_day :: "int \<Rightarrow> daily_row" where
  "old_day day = \<lparr>da_system = ''sys'', da_node = 1, da_day = day, da_received_at = 1772100000000, da_reporter = [],
     da_metrics_present = True, da_coverage = 1,
     da_hardware = \<lparr>hw_cpu_cores = 4, hw_mem_total_bytes = 8000, hw_cpu_model = [], hw_os_id = [], hw_os_version = [],
       hw_kernel_release = [], hw_virtualization = []\<rparr>,
     da_resources = \<lparr>ru_ram_util = Some (9 / 10), ru_ram_used = None, ru_cpu_util = None, ru_cpu_cores_used = None,
       ru_load15 = None, ru_fs_used = None, ru_fs_days = None, ru_disk_io = None\<rparr>,
     da_stress = \<lparr>su_iowait = None, su_swap_in = None, su_oom_kills = None, su_reboots = None\<rparr>,
     da_score = \<lparr>sc_version = 0, sc_pressure = Some 1, sc_mem = None, sc_cpu = None, sc_io = None, sc_disk = None,
        sc_top_axis = [], sc_reasons = []\<rparr>\<rparr>"

definition old_scores :: sizing_store where
  "old_scores = empty_sizing\<lparr>ss_daily := [old_day 20510, old_day 20511]\<rparr>"

definition small_batches :: sizing_env where
  "small_batches = \<lparr>ze_decode = (\<lambda>_ _. BodyBadJson), ze_trusted = [], ze_max_nodes = 100,
     ze_pass = demo_pass\<lparr>pc_recompute_batch := 1\<rparr>\<rparr>"

lemma old_scores_sound: "scores_sound old_scores" "stale_count old_scores = 2"
  by (simp_all add: scores_sound_def old_scores_def old_day_def keys_unique_def daily_pk_def PressureVersion_def
    stale_count_def stale_def)


theorem rescoring_catches_up_witness:
  "list_all (\<lambda>r. da_score r = Evaluate (ScoreInput (row_of_daily r))) (ss_daily (sizing_run small_batches
      [SizingPass (\<lambda>_. False) 0 1772323200000, SizingPass (\<lambda>c. c = PcStale) 0 1772326800000, SizingPass (\<lambda>c. c = PcVerdicts) 0 1772330400000]
      old_scores))"
  unfolding list_all_iff by (rule rescoring_catches_up) (simp_all add: old_scores_sound small_batches_def demo_pass_def)

end
