(* ===== verification/Sizing_Retention.thy ===== *)
theory Sizing_Retention
  imports Sizing_Scores
begin

text \<open>
  Retention: a store that prunes its daily rows against one that keeps everything. The two see
  the same events; what the service publishes from them is the same.
\<close>

subsection \<open>Pruned stores\<close>

text \<open>\<open>s\<close> is \<open>t\<close> without the rows of the days before \<open>c\<close>.\<close>

definition pruned_to :: "int \<Rightarrow> sizing_store \<Rightarrow> sizing_store \<Rightarrow> bool" where
  "pruned_to c s t \<longleftrightarrow> ss_daily s = filter (\<lambda>r. c \<le> da_day r) (ss_daily t)
     \<and> ss_modules s = filter (\<lambda>r. c \<le> mo_day r) (ss_modules t) \<and> ss_metrics s = filter (\<lambda>r. c \<le> me_day r) (ss_metrics t)
     \<and> ss_nodes s = ss_nodes t \<and> ss_monthly s = ss_monthly t \<and> ss_verdicts s = ss_verdicts t \<and> ss_cohorts s = ss_cohorts t"

lemma filter_window: "c \<le> a \<Longrightarrow> filter (\<lambda>r. day r \<ge> a \<and> day r \<le> b) (filter (\<lambda>r. c \<le> day r) rs) = filter (\<lambda>r. day r \<ge> a \<and> day r \<le> (b::int)) rs"
  by (simp, rule filter_cong) auto

lemma pruned_reads:
  assumes "pruned_to c s t" "c \<le> a"
  shows "SizingWindow a b s = SizingWindow a b t" "SizingWindowFamilies a b s = SizingWindowFamilies a b t"
    "SizingWindowMetrics a b s = SizingWindowMetrics a b t" "SizingVerdictStates s = SizingVerdictStates t"
proof -
  have "window_row_of s = window_row_of t" using assms(1) by (auto simp: window_row_of_def [abs_def] pruned_to_def)
  then show "SizingWindow a b s = SizingWindow a b t"
    using assms by (simp only: SizingWindow_def pruned_to_def filter_window)
  show "SizingWindowFamilies a b s = SizingWindowFamilies a b t" "SizingWindowMetrics a b s = SizingWindowMetrics a b t"
    using assms by (simp_all only: SizingWindowFamilies_def SizingWindowMetrics_def pruned_to_def filter_window)
  show "SizingVerdictStates s = SizingVerdictStates t" using assms(1) by (simp add: SizingVerdictStates_def [abs_def] pruned_to_def)
qed

lemma pruned_writes:
  assumes "pruned_to c s t"
  shows "pruned_to c (UpsertSizingVerdicts v s) (UpsertSizingVerdicts v t)"
    "pruned_to c (UpsertSizingCohorts co s) (UpsertSizingCohorts co t)"
    "pruned_to c (snd (DeleteStaleSizingCohorts now s)) (snd (DeleteStaleSizingCohorts now t))"
    "pruned_to c (writeSizingMonthly m s) (writeSizingMonthly m t)"
  using assms
  by (simp_all add: pruned_to_def UpsertSizingVerdicts_def UpsertSizingCohorts_def DeleteStaleSizingCohorts_def writeSizingMonthly_def)

lemma pruned_months:
  "pruned_to c s t \<Longrightarrow> list_all (\<lambda>m. c \<le> mg_from m) ms \<Longrightarrow> pruned_to c (rollup_months ms s) (rollup_months ms t)"
proof (induction ms arbitrary: s t)
  case (Cons m ms)
  have m: "c \<le> mg_from m" using Cons.prems(2) by simp
  have "readSizingMonthly m s = readSizingMonthly m t"
    using Cons.prems(1) by (simp only: readSizingMonthly_def pruned_to_def filter_window [OF m])
  then have "pruned_to c (writeSizingMonthly (readSizingMonthly m s) s) (writeSizingMonthly (readSizingMonthly m t) t)"
    using Cons.prems(1) by (simp add: pruned_writes)
  then show ?case using Cons by (simp add: rollup_months_def)
qed (simp add: rollup_months_def)

lemma pruned_more: "pruned_to c s t \<Longrightarrow> pruned_to (max c c') (snd (PruneSizingDaily c' s)) t"
  by (simp add: pruned_to_def PruneSizingDaily_def not_less conj_commute)

subsection \<open>Reports\<close>

lemma filter_upsert:
  assumes "\<And>a b. key a = key b \<Longrightarrow> P a = P b" "P x"
  shows "filter P (upsert key (\<lambda>_ new. new) x rs) = upsert key (\<lambda>_ new. new) x (filter P rs)"
  using assms(2) by (induction rs) (auto dest: assms(1))

lemma filter_put:
  assumes "c \<le> fst p"
  shows "filter (\<lambda>r. c \<le> da_day r) (put_daily sys rep now p ds) = put_daily sys rep now p (filter (\<lambda>r. c \<le> da_day r) ds)"
    "filter (\<lambda>r. c \<le> mo_day r) (put_modules sys p ms) = put_modules sys p (filter (\<lambda>r. c \<le> mo_day r) ms)"
    "filter (\<lambda>r. c \<le> me_day r) (put_metrics sys p es) = put_metrics sys p (filter (\<lambda>r. c \<le> me_day r) es)"
proof -
  show "filter (\<lambda>r. c \<le> da_day r) (put_daily sys rep now p ds) = put_daily sys rep now p (filter (\<lambda>r. c \<le> da_day r) ds)"
    unfolding put_daily_def using assms by (intro filter_upsert) (simp_all add: daily_pk_def daily_of_def)
  show "filter (\<lambda>r. c \<le> mo_day r) (put_modules sys p ms) = put_modules sys p (filter (\<lambda>r. c \<le> mo_day r) ms)"
    using assms by (auto simp: put_modules_def modules_of_def filter_map comp_def conj_commute)
  have "list_all (\<lambda>r. c \<le> me_day r) (metrics_of sys (fst p) (snd p))"
    using assms by (auto simp: metrics_of_def list_all_iff)
  then show "filter (\<lambda>r. c \<le> me_day r) (put_metrics sys p es) = put_metrics sys p (filter (\<lambda>r. c \<le> me_day r) es)"
    by (simp add: put_metrics_def list_all_iff conj_commute)
qed

lemma filter_fold:
  assumes "\<And>p rs. p \<in> set ps \<Longrightarrow> filter P (put p rs) = put p (filter P rs)"
  shows "filter P (fold put ps rs) = fold put ps (filter P rs)"
  using assms by (induction ps arbitrary: rs) simp_all

lemma pruned_stored:
  assumes "pruned_to c s t" "list_all (\<lambda>p. c \<le> fst p) (node_days days)"
  shows "pruned_to c (stored_report sys rep days now s) (stored_report sys rep days now t)"
proof -
  let ?ps = "node_days days"
  have p: "c \<le> fst p" if "p \<in> set ?ps" for p using assms(2) that by (simp add: list_all_iff)
  have "filter (\<lambda>r. c \<le> da_day r) (fold (put_daily sys rep now) ?ps ds) = fold (put_daily sys rep now) ?ps (filter (\<lambda>r. c \<le> da_day r) ds)"
    "filter (\<lambda>r. c \<le> mo_day r) (fold (put_modules sys) ?ps ms) = fold (put_modules sys) ?ps (filter (\<lambda>r. c \<le> mo_day r) ms)"
    "filter (\<lambda>r. c \<le> me_day r) (fold (put_metrics sys) ?ps es) = fold (put_metrics sys) ?ps (filter (\<lambda>r. c \<le> me_day r) es)" for ds ms es
    by (simp_all add: filter_fold filter_put p)
  then show ?thesis using assms(1) by (simp add: pruned_to_def stored_report_def)
qed

lemma sanitized_recent:
  "list_all (\<lambda>p. go_div now dayMillis - MaxDayAge \<le> fst p) (node_days (scoreSizingDays (fst (sizing_Sanitize r cap now))))"
  using sanitized_days [of r cap now] by (auto simp: node_days_def scoreSizingDays_def score_day_def list_all_iff valid_day_def)

lemma pruned_counted: "pruned_to c s t \<Longrightarrow> pruned_to c (RecordSizingIngest d sys rep k now s) (RecordSizingIngest d sys rep k now t)"
  by (simp add: pruned_to_def RecordSizingIngest_def Let_def)

lemma pruned_report:
  assumes "pruned_to c s t" "c \<le> go_div now dayMillis - MaxDayAge"
  shows "pruned_to c (snd (handleReports decode trusted cap f g r len now s)) (snd (handleReports decode trusted cap f g r len now t))"
proof (cases "admitted decode trusted r len")
  case None
  then show ?thesis using handleReports_refused [OF None, of cap f g now s] handleReports_refused [OF None, of cap f g now t] assms(1) by auto
next
  case (Some a)
  let ?days = "scoreSizingDays (fst (sizing_Sanitize (snd a) cap now))"
  have "list_all (\<lambda>p. c \<le> fst p) (node_days ?days)"
    using sanitized_recent [of now "snd a" cap] assms(2) by (auto simp: list_all_iff)
  note st = pruned_stored [OF assms(1) this]
  have "pruned_to c (snd (accept_report cap f g (fst a) (snd a) now s)) (snd (accept_report cap f g (fst a) (snd a) now t))"
    using st assms(1) by (simp add: accept_report_stored Let_def pruned_counted)
  moreover have "handleReports decode trusted cap f g r len now u = accept_report cap f g (fst a) (snd a) now u" for u
    using Some by (subst handleReports_admitted) (simp add: split_beta)
  ultimately show ?thesis by simp
qed

subsection \<open>Passes\<close>

definition keeping :: "pass_config \<Rightarrow> pass_config" where
  "keeping cfg = cfg\<lparr>pc_retention := 0\<rparr>"

lemma keeping_simps: "pc_window_days (keeping cfg) = pc_window_days cfg" "pc_min_days_present (keeping cfg) = pc_min_days_present cfg"
  "pc_retention (keeping cfg) = 0" "pass_build (keeping cfg) = pass_build cfg" "pass_recompute (keeping cfg) = pass_recompute cfg"
  by (simp_all add: keeping_def pass_build_def [abs_def] publishCohorts_def [abs_def] cohort_row_of_def [abs_def] pass_recompute_def [abs_def] Let_def cong: if_cong)

lemma rollup_recent: "c \<le> today - 75 \<Longrightarrow> list_all (\<lambda>m. c \<le> mg_from m) (monthRanges (today - MonthlyRollupDays) today)"
  using rollup_month_recent [of _ today] by (force simp: list_all_iff MonthlyRollupDays_def)

definition retained :: "pass_config \<Rightarrow> int" where
  "retained cfg = go_div (pc_retention cfg) dayMillis"

lemma pruned_housekeeping:
  assumes "pruned_to c s t" "c \<le> today - retained cfg" "75 \<le> retained cfg"
  shows "\<exists>c'. c' \<le> today - retained cfg \<and> pruned_to c' (housekeeping cfg fails k today s) (housekeeping (keeping cfg) fails k today t)"
proof -
  let ?ms = "monthRanges (today - MonthlyRollupDays) today"
  have ms: "list_all (\<lambda>m. c \<le> mg_from m) ?ms" using assms(2,3) by (intro rollup_recent) simp
  then have "list_all (\<lambda>m. c \<le> mg_from m) (take k ?ms)" by (auto simp: list_all_iff dest: in_set_takeD)
  note part = pruned_months [OF assms(1) this] and all = pruned_months [OF assms(1) ms]
  have "max c (today - go_div (pc_retention cfg) dayMillis) \<le> today - retained cfg" using assms(2) by (simp add: retained_def)
  then have "\<exists>c'. c' \<le> today - retained cfg \<and> pruned_to c' (snd (PruneSizingDaily (today - retained cfg) (rollup_months ?ms s))) (rollup_months ?ms t)"
    using pruned_more [OF all, of "today - retained cfg"] by (auto simp: retained_def)
  then show ?thesis using part all assms(2)
    by (auto simp: housekeeping_def Let_def keeping_simps RollupSizingMonthly_def retained_def)
qed

lemma fresh_recompute:
  assumes "stale_count s = 0"
  shows "pass_recompute cfg fails s = (if fails PcStale then Inl PcStale else Inr s)"
proof -
  have "filter stale (ss_daily s) = []" using assms by (simp add: stale_count_def)
  then show ?thesis by (simp add: pass_recompute_def StaleSizingScores_def stale_def [abs_def])
qed

lemma pruned_stale: "pruned_to c s t \<Longrightarrow> stale_count t = 0 \<Longrightarrow> stale_count s = 0"
  by (simp add: pruned_to_def stale_count_def filter_empty_conv)

lemma pruned_pass:
  assumes "pruned_to c s t" "stale_count t = 0" "c \<le> go_div now dayMillis - retained cfg"
    "pc_window_days cfg \<le> retained cfg" "75 \<le> retained cfg"
  shows "\<exists>c'. c' \<le> go_div now dayMillis - retained cfg
    \<and> pruned_to c' (snd (pass_Run cfg fails k now s)) (snd (pass_Run (keeping cfg) fails k now t))"
proof -
  let ?today = "go_div now dayMillis"
  let ?from = "?today - pc_window_days cfg"
  have from_c: "c \<le> ?from" using assms(3,4) by simp
  note rec = fresh_recompute [OF assms(2)] fresh_recompute [OF pruned_stale [OF assms(1,2)]]
  note reads = pruned_reads [OF assms(1) from_c]
  define v where "v = buildVerdicts (foldNodes (SizingWindow ?from ?today t) ?from now) (SizingVerdictStates t)
    (pc_window_days cfg) (pc_min_days_present cfg) now"
  define co where "co = pass_build cfg now (attachFamilies (SizingWindowFamilies ?from ?today t) (SizingWindowMetrics ?from ?today t)
    (foldNodes (SizingWindow ?from ?today t) ?from now))"
  have w1: "pruned_to c (UpsertSizingVerdicts v s) (UpsertSizingVerdicts v t)" using assms(1) by (rule pruned_writes)
  have w2: "pruned_to c (UpsertSizingCohorts co (UpsertSizingVerdicts v s)) (UpsertSizingCohorts co (UpsertSizingVerdicts v t))"
    using w1 by (rule pruned_writes)
  have w3: "pruned_to c (snd (DeleteStaleSizingCohorts now (UpsertSizingCohorts co (UpsertSizingVerdicts v s))))
      (snd (DeleteStaleSizingCohorts now (UpsertSizingCohorts co (UpsertSizingVerdicts v t))))" using w2 by (rule pruned_writes)
  note w4 = pruned_housekeeping [OF w3 assms(3,5), of fails k]
  show ?thesis using w1 w2 w3 w4 assms(1,3)
    by (auto simp: pass_Run_def Let_def rec pass_read_def pass_step_def reads keeping_simps window_reads_frame
      v_def [symmetric] co_def [symmetric])
qed

subsection \<open>Histories\<close>

lemma go_div_mono: "0 < d \<Longrightarrow> a \<le> b \<Longrightarrow> go_div a d \<le> go_div b d"
proof -
  assume d: "0 < d" "a \<le> b"
  have pos: "0 \<le> \<bar>x\<bar> div d" for x using d(1) by (simp add: pos_imp_zdiv_nonneg_iff)
  show ?thesis
  proof (cases "0 \<le> a")
    case True
    then show ?thesis using d by (simp add: go_div_nonneg zdiv_mono1)
  next
    case False
    then have a: "go_div a d = - (\<bar>a\<bar> div d)" using d(1) by (simp add: go_div_def)
    show ?thesis
    proof (cases "0 \<le> b")
      case True
      then have "0 \<le> go_div b d" using d(1) by (simp add: go_div_nonneg pos_imp_zdiv_nonneg_iff)
      then show ?thesis using a pos [of a] by simp
    next
      case b: False
      then have "go_div b d = - (\<bar>b\<bar> div d)" using d(1) by (simp add: go_div_def)
      moreover have "\<bar>b\<bar> div d \<le> \<bar>a\<bar> div d" using False b d by (intro zdiv_mono1) simp_all
      ultimately show ?thesis using a by simp
    qed
  qed
qed

definition keeping_env :: "sizing_env \<Rightarrow> sizing_env" where
  "keeping_env env = env\<lparr>ze_pass := keeping (ze_pass env)\<rparr>"

lemma pruned_step:
  assumes "pruned_to c s t" "stale_count t = 0" "c \<le> go_div (event_time e) dayMillis - retained (ze_pass env)"
    "pc_window_days (ze_pass env) \<le> retained (ze_pass env)" "75 \<le> retained (ze_pass env)"
  shows "\<exists>c'. c' \<le> go_div (event_time e) dayMillis - retained (ze_pass env)
    \<and> pruned_to c' (sizing_step env e s) (sizing_step (keeping_env env) e t)"
proof (cases e)
  case (SizingReport r len f g now)
  have "c \<le> go_div now dayMillis - MaxDayAge" using assms(3,5) by (simp add: SizingReport MaxDayAge_def)
  from pruned_report [OF assms(1) this] assms(3) show ?thesis by (auto simp: SizingReport keeping_env_def)
next
  case (SizingPass fails k now)
  then show ?thesis using pruned_pass [OF assms(1,2) _ assms(4,5), of now fails k] assms(3) by (simp add: keeping_env_def)
qed

lemma pruned_run:
  assumes "pc_window_days (ze_pass env) \<le> retained (ze_pass env)" "75 \<le> retained (ze_pass env)"
    "scores_sound t" "stale_count t = 0" "pruned_to c s t" "sorted (map event_time es)"
    "es \<noteq> [] \<Longrightarrow> c \<le> go_div (event_time (hd es)) dayMillis - retained (ze_pass env)"
  shows "\<exists>c'. pruned_to c' (sizing_run env es s) (sizing_run (keeping_env env) es t)"
  using assms(3-)
proof (induction es arbitrary: c s t)
  case (Cons e es)
  obtain c' where c': "c' \<le> go_div (event_time e) dayMillis - retained (ze_pass env)"
    "pruned_to c' (sizing_step env e s) (sizing_step (keeping_env env) e t)"
    using pruned_step [OF Cons.prems(3,2) _ assms(1,2), of e] Cons.prems(5) by auto
  have n: "no_worse t (sizing_step (keeping_env env) e t)" by (rule step_no_worse [OF Cons.prems(1)])
  have "c' \<le> go_div (event_time (hd es)) dayMillis - retained (ze_pass env)" if "es \<noteq> []"
  proof -
    have "event_time e \<le> event_time (hd es)" using Cons.prems(4) that by (cases es) auto
    then have "go_div (event_time e) dayMillis \<le> go_div (event_time (hd es)) dayMillis" by (intro go_div_mono) (simp add: dayMillis_def)
    then show ?thesis using c'(1) by simp
  qed
  then show ?case using Cons.IH [of "sizing_step (keeping_env env) e t" c' "sizing_step env e s"] Cons.prems n c'(2)
    by (simp add: sizing_run_def no_worse_def)
qed (auto simp: sizing_run_def)


definition small_report :: sizing_report where
  "small_report = \<lparr>sr_schema_version = 1, sr_system_id = [], sr_reporter_version = ''1.0'',
     sr_days = [\<lparr>sd_day = ''2026-02-27'', sd_nodes = [\<lparr>sn_node_id = 1, sn_metrics_present = False, sn_sample_coverage = Finite 0,
         sn_hardware = \<lparr>hw_cpu_cores = 4, hw_mem_total_bytes = 8000, hw_cpu_model = [], hw_os_id = [], hw_os_version = [],
           hw_kernel_release = [], hw_virtualization = []\<rparr>,
         sn_resources = \<lparr>ru_ram_util = None, ru_ram_used = None, ru_cpu_util = None, ru_cpu_cores_used = None,
           ru_load15 = None, ru_fs_used = None, ru_fs_days = None, ru_disk_io = None\<rparr>,
         sn_stress = \<lparr>su_iowait = None, su_swap_in = None, su_oom_kills = None, su_reboots = None\<rparr>, sn_modules = []\<rparr>],
       sd_cluster = None\<rparr>]\<rparr>"

definition hundred_days :: sizing_env where
  "hundred_days = \<lparr>ze_decode = (\<lambda>_ _. Decoded small_report), ze_trusted = [px4 [127, 0, 0, 0] 8], ze_max_nodes = 100, ze_pass = demo_pass\<rparr>"

definition small_request :: http_request where
  "small_request = \<lparr>hr_method = ''POST'', hr_remote = ''127.0.0.1:5000'', hr_authorization = ''Basic YTp4'', hr_forwarded_for = [],
     hr_content_encoding = [], hr_accept_encoding = [], hr_if_none_match = [], hr_body = []\<rparr>"


end
