(* ===== verification/Class_Grouping.thy ===== *)
theory Class_Grouping
  imports Budget_Grouping Logs_Classes
begin

text \<open>
  The class grouping pass, \<open>internal/classgroup/pass.go\<close>, with the statements of
  \<open>internal/store/logs/groups.go\<close> it reads by. The embedder is an argument: what it makes of the
  n-th text of a pass. A call of the store fails when the environment says so.
\<close>

subsection \<open>Reading\<close>

record class_evidence =
  ce_key :: string
  ce_modules :: "string list"
  ce_evidence :: "string list"

text \<open>A negative \<open>LIMIT\<close> is none.\<close>

definition at_most_rows :: "int \<Rightarrow> 'a list \<Rightarrow> 'a list" where
  "at_most_rows limit rows = (if limit < 0 then rows else take (nat limit) rows)"

definition grouped_under :: "string \<Rightarrow> logs_store \<Rightarrow> string \<Rightarrow> bool" where
  "grouped_under model s key = list_ex (\<lambda>g. gr_key g = key \<and> gr_model g = model) (ls_groups s)"

definition class_evidence_of :: "logs_store \<Rightarrow> class_row \<Rightarrow> class_evidence list" where
  "class_evidence_of s c = (case latest_finding (cl_key c) (ls_findings s) of
      None \<Rightarrow> [] | Some f \<Rightarrow> [\<lparr>ce_key = cl_key c, ce_modules = fr_modules f, ce_evidence = fr_evidence f\<rparr>])"

definition UngroupedClasses :: "string \<Rightarrow> int \<Rightarrow> logs_store \<Rightarrow> class_evidence list" where
  "UngroupedClasses model limit s =
     at_most_rows limit (concat (map (class_evidence_of s) (sort_key (\<lambda>c. (cl_first_seen c, cl_key c))
       (filter (\<lambda>c. \<not> grouped_under model s (cl_key c)) (ls_classes s)))))"

definition is_anchor :: "string \<Rightarrow> group_row \<Rightarrow> bool" where
  "is_anchor model g \<longleftrightarrow> gr_model g = model \<and> gr_anchor g = gr_key g"

definition anchor_of :: "group_row \<Rightarrow> anchor" where
  "anchor_of g = \<lparr>an_key = gr_key g, an_vector = gr_vector g\<rparr>"

definition GroupAnchors :: "string \<Rightarrow> logs_store \<Rightarrow> anchor list" where
  "GroupAnchors model s =
     map anchor_of (sort_key (\<lambda>g. (gr_created g, gr_key g)) (filter (is_anchor model) (ls_groups s)))"

subsection \<open>The pass\<close>

datatype embed_error = EmbedCancelled | EmbedRejected | EmbedFailed

datatype group_call = GcUngrouped | GcAnchors | GcSet string

record grouping_config =
  gc_threshold :: real
  gc_batch :: int

record grouping_env =
  ge_embed :: "nat \<Rightarrow> string \<Rightarrow> embed_error + (real list \<times> string)"
  ge_fails :: "group_call \<Rightarrow> bool"

text \<open>What is stored for a class: under the best anchor when it is close enough, its own otherwise.\<close>

definition group_of :: "grouping_config \<Rightarrow> string \<Rightarrow> int \<Rightarrow> string \<Rightarrow> real list \<Rightarrow> anchor list \<Rightarrow> group_row" where
  "group_of cfg model now key vec anchors =
     (case Assign vec anchors (gc_threshold cfg) of (best, sim, ok) \<Rightarrow>
        \<lparr>gr_key = key, gr_anchor = (if ok then best else key), gr_similarity = (if ok then sim else 1),
         gr_threshold = gc_threshold cfg, gr_model = model, gr_vector = vec, gr_created = now\<rparr>)"

definition joins :: "grouping_config \<Rightarrow> real list \<Rightarrow> anchor list \<Rightarrow> bool" where
  "joins cfg vec anchors = snd (snd (Assign vec anchors (gc_threshold cfg)))"

text \<open>The loop over the classes; \<open>n\<close> counts the calls of the embedder.\<close>

fun group_loop ::
  "grouping_config \<Rightarrow> grouping_env \<Rightarrow> string \<Rightarrow> int \<Rightarrow> nat \<Rightarrow> class_evidence list \<Rightarrow> anchor list \<Rightarrow> logs_store
     \<Rightarrow> group_call option \<times> logs_store" where
  "group_loop cfg env model now n [] anchors s = (None, s)"
| "group_loop cfg env model now n (c # cs) anchors s =
     (case ge_embed env n (grouping_Text (ce_modules c) (ce_evidence c)) of
        Inl EmbedCancelled \<Rightarrow> (None, s)
      | Inl EmbedRejected \<Rightarrow> group_loop cfg env model now (Suc n) cs anchors s
      | Inl EmbedFailed \<Rightarrow> (None, s)
      | Inr (vec, m) \<Rightarrow>
          if m \<noteq> model then (None, s)
          else if ge_fails env (GcSet (ce_key c)) then (Some (GcSet (ce_key c)), s)
          else group_loop cfg env model now (Suc n) cs
                 (if joins cfg vec anchors then anchors else anchors @ [\<lparr>an_key = ce_key c, an_vector = vec\<rparr>])
                 (SetClassGroup (group_of cfg model now (ce_key c) vec anchors) s))"

definition grouping_Run :: "grouping_config \<Rightarrow> grouping_env \<Rightarrow> int \<Rightarrow> logs_store \<Rightarrow> group_call option \<times> logs_store" where
  "grouping_Run cfg env now s =
     (case ge_embed env 0 (grouping_Text [] [''probe'']) of
        Inl _ \<Rightarrow> (None, s)
      | Inr (_, model) \<Rightarrow>
          if ge_fails env GcUngrouped then (Some GcUngrouped, s)
          else let classes = UngroupedClasses model (gc_batch cfg) s
               in if classes = [] then (None, s)
                  else if ge_fails env GcAnchors then (Some GcAnchors, s)
                  else group_loop cfg env model now 1 classes (GroupAnchors model s) s)"

subsection \<open>Sound groups\<close>

text \<open>
  A row is sound among others: it is an anchor, or it joined one that is still there and to
  which it is as similar as it says and as the threshold of the time asked.
\<close>

definition sound_row :: "group_row list \<Rightarrow> group_row \<Rightarrow> bool" where
  "sound_row rows g \<longleftrightarrow> gr_anchor g = gr_key g \<and> gr_similarity g = 1
     \<or> list_ex (\<lambda>a. is_anchor (gr_model g) a \<and> gr_key a = gr_anchor g
          \<and> gr_similarity g = Cosine (gr_vector g) (gr_vector a) \<and> gr_threshold g \<le> gr_similarity g) rows"

definition groups_sound :: "string \<Rightarrow> logs_store \<Rightarrow> bool" where
  "groups_sound model s \<longleftrightarrow> keys_unique gr_key (ls_groups s)
     \<and> list_all (\<lambda>g. gr_model g = model \<longrightarrow> sound_row (ls_groups s) g) (ls_groups s)"

lemma Assign_joins:
  assumes "Assign vec anchors th = (best, sim, True)"
  shows "list_ex (\<lambda>a. an_key a = best \<and> sim = Cosine vec (an_vector a)) anchors \<and> th \<le> sim"
proof -
  have loop: "assign_loop vec as b = Some (k, x) \<Longrightarrow> b = Some (k, x) \<or> list_ex (\<lambda>a. an_key a = k \<and> x = Cosine vec (an_vector a)) as"
    for as b k x
    by (induction vec as b rule: assign_loop.induct) (auto simp: Let_def split: if_splits)
  show ?thesis using assms loop [of anchors None best sim] by (auto simp: Assign_def split: option.splits)
qed

lemma upsert_new:
  "key x \<notin> key ` set rows \<Longrightarrow> upsert key merge x rows = rows @ [x]"
  by (induction rows) auto

lemma set_upsert:
  assumes "keys_unique key rows"
  shows "set (upsert key (\<lambda>_ new. new) x rows) = insert x {r \<in> set rows. key r \<noteq> key x}"
  using assms
proof (induction rows)
  case (Cons r rows)
  then have IH: "set (upsert key (\<lambda>_ new. new) x rows) = insert x {r \<in> set rows. key r \<noteq> key x}"
    and r: "key r \<notin> key ` set rows" by (simp_all add: keys_unique_def)
  show ?case
  proof (cases "key r = key x")
    case True
    then have "{a \<in> set (r # rows). key a \<noteq> key x} = set rows" using r by (auto simp: image_iff)
    then show ?thesis using True by simp
  next
    case False
    then show ?thesis using IH by auto
  qed
qed simp

text \<open>Storing the group of a class that has none under the model.\<close>

lemma SetClassGroup_sound:
  assumes s: "groups_sound model s" and fresh: "\<not> grouped_under model s key"
    and anchors: "set anchors = anchor_of ` {g \<in> set (ls_groups s). is_anchor model g}"
  shows "groups_sound model (SetClassGroup (group_of cfg model now key vec anchors) s)"
    and "(if joins cfg vec anchors then set anchors else insert \<lparr>an_key = key, an_vector = vec\<rparr> (set anchors))
      = anchor_of ` {g \<in> set (ls_groups (SetClassGroup (group_of cfg model now key vec anchors) s)). is_anchor model g}"
proof -
  obtain best sim ok where a: "Assign vec anchors (gc_threshold cfg) = (best, sim, ok)" by (metis prod_cases3)
  let ?g = "group_of cfg model now key vec anchors" and ?rows = "ls_groups s"
  let ?new = "upsert gr_key (\<lambda>_ new. new) ?g ?rows"
  have u: "keys_unique gr_key ?rows" using s by (simp add: groups_sound_def)
  have g: "gr_key ?g = key" "gr_model ?g = model" "gr_vector ?g = vec" by (simp_all add: group_of_def a)
  have new: "set ?new = insert ?g {r \<in> set ?rows. gr_key r \<noteq> key}" using set_upsert [OF u, of ?g] by (simp add: g)
  have kept: "r \<in> set ?rows \<Longrightarrow> is_anchor model r \<Longrightarrow> gr_key r \<noteq> key" for r
    using fresh by (auto simp: grouped_under_def list_ex_iff is_anchor_def)
  have joined: "\<exists>b\<in>set ?rows. is_anchor model b \<and> gr_key b = best \<and> sim = Cosine vec (gr_vector b) \<and> gc_threshold cfg \<le> sim" if joined: ok
  proof -
    obtain x where x: "x \<in> set anchors" "an_key x = best" "sim = Cosine vec (an_vector x)" "gc_threshold cfg \<le> sim"
      using Assign_joins [of vec anchors "gc_threshold cfg" best sim] a joined by (auto simp: list_ex_iff)
    then show ?thesis using anchors by (auto simp: anchor_of_def)
  qed
  have anchored: "is_anchor model ?g \<longleftrightarrow> \<not> ok"
    using joined kept by (auto simp: group_of_def a is_anchor_def)
  have "sound_row ?new ?g"
  proof (cases ok)
    case True
    then obtain b where b: "b \<in> set ?rows" "is_anchor model b" "gr_key b = best" "sim = Cosine vec (gr_vector b)" "gc_threshold cfg \<le> sim"
      using joined by blast
    then have "b \<in> set ?new" using new kept by blast
    then show ?thesis using b True by (auto simp: sound_row_def group_of_def a list_ex_iff)
  qed (simp add: sound_row_def group_of_def a)
  moreover have "sound_row ?new r" if "r \<in> set ?rows" "gr_model r = model" for r
  proof -
    have "sound_row ?rows r" using s that by (auto simp: groups_sound_def list_all_iff)
    then show ?thesis using that new kept unfolding sound_row_def list_ex_iff by blast
  qed
  ultimately have "\<forall>r\<in>set ?new. gr_model r = model \<longrightarrow> sound_row ?new r" using new by auto
  moreover have "keys_unique gr_key ?new" using u by (intro keys_unique_upsert) simp_all
  ultimately show "groups_sound model (SetClassGroup ?g s)" by (simp add: groups_sound_def SetClassGroup_def list_all_iff)
  have "{r \<in> set ?new. is_anchor model r} = (if ok then {} else {?g}) \<union> {r \<in> set ?rows. is_anchor model r}"
    using anchored kept unfolding new by auto
  then show "(if joins cfg vec anchors then set anchors else insert \<lparr>an_key = key, an_vector = vec\<rparr> (set anchors))
      = anchor_of ` {g \<in> set (ls_groups (SetClassGroup ?g s)). is_anchor model g}"
    using anchors g by (simp add: SetClassGroup_def joins_def a anchor_of_def)
qed

lemma grouped_SetClassGroup:
  assumes "keys_unique gr_key (ls_groups s)" "gr_key g \<noteq> k"
  shows "grouped_under model (SetClassGroup g s) k = grouped_under model s k"
  using set_upsert [OF assms(1), of g] assms(2) by (auto simp: grouped_under_def SetClassGroup_def list_ex_iff)

lemma SetClassGroup_frame: "SetClassGroup g s = s\<lparr>ls_groups := ls_groups (SetClassGroup g s)\<rparr>"
  by (simp add: SetClassGroup_def)

lemma group_of_key: "gr_key (group_of cfg model now key vec anchors) = key" "gr_model (group_of cfg model now key vec anchors) = model"
  by (simp_all add: group_of_def split: prod.split)

lemma group_loop_sound:
  assumes "groups_sound model s" "set anchors = anchor_of ` {g \<in> set (ls_groups s). is_anchor model g}"
    "distinct (map ce_key cs)" "list_all (\<lambda>c. \<not> grouped_under model s (ce_key c)) cs"
  shows "groups_sound model (snd (group_loop cfg env model now n cs anchors s))
    \<and> (\<exists>gs. snd (group_loop cfg env model now n cs anchors s) = s\<lparr>ls_groups := gs\<rparr>)"
  using assms
proof (induction cs arbitrary: n anchors s)
  case Nil
  then show ?case by (auto intro: exI [of _ "ls_groups s"])
next
  case (Cons c cs)
  have id: "\<exists>gs. s = s\<lparr>ls_groups := gs\<rparr>" by (intro exI [of _ "ls_groups s"]) simp
  show ?case
  proof (cases "ge_embed env n (grouping_Text (ce_modules c) (ce_evidence c))")
    case (Inl e)
    then show ?thesis using Cons.IH [of s anchors "Suc n"] Cons.prems id by (cases e) auto
  next
    case (Inr a)
    obtain vec m where a: "a = (vec, m)" by (cases a)
    let ?g = "group_of cfg model now (ce_key c) vec anchors"
    let ?as = "if joins cfg vec anchors then anchors else anchors @ [\<lparr>an_key = ce_key c, an_vector = vec\<rparr>]"
    have fresh: "\<not> grouped_under model s (ce_key c)" using Cons.prems(4) by simp
    note set_sound = SetClassGroup_sound [where cfg = cfg and now = now and vec = vec, OF Cons.prems(1) fresh Cons.prems(2)]
    have u: "keys_unique gr_key (ls_groups s)" using Cons.prems(1) by (simp add: groups_sound_def)
    have "set ?as = anchor_of ` {g \<in> set (ls_groups (SetClassGroup ?g s)). is_anchor model g}"
      using set_sound(2) by (simp split: if_splits)
    moreover have "list_all (\<lambda>c. \<not> grouped_under model (SetClassGroup ?g s) (ce_key c)) cs"
      using Cons.prems(3,4) grouped_SetClassGroup [OF u, of ?g _ model] by (auto simp: list_all_iff group_of_key)
    ultimately have "groups_sound model (snd (group_loop cfg env model now (Suc n) cs ?as (SetClassGroup ?g s)))
      \<and> (\<exists>gs. snd (group_loop cfg env model now (Suc n) cs ?as (SetClassGroup ?g s)) = (SetClassGroup ?g s)\<lparr>ls_groups := gs\<rparr>)"
      using Cons.IH [OF set_sound(1)] Cons.prems(3) by simp
    moreover have "(SetClassGroup ?g s)\<lparr>ls_groups := gs\<rparr> = s\<lparr>ls_groups := gs\<rparr>" for gs by (simp add: SetClassGroup_def)
    ultimately show ?thesis using Inr a Cons.prems(1) id by simp
  qed
qed

lemma ungrouped_rows:
  "keys_unique cl_key (ls_classes s) \<Longrightarrow> distinct (map ce_key (UngroupedClasses model limit s))"
  "c \<in> set (UngroupedClasses model limit s) \<Longrightarrow> \<not> grouped_under model s (ce_key c)"
proof -
  let ?rows = "sort_key (\<lambda>c. (cl_first_seen c, cl_key c)) (filter (\<lambda>c. \<not> grouped_under model s (cl_key c)) (ls_classes s))"
  have key: "e \<in> set (class_evidence_of s c) \<Longrightarrow> ce_key e = cl_key c" for e c by (auto simp: class_evidence_of_def split: option.splits)
  have one: "length (class_evidence_of s c) \<le> 1" for c by (simp add: class_evidence_of_def split: option.split)
  have dist: "distinct (map cl_key rows) \<Longrightarrow> distinct (map ce_key (concat (map (class_evidence_of s) rows)))" for rows
  proof (induction rows)
    case (Cons c rows)
    have "distinct (map ce_key (class_evidence_of s c))" using one [of c] by (cases "class_evidence_of s c") auto
    moreover have "ce_key e \<noteq> ce_key e'" if "e \<in> set (class_evidence_of s c)" "x \<in> set rows" "e' \<in> set (class_evidence_of s x)" for e e' x
    proof -
      have "cl_key x \<in> cl_key ` set rows" using that(2) by simp
      then have "cl_key x \<noteq> cl_key c" using Cons.prems by auto
      then show ?thesis using key that by metis
    qed
    moreover have "distinct (map ce_key (concat (map (class_evidence_of s) rows)))" using Cons by simp
    ultimately show ?case by (simp only: list.map concat.simps map_append distinct_append set_map set_concat) blast
  qed simp
  have take: "set (at_most_rows limit xs) \<subseteq> set xs" "distinct (map ce_key xs) \<Longrightarrow> distinct (map ce_key (at_most_rows limit xs))" for xs
    using distinct_take [of "map ce_key xs"] by (auto simp: at_most_rows_def take_map dest: in_set_takeD)
  show "distinct (map ce_key (UngroupedClasses model limit s))" if "keys_unique cl_key (ls_classes s)"
  proof -
    have "distinct (map cl_key (filter (\<lambda>c. \<not> grouped_under model s (cl_key c)) (ls_classes s)))"
      using keys_unique_filter [OF that] by (simp add: keys_unique_def)
    moreover have m: "mset (map cl_key ?rows) = mset (map cl_key (filter (\<lambda>c. \<not> grouped_under model s (cl_key c)) (ls_classes s)))"
      by simp
    ultimately have "distinct (map cl_key ?rows)" using mset_eq_imp_distinct_iff [OF m] by blast
    then show ?thesis unfolding UngroupedClasses_def by (intro take dist)
  qed
  show "\<not> grouped_under model s (ce_key c)" if "c \<in> set (UngroupedClasses model limit s)"
  proof -
    have "c \<in> set (concat (map (class_evidence_of s) ?rows))" using that take(1) unfolding UngroupedClasses_def by blast
    then obtain r where "r \<in> set ?rows" "c \<in> set (class_evidence_of s r)" by (auto simp only: set_concat set_map)
    then show ?thesis using key [of c r] by simp
  qed
qed

lemma grouping_Run_sound:
  assumes "groups_sound model s" "keys_unique cl_key (ls_classes s)"
    "ge_embed env 0 (grouping_Text [] [''probe'']) = Inr (v, model)"
  shows "groups_sound model (snd (grouping_Run cfg env now s)) \<and> (\<exists>gs. snd (grouping_Run cfg env now s) = s\<lparr>ls_groups := gs\<rparr>)"
proof -
  have "set (GroupAnchors model s) = anchor_of ` {g \<in> set (ls_groups s). is_anchor model g}" by (simp add: GroupAnchors_def)
  moreover have "list_all (\<lambda>c. \<not> grouped_under model s (ce_key c)) (UngroupedClasses model (gc_batch cfg) s)"
    using ungrouped_rows(2) by (simp add: list_all_iff)
  ultimately have "groups_sound model (snd (group_loop cfg env model now 1 (UngroupedClasses model (gc_batch cfg) s) (GroupAnchors model s) s))
    \<and> (\<exists>gs. snd (group_loop cfg env model now 1 (UngroupedClasses model (gc_batch cfg) s) (GroupAnchors model s) s) = s\<lparr>ls_groups := gs\<rparr>)"
    using assms(1) ungrouped_rows(1) [OF assms(2)] by (intro group_loop_sound)
  moreover have "\<exists>gs. s = s\<lparr>ls_groups := gs\<rparr>" by (intro exI [of _ "ls_groups s"]) simp
  ultimately show ?thesis using assms(1,3) by (simp add: grouping_Run_def Let_def)
qed

subsection \<open>Progress\<close>

lemma group_loop_groups:
  assumes "\<forall>n t. \<exists>v. ge_embed env n t = Inr (v, model)" "\<forall>c. \<not> ge_fails env c" "keys_unique gr_key (ls_groups s)"
  shows "grouped_under model (snd (group_loop cfg env model now n cs anchors s)) k
    \<longleftrightarrow> grouped_under model s k \<or> k \<in> ce_key ` set cs"
  using assms(3)
proof (induction cs arbitrary: n anchors s)
  case (Cons c cs)
  obtain vec where v: "ge_embed env n (grouping_Text (ce_modules c) (ce_evidence c)) = Inr (vec, model)" using assms(1) by blast
  let ?g = "group_of cfg model now (ce_key c) vec anchors"
  have u: "keys_unique gr_key (ls_groups (SetClassGroup ?g s))"
    using Cons.prems by (simp add: SetClassGroup_def) (intro keys_unique_upsert, simp_all)
  have "grouped_under model (SetClassGroup ?g s) k \<longleftrightarrow> k = ce_key c \<or> grouped_under model s k"
  proof (cases "k = ce_key c")
    case True
    then show ?thesis using set_upsert [OF Cons.prems, of ?g] by (auto simp: grouped_under_def SetClassGroup_def list_ex_iff group_of_key)
  next
    case False
    then show ?thesis using grouped_SetClassGroup [OF Cons.prems, of ?g k model] by (simp add: group_of_key)
  qed
  then show ?case using Cons.IH [OF u] v assms(2) by auto
qed simp

lemma drop_keys: "distinct (map f xs) \<Longrightarrow> filter (\<lambda>x. f x \<notin> f ` set (take n xs)) xs = drop n xs"
proof -
  assume d: "distinct (map f xs)"
  have "distinct (map f (take n xs @ drop n xs))" using d by simp
  then have disj: "f ` set (take n xs) \<inter> f ` set (drop n xs) = {}" by (simp only: map_append distinct_append set_map)
  have "filter (\<lambda>x. f x \<notin> f ` set (take n xs)) (take n xs @ drop n xs)
      = filter (\<lambda>x. f x \<notin> f ` set (take n xs)) (take n xs) @ filter (\<lambda>x. f x \<notin> f ` set (take n xs)) (drop n xs)"
    by (rule filter_append)
  also have "filter (\<lambda>x. f x \<notin> f ` set (take n xs)) (take n xs) = []" by (auto simp: filter_empty_conv)
  also have "filter (\<lambda>x. f x \<notin> f ` set (take n xs)) (drop n xs) = drop n xs"
    using disj by (intro filter_True) blast
  finally show ?thesis by simp
qed

lemma filter_evidence:
  "filter (\<lambda>e. ce_key e \<notin> K) (concat (map (class_evidence_of s) rows))
     = concat (map (class_evidence_of s) (filter (\<lambda>c. cl_key c \<notin> K) rows))"
proof (induction rows)
  case (Cons c rows)
  then show ?case by (cases "latest_finding (cl_key c) (ls_findings s)") (simp_all add: class_evidence_of_def)
qed simp

lemma ungrouped_after:
  assumes "keys_unique cl_key (ls_classes s)" "0 \<le> limit" "s' = s\<lparr>ls_groups := gs\<rparr>"
    "\<And>k. grouped_under model s' k \<longleftrightarrow> grouped_under model s k \<or> k \<in> ce_key ` set (UngroupedClasses model limit s)"
  shows "UngroupedClasses model (-1) s' = drop (nat limit) (UngroupedClasses model (-1) s)"
proof -
  let ?all = "UngroupedClasses model (-1) s" and ?K = "ce_key ` set (UngroupedClasses model limit s)"
  have lim: "UngroupedClasses model limit s = take (nat limit) ?all" using assms(2) by (simp add: UngroupedClasses_def at_most_rows_def)
  have ev: "class_evidence_of s' = class_evidence_of s" "ls_classes s' = ls_classes s" using assms(3) by (simp_all add: class_evidence_of_def [abs_def])
  define K where "K = ?K"
  have g: "\<not> grouped_under model s' k \<longleftrightarrow> \<not> grouped_under model s k \<and> k \<notin> K" for k using assms(4) [of k] by (auto simp: K_def)
  have "UngroupedClasses model (-1) s' = filter (\<lambda>e. ce_key e \<notin> K) ?all"
    by (simp add: UngroupedClasses_def at_most_rows_def filter_evidence ev filter_sort g)
  also have "\<dots> = drop (nat limit) ?all"
    unfolding K_def lim using ungrouped_rows(1) [OF assms(1), of model "-1"] by (rule drop_keys)
  finally show ?thesis .
qed

lemma grouping_Run_progress:
  assumes "\<forall>n t. \<exists>v. ge_embed env n t = Inr (v, model)" "\<forall>c. \<not> ge_fails env c" "groups_sound model s"
    "keys_unique cl_key (ls_classes s)" "0 \<le> gc_batch cfg"
  shows "UngroupedClasses model (-1) (snd (grouping_Run cfg env now s)) = drop (nat (gc_batch cfg)) (UngroupedClasses model (-1) s)"
proof -
  obtain v where v: "ge_embed env 0 (grouping_Text [] [''probe'']) = Inr (v, model)" using assms(1) by blast
  let ?cs = "UngroupedClasses model (gc_batch cfg) s"
  have u: "keys_unique gr_key (ls_groups s)" using assms(3) by (simp add: groups_sound_def)
  have "grouped_under model (snd (grouping_Run cfg env now s)) k \<longleftrightarrow> grouped_under model s k \<or> k \<in> ce_key ` set ?cs" for k
    using group_loop_groups [OF assms(1,2) u] v assms(2) by (auto simp: grouping_Run_def Let_def)
  moreover obtain gs where "snd (grouping_Run cfg env now s) = s\<lparr>ls_groups := gs\<rparr>" using grouping_Run_sound [OF assms(3,4) v] by blast
  ultimately show ?thesis by (intro ungrouped_after [OF assms(4,5)])
qed

text \<open>
  C22: a grouping pass leaves sound groups and nothing else. From sound groups, whatever the
  embedder and the store answer and wherever the pass stops, each class grouped under the model
  is an anchor or joined one that is still there, is as similar to it as its row says and at
  least as similar as the threshold asked; no other table changes. A pass that nothing disturbs
  groups exactly the oldest classes that had no group, one batch of them, so repeated passes
  reach every class.
\<close>

theorem grouping_pass_sound:
  assumes "groups_sound model s" "keys_unique cl_key (ls_classes s)"
    "ge_embed env 0 (grouping_Text [] [''probe'']) = Inr (v, model)"
  shows "groups_sound model (snd (grouping_Run cfg env now s)) \<and> (\<exists>gs. snd (grouping_Run cfg env now s) = s\<lparr>ls_groups := gs\<rparr>)
    \<and> ((\<forall>n t. \<exists>v. ge_embed env n t = Inr (v, model)) \<and> (\<forall>c. \<not> ge_fails env c) \<and> 0 \<le> gc_batch cfg \<longrightarrow>
        UngroupedClasses model (-1) (snd (grouping_Run cfg env now s)) = drop (nat (gc_batch cfg)) (UngroupedClasses model (-1) s))"
  using grouping_Run_sound [OF assms] grouping_Run_progress [OF _ _ assms(1,2)] by blast

definition one_class :: logs_store where
  "one_class = empty_logs\<lparr>ls_findings := [\<lparr>fr_id = ''f'', fr_system = ''a'', fr_fingerprint = ''p'', fr_severity = ''low'',
     fr_title = [], fr_summary = [], fr_action = [], fr_modules = [''mail1''], fr_evidence = [''disk full''], fr_status = ''open'',
     fr_count = 1, fr_first_seen = 1, fr_last_seen = 1, fr_reopened_at = None, fr_llm_model = [], fr_prompt_version = [],
     fr_nodes = [], fr_class = Some ''k''\<rparr>], ls_classes := [\<lparr>cl_key = ''k'', cl_visibility = ''pending'', cl_security = False, cl_severity = None,
     cl_doc_ref = None, cl_first_prompt_version = None, cl_first_seen = 1, cl_last_seen = 1\<rparr>]\<rparr>"

definition constant_embedder :: grouping_env where
  "constant_embedder = \<lparr>ge_embed = (\<lambda>_ _. Inr ([1, 0], ''m'')), ge_fails = (\<lambda>_. False)\<rparr>"

theorem grouping_pass_sound_witness:
  "groups_sound ''m'' (snd (grouping_Run \<lparr>gc_threshold = 9 / 10, gc_batch = 20\<rparr> constant_embedder 5 one_class))
   \<and> UngroupedClasses ''m'' (-1) (snd (grouping_Run \<lparr>gc_threshold = 9 / 10, gc_batch = 20\<rparr> constant_embedder 5 one_class))
      = drop 20 (UngroupedClasses ''m'' (-1) one_class)"
proof -
  have "groups_sound ''m'' one_class" "keys_unique cl_key (ls_classes one_class)"
    "ge_embed constant_embedder 0 (grouping_Text [] [''probe'']) = Inr ([1, 0], ''m'')"
    by (simp_all add: groups_sound_def one_class_def empty_logs_def keys_unique_def constant_embedder_def)
  from grouping_pass_sound [OF this, of "\<lparr>gc_threshold = 9 / 10, gc_batch = 20\<rparr>" 5] show ?thesis
    by (simp add: constant_embedder_def)
qed

end
