(* ===== verification/GoConv.thy ===== *)
theory GoConv
  imports GoTime
begin

text \<open>
  Numbers as text, what the code uses of Go's \<open>strconv\<close>: \<open>ParseInt(s, 10, 64)\<close> and \<open>Atoi\<close>, which
  agree on a 64-bit machine. \<open>None\<close> stands for both errors, of syntax and of range.
\<close>

definition ParseInt64 :: "string \<Rightarrow> int option" where
  "ParseInt64 s =
     (let neg = (s \<noteq> [] \<and> hd s = CHR ''-''); ds = (if s \<noteq> [] \<and> (hd s = CHR ''-'' \<or> hd s = CHR ''+'') then tl s else s);
          n = (if neg then - digits_val ds else digits_val ds)
      in if ds = [] \<or> \<not> list_all is_digit ds \<or> \<not> int64 n then None else Some n)"

lemma ParseInt64_range: "ParseInt64 s = Some n \<Longrightarrow> int64 n"
  by (auto simp: ParseInt64_def Let_def split: if_splits)

end
