(* ===== verification/Logs_Api.thy ===== *)
theory Logs_Api
  imports Httpx GoConv Model_Nodes Ingest_Queues Logs_Findings
begin

text \<open>
  The client API of insightsd, \<open>internal/api/logs/api.go\<close>: bundles in, findings out, and the
  bundles handler composed with the window queue. What the size-capped decompressor and the JSON
  decoder make of a body is an argument, and so are the values of the query parameters.
\<close>

record logs_api_config =
  lc_exclude_modules :: "string set"
  lc_exclude_services :: "string set"

definition maxTemplates :: nat where "maxTemplates = 1000"
definition maxTruncatedModules :: nat where "maxTruncatedModules = 1000"
definition maxWindowAge :: int where "maxWindowAge = 6 * 60 * 60 * 1000"

subsection \<open>Bundles\<close>

text \<open>The validation of a decoded bundle: the status it is refused with, if any.\<close>

definition bundle_refused :: "string \<Rightarrow> int \<Rightarrow> log_bundle \<Rightarrow> nat option" where
  "bundle_refused sys now b =
     (if b_schema_version b \<noteq> SchemaVersion then Some 400
      else if b_system_id b = [] then Some 400
      else if b_system_id b \<noteq> sys then Some 403
      else if w_end (b_window b) \<le> w_start (b_window b) then Some 400
      else if w_end (b_window b) > now then Some 400
      else if w_start (b_window b) < now - maxWindowAge then Some 400
      else if length (b_templates b) > maxTemplates then Some 400
      else if length (lb_truncated_modules (b_budget b)) > maxTruncatedModules then Some 400
      else if list_ex (\<lambda>t. length (t_samples t) > 2) (b_templates b) then Some 400
      else None)"

text \<open>What is queued of an accepted bundle.\<close>

definition bundle_in_scope :: "logs_api_config \<Rightarrow> log_bundle \<Rightarrow> log_bundle" where
  "bundle_in_scope cfg b = SanitizeNodes (ExcludeServices (lc_exclude_services cfg) (ExcludeModules (lc_exclude_modules cfg) b))"

text \<open>The handler up to the queue: an error status or the bundle to publish.\<close>

definition admit_bundle ::
  "(bool \<Rightarrow> string \<Rightarrow> log_bundle decoded) \<Rightarrow> trusted_proxies \<Rightarrow> logs_api_config \<Rightarrow> http_request \<Rightarrow> int \<Rightarrow> nat + log_bundle" where
  "admit_bundle decode trusted cfg r now =
     (if hr_method r \<noteq> ''POST'' then Inl 405
      else case SystemID r trusted of
        Inl _ \<Rightarrow> Inl 401
      | Inr sys \<Rightarrow>
          (case decode (hr_content_encoding r = ''gzip'') (hr_body r) of
             BodyBadGzip \<Rightarrow> Inl 400
           | BodyTooBig \<Rightarrow> Inl 413
           | BodyBadJson \<Rightarrow> Inl 400
           | Decoded b \<Rightarrow> (case bundle_refused sys now b of Some status \<Rightarrow> Inl status | None \<Rightarrow> Inr (bundle_in_scope cfg b))))"

text \<open>The whole handler, on a queue nobody else publishes to. A panic has no status.\<close>

definition handleBundles ::
  "(bool \<Rightarrow> string \<Rightarrow> log_bundle decoded) \<Rightarrow> trusted_proxies \<Rightarrow> logs_api_config \<Rightarrow> http_request \<Rightarrow> int \<Rightarrow> queue \<Rightarrow> nat option \<times> queue" where
  "handleBundles decode trusted cfg r now q =
     (case admit_bundle decode trusted cfg r now of
        Inl status \<Rightarrow> (Some status, q)
      | Inr b \<Rightarrow>
          (case queue_Publish b q of
             (Some Accepted, q') \<Rightarrow> (Some 202, q')
           | (Some ErrFull, q') \<Rightarrow> (Some 503, q')
           | (Some Panicked, q') \<Rightarrow> (None, q')
           | (None, q') \<Rightarrow> (None, q')))"

subsection \<open>Findings\<close>

datatype findings_answer = FindingsRefused nat | FindingsListed "finding list"

text \<open>The two calls of the store may fail; a failing roster costs the names only.\<close>

definition handleFindings ::
  "trusted_proxies \<Rightarrow> bool \<Rightarrow> bool \<Rightarrow> http_request \<Rightarrow> string \<Rightarrow> string \<Rightarrow> logs_store \<Rightarrow> findings_answer" where
  "handleFindings trusted list_fails resolve_fails r since_param status s =
     (if hr_method r \<noteq> ''GET'' then FindingsRefused 405
      else case SystemID r trusted of
        Inl _ \<Rightarrow> FindingsRefused 401
      | Inr sys \<Rightarrow>
          (case (if since_param = [] then Some 0 else ParseInt64 since_param) of
             None \<Rightarrow> FindingsRefused 400
           | Some since \<Rightarrow>
               if list_fails then FindingsRefused 503
               else let fs = ListFindings sys since status s
                    in FindingsListed (if resolve_fails then fs else ResolveNodes sys fs s)))"

subsection \<open>Requests and the queue\<close>

text \<open>
  Every interleaving of requests, publishers, workers and Stop: an accepted request claims its
  window, everything after that is a step of the queue.
\<close>

datatype insight_event = BundleRequest http_request int | QueueEvent queue_event

fun insight_step ::
  "(bool \<Rightarrow> string \<Rightarrow> log_bundle decoded) \<Rightarrow> trusted_proxies \<Rightarrow> logs_api_config \<Rightarrow> insight_event \<Rightarrow> queue \<Rightarrow> queue option" where
  "insight_step decode trusted cfg (BundleRequest r now) q =
     (case admit_bundle decode trusted cfg r now of Inl _ \<Rightarrow> Some q | Inr b \<Rightarrow> queue_step (QClaim b) q)"
| "insight_step decode trusted cfg (QueueEvent e) q = (case e of QClaim b \<Rightarrow> None | _ \<Rightarrow> queue_step e q)"

subsection \<open>What is queued\<close>

text \<open>A bundle as the pipeline behind the queue relies on it.\<close>

definition in_scope :: "logs_api_config \<Rightarrow> log_bundle \<Rightarrow> bool" where
  "in_scope cfg b \<longleftrightarrow> b_schema_version b = SchemaVersion \<and> w_start (b_window b) < w_end (b_window b)
     \<and> length (b_templates b) \<le> maxTemplates \<and> length (lb_truncated_modules (b_budget b)) \<le> maxTruncatedModules
     \<and> list_all (\<lambda>t. length (t_samples t) \<le> 2 \<and> SanitizeNodeIDs (t_nodes t) = t_nodes t
          \<and> t_module_id t \<notin> lc_exclude_modules cfg \<and> ModuleFamily (t_module_id t) \<notin> lc_exclude_modules cfg
          \<and> (ServiceTag (t_template t) = [] \<or> ServiceTag (t_template t) \<notin> lc_exclude_services cfg)) (b_templates b)
     \<and> (\<exists>ns. b_nodes b = SanitizeRoster ns)"

lemma SanitizeNodeIDs_again: "SanitizeNodeIDs (SanitizeNodeIDs ids) = SanitizeNodeIDs ids"
proof -
  have "\<forall>i\<in>set (SanitizeNodeIDs ids). 1 \<le> i" using SanitizeNodeIDs_props [of ids] by blast
  then show ?thesis using SanitizeNodeIDs_props [of ids] SanitizeNodeIDs_fixed [of "SanitizeNodeIDs ids"] by blast
qed

lemma bundle_scope_frame:
  "b_schema_version (bundle_in_scope cfg b) = b_schema_version b" "b_system_id (bundle_in_scope cfg b) = b_system_id b"
  "b_window (bundle_in_scope cfg b) = b_window b" "b_nodes (bundle_in_scope cfg b) = SanitizeRoster (b_nodes b)"
  "length (b_templates (bundle_in_scope cfg b)) \<le> length (b_templates b)"
  "length (lb_truncated_modules (b_budget (bundle_in_scope cfg b))) \<le> length (lb_truncated_modules (b_budget b))"
proof -
  have "length (filter P (filter Q xs)) \<le> length xs" for P Q and xs :: "template list"
    using length_filter_le [of P "filter Q xs"] length_filter_le [of Q xs] by simp
  then show "length (b_templates (bundle_in_scope cfg b)) \<le> length (b_templates b)"
    by (simp add: bundle_in_scope_def SanitizeNodes_def ExcludeServices_def ExcludeModules_def del: filter_filter)
qed (simp_all add: bundle_in_scope_def SanitizeNodes_def ExcludeServices_def ExcludeModules_def)

lemma bundle_scope_template:
  assumes "t \<in> set (b_templates (bundle_in_scope cfg b))"
  obtains t0 where "t0 \<in> set (b_templates b)" "t_samples t = t_samples t0" "SanitizeNodeIDs (t_nodes t) = t_nodes t"
    "t_module_id t \<notin> lc_exclude_modules cfg" "ModuleFamily (t_module_id t) \<notin> lc_exclude_modules cfg"
    "ServiceTag (t_template t) = [] \<or> ServiceTag (t_template t) \<notin> lc_exclude_services cfg"
  using assms
  by (auto simp: bundle_in_scope_def SanitizeNodes_def ExcludeServices_fails_open SanitizeNodeIDs_again
      ExcludeModules_complete [THEN conjunct2, THEN conjunct1])

lemma admitted_in_scope:
  assumes "admit_bundle decode trusted cfg r now = Inr b"
  shows "in_scope cfg b \<and> SystemID r trusted = Inr (b_system_id b) \<and> now - maxWindowAge \<le> w_start (b_window b) \<and> w_end (b_window b) \<le> now"
proof -
  obtain sys b0 where r: "SystemID r trusted = Inr sys" "bundle_refused sys now b0 = None" "b = bundle_in_scope cfg b0"
    using assms by (auto simp: admit_bundle_def split: if_splits sum.splits decoded.splits option.splits)
  have v: "b_schema_version b0 = SchemaVersion" "b_system_id b0 = sys" "w_start (b_window b0) < w_end (b_window b0)"
    "w_end (b_window b0) \<le> now" "now - maxWindowAge \<le> w_start (b_window b0)" "length (b_templates b0) \<le> maxTemplates"
    "length (lb_truncated_modules (b_budget b0)) \<le> maxTruncatedModules" "\<forall>t\<in>set (b_templates b0). length (t_samples t) \<le> 2"
    using r(2) by (auto simp: bundle_refused_def list_ex_iff not_less split: if_splits)
  have "list_all (\<lambda>t. length (t_samples t) \<le> 2 \<and> SanitizeNodeIDs (t_nodes t) = t_nodes t
          \<and> t_module_id t \<notin> lc_exclude_modules cfg \<and> ModuleFamily (t_module_id t) \<notin> lc_exclude_modules cfg
          \<and> (ServiceTag (t_template t) = [] \<or> ServiceTag (t_template t) \<notin> lc_exclude_services cfg)) (b_templates b)"
    unfolding list_all_iff r(3) using v(8) by (auto elim!: bundle_scope_template)
  then show ?thesis using r(1,3) v bundle_scope_frame(5,6) [of cfg b0]
    by (auto simp: in_scope_def bundle_scope_frame(1-4) intro: order_trans)
qed

text \<open>A property of every bundle the queue and its workers have in hand or have had.\<close>

fun publisher_bundle :: "publisher \<Rightarrow> log_bundle" where
  "publisher_bundle (Claimed b) = b" | "publisher_bundle (Rejected b) = b" | "publisher_bundle (Dead b) = b"

definition queue_holds :: "(log_bundle \<Rightarrow> bool) \<Rightarrow> queue \<Rightarrow> bool" where
  "queue_holds P q \<longleftrightarrow> list_all P (p_buf (q_pool q)) \<and> list_all P (p_taken (q_pool q))
     \<and> (\<forall>p. p \<in># q_publishers q \<longrightarrow> P (publisher_bundle p))"

lemma queue_holds_claim: "queue_holds P q \<Longrightarrow> P b \<Longrightarrow> queue_holds P (snd (publish_claim b q))"
  by (auto simp: queue_holds_def publish_claim_def)

lemma queue_holds_publish:
  assumes "queue_holds P q" "P b"
  shows "queue_holds P (snd (publish_send b q))" "queue_holds P (snd (publish_reject b q))"
proof -
  have d: "p \<in># q_publishers q - {#x#} \<Longrightarrow> P (publisher_bundle p)" for p x
    using assms(1) by (auto simp: queue_holds_def dest: in_diffD)
  show "queue_holds P (snd (publish_send b q))"
    using assms d by (cases rule: try_send_cases [of "q_pool q" b]) (auto simp: queue_holds_def publish_send_def Let_def)
  show "queue_holds P (snd (publish_reject b q))"
    using assms d by (auto simp: queue_holds_def publish_reject_def queue_release_def)
qed

lemma queue_holds_step:
  assumes "queue_step e q = Some q'" "queue_holds P q" "\<And>b. e = QClaim b \<Longrightarrow> P b"
  shows "queue_holds P q'"
proof (cases e)
  case (QClaim b)
  then show ?thesis using assms queue_holds_claim by (auto simp: queue_step.simps split: if_splits)
next
  case (QSend b)
  then have b: "Claimed b \<in># q_publishers q" "q' = snd (publish_send b q)" using assms(1) by (auto simp: queue_step.simps split: if_splits)
  then have "P b" using assms(2) by (force simp: queue_holds_def)
  then show ?thesis using queue_holds_publish(1) [OF assms(2)] b(2) by simp
next
  case (QReject b)
  then have b: "Rejected b \<in># q_publishers q" "q' = snd (publish_reject b q)" using assms(1) by (auto simp: queue_step.simps split: if_splits)
  then have "P b" using assms(2) by (force simp: queue_holds_def)
  then show ?thesis using queue_holds_publish(2) [OF assms(2)] b(2) by simp
next
  case (QTake i)
  then obtain p where "pool_take i (q_pool q) = Some p" "q' = q\<lparr>q_pool := p\<rparr>" using assms(1) by (auto simp: queue_step.simps split: if_splits)
  then show ?thesis using assms(2) by (auto simp: pool_take_def queue_holds_def split: if_splits list.splits)
next
  case (QFinish i r)
  then show ?thesis using assms(1,2)
    by (auto simp: queue_step.simps queue_process_Some queue_holds_def pool_finish_def split: if_splits worker.splits)
next
  case (QExit i)
  then show ?thesis using assms(1,2) by (auto simp: queue_step.simps pool_exit_def queue_holds_def split: if_splits)
next
  case QStop
  then show ?thesis using assms(1,2) by (auto simp: queue_step.simps pool_close_def queue_holds_def split: if_splits)
qed

subsection \<open>Histories\<close>

definition requested ::
  "(bool \<Rightarrow> string \<Rightarrow> log_bundle decoded) \<Rightarrow> trusted_proxies \<Rightarrow> logs_api_config \<Rightarrow> insight_event list \<Rightarrow> log_bundle \<Rightarrow> bool" where
  "requested decode trusted cfg es b \<longleftrightarrow> (\<exists>r now. BundleRequest r now \<in> set es \<and> admit_bundle decode trusted cfg r now = Inr b)"

lemma insight_runs_hold:
  assumes "runs (insight_step decode trusted cfg) es q = Some q'" "queue_holds P q"
    "\<And>b. requested decode trusted cfg es b \<Longrightarrow> P b"
  shows "queue_holds P q'"
  using assms
proof (induction es arbitrary: q)
  case (Cons e es)
  obtain q1 where q1: "insight_step decode trusted cfg e q = Some q1" "runs (insight_step decode trusted cfg) es q1 = Some q'"
    using Cons.prems(1) by (auto split: option.splits)
  have new: "P b" if "e = BundleRequest r now" "admit_bundle decode trusted cfg r now = Inr b" for r now b
    using Cons.prems(3) [of b] that by (auto simp: requested_def)
  have "queue_holds P q1"
  proof (cases e)
    case (BundleRequest r now)
    then show ?thesis using q1(1) Cons.prems(2) new queue_holds_step [of "QClaim _" q q1 P] by (auto split: sum.splits)
  next
    case (QueueEvent e')
    then show ?thesis using q1(1) Cons.prems(2) queue_holds_step [of e' q q1 P] by (auto split: queue_event.splits)
  qed
  moreover have "requested decode trusted cfg es b \<Longrightarrow> P b" for b using Cons.prems(3) [of b] by (auto simp: requested_def)
  ultimately show ?case using Cons.IH q1(2) by blast
qed simp

text \<open>
  C21: the analyzer works on admitted bundles only. In every interleaving of requests,
  publishers, workers and Stop, each bundle a worker ever took was sent by a request whose
  credential named its system and that came through a trusted proxy; when it was sent its
  window was in the past and not older than six hours. Nothing of an excluded module or service
  is in it, its collections are within their limits, and its machines are sanitized.
\<close>

theorem analysed_bundles_were_admitted:
  assumes "runs (insight_step decode trusted cfg) es (queue_New sz workers) = Some q" "b \<in> set (p_taken (q_pool q))"
  shows "in_scope cfg b \<and> (\<exists>r now. BundleRequest r now \<in> set es \<and> proxies_contain trusted (hr_remote r)
    \<and> SystemID r trusted = Inr (b_system_id b) \<and> now - maxWindowAge \<le> w_start (b_window b) \<and> w_end (b_window b) \<le> now)"
proof -
  have "queue_holds (requested decode trusted cfg es) (queue_New sz workers)"
    by (simp add: queue_holds_def queue_New_def start_pool_def new_pool_def)
  then have "queue_holds (requested decode trusted cfg es) q" by (rule insight_runs_hold [OF assms(1)])
  then obtain r now where "BundleRequest r now \<in> set es" "admit_bundle decode trusted cfg r now = Inr b"
    using assms(2) by (auto simp: queue_holds_def list_all_iff requested_def)
  then show ?thesis using admitted_in_scope [of decode trusted cfg r now b] SystemID_trusted [of r trusted "b_system_id b"] by blast
qed

definition sample_bundle :: log_bundle where
  "sample_bundle = \<lparr>b_schema_version = 1, b_system_id = ''a'', b_collector_version = [], b_masking_version = 1,
     b_window = \<lparr>w_start = 1772319600000, w_end = 1772323200000\<rparr>,
     b_templates = [\<lparr>t_template = ''disk full'', t_count = 3, t_module_id = ''mail1'', t_priority = 3, t_category = ''storage'',
       t_first_seen = 1772319600000, t_last_seen = 1772319600000, t_samples = [], t_nodes = [2, 1, 2]\<rparr>],
     b_budget = \<lparr>lb_max_lines = 100, lb_lines_seen = 3, lb_lines_kept = 3, lb_truncated_modules = []\<rparr>, b_nodes = []\<rparr>"

definition bundle_request :: http_request where
  "bundle_request = \<lparr>hr_method = ''POST'', hr_remote = ''127.0.0.1:5000'', hr_authorization = ''Basic YTp4'', hr_forwarded_for = [],
     hr_content_encoding = [], hr_accept_encoding = [], hr_if_none_match = [], hr_body = []\<rparr>"

definition loopback_only :: trusted_proxies where
  "loopback_only = [\<lparr>px_addr = Addr4 0x7F000000, px_bits = 8\<rparr>]"

definition everything :: logs_api_config where
  "everything = \<lparr>lc_exclude_modules = {}, lc_exclude_services = {}\<rparr>"

lemma sample_admitted:
  "admit_bundle (\<lambda>_ _. Decoded sample_bundle) loopback_only everything bundle_request 1772323200000
     = Inr (bundle_in_scope everything sample_bundle)"
proof -
  have "SystemID bundle_request loopback_only = Inr ''a''" by code_simp
  moreover have "bundle_refused ''a'' 1772323200000 sample_bundle = None" by code_simp
  ultimately show ?thesis by (simp add: admit_bundle_def) (simp add: bundle_request_def)
qed

theorem analysed_bundles_were_admitted_witness:
  "\<exists>q. runs (insight_step (\<lambda>_ _. Decoded sample_bundle) loopback_only everything)
      [BundleRequest bundle_request 1772323200000, QueueEvent (QSend (bundle_in_scope everything sample_bundle)), QueueEvent (QTake 0)]
      (queue_New 1 1) = Some q
    \<and> p_taken (q_pool q) = [bundle_in_scope everything sample_bundle] \<and> in_scope everything (bundle_in_scope everything sample_bundle)"
proof -
  let ?b = "bundle_in_scope everything sample_bundle"
  let ?run = "runs (insight_step (\<lambda>_ _. Decoded sample_bundle) loopback_only everything)
      [BundleRequest bundle_request 1772323200000, QueueEvent (QSend ?b), QueueEvent (QTake 0)] (queue_New 1 1)"
  have "\<exists>q. ?run = Some q \<and> p_taken (q_pool q) = [?b]"
    by (simp add: sample_admitted queue_step.simps queue_New_def start_pool_def new_pool_def publish_claim_def publish_send_def
      try_send_def pool_take_def Let_def)
  then obtain q where q: "?run = Some q" "p_taken (q_pool q) = [?b]" by blast
  then have "?b \<in> set (p_taken (q_pool q))" by simp
  from analysed_bundles_were_admitted [OF q(1) this] q show ?thesis by blast
qed

end
