(* ===== verification/Operator_Chrome.thy ===== *)
theory Operator_Chrome
  imports Httpx Threat_Sanitize GoConv
begin

text \<open>
  What every operator dashboard shares, \<open>internal/ui/chrome/chrome.go\<close>: the gate in front of the
  write routes, links under the deployment's base path and the bounds of the query parameters.
  A request carries the headers the gate reads; \<open>ur_form\<close> is the parsed form of the body, \<open>None\<close>
  when it does not parse or is too large. \<open>url.Parse\<close> is an argument: scheme, host and text of
  what it accepts.
\<close>

record ui_request =
  ur_http :: http_request
  ur_path :: string
  ur_host :: string
  ur_fetch_site :: string
  ur_origin :: string
  ur_referer :: string
  ur_form :: "(string \<times> string list) list option"

record parsed_url =
  pu_scheme :: string
  pu_host :: string
  pu_text :: string

definition MaxAdminActorLen :: nat where "MaxAdminActorLen = 128"

subsection \<open>Links and bounds\<close>

definition normalizeBase :: "string \<Rightarrow> string" where
  "normalizeBase s = (let t = trim_list (\<lambda>c. c = CHR ''/'') s in if t = [] then [] else CHR ''/'' # t)"

definition ui_Link :: "string \<Rightarrow> string \<Rightarrow> string" where
  "ui_Link base path = (if base = [] then path else if path = ''/'' then base @ ''/'' else base @ path)"

definition ParseRefresh :: "string \<Rightarrow> int" where
  "ParseRefresh v = (if v = [] then 0 else case ParseInt64 v of None \<Rightarrow> 0 | Some n \<Rightarrow> if n \<le> 0 then 0 else n)"

definition ClampLimit :: "string \<Rightarrow> int \<Rightarrow> int \<Rightarrow> int" where
  "ClampLimit v def upper =
     (if v = [] then def else case ParseInt64 v of None \<Rightarrow> def | Some n \<Rightarrow> if n \<le> 0 then def else if n > upper then upper else n)"

text \<open>A limit from a query is never more than the bound of its page.\<close>

lemma ClampLimit_bounded: "0 < def \<Longrightarrow> def \<le> upper \<Longrightarrow> 0 < ClampLimit v def upper \<and> ClampLimit v def upper \<le> upper"
  by (auto simp: ClampLimit_def split: option.split)

subsection \<open>Forms\<close>

text \<open>\<open>PostFormValue\<close>: the first value of a field of the body.\<close>

definition form_value :: "(string \<times> string list) list \<Rightarrow> string \<Rightarrow> string" where
  "form_value form name = (case map_of form name of Some (v # _) \<Rightarrow> v | _ \<Rightarrow> [])"

definition form_values :: "(string \<times> string list) list \<Rightarrow> string \<Rightarrow> string list" where
  "form_values form name = (case map_of form name of Some vs \<Rightarrow> vs | None \<Rightarrow> [])"

subsection \<open>The write gate\<close>

definition host_matches :: "(string \<Rightarrow> parsed_url option) \<Rightarrow> string \<Rightarrow> string \<Rightarrow> bool" where
  "host_matches parse_url header host = (case parse_url header of None \<Rightarrow> False | Some u \<Rightarrow> pu_host u = host)"

definition sameOriginWrite :: "(string \<Rightarrow> parsed_url option) \<Rightarrow> ui_request \<Rightarrow> bool" where
  "sameOriginWrite parse_url r =
     (if ur_fetch_site r \<noteq> [] \<and> ur_fetch_site r \<noteq> ''same-origin'' \<and> ur_fetch_site r \<noteq> ''none'' then False
      else if ur_origin r \<noteq> [] then host_matches parse_url (ur_origin r) (ur_host r)
      else if ur_referer r \<noteq> [] then host_matches parse_url (ur_referer r) (ur_host r)
      else True)"

definition AuthenticateWrite :: "(string \<Rightarrow> parsed_url option) \<Rightarrow> string \<Rightarrow> ui_request \<Rightarrow> nat + string" where
  "AuthenticateWrite parse_url adminKey r =
     (if hr_method (ur_http r) \<noteq> ''POST'' then Inl 405
      else if \<not> sameOriginWrite parse_url r then Inl 403
      else case BasicAuth (ur_http r) of
             None \<Rightarrow> Inl 401
           | Some (username, password) \<Rightarrow>
               if password \<noteq> adminKey then Inl 401
               else let actor = CleanText username MaxAdminActorLen in if actor = [] then Inl 400 else Inr actor)"

definition ui_CanWrite :: "string \<Rightarrow> bool" where
  "ui_CanWrite adminKey \<longleftrightarrow> adminKey \<noteq> []"

text \<open>
  The method gate every dashboard's \<open>route\<close> begins with: a read, a refusal, or a write by an
  actor. \<open>writer\<close> says whether a store to write to was wired in.
\<close>

datatype ui_gate = GateRead | GateRefused nat | GateWrite string

definition write_gate :: "(string \<Rightarrow> parsed_url option) \<Rightarrow> string \<Rightarrow> bool \<Rightarrow> string set \<Rightarrow> ui_request \<Rightarrow> ui_gate" where
  "write_gate parse_url adminKey writer routes r =
     (if hr_method (ur_http r) = ''GET'' then GateRead
      else if hr_method (ur_http r) \<noteq> ''POST'' \<or> \<not> (writer \<and> ui_CanWrite adminKey) \<or> ur_path r \<notin> routes then GateRefused 405
      else case AuthenticateWrite parse_url adminKey r of Inl status \<Rightarrow> GateRefused status | Inr actor \<Rightarrow> GateWrite actor)"

text \<open>What a write that got through the gate has shown.\<close>

definition authorised :: "(string \<Rightarrow> parsed_url option) \<Rightarrow> string \<Rightarrow> string set \<Rightarrow> ui_request \<Rightarrow> string \<Rightarrow> bool" where
  "authorised parse_url adminKey routes r actor \<longleftrightarrow>
     hr_method (ur_http r) = ''POST'' \<and> ur_path r \<in> routes \<and> adminKey \<noteq> []
     \<and> (\<exists>username. BasicAuth (ur_http r) = Some (username, adminKey) \<and> actor = CleanText username MaxAdminActorLen) \<and> actor \<noteq> []
     \<and> ur_fetch_site r \<in> {[], ''same-origin'', ''none''}
     \<and> (ur_origin r \<noteq> [] \<longrightarrow> host_matches parse_url (ur_origin r) (ur_host r))
     \<and> (ur_origin r = [] \<and> ur_referer r \<noteq> [] \<longrightarrow> host_matches parse_url (ur_referer r) (ur_host r))"

lemma gate_authorised: "write_gate parse_url adminKey writer routes r = GateWrite actor \<Longrightarrow> authorised parse_url adminKey routes r actor"
  by (auto simp: write_gate_def AuthenticateWrite_def authorised_def sameOriginWrite_def ui_CanWrite_def Let_def
    split: if_splits option.splits)

text \<open>Exactly the authorised writes get through, when a store is wired in.\<close>

lemma gate_exact: "(write_gate parse_url adminKey True routes r = GateWrite actor) = authorised parse_url adminKey routes r actor"
proof
  assume "authorised parse_url adminKey routes r actor"
  then show "write_gate parse_url adminKey True routes r = GateWrite actor"
    by (auto simp: write_gate_def AuthenticateWrite_def authorised_def sameOriginWrite_def ui_CanWrite_def Let_def)
qed (rule gate_authorised)

end
