(* ===== verification/Operator_Threat.thy ===== *)
theory Operator_Threat
  imports Operator_Chrome Threat_Api
begin

text \<open>
  The operator dashboard of threatd, \<open>internal/ui/threat/ui.go\<close> and \<open>statscache.go\<close>: the write
  routes, and what the pages compute before they are rendered. A write answers with a status; the
  redirect after a successful one is 303. \<open>fails\<close> says that the call of the store fails.
\<close>

subsection \<open>Writes\<close>

definition threat_routes :: "string set" where
  "threat_routes = {''/blocklist/allowlist'', ''/blocklist/allowlist/delete'', ''/allowlist-requests/approve'', ''/allowlist-requests/reject''}"

definition operator_entry :: "string \<Rightarrow> string \<Rightarrow> string \<Rightarrow> int \<Rightarrow> allowlist_row" where
  "operator_entry cidr reason actor now =
     \<lparr>ar_cidr = cidr, ar_reason = reason, ar_created_by = actor, ar_created_at = now, ar_expires_at = None\<rparr>"

definition handleAddAllowlist ::
  "bool \<Rightarrow> (string \<times> string list) list option \<Rightarrow> string \<Rightarrow> int \<Rightarrow> threat_store \<Rightarrow> nat \<times> threat_store" where
  "handleAddAllowlist fails form actor now s =
     (case form of None \<Rightarrow> (400, s)
      | Some f \<Rightarrow> (case ParseAllowlistEntry (form_value f ''cidr'') of
          Inl _ \<Rightarrow> (400, s)
        | Inr (cidr, _) \<Rightarrow>
            if fails then (503, s)
            else (303, AddAllowlistEntry (operator_entry cidr (CleanText (form_value f ''reason'') MaxAllowlistReasonLen) actor now) s)))"

definition handleDeleteAllowlist ::
  "bool \<Rightarrow> (string \<times> string list) list option \<Rightarrow> string \<Rightarrow> int \<Rightarrow> threat_store \<Rightarrow> nat \<times> threat_store" where
  "handleDeleteAllowlist fails form actor now s =
     (case form of None \<Rightarrow> (400, s)
      | Some f \<Rightarrow> (case NormalizeAllowlistCIDR (form_value f ''cidr'') of
          Inl _ \<Rightarrow> (400, s)
        | Inr (cidr, _) \<Rightarrow>
            if fails then (503, s)
            else case RemoveAllowlistEntry cidr actor now s of (existed, s') \<Rightarrow> (if existed then 303 else 404, s')))"

definition handleApproveRequest ::
  "bool \<Rightarrow> (string \<times> string list) list option \<Rightarrow> string \<Rightarrow> int \<Rightarrow> threat_store \<Rightarrow> nat \<times> threat_store" where
  "handleApproveRequest fails form actor now s =
     (case form of None \<Rightarrow> (400, s)
      | Some f \<Rightarrow> (case ParseAllowlistEntry (form_value f ''cidr'') of
          Inl _ \<Rightarrow> (400, s)
        | Inr (cidr, _) \<Rightarrow>
            let note = CleanText (form_value f ''note'') MaxAllowlistReasonLen;
                reason = (if note = [] then ''approved via operator UI'' else note)
            in if fails then (503, s) else (303, ApproveAllowlistRequest (operator_entry cidr reason actor now) note s)))"

definition handleRejectRequest ::
  "bool \<Rightarrow> (string \<times> string list) list option \<Rightarrow> string \<Rightarrow> int \<Rightarrow> threat_store \<Rightarrow> nat \<times> threat_store" where
  "handleRejectRequest fails form actor now s =
     (case form of None \<Rightarrow> (400, s)
      | Some f \<Rightarrow>
          let raw = TrimSpace (form_value f ''cidr'')
          in if raw = [] then (400, s)
             else case NormalizeAllowlistCIDR raw of
                    Inl _ \<Rightarrow> (400, s)
                  | Inr (cidr, _) \<Rightarrow>
                      if fails then (503, s)
                      else (303, RejectAllowlistRequest cidr actor (CleanText (form_value f ''note'') MaxAllowlistReasonLen) now s))"

text \<open>\<open>route\<close>; the pages answer 200 or 404 and change nothing.\<close>

definition threat_pages :: "string set" where
  "threat_pages = {''/'', ''/systems'', ''/events'', ''/stats'', ''/allowlist-requests'', ''/audit'', ''/status''}"

record threat_ui =
  tu_parse_url :: "string \<Rightarrow> parsed_url option"
  tu_admin_key :: string
  tu_writer :: bool
  tu_static :: "string \<Rightarrow> nat"

definition threat_ui_route :: "threat_ui \<Rightarrow> bool \<Rightarrow> ui_request \<Rightarrow> int \<Rightarrow> threat_store \<Rightarrow> nat \<times> threat_store" where
  "threat_ui_route u fails r now s =
     (case write_gate (tu_parse_url u) (tu_admin_key u) (tu_writer u) threat_routes r of
        GateRefused status \<Rightarrow> (status, s)
      | GateRead \<Rightarrow>
          (if take 8 (ur_path r) = ''/static/'' then tu_static u (ur_path r)
           else if ur_path r \<in> threat_pages then if fails then 503 else 200
           else 404, s)
      | GateWrite actor \<Rightarrow>
          (if ur_path r = ''/blocklist/allowlist'' then handleAddAllowlist fails (ur_form r) actor now s
           else if ur_path r = ''/blocklist/allowlist/delete'' then handleDeleteAllowlist fails (ur_form r) actor now s
           else if ur_path r = ''/allowlist-requests/approve'' then handleApproveRequest fails (ur_form r) actor now s
           else handleRejectRequest fails (ur_form r) actor now s))"

subsection \<open>The daily statistics\<close>

record daily_group =
  dg_day :: string
  dg_hits :: "int list"
  dg_total :: int
  dg_partial :: bool
  dg_in_progress :: bool

text \<open>The rows of \<open>ThreatDailyStats\<close> as the page reads them: a day and its hits.\<close>

definition new_group :: "string \<Rightarrow> daily_group" where
  "new_group day = \<lparr>dg_day = day, dg_hits = [], dg_total = 0, dg_partial = False, dg_in_progress = False\<rparr>"

definition add_hits :: "int \<Rightarrow> daily_group \<Rightarrow> daily_group" where
  "add_hits n g = g\<lparr>dg_hits := dg_hits g @ [n], dg_total := dg_total g + n\<rparr>"

definition group_day :: "string \<times> int \<Rightarrow> daily_group list \<Rightarrow> daily_group list" where
  "group_day row gs =
     (let gs1 = (if gs = [] \<or> dg_day (last gs) \<noteq> fst row then gs @ [new_group (fst row)] else gs)
      in butlast gs1 @ [add_hits (snd row) (last gs1)])"

definition mark_last :: "bool \<Rightarrow> daily_group list \<Rightarrow> daily_group list" where
  "mark_last b gs = (if gs = [] then [] else butlast gs @ [(last gs)\<lparr>dg_partial := b\<rparr>])"

text \<open>\<open>start\<close>: the first instant of a day text, when it is one.\<close>

definition daily_groups :: "(string \<Rightarrow> int option) \<Rightarrow> int \<Rightarrow> int \<Rightarrow> (string \<times> int) list \<Rightarrow> daily_group list" where
  "daily_groups start retention now rows =
     (let gs = fold group_day rows [];
          partial = (gs \<noteq> [] \<and> (case start (dg_day (last gs)) of None \<Rightarrow> False | Some t \<Rightarrow> t < now - retention))
      in map (\<lambda>g. g\<lparr>dg_in_progress := (dg_day g = DayString now)\<rparr>) (mark_last partial gs))"

subsection \<open>Its cache\<close>

definition statsCacheTTL :: int where "statsCacheTTL = 5 * 60 * 1000"

text \<open>The last rows with the time they were computed; \<open>fetched\<close> reads the clock again.\<close>

type_synonym 'a stats_cache = "('a \<times> int) option"

definition stats_get :: "int \<Rightarrow> ('e + 'a) \<Rightarrow> int \<Rightarrow> 'a stats_cache \<Rightarrow> ('e + 'a \<times> int) \<times> 'a stats_cache" where
  "stats_get now fetch fetched c =
     (case c of
        Some (rows, at) \<Rightarrow>
          if now - at < statsCacheTTL then (Inr (rows, at), c)
          else (case fetch of Inl e \<Rightarrow> (Inl e, c) | Inr rows' \<Rightarrow> (Inr (rows', fetched), Some (rows', fetched)))
      | None \<Rightarrow> (case fetch of Inl e \<Rightarrow> (Inl e, c) | Inr rows' \<Rightarrow> (Inr (rows', fetched), Some (rows', fetched))))"

text \<open>A page never shows statistics older than the cache's time, and a failed scan is not remembered.\<close>

lemma stats_get_fresh:
  "now \<le> fetched \<Longrightarrow> stats_get now fetch fetched c = (Inr (rows, at), c') \<Longrightarrow> now - at < statsCacheTTL \<and> c' = Some (rows, at)"
  "stats_get now fetch fetched c = (Inl e, c') \<Longrightarrow> c' = c"
  by (auto simp: stats_get_def statsCacheTTL_def split: option.splits sum.splits if_splits prod.splits)

end
