(* ===== verification/Operator_Threat_Props.thy ===== *)
theory Operator_Threat_Props
  imports Operator_Threat
begin

text \<open>
  What threatd's dashboard promises: only an authorised operator changes the exemptions, one entry
  at a time, and each change is one line of the audit trail under that operator's name.
\<close>

lemma filter_upsert_other:
  "(\<And>a b. key a = key b \<Longrightarrow> key (m a b) = key b) \<Longrightarrow>
   filter (\<lambda>x. key x \<noteq> key r) (upsert key m r rs) = filter (\<lambda>x. key x \<noteq> key r) rs"
  by (induction rs) auto

text \<open>The tables of evidence are as they were, and so is every row about another address.\<close>

definition touches_only :: "string \<Rightarrow> threat_store \<Rightarrow> threat_store \<Rightarrow> bool" where
  "touches_only cidr s s' \<longleftrightarrow> ts_events s' = ts_events s \<and> ts_blocklist s' = ts_blocklist s \<and> ts_ingest s' = ts_ingest s
     \<and> filter (\<lambda>x. ar_cidr x \<noteq> cidr) (ts_allowlist s') = filter (\<lambda>x. ar_cidr x \<noteq> cidr) (ts_allowlist s)
     \<and> filter (\<lambda>x. rr_cidr x \<noteq> cidr) (ts_requests s') = filter (\<lambda>x. rr_cidr x \<noteq> cidr) (ts_requests s)
     \<and> filter (\<lambda>x. vr_cidr x \<noteq> cidr) (ts_reviews s') = filter (\<lambda>x. vr_cidr x \<noteq> cidr) (ts_reviews s)"

text \<open>One change of an operator: its audit row, and nothing but the row's address.\<close>

definition audited_change :: "string \<Rightarrow> int \<Rightarrow> threat_store \<Rightarrow> threat_store \<Rightarrow> bool" where
  "audited_change actor now s s' \<longleftrightarrow>
     (\<exists>a. ts_audit s' = ts_audit s @ [a] \<and> au_actor a = actor \<and> au_at a = now \<and> touches_only (au_cidr a) s s')"

lemmas change_defs = audited_change_def touches_only_def appendAllowlistAudit_def

lemma upsert_allowlist_other:
  "filter (\<lambda>x. ar_cidr x \<noteq> ar_cidr e) (upsert ar_cidr merge_allowlist e rs) = filter (\<lambda>x. ar_cidr x \<noteq> ar_cidr e) rs"
  by (rule filter_upsert_other) (simp add: merge_allowlist_def)

lemma upsert_review_other:
  "filter (\<lambda>x. vr_cidr x \<noteq> vr_cidr e) (upsert vr_cidr replace_row e rs) = filter (\<lambda>x. vr_cidr x \<noteq> vr_cidr e) rs"
  by (rule filter_upsert_other) (simp add: replace_row_def)

lemma Add_audited: "audited_change actor now s (AddAllowlistEntry (operator_entry cidr reason actor now) s)"
  using upsert_allowlist_other [of "operator_entry cidr reason actor now"]
  by (simp add: change_defs AddAllowlistEntry_def upsertAllowlistEntry_def operator_entry_def)

lemma Remove_audited: "RemoveAllowlistEntry cidr actor now s = (True, s') \<Longrightarrow> audited_change actor now s s'"
  by (auto simp: change_defs RemoveAllowlistEntry_def delete_where_def split: if_splits prod.splits)

lemma decide_audited: "audited_change actor now s (decideAllowlistRequest cidr state action actor note now s)"
  using upsert_review_other [of "\<lparr>vr_cidr = cidr, vr_state = state, vr_decided_by = actor, vr_decided_at = now, vr_note = note\<rparr>"]
  by (simp add: change_defs decideAllowlistRequest_def Let_def)

lemma Approve_audited: "audited_change actor now s (ApproveAllowlistRequest (operator_entry cidr reason actor now) note s)"
  using upsert_review_other [of "\<lparr>vr_cidr = cidr, vr_state = AllowlistReviewApproved, vr_decided_by = actor, vr_decided_at = now, vr_note = note\<rparr>"]
    upsert_allowlist_other [of "operator_entry cidr reason actor now"]
  by (simp add: change_defs ApproveAllowlistRequest_def decideAllowlistRequest_def upsertAllowlistEntry_def operator_entry_def Let_def)

text \<open>Unchanged, or changed by the actor and answered by the redirect.\<close>

definition change_told :: "string \<Rightarrow> int \<Rightarrow> threat_store \<Rightarrow> nat \<times> threat_store \<Rightarrow> bool" where
  "change_told actor now s result \<longleftrightarrow> snd result = s \<or> (fst result = 303 \<and> audited_change actor now s (snd result))"

lemma handlers_change_told:
  "change_told actor now s (handleAddAllowlist fails form actor now s)"
  "change_told actor now s (handleDeleteAllowlist fails form actor now s)"
  "change_told actor now s (handleApproveRequest fails form actor now s)"
  "change_told actor now s (handleRejectRequest fails form actor now s)"
  subgoal by (auto simp: change_told_def handleAddAllowlist_def Add_audited split: option.split sum.split)
  subgoal
    using Remove_audited
    by (auto simp: change_told_def handleDeleteAllowlist_def RemoveAllowlistEntry_def split: option.split sum.split prod.split)
  subgoal by (auto simp: change_told_def handleApproveRequest_def Approve_audited Let_def split: option.split sum.split)
  subgoal by (auto simp: change_told_def handleRejectRequest_def RejectAllowlistRequest_def decide_audited Let_def split: option.split sum.split)
  done

text \<open>
  C20: only an operator with the admin key changes the exemptions, one at a time and never without
  a trace. Whatever request reaches threatd's dashboard, the store is what it was, or the request
  was a same-origin POST to one of the four write routes with the admin key and an operator's name,
  it is answered by the redirect, the audit trail has one more line, under that name and at that
  time, and no row about another address than that line's, no event and no blocklist entry changed.
\<close>

theorem threat_writes_are_authorised:
  "snd (threat_ui_route u fails r now s) = s
   \<or> (\<exists>actor. authorised (tu_parse_url u) (tu_admin_key u) threat_routes r actor \<and> tu_writer u
        \<and> fst (threat_ui_route u fails r now s) = 303
        \<and> audited_change actor now s (snd (threat_ui_route u fails r now s)))"
proof (cases "write_gate (tu_parse_url u) (tu_admin_key u) (tu_writer u) threat_routes r")
  case (GateWrite actor)
  have w: "tu_writer u" using GateWrite by (auto simp: write_gate_def split: if_splits)
  have "change_told actor now s (threat_ui_route u fails r now s)"
    using GateWrite by (simp add: threat_ui_route_def handlers_change_told)
  then show ?thesis using gate_authorised [OF GateWrite] w by (auto simp: change_told_def)
qed (simp_all add: threat_ui_route_def)

end
