(* ===== verification/Operator_Logs.thy ===== *)
theory Operator_Logs
  imports Operator_Chrome Logs_Classes
begin

text \<open>
  The operator dashboard of insightsd, \<open>internal/ui/logs/review.go\<close> and \<open>ui.go\<close>: the review
  queue's decisions, the form they are read from, and what the pages compute from a query and
  from the rows they show. An answer is a redirect with its target or a status; \<open>fails\<close> says
  that the call of the store fails.
\<close>

subsection \<open>Bounds and routes\<close>

definition findingsLimit :: int where "findingsLimit = 200"
definition templatesLimit :: int where "templatesLimit = 200"
definition analysesDefaultLim :: int where "analysesDefaultLim = 50"
definition analysesMaxLimit :: int where "analysesMaxLimit = 500"
definition reviewLimit :: nat where "reviewLimit = 200"
definition maxClassKeyLen :: nat where "maxClassKeyLen = 128"
definition maxDocRefLen :: nat where "maxDocRefLen = 512"
definition maxWordingTitle :: nat where "maxWordingTitle = 500"
definition maxWordingText :: nat where "maxWordingText = 5000"

definition writableRoutes :: "string set" where
  "writableRoutes = {''/review/decide'', ''/review/group'', ''/review/bulk''}"

subsection \<open>Views and columns\<close>

record review_view =
  rv_key :: string
  rv_visibility :: string

definition reviewViews :: "review_view list" where
  "reviewViews =
     [\<lparr>rv_key = ''pending'', rv_visibility = VisibilityPending\<rparr>,
      \<lparr>rv_key = ''customer'', rv_visibility = VisibilityCustomer\<rparr>,
      \<lparr>rv_key = ''operator'', rv_visibility = VisibilityOperator\<rparr>,
      \<lparr>rv_key = ''dismissed'', rv_visibility = VisibilityDismissed\<rparr>,
      \<lparr>rv_key = ''all'', rv_visibility = []\<rparr>]"

definition lookupReviewView :: "string \<Rightarrow> review_view" where
  "lookupReviewView key = (case find_key rv_key key reviewViews of Some v \<Rightarrow> v | None \<Rightarrow> hd reviewViews)"

definition SortAsc :: string where "SortAsc = ''asc''"
definition SortDesc :: string where "SortDesc = ''desc''"

record review_column =
  rc_sort :: string
  rc_default_dir :: string

definition reviewColumns :: "review_column list" where
  "reviewColumns =
     [\<lparr>rc_sort = ''class'', rc_default_dir = SortAsc\<rparr>, \<lparr>rc_sort = ''module'', rc_default_dir = SortAsc\<rparr>,
      \<lparr>rc_sort = ''severity'', rc_default_dir = SortDesc\<rparr>, \<lparr>rc_sort = ''visibility'', rc_default_dir = SortAsc\<rparr>,
      \<lparr>rc_sort = ''systems'', rc_default_dir = SortDesc\<rparr>, \<lparr>rc_sort = ''findings'', rc_default_dir = SortDesc\<rparr>,
      \<lparr>rc_sort = ''last_seen'', rc_default_dir = SortDesc\<rparr>]"

definition sanitizeClassSort :: "string \<Rightarrow> string \<Rightarrow> string \<times> string" where
  "sanitizeClassSort col dir =
     (case find_key rc_sort col reviewColumns of
        None \<Rightarrow> ([], [])
      | Some c \<Rightarrow> (col, if dir \<noteq> SortAsc \<and> dir \<noteq> SortDesc then rc_default_dir c else dir))"

text \<open>The direction the header of a column sorts in next.\<close>

definition next_dir :: "string \<Rightarrow> string \<Rightarrow> review_column \<Rightarrow> string" where
  "next_dir col dir c = (if rc_sort c = col then if dir = SortAsc then SortDesc else SortAsc else rc_default_dir c)"

subsection \<open>Form fields\<close>

definition formKey :: "(string \<times> string list) list \<Rightarrow> string \<Rightarrow> string option" where
  "formKey f name =
     (let k = TrimSpace (form_value f name) in if k \<noteq> [] \<and> length k \<le> maxClassKeyLen then Some k else None)"

fun member_keys :: "string list \<Rightarrow> string list option" where
  "member_keys [] = Some []"
| "member_keys (raw # rest) =
     (let m = TrimSpace raw
      in if m = [] then member_keys rest
         else if length m > maxClassKeyLen then None
         else map_option ((#) m) (member_keys rest))"

definition formMembers :: "(string \<times> string list) list \<Rightarrow> string list option" where
  "formMembers f =
     (case member_keys (form_values f ''member'') of
        None \<Rightarrow> None
      | Some out \<Rightarrow> if out \<noteq> [] \<and> length out \<le> reviewLimit then Some out else None)"

definition cleanDocRef :: "(string \<Rightarrow> parsed_url option) \<Rightarrow> string \<Rightarrow> string option" where
  "cleanDocRef parse_url raw =
     (let v = CleanText raw maxDocRefLen
      in if v = [] then Some []
         else case parse_url v of
                None \<Rightarrow> None
              | Some u \<Rightarrow>
                  if (pu_scheme u \<noteq> ''http'' \<and> pu_scheme u \<noteq> ''https'') \<or> pu_host u = [] then None
                  else Some (pu_text u))"

text \<open>Line breaks to a line feed, the two calls of \<open>strings.ReplaceAll\<close>.\<close>

definition LF :: char where "LF = char_of (10 :: nat)"
definition CR :: char where "CR = char_of (13 :: nat)"

fun crlf_to_lf :: "string \<Rightarrow> string" where
  "crlf_to_lf [] = []"
| "crlf_to_lf [c] = [c]"
| "crlf_to_lf (c # d # s) = (if c = CR \<and> d = LF then LF # crlf_to_lf s else c # crlf_to_lf (d # s))"

definition cr_to_lf :: "string \<Rightarrow> string" where
  "cr_to_lf s = map (\<lambda>c. if c = CR then LF else c) s"

definition wording_rune :: "nat \<Rightarrow> bool" where
  "wording_rune r \<longleftrightarrow> \<not> (r \<noteq> 10 \<and> r \<noteq> 9 \<and> is_control r)"

definition cleanWording :: "string \<Rightarrow> nat \<Rightarrow> string option" where
  "cleanWording raw0 limit =
     (let raw = cr_to_lf (crlf_to_lf raw0);
          v = TrimSpace (encode (filter wording_rune (runes raw)))
      in if length (runes v) \<le> limit then Some v else None)"

definition formClassUpdate ::
  "(string \<Rightarrow> parsed_url option) \<Rightarrow> (string \<times> string list) list \<Rightarrow> class_update option" where
  "formClassUpdate parse_url f =
     (let v = form_value f ''visibility''; sec = form_value f ''security''; sev = form_value f ''severity''
      in if v \<notin> {VisibilityPending, VisibilityCustomer, VisibilityOperator, VisibilityDismissed} then None
         else if sec \<noteq> ''on'' \<and> sec \<noteq> [] then None
         else if sev \<noteq> [] \<and> \<not> ValidSeverity sev then None
         else case cleanDocRef parse_url (form_value f ''doc_ref'') of
                None \<Rightarrow> None
              | Some doc \<Rightarrow>
                  (case (cleanWording (form_value f ''title'') maxWordingTitle,
                         cleanWording (form_value f ''summary'') maxWordingText,
                         cleanWording (form_value f ''suggested_action'') maxWordingText) of
                     (Some title, Some summary, Some action) \<Rightarrow>
                       Some \<lparr>cu_visibility = (if v = VisibilityPending then [] else v), cu_security = (sec = ''on''),
                         cu_severity_override = sev, cu_doc_ref = doc,
                         cu_wording = \<lparr>wo_title = title, wo_summary = summary, wo_action = action\<rparr>\<rparr>
                   | _ \<Rightarrow> None))"

subsection \<open>Where a decision returns\<close>

text \<open>\<open>url.QueryEscape\<close> and \<open>url.Values.Encode\<close> of single values, sorted by key.\<close>

definition query_hex :: "nat \<Rightarrow> char" where
  "query_hex n = char_of (if n < 10 then 48 + n else 55 + n)"

definition QueryEscape :: "string \<Rightarrow> string" where
  "QueryEscape s = concat (map (\<lambda>c.
     if is_digit c \<or> is_lower c \<or> is_upper c \<or> c \<in> set ''-_.~'' then [c]
     else if c = CHR '' '' then ''+''
     else [CHR ''%'', query_hex (byte c div 16), query_hex (byte c mod 16)]) s)"

fun join_amp :: "string list \<Rightarrow> string" where
  "join_amp [] = []"
| "join_amp [p] = p"
| "join_amp (p # q # ps) = p @ ''&'' @ join_amp (q # ps)"

definition Values_Encode :: "(string \<times> string) list \<Rightarrow> string" where
  "Values_Encode q = join_amp (map (\<lambda>(k, v). QueryEscape k @ ''='' @ QueryEscape v) (sort_key fst q))"

definition query_field :: "string \<Rightarrow> string option \<Rightarrow> (string \<times> string) list" where
  "query_field name v = (case v of None \<Rightarrow> [] | Some x \<Rightarrow> [(name, x)])"

definition return_query :: "(string \<times> string list) list \<Rightarrow> (string \<times> string) list" where
  "return_query f =
     (let v = form_value f ''view''; (col, dir) = sanitizeClassSort (form_value f ''sort'') (form_value f ''dir'')
      in (if v \<noteq> [] then [(''view'', rv_key (lookupReviewView v))] else [])
       @ query_field ''key'' (formKey f ''filter'')
       @ query_field ''group'' (formKey f ''group'')
       @ (if col \<noteq> [] then [(''sort'', col), (''dir'', dir)] else [])
       @ (if form_value f ''then'' = ''next'' then query_field ''open'' (formKey f ''next'') else []))"

definition reviewReturn :: "string \<Rightarrow> (string \<times> string list) list \<Rightarrow> string" where
  "reviewReturn base f =
     (let q = return_query f
      in ui_Link base ''/review'' @ (if q \<noteq> [] then ''?'' @ Values_Encode q else []))"

subsection \<open>Decisions\<close>

datatype ui_answer = Redirect string | Answer nat

text \<open>What the store answered, as the page reports it.\<close>

fun decision_status :: "class_error \<Rightarrow> nat" where
  "decision_status ErrUnknownClass = 404"
| "decision_status ErrInvalidSeverity = 400"
| "decision_status ErrInvalidVisibility = 400"

definition decision_answer ::
  "string \<Rightarrow> (string \<times> string list) list \<Rightarrow> class_error + (int \<times> logs_store) \<Rightarrow> logs_store \<Rightarrow> ui_answer \<times> logs_store" where
  "decision_answer base f result s =
     (case result of Inl e \<Rightarrow> (Answer (decision_status e), s) | Inr (_, s') \<Rightarrow> (Redirect (reviewReturn base f), s'))"

definition handleDecision ::
  "(string \<Rightarrow> parsed_url option) \<Rightarrow> string \<Rightarrow> bool \<Rightarrow> ui_request \<Rightarrow> string \<Rightarrow> int \<Rightarrow> logs_store \<Rightarrow> ui_answer \<times> logs_store" where
  "handleDecision parse_url base fails r actor now s =
     (case ur_form r of
        None \<Rightarrow> (Answer 400, s)
      | Some f \<Rightarrow>
          let bulk = (ur_path r = ''/review/bulk'');
              key = formKey f (if ur_path r = ''/review/group'' then ''anchor'' else ''key'');
              v = form_value f ''visibility'';
              named = (v \<in> {VisibilityCustomer, VisibilityOperator, VisibilityDismissed})
          in if \<not> bulk \<and> key = None then (Answer 400, s)
             else if ur_path r = ''/review/decide'' then
               (case formClassUpdate parse_url f of
                  None \<Rightarrow> (Answer 400, s)
                | Some u \<Rightarrow> if fails then (Answer 503, s) else decision_answer base f (UpdateClass (null_string key) u actor now s) s)
             else if ur_path r = ''/review/group'' then
               (if \<not> named then (Answer 400, s)
                else case formMembers f of
                       None \<Rightarrow> (Answer 400, s)
                     | Some members \<Rightarrow>
                         if fails then (Answer 503, s)
                         else decision_answer base f (SetGroupVisibility (null_string key) members v actor now s) s)
             else if bulk then
               (if \<not> named then (Answer 400, s)
                else case formMembers f of
                       None \<Rightarrow> (Answer 400, s)
                     | Some members \<Rightarrow>
                         if fails then (Answer 503, s)
                         else decision_answer base f (SetClassesVisibility members v actor now s) s)
             else (Answer 404, s))"

definition logs_pages :: "string set" where
  "logs_pages = {''/'', ''/systems'', ''/analyses'', ''/gate'', ''/cost'', ''/templates'', ''/status'', ''/review'',
     ''/review/stats'', ''/review/audit''}"

record logs_ui =
  lu_parse_url :: "string \<Rightarrow> parsed_url option"
  lu_base :: string
  lu_admin_key :: string
  lu_writer :: bool
  lu_static :: "string \<Rightarrow> nat"

text \<open>\<open>route\<close>; the pages answer 200 or 404 and change nothing.\<close>

definition logs_ui_route :: "logs_ui \<Rightarrow> bool \<Rightarrow> ui_request \<Rightarrow> int \<Rightarrow> logs_store \<Rightarrow> ui_answer \<times> logs_store" where
  "logs_ui_route u fails r now s =
     (case write_gate (lu_parse_url u) (lu_admin_key u) (lu_writer u) writableRoutes r of
        GateRefused status \<Rightarrow> (Answer status, s)
      | GateRead \<Rightarrow>
          (Answer (if take 8 (ur_path r) = ''/static/'' then lu_static u (ur_path r)
                   else if ur_path r \<in> logs_pages then if fails then 503 else 200
                   else 404), s)
      | GateWrite actor \<Rightarrow> handleDecision (lu_parse_url u) (lu_base u) fails r actor now s)"

subsection \<open>What the pages compute\<close>

definition sanitizeSeverity :: "string \<Rightarrow> string" where
  "sanitizeSeverity v = (if v = [] \<or> ValidSeverity v then v else [])"

definition sanitizeStatus :: "string \<Rightarrow> string" where
  "sanitizeStatus v = (if v = [] \<or> v = StatusOpen \<or> v = StatusStale then v else [])"

definition SortRecent :: string where "SortRecent = ''recent''"

definition sanitizeFindingsSort :: "string \<Rightarrow> string" where
  "sanitizeFindingsSort v = (if v = SortRecent then v else [])"

definition rowNodes :: nat where "rowNodes = 3"

definition headNodes :: "'n list \<Rightarrow> 'n list" where
  "headNodes refs = (if length refs > rowNodes then take rowNodes refs else refs)"

definition moreNodes :: "'n list \<Rightarrow> int" where
  "moreNodes refs = max (int (length refs) - int rowNodes) 0"

definition moreModules :: "string list \<Rightarrow> int" where
  "moreModules modules = max (int (length modules) - 1) 0"

text \<open>The filter of the review queue, as the store gets it; \<open>get\<close> is \<open>url.Values.Get\<close>.\<close>

record class_filter =
  cf_visibility :: string
  cf_key :: string
  cf_group :: string
  cf_sort :: string
  cf_dir :: string
  cf_limit :: int

definition bounded_key :: "string \<Rightarrow> string" where
  "bounded_key raw = (let k = TrimSpace raw in if length k > maxClassKeyLen then [] else k)"

definition review_filter :: "(string \<Rightarrow> string) \<Rightarrow> class_filter" where
  "review_filter get =
     (let key = get ''key''; group = bounded_key (get ''group'');
          view = (if (key \<noteq> [] \<or> group \<noteq> []) \<and> get ''view'' = [] then lookupReviewView ''all'' else lookupReviewView (get ''view''));
          (col, dir) = sanitizeClassSort (get ''sort'') (get ''dir'')
      in \<lparr>cf_visibility = rv_visibility view, cf_key = key, cf_group = group, cf_sort = col, cf_dir = dir, cf_limit = int reviewLimit\<rparr>)"

text \<open>The keys of the pending rows of a page, and the row after each.\<close>

definition pending_keys :: "(string \<times> string) list \<Rightarrow> string list" where
  "pending_keys rows = map fst (filter (\<lambda>(_, v). v = VisibilityPending) rows)"

definition next_keys :: "string list \<Rightarrow> string list" where
  "next_keys ks = (if ks = [] then [] else tl ks @ [[]])"

text \<open>The scopes of the gate page; a window in milliseconds, 0 for all time.\<close>

definition gateRanges :: "(string \<times> int) list" where
  "gateRanges = [(''24h'', 24 * 3600000), (''7d'', 7 * 24 * 3600000), (''30d'', 30 * 24 * 3600000), (''all'', 0)]"

definition gateDefaultRange :: string where "gateDefaultRange = ''7d''"

definition resolveGateRange :: "string \<Rightarrow> int \<Rightarrow> string \<times> int" where
  "resolveGateRange v now =
     (let (key, window) = (case find_key fst v gateRanges of Some m \<Rightarrow> m
                           | None \<Rightarrow> (case find_key fst gateDefaultRange gateRanges of Some m \<Rightarrow> m | None \<Rightarrow> ([], 0)))
      in if window = 0 then (key, 0) else (key, now - window))"

end
