(* ===== verification/Operator_Logs_Props.thy ===== *)
theory Operator_Logs_Props
  imports Operator_Logs Logs_History
begin

text \<open>
  What the review pages promise: only an authorised operator changes anything, and then every
  changed class has a line of the audit trail under that operator's name; and a form that is sent
  back as it was shown changes nothing.
\<close>

subsection \<open>Writes of the store are audited\<close>

text \<open>\<open>actor\<close> took the store from \<open>s\<close> to \<open>s'\<close>: nothing but the review state moved, and each class that did has a new decision of the actor's.\<close>

definition same_review :: "string \<Rightarrow> logs_store \<Rightarrow> logs_store \<Rightarrow> bool" where
  "same_review k s s' \<longleftrightarrow>
     find_key cl_key k (ls_classes s') = find_key cl_key k (ls_classes s)
     \<and> text_field tx_title_override k s' = text_field tx_title_override k s
     \<and> text_field tx_summary_override k s' = text_field tx_summary_override k s
     \<and> text_field tx_action_override k s' = text_field tx_action_override k s"

definition audited_write :: "string \<Rightarrow> int \<Rightarrow> logs_store \<Rightarrow> logs_store \<Rightarrow> bool" where
  "audited_write actor now s s' \<longleftrightarrow>
     s' = s\<lparr>ls_classes := ls_classes s', ls_texts := ls_texts s', ls_decisions := ls_decisions s'\<rparr>
     \<and> (\<exists>ds. ls_decisions s' = ls_decisions s @ ds \<and> list_all (\<lambda>d. de_actor d = actor \<and> de_at d = now) ds
          \<and> (\<forall>k. k \<notin> de_key ` set ds \<longrightarrow> same_review k s s'))"

lemma audited_write_refl: "audited_write actor now s s"
  by (simp add: audited_write_def same_review_def)

lemma audited_write_trans:
  assumes "audited_write actor now s1 s2" "audited_write actor now s2 s3"
  shows "audited_write actor now s1 s3"
proof -
  obtain d where d: "ls_decisions s2 = ls_decisions s1 @ d" "list_all (\<lambda>d. de_actor d = actor \<and> de_at d = now) d"
    "\<And>k. k \<notin> de_key ` set d \<Longrightarrow> same_review k s1 s2"
    using assms(1) unfolding audited_write_def by blast
  obtain e where e: "ls_decisions s3 = ls_decisions s2 @ e" "list_all (\<lambda>d. de_actor d = actor \<and> de_at d = now) e"
    "\<And>k. k \<notin> de_key ` set e \<Longrightarrow> same_review k s2 s3"
    using assms(2) unfolding audited_write_def by blast
  have "s3 = s1\<lparr>ls_classes := ls_classes s3, ls_texts := ls_texts s3, ls_decisions := ls_decisions s3\<rparr>"
  proof -
    have "s2 = s1\<lparr>ls_classes := ls_classes s2, ls_texts := ls_texts s2, ls_decisions := ls_decisions s2\<rparr>"
      using assms(1) unfolding audited_write_def by blast
    moreover have "s3 = s2\<lparr>ls_classes := ls_classes s3, ls_texts := ls_texts s3, ls_decisions := ls_decisions s3\<rparr>"
      using assms(2) unfolding audited_write_def by blast
    ultimately show ?thesis by (cases s1; cases s2; cases s3) simp
  qed
  moreover have "ls_decisions s3 = ls_decisions s1 @ d @ e" using d(1) e(1) by simp
  moreover have "list_all (\<lambda>d. de_actor d = actor \<and> de_at d = now) (d @ e)" using d(2) e(2) by simp
  moreover have "same_review k s1 s3" if "k \<notin> de_key ` set (d @ e)" for k
    using d(3) [of k] e(3) [of k] that by (simp add: same_review_def image_Un)
  ultimately show ?thesis unfolding audited_write_def by blast
qed

lemma audited_write_fold:
  "(\<And>x s. x \<in> set xs \<Longrightarrow> audited_write actor now s (f x s)) \<Longrightarrow> audited_write actor now s (fold f xs s)"
proof (induction xs arbitrary: s)
  case (Cons x xs)
  have "audited_write actor now s (f x s)" "audited_write actor now (f x s) (fold f xs (f x s))"
    using Cons by simp_all
  then show ?case using audited_write_trans by simp
qed (simp add: audited_write_refl)

lemma audited_write_decide:
  assumes "review_frame key s s'" "s' = s\<lparr>ls_classes := ls_classes s', ls_texts := ls_texts s', ls_decisions := ls_decisions s'\<rparr>"
  shows "audited_write actor now s (add_decision key actor a d pv now s')"
proof -
  have "add_decision key actor a d pv now s' = s\<lparr>ls_classes := ls_classes s', ls_texts := ls_texts s',
      ls_decisions := ls_decisions (add_decision key actor a d pv now s')\<rparr>"
    using assms(2) by (cases s; cases s') (simp add: add_decision_def)
  then show ?thesis using assms(1) unfolding audited_write_def
    by (intro conjI exI [of _ "[\<lparr>de_key = key, de_actor = actor, de_action = a, de_detail = nullIfEmpty d,
          de_prompt_version = pv, de_at = now\<rparr>]"])
      (simp_all add: add_decision_def review_frame_def same_review_def text_field_def)
qed

lemma audited_write_class:
  "(\<And>c. cl_key (f c) = cl_key c) \<Longrightarrow> audited_write actor now s (add_decision key actor a d pv now (set_class key f s))"
  by (rule audited_write_decide [OF review_frame_set_class]) (simp_all add: set_class_def)

lemma audited_write_text:
  "(\<And>t. tx_key (f t) = tx_key t) \<Longrightarrow> audited_write actor now s (add_decision key actor a d pv now (set_text key f s))"
  by (rule audited_write_decide [OF review_frame_set_text]) (simp_all add: set_text_def)

lemma audited_write_seed: "audited_write actor now s (s\<lparr>ls_texts := seed_text key t sm a now (ls_texts s)\<rparr>)"
proof -
  have "find_key tx_key k (seed_text key t sm a now rows) = (if k = key \<and> find_key tx_key k rows = None
       then Some \<lparr>tx_key = key, tx_title = t, tx_summary = sm, tx_action = a, tx_title_override = None,
              tx_summary_override = None, tx_action_override = None, tx_created = now\<rparr>
       else find_key tx_key k rows)" for k rows
    unfolding seed_text_def by (induction rows) auto
  then show ?thesis unfolding audited_write_def by (simp add: same_review_def text_field_def)
qed

lemma audited_write_changes:
  assumes "ch \<in> set (class_changes key u c tx)"
  shows "audited_write actor now s (apply_change key actor pv now ch s)"
  using assms
  by (auto simp: class_changes_def change_if_def Let_def apply_change_def
    intro!: audited_write_class audited_write_text split: if_splits)

lemma audited_write_applyVisibility: "audited_write actor now s (applyVisibility v a d actor now p s)"
  unfolding applyVisibility_def by (rule audited_write_class) simp

lemma UpdateClass_audited: "UpdateClass key u actor now s = Inr (n, s') \<Longrightarrow> audited_write actor now s s'"
proof -
  assume a: "UpdateClass key u actor now s = Inr (n, s')"
  obtain tx s1 where t: "seedClassText key now s = (tx, s1)" by fastforce
  have 1: "audited_write actor now s s1" using t
    by (auto simp: seedClassText_def Let_def audited_write_seed split: option.splits)
  have "audited_write actor now s1 (fold (apply_change key actor pv now) (class_changes key u c tx) s1)" for c pv
    by (rule audited_write_fold) (rule audited_write_changes)
  with 1 have "audited_write actor now s (fold (apply_change key actor pv now) (class_changes key u c tx) s1)" for c pv
    using audited_write_trans by blast
  then show ?thesis using a t
    by (auto simp: UpdateClass_def Let_def audited_write_refl split: if_splits option.splits)
qed

lemma SetGroupVisibility_audited:
  "SetGroupVisibility anchor ms v actor now s = Inr (n, s') \<Longrightarrow> audited_write actor now s s'"
  by (auto simp: SetGroupVisibility_def Let_def intro!: audited_write_fold audited_write_applyVisibility
    split: option.splits if_splits)

lemma SetClassesVisibility_audited:
  "SetClassesVisibility ks v actor now s = Inr (n, s') \<Longrightarrow> audited_write actor now s s'"
  by (auto simp: SetClassesVisibility_def Let_def intro!: audited_write_refl audited_write_fold audited_write_applyVisibility
    split: option.splits if_splits)

lemma decided_audited:
  "(\<And>n s'. result = Inr (n, s') \<Longrightarrow> audited_write actor now s s') \<Longrightarrow> audited_write actor now s (snd (decision_answer base f result s))"
  by (auto simp: decision_answer_def audited_write_refl split: sum.split)

lemma handleDecision_audited: "audited_write actor now s (snd (handleDecision parse_url base fails r actor now s))"
proof -
  note A = decided_audited [OF UpdateClass_audited] decided_audited [OF SetGroupVisibility_audited]
    decided_audited [OF SetClassesVisibility_audited] audited_write_refl
  show ?thesis unfolding handleDecision_def Let_def
    by (simp add: A split: option.split)
qed

subsection \<open>The wording a browser sends back\<close>

text \<open>
  What a browser posts of a value the page put into a field. A one-line text box drops the line
  breaks; a URL box drops them and the blanks around the value. A text area drops one line
  feed at its very start, which is how HTML reads its content, and posts every other line
  feed as carriage return and line feed.
\<close>

definition line_box :: "string \<Rightarrow> string" where
  "line_box s = filter (\<lambda>c. c \<noteq> LF \<and> c \<noteq> CR) s"

definition html_space :: "char \<Rightarrow> bool" where
  "html_space c \<longleftrightarrow> byte c \<in> {9, 10, 12, 13, 32}"

definition url_box :: "string \<Rightarrow> string" where
  "url_box s = trim_right html_space (trim_left html_space (line_box s))"

definition browser_text :: "string \<Rightarrow> string" where
  "browser_text s = concat (map (\<lambda>c. if c = LF then [CR, LF] else [c]) s)"

definition shown_text :: "string \<Rightarrow> string" where
  "shown_text s = (case s of [] \<Rightarrow> [] | c # rest \<Rightarrow> if c = LF then rest else s)"

definition text_area :: "string \<Rightarrow> string" where
  "text_area s = browser_text (shown_text s)"

text \<open>A text the form keeps as it is: well-formed, no control characters but tab and line feed, short enough.\<close>

definition plain_text :: "nat \<Rightarrow> string \<Rightarrow> bool" where
  "plain_text limit w \<longleftrightarrow> encode (runes w) = w \<and> list_all wording_rune (runes w) \<and> length (runes w) \<le> limit"

lemma CR_LF: "CR \<noteq> LF" "byte CR = 13"
  by (simp_all add: CR_def LF_def byte_def)

lemma crlf_to_lf_hd: "c \<noteq> CR \<Longrightarrow> crlf_to_lf (c # s) = c # crlf_to_lf s"
  by (cases s) simp_all

lemma crlf_to_lf_browser: "CR \<notin> set s \<Longrightarrow> crlf_to_lf (browser_text s) = s"
proof (induction s)
  case (Cons c s)
  then have "crlf_to_lf (browser_text s) = s" "c \<noteq> CR" by auto
  moreover have "browser_text (c # s) = (if c = LF then [CR, LF] else [c]) @ browser_text s"
    by (simp add: browser_text_def)
  ultimately show ?case by (simp add: crlf_to_lf_hd)
qed (simp add: browser_text_def)

lemma encode_rune_CR: "CR \<in> set (encode_rune r) \<Longrightarrow> r = 13"
proof -
  have b: "char_byte n = CR \<longleftrightarrow> n = 13" if "n < 256" for n
    using that byte_char_byte [OF that] CR_LF(2) byte_inject [of "char_byte n" CR] by simp
  assume "CR \<in> set (encode_rune r)"
  then obtain n where n: "char_byte n = CR" "n < 128 \<and> n = r \<or> 128 \<le> n \<and> n < 256"
    unfolding encode_rune_def Let_def valid_rune_def RuneError_def
    by (auto simp: eq_commute [of CR] split: if_splits)
  then have "n = 13" using b [of n] by auto
  with n(2) show ?thesis by auto
qed

lemma plain_no_CR: "plain_text limit w \<Longrightarrow> CR \<notin> set w"
proof
  assume p: "plain_text limit w" "CR \<in> set w"
  then have "CR \<in> set (encode (runes w))" by (simp add: plain_text_def)
  then have "13 \<in> set (runes w)" by (auto simp: encode_def dest: encode_rune_CR)
  moreover have "\<not> wording_rune 13" by (simp add: wording_rune_def is_control_def in_ranges_def)
  ultimately show False using p(1) by (auto simp: plain_text_def list_all_iff)
qed

lemma cleanWording_plain:
  assumes "plain_text limit w" "cr_to_lf (crlf_to_lf raw) = w"
  shows "cleanWording raw limit = Some (TrimSpace w)"
proof -
  have f: "filter wording_rune (runes w) = runes w" using assms(1) by (simp add: plain_text_def list_all_iff)
  have e: "encode (runes w) = w" using assms(1) by (simp add: plain_text_def)
  have t: "TrimSpace w = encode (trim_list is_space (runes w))" using TrimSpace_encode [OF runes_valid, of w] e by simp
  have v: "list_all valid_rune (trim_list is_space (runes w))"
    using runes_valid [of w] trim_list_set [of is_space "runes w"] by (auto simp: list_all_iff)
  have "length (trim_list is_space (runes w)) \<le> length (runes w)"
    using length_dropWhile_le [of is_space "runes w"] length_dropWhile_le [of is_space "rev (dropWhile is_space (runes w))"]
    by (simp add: trim_list_def)
  then have "length (runes (TrimSpace w)) \<le> limit" using assms(1) runes_encode [OF v] t by (simp add: plain_text_def)
  then show ?thesis by (simp add: cleanWording_def assms(2) f e)
qed

lemma cr_to_lf_plain: "CR \<notin> set w \<Longrightarrow> cr_to_lf w = w"
  by (induction w) (auto simp: cr_to_lf_def)

lemma cleanWording_line_box:
  assumes "plain_text limit w" "LF \<notin> set w"
  shows "cleanWording (line_box w) limit = Some (TrimSpace w)"
proof (rule cleanWording_plain [OF assms(1)])
  note cr = plain_no_CR [OF assms(1)]
  have "line_box w = w" using cr assms(2) by (auto simp: line_box_def filter_id_conv)
  moreover have "crlf_to_lf w = w" using cr by (induction w) (auto simp: crlf_to_lf_hd)
  ultimately show "cr_to_lf (crlf_to_lf (line_box w)) = w" using cr_to_lf_plain [OF cr] by simp
qed

lemma chunks_LF: "chunks (LF # s) = (10, [LF]) # chunks s"
  by (subst chunks.simps) (simp add: LF_def byte_def)

lemma runes_LF: "runes (LF # s) = 10 # runes s"
  by (subst runes.simps) (simp add: LF_def byte_def)

lemma plain_shown:
  assumes "plain_text limit w"
  shows "plain_text limit (shown_text w)" "TrimSpace (shown_text w) = TrimSpace w"
proof -
  show "plain_text limit (shown_text w)"
  proof (cases "\<exists>rest. w = LF # rest")
    case True
    then obtain rest where w: "w = LF # rest" by blast
    have "encode (10 # rs) = LF # encode rs" for rs by (simp add: encode_def encode_rune_def char_byte_def LF_def valid_rune_def)
    then show ?thesis using assms by (auto simp: w plain_text_def shown_text_def runes_LF)
  next
    case False
    then show ?thesis using assms by (cases w) (auto simp: shown_text_def)
  qed
  have "is_space 10" by (simp add: is_space_def in_ranges_def)
  then have "TrimSpace (LF # rest) = TrimSpace rest" for rest by (simp add: TrimSpace_def trim_list_def chunks_LF)
  then show "TrimSpace (shown_text w) = TrimSpace w" by (cases w) (simp_all add: shown_text_def)
qed

lemma cleanWording_text_area:
  assumes "plain_text limit w"
  shows "cleanWording (text_area w) limit = Some (TrimSpace w)"
proof -
  note p = plain_shown [OF assms]
  have "cr_to_lf (crlf_to_lf (text_area w)) = shown_text w"
    using plain_no_CR [OF p(1)] by (simp add: text_area_def crlf_to_lf_browser cr_to_lf_plain)
  from cleanWording_plain [OF p(1) this] show ?thesis using p(2) by simp
qed

lemma trim_list_idem: "trim_list p (trim_list p xs) = trim_list p xs"
proof (cases "trim_list p xs")
  case (Cons y ys)
  then have ne: "trim_list p xs \<noteq> []" by simp
  have "dropWhile p zs = zs" if "zs \<noteq> []" "\<not> p (hd zs)" for zs using that by (cases zs) auto
  from this [OF ne trim_list_ends(1) [OF ne]] this [of "rev (trim_list p xs)"] ne trim_list_ends(2) [OF ne]
  show ?thesis unfolding trim_list_def [of p "trim_list p xs"] by (simp add: hd_rev)
next
  case Nil
  then show ?thesis by (simp only: Nil) (simp add: trim_list_def)
qed

lemma TrimSpace_idem: "encode (runes w) = w \<Longrightarrow> TrimSpace (TrimSpace w) = TrimSpace w"
proof -
  assume e: "encode (runes w) = w"
  have t: "TrimSpace w = encode (trim_list is_space (runes w))" using TrimSpace_encode [OF runes_valid, of w] e by simp
  have v: "list_all valid_rune (trim_list is_space (runes w))"
    using runes_valid [of w] trim_list_set [of is_space "runes w"] by (auto simp: list_all_iff)
  show ?thesis unfolding t TrimSpace_encode [OF v] by (simp add: trim_list_idem)
qed

text \<open>What the page shows of a wording, sent back, is the override that is stored.\<close>

lemma wordingOverride_shown:
  assumes "encode (runes (pick_wording ov sd)) = pick_wording ov sd" "wordingOverride ov sd = ov"
  shows "wordingOverride (TrimSpace (pick_wording ov sd)) sd = ov"
  using assms TrimSpace_idem [OF assms(1)]
  by (auto simp: wordingOverride_def pick_wording_def split: if_splits)

subsection \<open>The form of a class\<close>

text \<open>
  The page a dialog stands on puts hidden fields into its form, for the way back, and the button
  pressed adds its own: whatever they hold.
\<close>

record review_page =
  rp_next :: string
  rp_view :: string
  rp_filter :: string
  rp_group :: string
  rp_sort :: string
  rp_dir :: string
  rp_then :: string

text \<open>The form of the class dialog as a browser posts it unchanged, its fields in the order of the page.\<close>

definition shown_form :: "review_page \<Rightarrow> class_row \<Rightarrow> class_text \<Rightarrow> (string \<times> string list) list" where
  "shown_form p c t =
     [(''key'', [cl_key c])] @ (if rp_next p \<noteq> [] then [(''next'', [rp_next p])] else [])
     @ [(''view'', [rp_view p]), (''filter'', [rp_filter p]), (''group'', [rp_group p]), (''sort'', [rp_sort p]), (''dir'', [rp_dir p]),
      (''visibility'', [cl_visibility c]), (''severity'', [null_string (cl_severity c)]), (''doc_ref'', [url_box (null_string (cl_doc_ref c))])]
     @ (if cl_security c then [(''security'', [''on''])] else [])
     @ [(''title'', [line_box (wo_title (Customer t))]), (''summary'', [text_area (wo_summary (Customer t))]),
      (''suggested_action'', [text_area (wo_action (Customer t))]), (''then'', [rp_then p])]"

text \<open>
  What the form can carry: a bounded key, known names, a link that reads back as itself, plain
  wording, and a title of one line.
\<close>

definition formable :: "(string \<Rightarrow> parsed_url option) \<Rightarrow> class_row \<Rightarrow> class_text \<Rightarrow> bool" where
  "formable parse_url c t \<longleftrightarrow>
     TrimSpace (cl_key c) = cl_key c \<and> cl_key c \<noteq> [] \<and> length (cl_key c) \<le> maxClassKeyLen
     \<and> cl_visibility c \<in> {VisibilityPending, VisibilityCustomer, VisibilityOperator, VisibilityDismissed}
     \<and> (null_string (cl_severity c) = [] \<or> ValidSeverity (null_string (cl_severity c)))
     \<and> cleanDocRef parse_url (url_box (null_string (cl_doc_ref c))) = Some (null_string (cl_doc_ref c))
     \<and> plain_text maxWordingTitle (wo_title (Customer t)) \<and> LF \<notin> set (wo_title (Customer t)) \<and> plain_text maxWordingText (wo_summary (Customer t))
     \<and> plain_text maxWordingText (wo_action (Customer t))
     \<and> wordingOverride (wo_title (ct_override t)) (wo_title (ct_seed t)) = wo_title (ct_override t)
     \<and> wordingOverride (wo_summary (ct_override t)) (wo_summary (ct_seed t)) = wo_summary (ct_override t)
     \<and> wordingOverride (wo_action (ct_override t)) (wo_action (ct_seed t)) = wo_action (ct_override t)"

lemma shown_form_fields:
  "form_value (shown_form p c t) ''key'' = cl_key c" "form_value (shown_form p c t) ''visibility'' = cl_visibility c"
  "form_value (shown_form p c t) ''security'' = (if cl_security c then ''on'' else [])"
  "form_value (shown_form p c t) ''severity'' = null_string (cl_severity c)"
  "form_value (shown_form p c t) ''doc_ref'' = url_box (null_string (cl_doc_ref c))"
  "form_value (shown_form p c t) ''title'' = line_box (wo_title (Customer t))"
  "form_value (shown_form p c t) ''summary'' = text_area (wo_summary (Customer t))"
  "form_value (shown_form p c t) ''suggested_action'' = text_area (wo_action (Customer t))"
  by (simp_all add: form_value_def shown_form_def)

definition shown_update :: "class_row \<Rightarrow> class_text \<Rightarrow> class_update" where
  "shown_update c t =
     \<lparr>cu_visibility = (if cl_visibility c = VisibilityPending then [] else cl_visibility c), cu_security = cl_security c,
      cu_severity_override = null_string (cl_severity c), cu_doc_ref = null_string (cl_doc_ref c),
      cu_wording = \<lparr>wo_title = TrimSpace (wo_title (Customer t)), wo_summary = TrimSpace (wo_summary (Customer t)),
        wo_action = TrimSpace (wo_action (Customer t))\<rparr>\<rparr>"

lemma formClassUpdate_shown: "formable parse_url c t \<Longrightarrow> formClassUpdate parse_url (shown_form p c t) = Some (shown_update c t)"
  by (auto simp: formClassUpdate_def shown_form_fields formable_def cleanWording_line_box cleanWording_text_area shown_update_def Let_def)

text \<open>A class without a stored text shows, and gets back, three empty boxes.\<close>

lemma seeded_override:
  assumes "seedClassText key now s = (tx, s1)" "keys_unique tx_key (ls_texts s)"
  shows "ct_override tx = ct_override (class_text_of (find_key tx_key key (ls_texts s)))"
    "find_key tx_key key (ls_texts s) \<noteq> None \<Longrightarrow> tx = class_text_of (find_key tx_key key (ls_texts s))"
  using assms
  by (auto simp: seedClassText_def Let_def seed_text_props(2) no_wording_def split: option.splits)

lemma shown_no_changes:
  assumes "formable parse_url c t" "t = class_text_of (find_key tx_key (cl_key c) (ls_texts s))"
    "seedClassText (cl_key c) now s = (tx, s1)" "keys_unique tx_key (ls_texts s)"
  shows "class_changes (cl_key c) (shown_update c t) c tx = []"
proof -
  have w: "wordingOverride (TrimSpace (pick_wording ov sd)) sd = ov"
    if "plain_text n (pick_wording ov sd)" "wordingOverride ov sd = ov" for n ov sd
    using wordingOverride_shown [of ov sd] that by (simp add: plain_text_def)
  have o: "ct_override tx = ct_override t" using seeded_override(1) [OF assms(3,4)] assms(2) by simp
  have e: "wordingOverride [] sd = []" for sd by (simp add: wordingOverride_def TrimSpace_def chunks.simps trim_list_def)
  have z: "TrimSpace [] = []" by (simp add: TrimSpace_def chunks.simps trim_list_def)
  have same: "wordingOverride (TrimSpace (wo_title (Customer t))) (wo_title (ct_seed tx)) = wo_title (ct_override t)
      \<and> wordingOverride (TrimSpace (wo_summary (Customer t))) (wo_summary (ct_seed tx)) = wo_summary (ct_override t)
      \<and> wordingOverride (TrimSpace (wo_action (Customer t))) (wo_action (ct_seed tx)) = wo_action (ct_override t)"
  proof (cases "find_key tx_key (cl_key c) (ls_texts s)")
    case None
    then have "t = class_text_of None" using assms(2) by simp
    then show ?thesis by (simp add: Customer_def pick_wording_def no_wording_def z e)
  next
    case (Some r)
    then have "tx = t" using seeded_override(2) [OF assms(3,4)] assms(2) by simp
    then show ?thesis using assms(1) by (auto simp: formable_def Customer_def intro: w)
  qed
  then show ?thesis
    by (simp add: class_changes_def change_if_def shown_update_def o Let_def)
qed

text \<open>
  C23: a class form posted as the page shows it changes nothing. Whatever a class was decided, its
  dialog sent back unchanged by a browser, from any page and with either button, is accepted and
  leaves the class, its wording, its overrides and the audit trail as they are, also for a class
  whose text is not stored yet. The browser drops a line feed at the start of a text area and
  posts the others as carriage return and line feed. The wording must be text the form keeps: no
  control characters but tab and line feed, within the bounds of the boxes, and a title of one
  line; \<open>newline_title_becomes_override\<close> shows what becomes of any other.
\<close>

theorem unchanged_form_changes_nothing:
  assumes "find_key cl_key (cl_key c) (ls_classes s) = Some c" "keys_unique tx_key (ls_texts s)"
    "formable parse_url c (class_text_of (find_key tx_key (cl_key c) (ls_texts s)))"
    "ur_path r = ''/review/decide''" "ur_form r = Some (shown_form p c (class_text_of (find_key tx_key (cl_key c) (ls_texts s))))"
  shows "handleDecision parse_url base False r actor now s
    = (Redirect (reviewReturn base (shown_form p c (class_text_of (find_key tx_key (cl_key c) (ls_texts s))))), s)"
proof -
  let ?t = "class_text_of (find_key tx_key (cl_key c) (ls_texts s))"
  obtain tx s1 where tx: "seedClassText (cl_key c) now s = (tx, s1)" by fastforce
  have n: "class_changes (cl_key c) (shown_update c ?t) c tx = []"
    by (rule shown_no_changes [OF assms(3) refl tx assms(2)])
  have k: "formKey (shown_form p c ?t) ''key'' = Some (cl_key c)"
    using assms(3) by (simp add: formKey_def shown_form_fields formable_def)
  have v: "visibilityAction (cl_visibility c) \<noteq> None" if "cl_visibility c \<noteq> VisibilityPending"
    using assms(3) that by (auto simp: formable_def visibilityAction_def)
  have "UpdateClass (cl_key c) (shown_update c ?t) actor now s = Inr (0, s)"
    using v assms(1,3) tx n by (auto simp: UpdateClass_def shown_update_def formable_def)
  then show ?thesis
    using assms(4,5) k formClassUpdate_shown [OF assms(3)] by (simp add: handleDecision_def decision_answer_def)
qed

definition sample_class :: class_row where
  "sample_class = \<lparr>cl_key = ''v4:0a'', cl_visibility = VisibilityPending, cl_security = True, cl_severity = Some ''critical'',
     cl_doc_ref = None, cl_first_prompt_version = None, cl_first_seen = 1, cl_last_seen = 2\<rparr>"

definition sample_text :: text_row where
  "sample_text = \<lparr>tx_key = ''v4:0a'', tx_title = ''Disk full'', tx_summary = LF # ''Full.'' @ [LF] @ ''Soon.'', tx_action = ''Clean it.'',
     tx_title_override = Some ''No space left'', tx_summary_override = None, tx_action_override = None, tx_created = 1\<rparr>"

definition sample_store :: logs_store where
  "sample_store = empty_logs\<lparr>ls_classes := [sample_class], ls_texts := [sample_text]\<rparr>"

definition sample_page :: review_page where
  "sample_page = \<lparr>rp_next = ''v4:0b'', rp_view = ''pending'', rp_filter = [], rp_group = [], rp_sort = ''severity'', rp_dir = ''desc'',
     rp_then = ''next''\<rparr>"

definition sample_request :: ui_request where
  "sample_request = \<lparr>ur_http = \<lparr>hr_method = ''POST'', hr_remote = [], hr_authorization = [], hr_forwarded_for = [],
       hr_content_encoding = [], hr_accept_encoding = [], hr_if_none_match = [], hr_body = []\<rparr>,
     ur_path = ''/review/decide'', ur_host = ''h'', ur_fetch_site = ''same-origin'', ur_origin = [], ur_referer = [],
     ur_form = Some (shown_form sample_page sample_class (class_text_of (Some sample_text)))\<rparr>"

lemma sample_formable: "formable (\<lambda>_. None) sample_class (class_text_of (Some sample_text))"
  by code_simp

theorem unchanged_form_changes_nothing_witness:
  "snd (handleDecision (\<lambda>_. None) [] False sample_request ''op'' 5 sample_store) = sample_store
   \<and> form_value (shown_form sample_page sample_class (class_text_of (Some sample_text))) ''summary'' = ''Full.'' @ [CR, LF] @ ''Soon.''"
proof -
  have t: "find_key tx_key (cl_key sample_class) (ls_texts sample_store) = Some sample_text"
    by (simp add: sample_store_def sample_class_def sample_text_def)
  have "handleDecision (\<lambda>_. None) [] False sample_request ''op'' 5 sample_store =
      (Redirect (reviewReturn [] (shown_form sample_page sample_class (class_text_of (find_key tx_key (cl_key sample_class) (ls_texts sample_store))))),
       sample_store)"
    by (rule unchanged_form_changes_nothing)
      (use sample_formable in \<open>simp_all add: t, simp_all add: sample_store_def sample_request_def keys_unique_def sample_class_def\<close>)
  moreover have "form_value (shown_form sample_page sample_class (class_text_of (Some sample_text))) ''summary'' = ''Full.'' @ [CR, LF] @ ''Soon.''"
    by code_simp
  ultimately show ?thesis by simp
qed

text \<open>
  The form cannot carry every seed: what the model wrote is stored as it came, and a wording with
  another control character comes back different and becomes an override nobody typed. So does
  a title of two lines, which the one-line box of the page joins.
\<close>

lemma control_seed_becomes_override:
  "cleanWording (line_box [CHR ''a'', char_of (7 :: nat)]) maxWordingTitle = Some ''a''
   \<and> wordingOverride ''a'' [CHR ''a'', char_of (7 :: nat)] = ''a''"
  by code_simp

lemma newline_title_becomes_override:
  "cleanWording (line_box [CHR ''a'', LF, CHR ''b'']) maxWordingTitle = Some ''ab''
   \<and> wordingOverride ''ab'' [CHR ''a'', LF, CHR ''b''] = ''ab''"
  by code_simp

subsection \<open>Who may write\<close>

lemma cc_apply_decisions: "ch \<in> set (class_changes key u c tx) \<Longrightarrow> ls_decisions (cc_apply ch s) = ls_decisions s"
  by (auto simp: class_changes_def change_if_def Let_def set_class_def set_text_def split: if_splits)

lemma fold_decisions:
  "(\<And>x s. x \<in> set xs \<Longrightarrow> length (ls_decisions (f x s)) = Suc (length (ls_decisions s))) \<Longrightarrow>
   length (ls_decisions (fold f xs s)) = length (ls_decisions s) + length xs"
  by (induction xs arbitrary: s) auto

lemma fold_decides:
  "(\<And>x s. x \<in> set xs \<Longrightarrow> length (ls_decisions (f x s)) = Suc (length (ls_decisions s))) \<Longrightarrow>
   fold f xs s = s \<or> ls_decisions (fold f xs s) \<noteq> ls_decisions s"
  using fold_decisions [of xs f s] by (cases "xs = []") (auto simp: neq_Nil_conv)

lemma seedClassText_decisions: "seedClassText key now s = (tx, s1) \<Longrightarrow> ls_decisions s1 = ls_decisions s"
  by (auto simp: seedClassText_def Let_def split: option.splits)

lemma UpdateClass_decides: "UpdateClass key u actor now s = Inr (n, s') \<Longrightarrow> s' = s \<or> ls_decisions s' \<noteq> ls_decisions s"
proof -
  assume a: "UpdateClass key u actor now s = Inr (n, s')"
  obtain tx s1 where t: "seedClassText key now s = (tx, s1)" by fastforce
  have "length (ls_decisions (fold (apply_change key actor pv now) (class_changes key u c tx) s1)) =
      length (ls_decisions s) + length (class_changes key u c tx)" for c pv
    by (subst fold_decisions) (simp_all add: apply_change_def add_decision_def cc_apply_decisions seedClassText_decisions [OF t])
  then have "class_changes key u c tx \<noteq> [] \<Longrightarrow>
      ls_decisions (fold (apply_change key actor pv now) (class_changes key u c tx) s1) \<noteq> ls_decisions s" for c pv
    by (metis add_eq_self_zero length_0_conv)
  then show ?thesis using a t by (auto simp: UpdateClass_def Let_def split: if_splits option.splits)
qed

lemma applyVisibility_decisions:
  "length (ls_decisions (applyVisibility v a d actor now p s)) = Suc (length (ls_decisions s))"
  by (simp add: applyVisibility_def add_decision_def set_class_def)

lemma fold_visibility_decides:
  "fold (applyVisibility v a d actor now) xs s = s \<or> ls_decisions (fold (applyVisibility v a d actor now) xs s) \<noteq> ls_decisions s"
  by (rule fold_decides) (rule applyVisibility_decisions)

lemma SetGroupVisibility_decides:
  "SetGroupVisibility anchor ms v actor now s = Inr (n, s') \<Longrightarrow> s' = s \<or> ls_decisions s' \<noteq> ls_decisions s"
  using fold_visibility_decides [of v "null_string (visibilityAction v)" "''group '' @ anchor" actor now
    "pendingGroupClasses anchor ms s" s]
  by (auto simp: SetGroupVisibility_def Let_def split: option.splits if_splits)

lemma SetClassesVisibility_decides:
  "SetClassesVisibility ks v actor now s = Inr (n, s') \<Longrightarrow> s' = s \<or> ls_decisions s' \<noteq> ls_decisions s"
  using fold_visibility_decides [of v "null_string (visibilityAction v)" "''bulk''" actor now
    "changingClasses ks v s" s]
  by (auto simp: SetClassesVisibility_def Let_def split: option.splits if_splits)

text \<open>Unchanged, or changed with a decision and answered by the redirect.\<close>

definition review_told :: "string \<Rightarrow> logs_store \<Rightarrow> ui_answer \<times> logs_store \<Rightarrow> (string \<times> string list) list option \<Rightarrow> bool" where
  "review_told base s result form \<longleftrightarrow> snd result = s
     \<or> (ls_decisions (snd result) \<noteq> ls_decisions s
        \<and> (case form of None \<Rightarrow> False | Some f \<Rightarrow> fst result = Redirect (reviewReturn base f)))"

lemma decided_told:
  "(\<And>n s'. result = Inr (n, s') \<Longrightarrow> s' = s \<or> ls_decisions s' \<noteq> ls_decisions s) \<Longrightarrow> review_told base s (decision_answer base f result s) (Some f)"
  by (auto simp: decision_answer_def review_told_def split: sum.split)

lemma handleDecision_told: "review_told base s (handleDecision parse_url base fails r actor now s) (ur_form r)"
proof -
  note A = decided_told [OF UpdateClass_decides] decided_told [OF SetGroupVisibility_decides]
    decided_told [OF SetClassesVisibility_decides]
  have same: "review_told base s (x, s) y" for x y by (simp add: review_told_def)
  show ?thesis unfolding handleDecision_def Let_def
    by (auto simp: A same split: option.split)
qed

text \<open>
  C19: only an operator with the admin key changes a review, and never without a trace. Whatever
  request reaches insightsd's dashboard, the store is what it was, or the request was a same-origin
  POST to one of the review routes with the admin key and an operator's name, it is answered by the
  redirect, nothing but classes, wordings and the audit trail changed, and each class that changed
  has a new decision in the trail under that name and at that time.
\<close>

theorem review_writes_are_authorised:
  "snd (logs_ui_route u fails r now s) = s
   \<or> (\<exists>actor f. authorised (lu_parse_url u) (lu_admin_key u) writableRoutes r actor \<and> lu_writer u \<and> ur_form r = Some f
        \<and> fst (logs_ui_route u fails r now s) = Redirect (reviewReturn (lu_base u) f)
        \<and> ls_decisions (snd (logs_ui_route u fails r now s)) \<noteq> ls_decisions s
        \<and> audited_write actor now s (snd (logs_ui_route u fails r now s)))"
proof (cases "write_gate (lu_parse_url u) (lu_admin_key u) (lu_writer u) writableRoutes r")
  case (GateWrite actor)
  have w: "lu_writer u" using GateWrite by (auto simp: write_gate_def split: if_splits)
  have "logs_ui_route u fails r now s = handleDecision (lu_parse_url u) (lu_base u) fails r actor now s"
    using GateWrite by (simp add: logs_ui_route_def)
  then show ?thesis
    using gate_authorised [OF GateWrite] w handleDecision_audited [of actor now s "lu_parse_url u" "lu_base u" fails r]
      handleDecision_told [of "lu_base u" s "lu_parse_url u" fails r actor now]
    by (auto simp: review_told_def split: option.splits)
qed (simp_all add: logs_ui_route_def)

end
